(* ===== verification/Prelude.thy ===== *)
theory Prelude
  imports Main "HOL-Library.Sublist" "HOL-Library.AList"
begin

text \<open>
  Shared vocabulary of the development: the part of Go's \<open>strings\<close> and \<open>strconv\<close>
  packages that the program uses, on byte strings, with the lemmas the components share.

  A Go \<open>string\<close> or \<open>[]byte\<close> is a sequence of bytes, here an Isabelle \<open>string\<close> whose
  characters are the bytes 0 to 255. Case mapping and white space are those of ASCII text:
  \<open>strings.ToLower\<close>, \<open>strings.Fields\<close> and \<open>strings.TrimSpace\<close> also know the
  non-ASCII letters and spaces of Unicode, which no header name, method, host or status line
  of the program depends on. A \<open>nil\<close> byte slice and an empty one are the same value except
  for WebSocket payloads, where the code tests for \<open>nil\<close> (see the theory \<open>Events\<close>).

  The collections: \<open>str_simps\<close> (computation rules of the string functions),
  \<open>frame_simps\<close> (fields an operation does not write).
\<close>

named_theorems str_simps "computation rules of the Go string functions"
named_theorems frame_simps "fields an operation leaves unchanged"

text \<open>Line breaks.\<close>

abbreviation LF :: string where "LF \<equiv> [CHR 0x0A]"
abbreviation CRLF :: string where "CRLF \<equiv> [CHR 0x0D, CHR 0x0A]"
abbreviation CRLF2 :: string where "CRLF2 \<equiv> [CHR 0x0D, CHR 0x0A, CHR 0x0D, CHR 0x0A]"
abbreviation LF2 :: string where "LF2 \<equiv> [CHR 0x0A, CHR 0x0A]"

subsection \<open>Prefixes, suffixes, search\<close>

definition has_prefix :: "string \<Rightarrow> string \<Rightarrow> bool" where
  "has_prefix s p = prefix p s"

definition has_suffix :: "string \<Rightarrow> string \<Rightarrow> bool" where
  "has_suffix s p = suffix p s"

definition contains :: "string \<Rightarrow> string \<Rightarrow> bool" where
  "contains s sub = sublist sub s"

text \<open>\<open>strings.Index\<close>: the first occurrence, \<open>None\<close> for Go's \<open>-1\<close>.\<close>

fun index_of :: "string \<Rightarrow> string \<Rightarrow> nat option" where
  "index_of [] sub = (if sub = [] then Some 0 else None)"
| "index_of (c # s) sub =
     (if prefix sub (c # s) then Some 0 else map_option Suc (index_of s sub))"

text \<open>\<open>strings.Cut\<close>: the text before and after the first separator.\<close>

definition cut :: "string \<Rightarrow> string \<Rightarrow> (string \<times> string) option" where
  "cut s sep = (case index_of s sep of None \<Rightarrow> None
     | Some i \<Rightarrow> Some (take i s, drop (i + length sep) s))"

lemma index_of_SomeD:
  "index_of s sub = Some i \<Longrightarrow> i + length sub \<le> length s \<and> take (length sub) (drop i s) = sub"
proof (induction s arbitrary: i)
  case Nil
  then show ?case by (auto split: if_splits)
next
  case (Cons c s)
  show ?case
  proof (cases "prefix sub (c # s)")
    case True
    then obtain zs where "c # s = sub @ zs" by (auto simp: prefix_def)
    moreover have "i = 0" using Cons.prems True by simp
    ultimately show ?thesis by (metis add_0 append_eq_conv_conj drop_0 length_append le_add1)
  next
    case False
    with Cons.prems obtain j where "index_of s sub = Some j" "i = Suc j" by auto
    with Cons.IH show ?thesis by auto
  qed
qed

lemma index_of_Some_split:
  assumes "index_of s sub = Some i"
  shows "s = take i s @ sub @ drop (i + length sub) s"
  using index_of_SomeD [OF assms] by (metis append_take_drop_id drop_drop add.commute)

lemma cut_SomeD: "cut s sep = Some (a, b) \<Longrightarrow> s = a @ sep @ b"
  by (auto simp: cut_def split: option.splits dest!: index_of_SomeD)
     (metis append_take_drop_id drop_drop add.commute)

lemma cut_Some_length: "cut s sep = Some (a, b) \<Longrightarrow> length s = length a + length sep + length b"
  by (drule cut_SomeD) simp

text \<open>No occurrence starts before the one \<open>strings.Index\<close> finds.\<close>

lemma index_of_least:
  "index_of s sub = Some i \<Longrightarrow> j < i \<Longrightarrow> \<not> prefix sub (drop j s)"
proof (induction s arbitrary: i j)
  case Nil
  then show ?case by (auto split: if_splits)
next
  case (Cons c s)
  show ?case
  proof (cases "prefix sub (c # s)")
    case True
    with Cons.prems show ?thesis by simp
  next
    case False
    with Cons.prems obtain k where k: "index_of s sub = Some k" "i = Suc k" by auto
    show ?thesis
    proof (cases j)
      case 0
      with False show ?thesis by simp
    next
      case (Suc j')
      with Cons.IH [OF k(1)] Cons.prems(2) k(2) show ?thesis by simp
    qed
  qed
qed

lemma index_of_None_iff: "index_of s sub = None \<longleftrightarrow> (\<forall>j \<le> length s. \<not> prefix sub (drop j s))"
proof (induction s)
  case Nil
  then show ?case by (auto simp: prefix_def)
next
  case (Cons c s)
  show ?case
  proof
    assume n: "index_of (c # s) sub = None"
    then have np: "\<not> prefix sub (c # s)" and "index_of s sub = None" by (auto split: if_splits)
    with Cons.IH have "\<forall>j \<le> length s. \<not> prefix sub (drop j s)" by blast
    then show "\<forall>j \<le> length (c # s). \<not> prefix sub (drop j (c # s))"
      using np by (auto simp: drop_Cons split: nat.splits)
  next
    assume a: "\<forall>j \<le> length (c # s). \<not> prefix sub (drop j (c # s))"
    have "\<not> prefix sub (c # s)" using a [rule_format, of 0] by simp
    moreover have "\<forall>j \<le> length s. \<not> prefix sub (drop j s)"
      using a by (metis Suc_le_mono drop_Suc_Cons length_Cons)
    ultimately show "index_of (c # s) sub = None" using Cons.IH by simp
  qed
qed

lemma index_of_None_contains: "index_of s sub = None \<longleftrightarrow> \<not> contains s sub"
proof -
  have "(\<exists>j \<le> length s. prefix sub (drop j s)) \<longleftrightarrow> sublist sub s"
  proof
    assume "\<exists>j \<le> length s. prefix sub (drop j s)"
    then obtain j where "prefix sub (drop j s)" by blast
    then show "sublist sub s"
      by (metis append_take_drop_id prefix_imp_sublist sublist_appendI sublist_def
          sublist_order.dual_order.trans append_Nil2)
  next
    assume "sublist sub s"
    then obtain ps ss where "s = ps @ sub @ ss" by (auto simp: sublist_def)
    then have "length ps \<le> length s \<and> prefix sub (drop (length ps) s)" by (simp add: prefix_def)
    then show "\<exists>j \<le> length s. prefix sub (drop j s)" by blast
  qed
  then show ?thesis by (auto simp: index_of_None_iff contains_def)
qed

lemma cut_None_iff: "cut s sep = None \<longleftrightarrow> \<not> contains s sep"
  by (auto simp: cut_def index_of_None_contains [symmetric] split: option.splits)


subsection \<open>Split, join, replace\<close>

text \<open>\<open>strings.Split\<close> for a non-empty separator (the only use in the program).\<close>

function split :: "string \<Rightarrow> string \<Rightarrow> string list" where
  "split s sep = (if sep = [] then map (\<lambda>c. [c]) s
     else case cut s sep of None \<Rightarrow> [s] | Some (a, b) \<Rightarrow> a # split b sep)"
  by pat_completeness auto
termination
  by (relation "measure (\<lambda>(s, _). length s)") (auto dest: cut_Some_length)

declare split.simps [simp del]

text \<open>\<open>strings.SplitN (s, sep, 2)\<close>.\<close>

definition split_n2 :: "string \<Rightarrow> string \<Rightarrow> string list" where
  "split_n2 s sep = (case cut s sep of None \<Rightarrow> [s] | Some (a, b) \<Rightarrow> [a, b])"

text \<open>\<open>strings.Join\<close>.\<close>

fun join :: "string list \<Rightarrow> string \<Rightarrow> string" where
  "join [] sep = []"
| "join [x] sep = x"
| "join (x # y # zs) sep = x @ sep @ join (y # zs) sep"

text \<open>\<open>strings.ReplaceAll\<close> for a non-empty old string.\<close>

definition replace_all :: "string \<Rightarrow> string \<Rightarrow> string \<Rightarrow> string" where
  "replace_all s old new = join (split s old) new"

lemma split_not_Nil [simp]: "sep \<noteq> [] \<Longrightarrow> split s sep \<noteq> []"
  by (subst split.simps) (auto split: option.splits)

lemma join_Cons: "xs \<noteq> [] \<Longrightarrow> join (x # xs) sep = x @ sep @ join xs sep"
  by (cases xs) auto

lemma join_snoc: "xs \<noteq> [] \<Longrightarrow> join (xs @ [x]) sep = join xs sep @ sep @ x"
  by (induction xs rule: induct_list012) (auto simp: join_Cons)

lemma join_append:
  "xs \<noteq> [] \<Longrightarrow> ys \<noteq> [] \<Longrightarrow> join (xs @ ys) sep = join xs sep @ sep @ join ys sep"
  by (induction xs rule: induct_list012) (auto simp: join_Cons)

lemma split_cut_None: "sep \<noteq> [] \<Longrightarrow> cut s sep = None \<Longrightarrow> split s sep = [s]"
  by (subst split.simps) simp

lemma split_cut_Some: "sep \<noteq> [] \<Longrightarrow> cut s sep = Some (a, b) \<Longrightarrow> split s sep = a # split b sep"
  by (subst split.simps) simp

text \<open>Joining what was split gives the string back.\<close>

lemma join_split: "sep \<noteq> [] \<Longrightarrow> join (split s sep) sep = s"
proof (induction s sep rule: split.induct)
  case (1 s sep)
  show ?case
  proof (cases "cut s sep")
    case None
    with "1.prems" show ?thesis by (simp add: split_cut_None)
  next
    case (Some p)
    obtain a b where p: "p = (a, b)" by (cases p)
    with Some "1" have "join (split b sep) sep = b" by simp
    moreover have "s = a @ sep @ b" using Some p by (simp add: cut_SomeD)
    ultimately show ?thesis using Some p "1.prems" by (simp add: split_cut_Some join_Cons)
  qed
qed

lemma cut_fst_free: "cut s sep = Some (a, b) \<Longrightarrow> sep \<noteq> [] \<Longrightarrow> \<not> contains a sep"
proof
  assume c: "cut s sep = Some (a, b)" and ne: "sep \<noteq> []" and "contains a sep"
  then obtain ps ss where a: "a = ps @ sep @ ss" by (auto simp: contains_def sublist_def)
  from c have i: "index_of s sep = Some (length a)"
    by (auto simp: cut_def split: option.splits dest!: index_of_SomeD)
  have "s = a @ sep @ b" using c by (rule cut_SomeD)
  with a have "prefix sep (drop (length ps) s)" by (simp add: prefix_def)
  moreover have "length ps < length a" using a ne by simp
  ultimately show False using index_of_least [OF i] by blast
qed

text \<open>No piece of a split contains the separator.\<close>

lemma split_pieces_free: "sep \<noteq> [] \<Longrightarrow> x \<in> set (split s sep) \<Longrightarrow> \<not> contains x sep"
proof (induction s sep rule: split.induct)
  case (1 s sep)
  show ?case
  proof (cases "cut s sep")
    case None
    with "1.prems" show ?thesis by (auto simp: split_cut_None cut_None_iff)
  next
    case (Some p)
    obtain a b where p: "p = (a, b)" by (cases p)
    with Some "1.prems" have "x = a \<or> x \<in> set (split b sep)" by (simp add: split_cut_Some)
    with "1" Some p cut_fst_free [of s sep a b] show ?thesis by auto
  qed
qed

text \<open>
  A one-byte separator: splitting is splitting at every such byte, and splitting a join of
  pieces without that byte gives the pieces back.
\<close>

lemma contains_single: "contains s [c] \<longleftrightarrow> c \<in> set s"
  by (auto simp: contains_def sublist_def dest: split_list)

lemma cut_single_append: "c \<notin> set a \<Longrightarrow> cut (a @ c # b) [c] = Some (a, b)"
proof -
  assume "c \<notin> set a"
  then have "index_of (a @ c # b) [c] = Some (length a)"
    by (induction a) auto
  then show ?thesis by (simp add: cut_def)
qed

lemma split_join_single:
  "xs \<noteq> [] \<Longrightarrow> \<forall>x \<in> set xs. c \<notin> set x \<Longrightarrow> split (join xs [c]) [c] = xs"
proof (induction xs)
  case Nil
  then show ?case by simp
next
  case (Cons x xs)
  show ?case
  proof (cases "xs = []")
    case True
    with Cons.prems show ?thesis
      by (simp add: split_cut_None cut_None_iff contains_single)
  next
    case False
    with Cons have "split (join xs [c]) [c] = xs" by simp
    then show ?thesis using False Cons.prems
      by (simp add: join_Cons split_cut_Some [OF _ cut_single_append])
  qed
qed

text \<open>\<open>Index\<close> and \<open>Cut\<close> read from the front.\<close>

lemma index_of_skip:
  "\<not> prefix sub (c # s) \<Longrightarrow> index_of (c # s) sub = map_option Suc (index_of s sub)"
  by simp

lemma index_of_skip_set:
  assumes "sub \<noteq> []" and "hd sub \<notin> set x"
  shows "index_of (x @ t) sub = map_option (\<lambda>i. length x + i) (index_of t sub)"
  using assms(2)
proof (induction x)
  case Nil
  then show ?case by (simp add: option.map_ident)
next
  case (Cons c x)
  have "\<not> prefix sub (c # x @ t)" using assms(1) Cons.prems by (cases sub) auto
  with Cons show ?case by (simp add: option.map_comp comp_def)
qed

lemma cut_prefix: "sep \<noteq> [] \<Longrightarrow> cut (sep @ s) sep = Some ([], s)"
  by (cases sep) (auto simp: cut_def)

lemma cut_skip:
  "\<not> prefix sep (c # s) \<Longrightarrow> cut (c # s) sep = map_option (\<lambda>(a, b). (c # a, b)) (cut s sep)"
  by (auto simp: cut_def split: option.splits)

lemma cut_skip_set:
  assumes "sep \<noteq> []" and "hd sep \<notin> set x"
  shows "cut (x @ sep @ t) sep = Some (x, t)"
proof -
  have "index_of (sep @ t) sep = Some 0" using assms(1) by (cases sep) auto
  then show ?thesis by (simp add: cut_def index_of_skip_set [OF assms])
qed

lemma split_Nil [simp]: "sep \<noteq> [] \<Longrightarrow> split [] sep = [[]]"
  by (simp add: split_cut_None cut_def)

lemma split_prefix: "sep \<noteq> [] \<Longrightarrow> split (sep @ s) sep = [] # split s sep"
  by (rule split_cut_Some) (simp_all add: cut_prefix)

lemma split_skip:
  assumes "sep \<noteq> []" and "\<not> prefix sep (c # s)"
  shows "split (c # s) sep = (c # hd (split s sep)) # tl (split s sep)"
proof (cases "cut s sep")
  case None
  with assms show ?thesis by (simp add: split_cut_None cut_skip)
next
  case (Some p)
  with assms show ?thesis by (cases p) (simp add: split_cut_Some cut_skip)
qed

lemma replace_all_Nil [simp]: "old \<noteq> [] \<Longrightarrow> replace_all [] old new = []"
  by (simp add: replace_all_def)

lemma replace_all_prefix:
  "old \<noteq> [] \<Longrightarrow> replace_all (old @ s) old new = new @ replace_all s old new"
  by (simp add: replace_all_def split_prefix join_Cons)

lemma join_hd: "join ((c # x) # xs) sep = c # join (x # xs) sep"
  by (cases xs) auto

lemma replace_all_skip:
  assumes "old \<noteq> []" and "\<not> prefix old (c # s)"
  shows "replace_all (c # s) old new = c # replace_all s old new"
proof -
  have "split s old \<noteq> []" using assms(1) by simp
  then show ?thesis by (simp add: replace_all_def split_skip [OF assms] join_hd)
qed

text \<open>Pieces that avoid the separator's first byte are what the split of their join gives back.\<close>

lemma split_join_avoid:
  assumes "sep \<noteq> []"
  shows "xs \<noteq> [] \<Longrightarrow> \<forall>x \<in> set xs. hd sep \<notin> set x \<Longrightarrow> split (join xs sep) sep = xs"
proof (induction xs)
  case Nil
  then show ?case by simp
next
  case (Cons x xs)
  show ?case
  proof (cases "xs = []")
    case True
    have "index_of [] sep = None" using assms by simp
    then have "cut x sep = None"
      using index_of_skip_set [of sep x "[]"] assms Cons.prems by (simp add: cut_def)
    with True assms show ?thesis by (simp add: split_cut_None)
  next
    case False
    with Cons have "split (join xs sep) sep = xs" by simp
    moreover have "cut (x @ sep @ join xs sep) sep = Some (x, join xs sep)"
      using assms Cons.prems by (intro cut_skip_set) auto
    ultimately show ?thesis using False assms by (simp add: join_Cons split_cut_Some)
  qed
qed

lemma replace_all_absent: "old \<noteq> [] \<Longrightarrow> hd old \<notin> set s \<Longrightarrow> replace_all s old new = s"
proof (induction s)
  case (Cons c s)
  then have "\<not> prefix old (c # s)" by (cases old) auto
  with Cons show ?case by (simp add: replace_all_skip)
qed simp

lemma set_join: "set (join xs sep) \<subseteq> (\<Union>x \<in> set xs. set x) \<union> set sep"
  by (induction xs rule: induct_list012) (auto simp: join_Cons)

subsection \<open>Case, white space, fields\<close>

definition lower_char :: "char \<Rightarrow> char" where
  "lower_char c = (let n = of_char c :: nat in if 65 \<le> n \<and> n \<le> 90 then char_of (n + 32) else c)"

definition upper_char :: "char \<Rightarrow> char" where
  "upper_char c = (let n = of_char c :: nat in if 97 \<le> n \<and> n \<le> 122 then char_of (n - 32) else c)"

definition to_lower :: "string \<Rightarrow> string" where
  "to_lower s = map lower_char s"

definition to_upper :: "string \<Rightarrow> string" where
  "to_upper s = map upper_char s"

text \<open>ASCII white space: tab, newline, vertical tab, form feed, carriage return, space.\<close>

definition is_space :: "char \<Rightarrow> bool" where
  "is_space c = (let n = of_char c :: nat in n = 32 \<or> 9 \<le> n \<and> n \<le> 13)"

definition trim_left :: "string \<Rightarrow> string" where
  "trim_left s = dropWhile is_space s"

definition trim_right :: "string \<Rightarrow> string" where
  "trim_right s = rev (dropWhile is_space (rev s))"

definition trim_space :: "string \<Rightarrow> string" where
  "trim_space s = trim_right (trim_left s)"

text \<open>\<open>strings.Fields\<close>: the maximal runs of non-space bytes.\<close>

fun split_by :: "(char \<Rightarrow> bool) \<Rightarrow> string \<Rightarrow> string list" where
  "split_by P [] = [[]]"
| "split_by P (c # s) = (if P c then [] # split_by P s
     else case split_by P s of [] \<Rightarrow> [[c]] | w # ws \<Rightarrow> (c # w) # ws)"

definition str_fields :: "string \<Rightarrow> string list" where
  "str_fields s = filter (\<lambda>w. w \<noteq> []) (split_by is_space s)"

lemma split_by_not_Nil [simp]: "split_by P s \<noteq> []"
  by (cases s) (auto split: list.splits)

lemma split_by_pieces: "w \<in> set (split_by P s) \<Longrightarrow> c \<in> set w \<Longrightarrow> \<not> P c"
proof (induction s arbitrary: w)
  case Nil
  then show ?case by simp
next
  case (Cons a s)
  obtain v vs where v: "split_by P s = v # vs" by (cases "split_by P s") auto
  show ?case
  proof (cases "P a")
    case True
    with Cons show ?thesis by auto
  next
    case False
    with Cons.prems v have "w = a # v \<or> w \<in> set (split_by P s)" by auto
    then show ?thesis using Cons.IH [of v] Cons.IH [of w] Cons.prems(2) False v by auto
  qed
qed

lemma str_fields_nonempty: "w \<in> set (str_fields s) \<Longrightarrow> w \<noteq> []"
  by (simp add: str_fields_def)

lemma str_fields_no_space: "w \<in> set (str_fields s) \<Longrightarrow> c \<in> set w \<Longrightarrow> \<not> is_space c"
  by (auto simp: str_fields_def dest: split_by_pieces)

lemma split_by_append_sep: "P c \<Longrightarrow> split_by P (a @ c # b) = split_by P a @ split_by P b"
  by (induction a) (auto split: list.splits)

lemma split_by_none: "\<forall>c \<in> set a. \<not> P c \<Longrightarrow> split_by P a = [a]"
  by (induction a) auto

lemma set_split_by: "w \<in> set (split_by P s) \<Longrightarrow> set w \<subseteq> set s"
proof (induction s arbitrary: w)
  case (Cons a s)
  obtain v vs where v: "split_by P s = v # vs" by (cases "split_by P s") auto
  then show ?case using Cons.prems Cons.IH [of w] Cons.IH [of v] by (auto split: if_splits)
qed simp

lemma set_str_fields: "w \<in> set (str_fields s) \<Longrightarrow> set w \<subseteq> set s"
  by (auto simp: str_fields_def dest: set_split_by)

text \<open>The fields of words joined by single spaces are the words.\<close>

lemma is_space_blank [simp]: "is_space CHR '' ''"
  by (simp add: is_space_def)

lemma str_fields_join:
  "\<forall>w \<in> set ws. w \<noteq> [] \<and> (\<forall>c \<in> set w. \<not> is_space c) \<Longrightarrow> str_fields (join ws '' '') = ws"
proof (induction ws)
  case Nil
  then show ?case by (simp add: str_fields_def)
next
  case (Cons w ws)
  then have w: "split_by is_space w = [w]" "w \<noteq> []" and IH: "str_fields (join ws '' '') = ws"
    by (auto simp: split_by_none)
  show ?case
  proof (cases "ws = []")
    case True
    with w show ?thesis by (simp add: str_fields_def)
  next
    case False
    with w IH show ?thesis
      by (simp add: join_Cons str_fields_def split_by_append_sep)
  qed
qed

lemma trim_space_id:
  assumes "s = [] \<or> \<not> is_space (hd s) \<and> \<not> is_space (last s)"
  shows "trim_space s = s"
proof (cases "s = []")
  case True
  then show ?thesis by (simp add: trim_space_def trim_left_def trim_right_def)
next
  case False
  with assms have h: "\<not> is_space (hd s)" and l: "\<not> is_space (hd (rev s))"
    by (auto simp: hd_rev)
  from False h have "dropWhile is_space s = s" by (cases s) auto
  moreover from False l have "dropWhile is_space (rev s) = rev s"
    by (cases "rev s") auto
  ultimately show ?thesis by (simp add: trim_space_def trim_left_def trim_right_def)
qed

lemma trim_space_no_space: "\<forall>c \<in> set s. \<not> is_space c \<Longrightarrow> trim_space s = s"
  by (rule trim_space_id) (cases s; auto)

lemma trim_space_append_space: "\<forall>c \<in> set t. is_space c \<Longrightarrow> trim_space (s @ t) = trim_space s"
proof -
  assume t: "\<forall>c \<in> set t. is_space c"
  then have dt: "dropWhile is_space (rev t) = []" by simp
  show ?thesis
  proof (cases "\<forall>c \<in> set s. is_space c")
    case True
    with t have "trim_left (s @ t) = []" "trim_left s = []" by (auto simp: trim_left_def)
    then show ?thesis by (simp add: trim_space_def)
  next
    case False
    then have "trim_left (s @ t) = trim_left s @ t" by (auto simp: trim_left_def dropWhile_append)
    then show ?thesis using dt by (simp add: trim_space_def trim_right_def dropWhile_append)
  qed
qed

lemma set_trim_space: "set (trim_space s) \<subseteq> set s"
proof -
  have "set (trim_right t) \<subseteq> set t" for t
    using set_dropWhileD [of _ is_space "rev t"] by (auto simp: trim_right_def)
  moreover have "set (trim_left s) \<subseteq> set s" by (auto simp: trim_left_def dest: set_dropWhileD)
  ultimately show ?thesis unfolding trim_space_def by blast
qed

subsection \<open>Numbers\<close>

text \<open>\<open>strconv.Itoa\<close> (and \<open>%d\<close>) for a number that is not negative, and for any \<open>int\<close>.\<close>

definition digit_char :: "nat \<Rightarrow> char" where
  "digit_char d = char_of (48 + d)"

fun nat_digits :: "nat \<Rightarrow> string" where
  "nat_digits n = (if n < 10 then [digit_char n] else nat_digits (n div 10) @ [digit_char (n mod 10)])"

declare nat_digits.simps [simp del]

definition itoa :: "int \<Rightarrow> string" where
  "itoa i = (if i < 0 then CHR ''-'' # nat_digits (nat (- i)) else nat_digits (nat i))"

definition is_digit :: "char \<Rightarrow> bool" where
  "is_digit c = (let n = of_char c :: nat in 48 \<le> n \<and> n \<le> 57)"

definition digit_val :: "char \<Rightarrow> nat" where
  "digit_val c = of_char c - 48"

definition digits_val :: "string \<Rightarrow> nat" where
  "digits_val s = foldl (\<lambda>a c. 10 * a + digit_val c) 0 s"

text \<open>
  \<open>strconv.Atoi\<close>: an optional sign and at least one decimal digit. The code always reads the
  number and sometimes ignores the error, so both are returned: on a syntax error the
  number is 0, out of the 64-bit range it is the nearest representable number.
\<close>

definition max_int :: int where "max_int = 9223372036854775807"
definition min_int :: int where "min_int = - 9223372036854775808"

fun atoi_sign :: "string \<Rightarrow> bool \<times> string" where
  "atoi_sign [] = (False, [])"
| "atoi_sign (c # s) = (if c = CHR ''-'' then (True, s) else if c = CHR ''+'' then (False, s) else (False, c # s))"

definition atoi :: "string \<Rightarrow> int \<times> bool" where
  "atoi s = (let (neg, ds) = atoi_sign s in
     if ds = [] \<or> \<not> list_all is_digit ds then (0, False)
     else let n = (if neg then - int (digits_val ds) else int (digits_val ds)) in
       if max_int < n then (max_int, False) else if n < min_int then (min_int, False) else (n, True))"

lemma of_char_digit_char: "d < 10 \<Longrightarrow> (of_char (digit_char d) :: nat) = 48 + d"
  by (simp add: digit_char_def)

lemma is_digit_digit_char [simp]: "d < 10 \<Longrightarrow> is_digit (digit_char d)"
  by (simp add: is_digit_def of_char_digit_char)

lemma digit_val_digit_char [simp]: "d < 10 \<Longrightarrow> digit_val (digit_char d) = d"
  by (simp add: digit_val_def of_char_digit_char)

lemma nat_digits_not_Nil [simp]: "nat_digits n \<noteq> []"
  by (subst nat_digits.simps) simp

lemma nat_digits_is_digit: "c \<in> set (nat_digits n) \<Longrightarrow> is_digit c"
proof (induction n rule: nat_digits.induct)
  case (1 n)
  then show ?case by (subst (asm) (2) nat_digits.simps) (auto split: if_splits)
qed

lemma digits_val_snoc [simp]: "digits_val (s @ [c]) = 10 * digits_val s + digit_val c"
  by (simp add: digits_val_def)

lemma digits_val_nat_digits [simp]: "digits_val (nat_digits n) = n"
proof (induction n rule: nat_digits.induct)
  case (1 n)
  show ?case
  proof (cases "n < 10")
    case True
    then show ?thesis by (simp add: nat_digits.simps [of n] digits_val_def)
  next
    case False
    with 1 show ?thesis by (simp add: nat_digits.simps [of n])
  qed
qed

lemma digit_not_space: "is_digit c \<Longrightarrow> \<not> is_space c"
  by (auto simp: is_digit_def is_space_def Let_def)

lemma digit_not_sign: "is_digit c \<Longrightarrow> c \<noteq> CHR ''-'' \<and> c \<noteq> CHR ''+'' \<and> c \<noteq> CHR '':''"
  by (auto simp: is_digit_def Let_def)

text \<open>Printing then parsing a number in the 64-bit range gives the number back.\<close>

lemma atoi_nat_digits:
  assumes "int n \<le> max_int"
  shows "atoi (nat_digits n) = (int n, True)"
proof -
  obtain c s where cs: "nat_digits n = c # s" by (cases "nat_digits n") auto
  have all: "list_all is_digit (nat_digits n)"
    by (auto simp: list_all_iff intro: nat_digits_is_digit)
  then have "c \<noteq> CHR ''-'' \<and> c \<noteq> CHR ''+''" using cs by (auto dest: digit_not_sign)
  then have sg: "atoi_sign (nat_digits n) = (False, nat_digits n)" using cs by simp
  have "\<not> int n < min_int" by (simp add: min_int_def)
  then show ?thesis using sg all assms by (auto simp: atoi_def)
qed

lemmas string_defs = has_prefix_def has_suffix_def contains_def cut_def split_n2_def
  to_lower_def to_upper_def lower_char_def upper_char_def is_space_def
  trim_space_def trim_left_def trim_right_def str_fields_def

declare string_defs [str_simps]

subsection \<open>Cells\<close>

text \<open>The importance a list gives a cell, which is its colour (\<open>widget.Importance\<close>).\<close>

datatype importance = MediumImportance | HighImportance | LowImportance | DangerImportance | WarningImportance | SuccessImportance

end
