(* ===== verification/Sql.thy ===== *)
theory Sql
  imports Prelude
begin

text \<open>
  What the program's SQL statements use of SQLite: tables with an \<open>INTEGER PRIMARY KEY
  AUTOINCREMENT\<close> key, and the operator \<open>LIKE\<close>. The statements themselves are translated in the
  theories of the store, each beside the Go function that executes it. A table is the list of its
  rows with their ids and the largest id ever handed out. \<open>LIKE\<close> compares ASCII letters
  without regard to case; text is taken as bytes, so \<open>_\<close> stands for one byte.
\<close>

section \<open>Tables\<close>

record 'a table =
  t_rows :: "(nat \<times> 'a) list"
  t_seq :: nat

definition empty_table :: "'a table" where
  "empty_table = \<lparr>t_rows = [], t_seq = 0\<rparr>"

text \<open>\<open>INSERT\<close>: the new id and the new table.\<close>

definition t_insert :: "'a \<Rightarrow> 'a table \<Rightarrow> nat \<times> 'a table" where
  "t_insert a t = (Suc (t_seq t), \<lparr>t_rows = t_rows t @ [(Suc (t_seq t), a)], t_seq = Suc (t_seq t)\<rparr>)"

text \<open>\<open>DELETE ... WHERE\<close> and \<open>UPDATE ... WHERE\<close>.\<close>

definition t_delete :: "(nat \<times> 'a \<Rightarrow> bool) \<Rightarrow> 'a table \<Rightarrow> 'a table" where
  "t_delete P t = t\<lparr>t_rows := filter (\<lambda>r. \<not> P r) (t_rows t)\<rparr>"

definition t_update :: "(nat \<times> 'a \<Rightarrow> bool) \<Rightarrow> ('a \<Rightarrow> 'a) \<Rightarrow> 'a table \<Rightarrow> 'a table" where
  "t_update P f t = t\<lparr>t_rows := map (\<lambda>r. if P r then (fst r, f (snd r)) else r) (t_rows t)\<rparr>"

text \<open>\<open>ORDER BY id ASC\<close> and \<open>ORDER BY id DESC\<close>.\<close>

definition t_asc :: "'a table \<Rightarrow> (nat \<times> 'a) list" where
  "t_asc t = sort_key fst (t_rows t)"

definition t_desc :: "'a table \<Rightarrow> (nat \<times> 'a) list" where
  "t_desc t = rev (sort_key fst (t_rows t))"

definition t_find :: "nat \<Rightarrow> 'a table \<Rightarrow> 'a option" where
  "t_find i t = map_of (t_rows t) i"

text \<open>Ids increase and stay below the sequence number.\<close>

definition t_ok :: "'a table \<Rightarrow> bool" where
  "t_ok t = (sorted_wrt (<) (map fst (t_rows t)) \<and> (\<forall>r \<in> set (t_rows t). 0 < fst r \<and> fst r \<le> t_seq t))"

named_theorems sql_simps

lemma t_ok_empty [simp]: "t_ok empty_table"
  by (simp add: t_ok_def empty_table_def)

lemma t_ok_insert: "t_ok t \<Longrightarrow> t_ok (snd (t_insert a t))"
  by (auto simp: t_ok_def t_insert_def sorted_wrt_append intro: le_imp_less_Suc)

lemma sorted_wrt_map_filter: "sorted_wrt P (map f xs) \<Longrightarrow> sorted_wrt P (map f (filter Q xs))"
  by (induction xs) auto

lemma t_ok_delete: "t_ok t \<Longrightarrow> t_ok (t_delete P t)"
  by (auto simp: t_ok_def t_delete_def sorted_wrt_map_filter)

lemma map_fst_update: "map fst (t_rows (t_update P f t)) = map fst (t_rows t)"
  by (simp add: t_update_def comp_def if_distrib cong: if_cong)

lemma t_ok_update: "t_ok t \<Longrightarrow> t_ok (t_update P f t)"
  unfolding t_ok_def map_fst_update by (auto simp: t_update_def)

lemma t_rows_distinct: "t_ok t \<Longrightarrow> distinct (map fst (t_rows t))"
  by (auto simp: t_ok_def strict_sorted_iff)

lemma t_asc_rows: "t_ok t \<Longrightarrow> t_asc t = t_rows t"
  by (simp add: t_ok_def t_asc_def strict_sorted_iff sort_key_id_if_sorted)

lemma t_desc_rows: "t_ok t \<Longrightarrow> t_desc t = rev (t_rows t)"
  using t_asc_rows [of t] by (simp add: t_asc_def t_desc_def)

lemma t_desc_sorted: "t_ok t \<Longrightarrow> sorted_wrt (>) (map fst (t_desc t))"
  by (simp add: t_desc_rows t_ok_def rev_map [symmetric] sorted_wrt_rev)

lemma t_find_Some: "t_ok t \<Longrightarrow> t_find i t = Some a \<longleftrightarrow> (i, a) \<in> set (t_rows t)"
  by (simp add: t_find_def map_of_eq_Some_iff t_rows_distinct)

lemma t_find_insert:
  "t_ok t \<Longrightarrow> t_find (Suc (t_seq t)) (snd (t_insert a t)) = Some a"
  using t_find_Some [OF t_ok_insert, of t] by (simp add: t_insert_def)

lemma t_find_insert_other:
  "i \<noteq> Suc (t_seq t) \<Longrightarrow> t_find i (snd (t_insert a t)) = t_find i t"
  by (auto simp: t_find_def t_insert_def map_add_def split: option.split)

lemma t_find_delete:
  "t_ok t \<Longrightarrow> t_find i (t_delete P t) = (case t_find i t of None \<Rightarrow> None
     | Some a \<Rightarrow> if P (i, a) then None else Some a)"
proof (cases "t_find i (t_delete P t)")
  case (Some a)
  assume "t_ok t"
  with Some show ?thesis using t_find_Some [OF t_ok_delete, of t i P a] t_find_Some [of t i a]
    by (simp add: t_delete_def)
next
  case None
  assume "t_ok t"
  with None show ?thesis using t_find_Some [OF t_ok_delete, of t i P] t_find_Some [of t i]
    by (auto simp: t_delete_def split: option.split)
qed

section \<open>The interface of a table\<close>

text \<open>
  What the store relies on: inserting appends a row under an id larger than every id handed out
  before, deleting keeps the other rows and hands nothing out.
\<close>

locale id_table =
  fixes insert_row :: "'a \<Rightarrow> 't \<Rightarrow> nat \<times> 't"
    and delete_rows :: "(nat \<times> 'a \<Rightarrow> bool) \<Rightarrow> 't \<Rightarrow> 't"
    and rows :: "'t \<Rightarrow> (nat \<times> 'a) list"
    and last_id :: "'t \<Rightarrow> nat"
    and ok :: "'t \<Rightarrow> bool"
  assumes ok_insert: "ok t \<Longrightarrow> ok (snd (insert_row a t))"
    and ok_delete: "ok t \<Longrightarrow> ok (delete_rows P t)"
    and rows_insert: "ok t \<Longrightarrow> rows (snd (insert_row a t)) = rows t @ [(fst (insert_row a t), a)]"
    and last_insert: "ok t \<Longrightarrow> last_id t < fst (insert_row a t)
      \<and> last_id (snd (insert_row a t)) = fst (insert_row a t)"
    and rows_delete: "ok t \<Longrightarrow> rows (delete_rows P t) = filter (\<lambda>r. \<not> P r) (rows t)"
    and last_delete: "ok t \<Longrightarrow> last_id (delete_rows P t) = last_id t"
    and bounded: "ok t \<Longrightarrow> r \<in> set (rows t) \<Longrightarrow> fst r \<le> last_id t"
begin

text \<open>A sequence of insertions and deletions.\<close>

inductive reaches :: "'t \<Rightarrow> 't \<Rightarrow> bool" where
  refl: "reaches t t"
| insert: "reaches t u \<Longrightarrow> reaches t (snd (insert_row a u))"
| delete: "reaches t u \<Longrightarrow> reaches t (delete_rows P u)"

lemma reaches_ok:
  "reaches t u \<Longrightarrow> ok t \<Longrightarrow> ok u \<and> last_id t \<le> last_id u"
proof (induction rule: reaches.induct)
  case (insert t u a)
  then show ?case using ok_insert [of u a] last_insert [of u a] by simp
next
  case (delete t u P)
  then show ?case using ok_delete [of u P] last_delete [of u P] by simp
qed simp

text \<open>A row under an id that was handed out by the time of \<open>t\<close> was already in \<open>t\<close>.\<close>

lemma no_resurrection:
  "reaches t u \<Longrightarrow> ok t \<Longrightarrow> (i, a) \<in> set (rows u) \<Longrightarrow> i \<le> last_id t \<Longrightarrow> (i, a) \<in> set (rows t)"
proof (induction rule: reaches.induct)
  case (insert t u b)
  then have "ok u" "last_id t \<le> last_id u" using reaches_ok by auto
  with insert show ?case using rows_insert [of u b] last_insert [of u b] by auto
next
  case (delete t u P)
  then have "ok u" using reaches_ok by auto
  with delete show ?case using rows_delete [of u P] by auto
qed simp

lemma insert_fresh: "ok t \<Longrightarrow> r \<in> set (rows t) \<Longrightarrow> fst r < fst (insert_row a t)"
  using bounded [of t r] last_insert [of t a] by simp

end

interpretation sqlite: id_table t_insert t_delete t_rows t_seq t_ok
proof
  fix t :: "'a table" and a P r
  assume ok: "t_ok t"
  show "t_ok (snd (t_insert a t))" by (rule t_ok_insert [OF ok])
  show "t_ok (t_delete P t)" by (rule t_ok_delete [OF ok])
  show "t_rows (snd (t_insert a t)) = t_rows t @ [(fst (t_insert a t), a)]"
    by (simp add: t_insert_def)
  show "t_seq t < fst (t_insert a t) \<and> t_seq (snd (t_insert a t)) = fst (t_insert a t)"
    by (simp add: t_insert_def)
  show "t_rows (t_delete P t) = filter (\<lambda>r. \<not> P r) (t_rows t)" by (simp add: t_delete_def)
  show "t_seq (t_delete P t) = t_seq t" by (simp add: t_delete_def)
  show "r \<in> set (t_rows t) \<Longrightarrow> fst r \<le> t_seq t" using ok by (auto simp: t_ok_def)
qed

section \<open>LIKE\<close>

function like :: "string \<Rightarrow> string \<Rightarrow> bool" where
  "like [] s = (s = [])"
| "like (c # p) s = (if c = CHR ''%''
     then like p s \<or> (if s = [] then False else like (c # p) (tl s))
     else if s \<noteq> [] \<and> (c = CHR ''_'' \<or> lower_char c = lower_char (hd s)) then like p (tl s) else False)"
  by pat_completeness auto
termination
  by (relation "measure (\<lambda>(p, s). length p + length s)") (auto simp: neq_Nil_conv)

declare like.simps [simp del]

lemma like_percent: "like (CHR ''%'' # p) s \<longleftrightarrow> (\<exists>u v. s = u @ v \<and> like p v)"
proof (induction s)
  case Nil
  then show ?case by (subst like.simps) auto
next
  case (Cons x s)
  have "like (CHR ''%'' # p) (x # s) \<longleftrightarrow> like p (x # s) \<or> (\<exists>u v. s = u @ v \<and> like p v)"
    by (subst like.simps) (simp add: Cons)
  also have "\<dots> \<longleftrightarrow> (\<exists>u v. x # s = u @ v \<and> like p v)"
    by (metis append_Cons append_Nil append_eq_Cons_conv)
  finally show ?case .
qed

definition no_wildcard :: "string \<Rightarrow> bool" where
  "no_wildcard t = (CHR ''%'' \<notin> set t \<and> CHR ''_'' \<notin> set t)"

lemma like_literal:
  "no_wildcard t \<Longrightarrow> like (t @ p) s \<longleftrightarrow> (\<exists>u v. s = u @ v \<and> to_lower u = to_lower t \<and> like p v)"
proof (induction t arbitrary: s)
  case Nil
  then show ?case by (simp add: to_lower_def)
next
  case (Cons c t)
  have c: "c \<noteq> CHR ''%''" "c \<noteq> CHR ''_''" "no_wildcard t" using Cons.prems by (auto simp: no_wildcard_def)
  show ?case
  proof (cases s)
    case Nil
    then show ?thesis using c by (subst append_Cons, subst like.simps) (simp add: to_lower_def)
  next
    case (Cons x s')
    have "like ((c # t) @ p) s \<longleftrightarrow> lower_char c = lower_char x \<and> like (t @ p) s'"
      using c Cons by (subst append_Cons, subst like.simps) simp
    also have "\<dots> \<longleftrightarrow> lower_char c = lower_char x
        \<and> (\<exists>u v. s' = u @ v \<and> to_lower u = to_lower t \<and> like p v)"
      by (simp add: Cons.IH [OF c(3)])
    also have "\<dots> \<longleftrightarrow> (\<exists>u v. s = u @ v \<and> to_lower u = to_lower (c # t) \<and> like p v)"
      by (auto simp: Cons to_lower_def append_eq_Cons_conv Cons_eq_append_conv)
        (metis append_Cons list.simps(9))
    finally show ?thesis .
  qed
qed

lemma like_end: "like ''%'' v"
  using like_percent [of "[]" v] by (auto simp: like.simps(1))

text \<open>\<open>LIKE '%t%'\<close> is the substring test without regard to case, when \<open>t\<close> has no wildcard.\<close>

lemma like_infix:
  assumes "no_wildcard t"
  shows "like (''%'' @ t @ ''%'') s \<longleftrightarrow> contains (to_lower s) (to_lower t)"
proof -
  have "like (''%'' @ t @ ''%'') s \<longleftrightarrow> (\<exists>a u v. s = a @ u @ v \<and> to_lower u = to_lower t)"
    using like_percent [of "t @ ''%''" s] like_literal [OF assms, of "''%''"] like_end by auto
  also have "\<dots> \<longleftrightarrow> contains (to_lower s) (to_lower t)"
    unfolding contains_def sublist_def to_lower_def
    by (metis (no_types, opaque_lifting) map_append map_eq_append_conv)
  finally show ?thesis .
qed

text \<open>\<open>LIKE '%t'\<close> is the suffix test.\<close>

lemma like_suffix:
  assumes "no_wildcard t"
  shows "like (''%'' @ t) s \<longleftrightarrow> has_suffix (to_lower s) (to_lower t)"
proof -
  have "like (''%'' @ t) s \<longleftrightarrow> (\<exists>a u. s = a @ u \<and> to_lower u = to_lower t)"
    using like_percent [of t s] like_literal [OF assms, of "[]"] by (auto simp: like.simps(1))
  also have "\<dots> \<longleftrightarrow> has_suffix (to_lower s) (to_lower t)"
    unfolding has_suffix_def suffix_def to_lower_def
    by (metis (no_types, opaque_lifting) map_append map_eq_append_conv)
  finally show ?thesis .
qed

end
