(* ===== verification/Net.thy ===== *)
theory Net
  imports Prelude
begin

text \<open>
  The part of Go's \<open>net\<close> package the program uses: \<open>SplitHostPort\<close>,
  \<open>JoinHostPort\<close> and the test \<open>ParseIP (s) != nil\<close>. An error is \<open>None\<close>: no caller
  looks at the error's text. Every component that reads a host header builds on this theory.
\<close>

subsection \<open>SplitHostPort and JoinHostPort\<close>

text \<open>The text before and after the last colon.\<close>

definition cut_last_colon :: "string \<Rightarrow> (string \<times> string) option" where
  "cut_last_colon s = (if CHR '':'' \<in> set s
     then Some (rev (tl (dropWhile (\<lambda>c. c \<noteq> CHR '':'') (rev s))),
                rev (takeWhile (\<lambda>c. c \<noteq> CHR '':'') (rev s)))
     else None)"

definition split_host_port :: "string \<Rightarrow> (string \<times> string) option" where
  "split_host_port hostport = (case cut_last_colon hostport of
     None \<Rightarrow> None
   | Some (pre, port) \<Rightarrow>
       if CHR ''['' \<in> set port \<or> CHR '']'' \<in> set port then None
       else if has_prefix hostport ''['' then
         (if pre = [] \<or> last pre \<noteq> CHR '']'' then None
          else let host = butlast (tl pre) in
            if CHR '']'' \<in> set host \<or> CHR ''['' \<in> set host then None else Some (host, port))
       else if CHR '':'' \<in> set pre \<or> CHR ''['' \<in> set pre \<or> CHR '']'' \<in> set pre then None
       else Some (pre, port))"

definition join_host_port :: "string \<Rightarrow> string \<Rightarrow> string" where
  "join_host_port host port =
     (if CHR '':'' \<in> set host then ''['' @ host @ '']:'' @ port else host @ '':'' @ port)"

lemma cut_last_colon_append:
  "CHR '':'' \<notin> set p \<Longrightarrow> cut_last_colon (a @ CHR '':'' # p) = Some (a, p)"
proof -
  assume n: "CHR '':'' \<notin> set p"
  then have h: "\<And>c. c \<in> set (rev p) \<Longrightarrow> c \<noteq> CHR '':''" by auto
  have "takeWhile (\<lambda>c. c \<noteq> CHR '':'') (rev p @ CHR '':'' # rev a) = rev p"
    by (subst takeWhile_append2) (use h in auto)
  moreover have "dropWhile (\<lambda>c. c \<noteq> CHR '':'') (rev p @ CHR '':'' # rev a) = CHR '':'' # rev a"
    by (subst dropWhile_append2) (use h in auto)
  ultimately show ?thesis by (simp add: cut_last_colon_def)
qed

lemma cut_last_colonD:
  assumes "cut_last_colon s = Some (a, p)"
  shows "s = a @ CHR '':'' # p \<and> CHR '':'' \<notin> set p"
proof -
  from assms have "CHR '':'' \<in> set s" by (auto simp: cut_last_colon_def split: if_splits)
  then obtain x y where xy: "s = x @ CHR '':'' # y" "CHR '':'' \<notin> set y"
    by (meson split_list_last)
  then have "cut_last_colon s = Some (x, y)" by (simp add: cut_last_colon_append)
  with assms xy show ?thesis by simp
qed

text \<open>A host and a port free of brackets (and the port free of colons) survive the round trip.\<close>

lemma split_join_host_port:
  assumes "set host \<inter> {CHR ''['', CHR '']''} = {}"
    and "set port \<inter> {CHR ''['', CHR '']'', CHR '':''} = {}"
  shows "split_host_port (join_host_port host port) = Some (host, port)"
proof (cases "CHR '':'' \<in> set host")
  case True
  have "cut_last_colon ((''['' @ host @ '']'') @ CHR '':'' # port) = Some (''['' @ host @ '']'', port)"
    using assms(2) by (intro cut_last_colon_append) auto
  with True assms show ?thesis
    by (auto simp: join_host_port_def split_host_port_def has_prefix_def Let_def butlast_append)
next
  case False
  have c: "cut_last_colon (host @ CHR '':'' # port) = Some (host, port)"
    using assms(2) by (intro cut_last_colon_append) auto
  show ?thesis
  proof (cases host)
    case Nil
    with c assms show ?thesis by (auto simp: join_host_port_def split_host_port_def has_prefix_def)
  next
    case (Cons h t)
    with assms have "h \<noteq> CHR ''[''" by auto
    then show ?thesis using False Cons c assms
      by (auto simp: join_host_port_def split_host_port_def has_prefix_def)
  qed
qed

lemma split_host_port_plain:
  assumes "set host \<inter> {CHR ''['', CHR '']'', CHR '':''} = {}"
    and "set port \<inter> {CHR ''['', CHR '']'', CHR '':''} = {}"
  shows "split_host_port (host @ '':'' @ port) = Some (host, port)"
  using split_join_host_port [of host port] assms by (auto simp: join_host_port_def)

text \<open>A string with no colon is not a host and port.\<close>

lemma split_host_port_no_colon: "CHR '':'' \<notin> set s \<Longrightarrow> split_host_port s = None"
  by (simp add: split_host_port_def cut_last_colon_def)

text \<open>What was split off is part of the text: the port follows the last colon.\<close>

lemma split_host_port_port:
  "split_host_port s = Some (h, p) \<Longrightarrow> \<exists>pre. s = pre @ CHR '':'' # p \<and> CHR '':'' \<notin> set p"
  by (auto simp: split_host_port_def Let_def split: option.splits if_splits dest!: cut_last_colonD)

lemma split_host_port_host_subset: "split_host_port s = Some (h, p) \<Longrightarrow> set h \<subseteq> set s"
proof -
  assume a: "split_host_port s = Some (h, p)"
  then obtain pre where pre: "s = pre @ CHR '':'' # p" "h = pre \<or> h = butlast (tl pre)"
    by (auto simp: split_host_port_def Let_def split: option.splits if_splits dest!: cut_last_colonD)
  have "set (butlast (tl pre)) \<subseteq> set pre" by (metis in_set_butlastD list.set_sel(2) subsetI tl_Nil)
  with pre show ?thesis by auto
qed

subsection \<open>ParseIP\<close>

definition ipv4_octet :: "string \<Rightarrow> bool" where
  "ipv4_octet f = (f \<noteq> [] \<and> list_all is_digit f \<and> (length f = 1 \<or> hd f \<noteq> CHR ''0'')
     \<and> length f \<le> 3 \<and> digits_val f \<le> 255)"

definition ipv4 :: "string \<Rightarrow> bool" where
  "ipv4 s = (let fs = split s ''.'' in length fs = 4 \<and> list_all ipv4_octet fs)"

definition is_hex :: "char \<Rightarrow> bool" where
  "is_hex c = (let n = of_char c :: nat in
     48 \<le> n \<and> n \<le> 57 \<or> 97 \<le> n \<and> n \<le> 102 \<or> 65 \<le> n \<and> n \<le> 70)"

text \<open>
  The group loop of an IPv6 address: \<open>n\<close> groups of 16 bits left to read, \<open>ell\<close> whether
  the ellipsis was seen. A dotted IPv4 tail takes the room of two groups.
\<close>

fun ipv6_groups :: "nat \<Rightarrow> bool \<Rightarrow> string \<Rightarrow> bool" where
  "ipv6_groups 0 ell s = (s = [] \<and> \<not> ell)"
| "ipv6_groups (Suc n) ell s =
     (let g = takeWhile is_hex s; r = dropWhile is_hex s in
      if g = [] \<or> 4 < length g then False
      else case r of
        [] \<Rightarrow> (if n = 0 then \<not> ell else ell)
      | c # r' \<Rightarrow>
          if c = CHR ''.'' then (ell \<or> Suc n = 2) \<and> 2 \<le> Suc n \<and> ipv4 s
               \<and> (if Suc n = 2 then \<not> ell else ell)
          else if c \<noteq> CHR '':'' \<or> r' = [] then False
          else if hd r' = CHR '':'' then
            (if ell then False else if tl r' = [] then n \<noteq> 0 else ipv6_groups n True (tl r'))
          else ipv6_groups n ell r')"

definition ipv6 :: "string \<Rightarrow> bool" where
  "ipv6 s = (if has_prefix s ''::'' then s = ''::'' \<or> ipv6_groups 8 True (drop 2 s)
     else ipv6_groups 8 False s)"

text \<open>
  \<open>ParseIP (s) != nil\<close>: the first of dot, colon and percent decides the family; an IPv6
  address with a zone is refused.
\<close>

definition is_ip :: "string \<Rightarrow> bool" where
  "is_ip s = (case dropWhile (\<lambda>c. c \<noteq> CHR ''.'' \<and> c \<noteq> CHR '':'' \<and> c \<noteq> CHR ''%'') s of
     [] \<Rightarrow> False
   | c # _ \<Rightarrow> if c = CHR ''.'' then ipv4 s
       else if c = CHR '':'' then CHR ''%'' \<notin> set s \<and> ipv6 s else False)"

end
