(* ===== verification/GoHttp.thy ===== *)
theory GoHttp
  imports Net
begin

text \<open>
  The part of Go's \<open>net/http\<close> the program uses as data: header maps and status texts.

  An \<open>http.Header\<close> is a Go map from names to lists of values. It is an association list
  with distinct keys: the order of the list is the order in which one \<open>range\<close> over the map
  visits the names, which Go leaves open, so what is proved for every list holds for every
  iteration order. \<open>Get\<close>, \<open>Set\<close>, \<open>Add\<close> and \<open>Del\<close> canonicalise the name they are
  given; indexing the map (\<open>h [k]\<close>) does not.
\<close>

type_synonym header = "(string \<times> string list) list"

subsection \<open>Canonical header names\<close>

text \<open>The bytes of a header field name (RFC 7230 \<open>token\<close>).\<close>

definition token_char :: "char \<Rightarrow> bool" where
  "token_char c = (let n = of_char c :: nat in
     65 \<le> n \<and> n \<le> 90 \<or> 97 \<le> n \<and> n \<le> 122 \<or> 48 \<le> n \<and> n \<le> 57
     \<or> c \<in> set ''!#$%&*+-.^_`|~'' \<or> n = 39)"

fun canonical_aux :: "bool \<Rightarrow> string \<Rightarrow> string" where
  "canonical_aux up [] = []"
| "canonical_aux up (c # s) =
     (if up then upper_char c else lower_char c) # canonical_aux (c = CHR ''-'') s"

definition canonical_key :: "string \<Rightarrow> string" where
  "canonical_key k = (if list_all token_char k then canonical_aux True k else k)"

lemma canonical_aux_dash: "length (canonical_aux up s) = length s"
  by (induction up s rule: canonical_aux.induct) auto

subsection \<open>Header maps\<close>

definition h_vals :: "header \<Rightarrow> string \<Rightarrow> string list" where
  "h_vals h k = (case map_of h k of None \<Rightarrow> [] | Some vs \<Rightarrow> vs)"

definition h_get :: "header \<Rightarrow> string \<Rightarrow> string" where
  "h_get h k = (case h_vals h (canonical_key k) of [] \<Rightarrow> '''' | v # _ \<Rightarrow> v)"

definition h_put :: "header \<Rightarrow> string \<Rightarrow> string list \<Rightarrow> header" where
  "h_put h k vs = AList.update k vs h"

definition h_set :: "header \<Rightarrow> string \<Rightarrow> string \<Rightarrow> header" where
  "h_set h k v = h_put h (canonical_key k) [v]"

definition h_add :: "header \<Rightarrow> string \<Rightarrow> string \<Rightarrow> header" where
  "h_add h k v = h_put h (canonical_key k) (h_vals h (canonical_key k) @ [v])"

definition h_del :: "header \<Rightarrow> string \<Rightarrow> header" where
  "h_del h k = AList.delete (canonical_key k) h"

definition h_has :: "header \<Rightarrow> string \<Rightarrow> bool" where
  "h_has h k = (map_of h k \<noteq> None)"

definition wf_header :: "header \<Rightarrow> bool" where
  "wf_header h = distinct (map fst h)"

text \<open>Every \<open>(name, value)\<close> line of a header, in iteration order.\<close>

definition h_lines :: "header \<Rightarrow> (string \<times> string) list" where
  "h_lines h = concat (map (\<lambda>(k, vs). map (\<lambda>v. (k, v)) vs) h)"

text \<open>\<open>w.Header ().Add\<close> of every line of another header, as the proxy copies responses.\<close>

definition h_add_all :: "header \<Rightarrow> header \<Rightarrow> header" where
  "h_add_all h src = foldl (\<lambda>a (k, v). h_add a k v) h (h_lines src)"

lemma h_vals_put: "h_vals (h_put h k vs) k' = (if k' = k then vs else h_vals h k')"
  by (simp add: h_vals_def h_put_def update_conv')

lemma h_vals_del: "h_vals (h_del h k) k' = (if k' = canonical_key k then [] else h_vals h k')"
  by (simp add: h_vals_def h_del_def delete_conv')

lemma h_vals_set:
  "h_vals (h_set h k v) k' = (if k' = canonical_key k then [v] else h_vals h k')"
  by (simp add: h_set_def h_vals_put)

lemma h_vals_add:
  "h_vals (h_add h k v) k' =
     (if k' = canonical_key k then h_vals h k' @ [v] else h_vals h k')"
  by (simp add: h_add_def h_vals_put)

lemma h_has_del: "h_has (h_del h k) k' = (k' \<noteq> canonical_key k \<and> h_has h k')"
  by (simp add: h_has_def h_del_def delete_conv')

lemma h_has_set: "h_has (h_set h k v) k' = (k' = canonical_key k \<or> h_has h k')"
  by (simp add: h_has_def h_set_def h_put_def update_conv')

lemma h_has_add: "h_has (h_add h k v) k' = (k' = canonical_key k \<or> h_has h k')"
  by (simp add: h_has_def h_add_def h_put_def update_conv')

lemma wf_header_put: "wf_header h \<Longrightarrow> wf_header (h_put h k vs)"
  by (simp add: wf_header_def h_put_def distinct_update)

lemma wf_header_del: "wf_header h \<Longrightarrow> wf_header (h_del h k)"
  by (simp add: wf_header_def h_del_def distinct_delete)

lemma wf_header_set: "wf_header h \<Longrightarrow> wf_header (h_set h k v)"
  by (simp add: h_set_def wf_header_put)

lemma wf_header_add: "wf_header h \<Longrightarrow> wf_header (h_add h k v)"
  by (simp add: h_add_def wf_header_put)

lemmas h_simps = h_vals_put h_vals_del h_vals_set h_vals_add h_has_del h_has_set h_has_add

lemma h_lines_Nil [simp]: "h_lines [] = []"
  by (simp add: h_lines_def)

lemma h_lines_Cons [simp]: "h_lines ((k, vs) # h) = map (Pair k) vs @ h_lines h"
  by (simp add: h_lines_def)

lemma h_vals_Nil [simp]: "h_vals [] k = []"
  by (simp add: h_vals_def)

lemma h_vals_Cons [simp]: "h_vals ((k', vs) # h) k = (if k = k' then vs else h_vals h k)"
  by (simp add: h_vals_def)

lemma h_lines_key: "(k, v) \<in> set (h_lines h) \<Longrightarrow> k \<in> fst ` set h"
  by (induction h) (auto simp: image_iff)

lemma h_vals_in_lines: "wf_header h \<Longrightarrow> v \<in> set (h_vals h k) \<longleftrightarrow> (k, v) \<in> set (h_lines h)"
proof (induction h)
  case Nil
  then show ?case by simp
next
  case (Cons p h)
  obtain k' vs where p: "p = (k', vs)" by (cases p)
  with Cons.prems have w: "wf_header h" and n: "k' \<notin> fst ` set h" by (auto simp: wf_header_def)
  have "k = k' \<Longrightarrow> (k, v) \<notin> set (h_lines h)" using n h_lines_key by blast
  then show ?case using Cons.IH [OF w] p by auto
qed

subsection \<open>Status texts\<close>

definition status_texts :: "(int \<times> string) list" where
  "status_texts =
    [(100, ''Continue''), (101, ''Switching Protocols''), (102, ''Processing''),
     (103, ''Early Hints''), (200, ''OK''), (201, ''Created''), (202, ''Accepted''),
     (203, ''Non-Authoritative Information''), (204, ''No Content''), (205, ''Reset Content''),
     (206, ''Partial Content''), (207, ''Multi-Status''), (208, ''Already Reported''),
     (226, ''IM Used''), (300, ''Multiple Choices''), (301, ''Moved Permanently''),
     (302, ''Found''), (303, ''See Other''), (304, ''Not Modified''), (305, ''Use Proxy''),
     (307, ''Temporary Redirect''), (308, ''Permanent Redirect''), (400, ''Bad Request''),
     (401, ''Unauthorized''), (402, ''Payment Required''), (403, ''Forbidden''),
     (404, ''Not Found''), (405, ''Method Not Allowed''), (406, ''Not Acceptable''),
     (407, ''Proxy Authentication Required''), (408, ''Request Timeout''), (409, ''Conflict''),
     (410, ''Gone''), (411, ''Length Required''), (412, ''Precondition Failed''),
     (413, ''Request Entity Too Large''), (414, ''Request URI Too Long''),
     (415, ''Unsupported Media Type''), (416, ''Requested Range Not Satisfiable''),
     (417, ''Expectation Failed''), (418, ''I'' @ [char_of (39 :: nat)] @ ''m a teapot''),
     (421, ''Misdirected Request''), (422, ''Unprocessable Entity''), (423, ''Locked''),
     (424, ''Failed Dependency''), (425, ''Too Early''), (426, ''Upgrade Required''),
     (428, ''Precondition Required''), (429, ''Too Many Requests''),
     (431, ''Request Header Fields Too Large''), (451, ''Unavailable For Legal Reasons''),
     (500, ''Internal Server Error''), (501, ''Not Implemented''), (502, ''Bad Gateway''),
     (503, ''Service Unavailable''), (504, ''Gateway Timeout''),
     (505, ''HTTP Version Not Supported''), (506, ''Variant Also Negotiates''),
     (507, ''Insufficient Storage''), (508, ''Loop Detected''), (510, ''Not Extended''),
     (511, ''Network Authentication Required'')]"

definition status_text :: "int \<Rightarrow> string" where
  "status_text code = (case map_of status_texts code of None \<Rightarrow> '''' | Some t \<Rightarrow> t)"

end
