(* ===== verification/Events.thy ===== *)
theory Events
  imports GoHttp
begin

text \<open>
  The package \<open>internal/events\<close>: the event types and the bus that connects proxy, store,
  plugin engine and user interface.

  A handler is a Go value that implements some of eight interfaces. Its methods may change any
  state of the program, so a method takes and returns the world \<open>'w\<close>, a type parameter that
  the components instantiate; which interfaces a value implements is which fields of the
  \<open>handler\<close> record are set. The read-write lock of the bus only protects the handler lists,
  and every emit method copies its list before it calls anyone, so an emit is a function of
  the bus as it was when it started.

  A pointer that may be \<open>nil\<close> is an \<open>option\<close>; so is the payload of a WebSocket frame, the
  one byte slice whose \<open>nil\<close> the code tests.
\<close>

subsection \<open>Event types (events.go)\<close>

text \<open>The parts of \<open>url.URL\<close> the program reads or writes; the path is in its escaped form.\<close>

record url =
  u_scheme :: string
  u_host :: string
  u_path :: string
  u_query :: string

definition url_string :: "url \<Rightarrow> string" where
  "url_string u = (if u_scheme u = '''' then '''' else u_scheme u @ '':'')
     @ (if u_scheme u \<noteq> '''' \<and> (u_host u \<noteq> '''' \<or> u_path u \<noteq> '''') \<or> u_host u \<noteq> ''''
        then ''//'' @ u_host u else '''')
     @ (if u_path u \<noteq> '''' \<and> hd (u_path u) \<noteq> CHR ''/'' \<and> u_host u \<noteq> '''' then ''/'' else '''')
     @ u_path u @ (if u_query u = '''' then '''' else ''?'' @ u_query u)"

record http_request =
  rq_method :: string
  rq_url :: "url option"
  rq_host :: string
  rq_header :: header

record RequestEvent =
  re_request :: "http_request option"
  re_body :: string

record RequestResult =
  rr_drop :: bool
  rr_request :: "http_request option"
  rr_reqbody :: string

record ResponseEvent =
  ev_timestamp :: int
  ev_host :: string
  ev_proto :: string
  ev_method :: string
  ev_url :: string
  ev_req_headers :: header
  ev_req_body :: string
  ev_status :: int
  ev_resp_headers :: header
  ev_resp_body :: string
  ev_duration_ms :: int
  ev_tls :: bool

type_synonym WebSocketDirection = int
type_synonym WebSocketOpcode = int

definition WebSocketClient :: WebSocketDirection where "WebSocketClient = 0"
definition WebSocketServer :: WebSocketDirection where "WebSocketServer = 1"

record WebSocketConnectionEvent =
  wc_host :: string
  wc_url :: string
  wc_tls :: bool
  wc_timestamp :: int

record WebSocketFrameResult =
  fr_payload :: "string option"

record WebSocketFrameEvent =
  wf_conn_id :: nat
  wf_timestamp :: int
  wf_direction :: WebSocketDirection
  wf_opcode :: WebSocketOpcode
  wf_payload :: "string option"

record PluginLogEvent =
  pl_name :: string
  pl_message :: string

record SetPluginEnabledEvent =
  pe_name :: string
  pe_enabled :: bool

record LoadPluginEvent =
  lp_source_path :: string

record ProxyRestartEvent =
  pr_addr :: string

subsection \<open>Handlers\<close>

type_synonym 'w RequestMiddleware = "RequestEvent \<Rightarrow> 'w \<Rightarrow> RequestResult \<times> 'w"
type_synonym 'w ResponseObserver = "ResponseEvent \<Rightarrow> 'w \<Rightarrow> 'w"
type_synonym 'w WebSocketConnectionObserver = "WebSocketConnectionEvent \<Rightarrow> 'w \<Rightarrow> nat \<times> 'w"
type_synonym 'w WebSocketFrameObserver = "WebSocketFrameEvent \<Rightarrow> 'w \<Rightarrow> WebSocketFrameResult \<times> 'w"
type_synonym 'w PluginLogObserver = "PluginLogEvent \<Rightarrow> 'w \<Rightarrow> 'w"
type_synonym 'w PluginEnabledObserver = "SetPluginEnabledEvent \<Rightarrow> 'w \<Rightarrow> 'w"
type_synonym 'w LoadPluginObserver = "LoadPluginEvent \<Rightarrow> 'w \<Rightarrow> 'w"

text \<open>\<open>ProxyCommandObserver\<close> has two methods, restart and stop.\<close>

type_synonym 'w ProxyCommandObserver = "(ProxyRestartEvent \<Rightarrow> 'w \<Rightarrow> 'w) \<times> ('w \<Rightarrow> 'w)"

record 'w handler =
  hd_request :: "'w RequestMiddleware option"
  hd_response :: "'w ResponseObserver option"
  hd_ws_conn :: "'w WebSocketConnectionObserver option"
  hd_ws_frame :: "'w WebSocketFrameObserver option"
  hd_plugin_log :: "'w PluginLogObserver option"
  hd_plugin_enabled :: "'w PluginEnabledObserver option"
  hd_plugin_load :: "'w LoadPluginObserver option"
  hd_proxy_command :: "'w ProxyCommandObserver option"

definition no_handler :: "'w handler" where
  "no_handler = \<lparr>hd_request = None, hd_response = None, hd_ws_conn = None, hd_ws_frame = None,
     hd_plugin_log = None, hd_plugin_enabled = None, hd_plugin_load = None, hd_proxy_command = None\<rparr>"

text \<open>The func adapters: a plain closure as a handler of one interface.\<close>

definition RequestMiddlewareFunc :: "'w RequestMiddleware \<Rightarrow> 'w handler" where
  "RequestMiddlewareFunc f = no_handler\<lparr>hd_request := Some f\<rparr>"

definition ResponseObserverFunc :: "'w ResponseObserver \<Rightarrow> 'w handler" where
  "ResponseObserverFunc f = no_handler\<lparr>hd_response := Some f\<rparr>"

definition WebSocketConnectionObserverFunc :: "'w WebSocketConnectionObserver \<Rightarrow> 'w handler" where
  "WebSocketConnectionObserverFunc f = no_handler\<lparr>hd_ws_conn := Some f\<rparr>"

definition WebSocketFrameObserverFunc :: "'w WebSocketFrameObserver \<Rightarrow> 'w handler" where
  "WebSocketFrameObserverFunc f = no_handler\<lparr>hd_ws_frame := Some f\<rparr>"

definition PluginLogObserverFunc :: "'w PluginLogObserver \<Rightarrow> 'w handler" where
  "PluginLogObserverFunc f = no_handler\<lparr>hd_plugin_log := Some f\<rparr>"

definition PluginEnabledObserverFunc :: "'w PluginEnabledObserver \<Rightarrow> 'w handler" where
  "PluginEnabledObserverFunc f = no_handler\<lparr>hd_plugin_enabled := Some f\<rparr>"

definition LoadPluginObserverFunc :: "'w LoadPluginObserver \<Rightarrow> 'w handler" where
  "LoadPluginObserverFunc f = no_handler\<lparr>hd_plugin_load := Some f\<rparr>"

subsection \<open>The bus (bus.go)\<close>

record 'w bus =
  requestMiddlewares :: "'w RequestMiddleware list"
  responseObservers :: "'w ResponseObserver list"
  wsConnObservers :: "'w WebSocketConnectionObserver list"
  wsFrameObservers :: "'w WebSocketFrameObserver list"
  pluginLogObservers :: "'w PluginLogObserver list"
  pluginEnabledObservers :: "'w PluginEnabledObserver list"
  pluginLoadObservers :: "'w LoadPluginObserver list"
  proxyCommandObservers :: "'w ProxyCommandObserver list"

definition NewBus :: "'w bus" where
  "NewBus = \<lparr>requestMiddlewares = [], responseObservers = [], wsConnObservers = [],
     wsFrameObservers = [], pluginLogObservers = [], pluginEnabledObservers = [],
     pluginLoadObservers = [], proxyCommandObservers = []\<rparr>"

datatype bus_panic = NoHandlerInterface

definition opt_list :: "'a option \<Rightarrow> 'a list" where
  "opt_list x = (case x of None \<Rightarrow> [] | Some a \<Rightarrow> [a])"

text \<open>
  \<open>Register\<close>: one type test per interface, each appending to its list; the panic comes after
  the tests, so a value that matches none has changed nothing.
\<close>

definition Register :: "'w handler \<Rightarrow> 'w bus \<Rightarrow> bus_panic + 'w bus" where
  "Register h b =
    (let b1 = b\<lparr>requestMiddlewares := requestMiddlewares b @ opt_list (hd_request h),
              responseObservers := responseObservers b @ opt_list (hd_response h),
              wsConnObservers := wsConnObservers b @ opt_list (hd_ws_conn h),
              wsFrameObservers := wsFrameObservers b @ opt_list (hd_ws_frame h),
              pluginLogObservers := pluginLogObservers b @ opt_list (hd_plugin_log h),
              pluginEnabledObservers := pluginEnabledObservers b @ opt_list (hd_plugin_enabled h),
              pluginLoadObservers := pluginLoadObservers b @ opt_list (hd_plugin_load h),
              proxyCommandObservers := proxyCommandObservers b @ opt_list (hd_proxy_command h)\<rparr>;
         matched = (hd_request h \<noteq> None \<or> hd_response h \<noteq> None \<or> hd_ws_conn h \<noteq> None
           \<or> hd_ws_frame h \<noteq> None \<or> hd_plugin_log h \<noteq> None \<or> hd_plugin_enabled h \<noteq> None
           \<or> hd_plugin_load h \<noteq> None \<or> hd_proxy_command h \<noteq> None)
     in if matched then Inr b1 else Inl NoHandlerInterface)"

text \<open>The middleware loop of \<open>EmitRequest\<close>, from the result so far.\<close>

fun run_middlewares :: "'w RequestMiddleware list \<Rightarrow> RequestResult \<Rightarrow> 'w \<Rightarrow> RequestResult \<times> 'w" where
  "run_middlewares [] result w = (result, w)"
| "run_middlewares (mw # mws) result w =
     (let (result', w') = mw \<lparr>re_request = rr_request result, re_body = rr_reqbody result\<rparr> w in
      if rr_drop result' then (result', w') else run_middlewares mws result' w')"

definition EmitRequest :: "'w bus \<Rightarrow> RequestEvent \<Rightarrow> 'w \<Rightarrow> RequestResult \<times> 'w" where
  "EmitRequest b e w = run_middlewares (requestMiddlewares b)
     \<lparr>rr_drop = False, rr_request = re_request e, rr_reqbody = re_body e\<rparr> w"

text \<open>The observer loop shared by the emit methods that return nothing.\<close>

fun notify_all :: "('e \<Rightarrow> 'w \<Rightarrow> 'w) list \<Rightarrow> 'e \<Rightarrow> 'w \<Rightarrow> 'w" where
  "notify_all [] e w = w"
| "notify_all (h # hs) e w = notify_all hs e (h e w)"

definition EmitResponse :: "'w bus \<Rightarrow> ResponseEvent \<Rightarrow> 'w \<Rightarrow> 'w" where
  "EmitResponse b e w = notify_all (responseObservers b) e w"

fun run_ws_conn :: "'w WebSocketConnectionObserver list \<Rightarrow> WebSocketConnectionEvent \<Rightarrow> nat \<Rightarrow> 'w \<Rightarrow> nat \<times> 'w" where
  "run_ws_conn [] e connID w = (connID, w)"
| "run_ws_conn (h # hs) e connID w = (let (id, w') = h e w in
     run_ws_conn hs e (if id \<noteq> 0 \<and> connID = 0 then id else connID) w')"

definition EmitWebSocketConnection :: "'w bus \<Rightarrow> WebSocketConnectionEvent \<Rightarrow> 'w \<Rightarrow> nat \<times> 'w" where
  "EmitWebSocketConnection b e w = run_ws_conn (wsConnObservers b) e 0 w"

text \<open>
  The frame loop: \<open>result\<close> starts with the event's payload, and a payload that is not \<open>nil\<close>
  replaces both the result and the payload of the event the next observer sees.
\<close>

fun run_ws_frame :: "'w WebSocketFrameObserver list \<Rightarrow> WebSocketFrameEvent \<Rightarrow> WebSocketFrameResult
    \<Rightarrow> 'w \<Rightarrow> WebSocketFrameResult \<times> 'w" where
  "run_ws_frame [] e result w = (result, w)"
| "run_ws_frame (h # hs) e result w = (let (r, w') = h e w in
     if fr_payload r \<noteq> None
     then run_ws_frame hs (e\<lparr>wf_payload := fr_payload r\<rparr>) (result\<lparr>fr_payload := fr_payload r\<rparr>) w'
     else run_ws_frame hs e result w')"

definition EmitWebSocketFrame :: "'w bus \<Rightarrow> WebSocketFrameEvent \<Rightarrow> 'w \<Rightarrow> WebSocketFrameResult \<times> 'w" where
  "EmitWebSocketFrame b e w = run_ws_frame (wsFrameObservers b) e \<lparr>fr_payload = wf_payload e\<rparr> w"

definition EmitPluginLog :: "'w bus \<Rightarrow> PluginLogEvent \<Rightarrow> 'w \<Rightarrow> 'w" where
  "EmitPluginLog b e w = notify_all (pluginLogObservers b) e w"

definition EmitSetPluginEnabled :: "'w bus \<Rightarrow> SetPluginEnabledEvent \<Rightarrow> 'w \<Rightarrow> 'w" where
  "EmitSetPluginEnabled b e w = notify_all (pluginEnabledObservers b) e w"

definition EmitLoadPlugin :: "'w bus \<Rightarrow> LoadPluginEvent \<Rightarrow> 'w \<Rightarrow> 'w" where
  "EmitLoadPlugin b e w = notify_all (pluginLoadObservers b) e w"

definition EmitProxyRestart :: "'w bus \<Rightarrow> ProxyRestartEvent \<Rightarrow> 'w \<Rightarrow> 'w" where
  "EmitProxyRestart b e w = notify_all (map fst (proxyCommandObservers b)) e w"

definition EmitProxyStop :: "'w bus \<Rightarrow> 'w \<Rightarrow> 'w" where
  "EmitProxyStop b w = notify_all (map (\<lambda>obs. \<lambda>_. snd obs) (proxyCommandObservers b)) () w"

subsection \<open>Lemmas\<close>

lemma notify_all_append: "notify_all (hs @ hs') e w = notify_all hs' e (notify_all hs e w)"
  by (induction hs arbitrary: w) auto

lemma run_middlewares_snoc:
  "\<not> rr_drop r \<Longrightarrow> run_middlewares (ms @ [m]) r w =
     (let (r', w') = run_middlewares ms r w in
      if rr_drop r' then (r', w')
      else m \<lparr>re_request = rr_request r', re_body = rr_reqbody r'\<rparr> w')"
proof (induction ms arbitrary: r w)
  case Nil
  then show ?case by (simp add: case_prod_beta prod_eq_iff)
next
  case (Cons a ms)
  then show ?case by (simp add: case_prod_beta)
qed

lemma run_ws_conn_snoc:
  "run_ws_conn (hs @ [h]) e i w = (let (i', w') = run_ws_conn hs e i w; (j, w'') = h e w' in
     (if i' = 0 then j else i', w''))"
  by (induction hs arbitrary: i w) (auto simp: case_prod_beta)

lemma run_ws_frame_snoc:
  "fr_payload r = wf_payload e \<Longrightarrow> run_ws_frame (hs @ [h]) e r w =
     (let (r', w') = run_ws_frame hs e r w;
          (q, w'') = h (e\<lparr>wf_payload := fr_payload r'\<rparr>) w'
      in (if fr_payload q \<noteq> None then r'\<lparr>fr_payload := fr_payload q\<rparr> else r', w''))"
proof (induction hs arbitrary: e r w)
  case Nil
  then show ?case by (simp add: case_prod_beta Let_def)
next
  case (Cons a hs)
  show ?case
  proof (cases "fr_payload (fst (a e w)) = None")
    case True
    with Cons show ?thesis by (simp add: case_prod_beta)
  next
    case False
    with Cons.IH [of "r\<lparr>fr_payload := fr_payload (fst (a e w))\<rparr>"
        "e\<lparr>wf_payload := fr_payload (fst (a e w))\<rparr>"]
    show ?thesis by (simp add: case_prod_beta)
  qed
qed

lemma run_ws_frame_not_nil:
  "fr_payload r \<noteq> None \<Longrightarrow> fr_payload (fst (run_ws_frame hs e r w)) \<noteq> None"
  by (induction hs arbitrary: e r w) (auto simp: case_prod_beta)

text \<open>Registering several handlers in a row, as the start of a project does.\<close>

fun register_all :: "'w handler list \<Rightarrow> 'w bus \<Rightarrow> bus_panic + 'w bus" where
  "register_all [] b = Inr b"
| "register_all (h # hs) b = (case Register h b of Inl p \<Rightarrow> Inl p | Inr b' \<Rightarrow> register_all hs b')"

text \<open>What a list of handlers contributes to one of the bus's lists.\<close>

definition methods :: "('w handler \<Rightarrow> 'm option) \<Rightarrow> 'w handler list \<Rightarrow> 'm list" where
  "methods f hs = concat (map (\<lambda>h. opt_list (f h)) hs)"

lemma methods_simps [simp]:
  "methods f [] = []" "methods f (h # hs) = opt_list (f h) @ methods f hs"
  by (simp_all add: methods_def)

lemma register_all_lists:
  "register_all hs b = Inr b' \<Longrightarrow>
     requestMiddlewares b' = requestMiddlewares b @ methods hd_request hs
   \<and> responseObservers b' = responseObservers b @ methods hd_response hs
   \<and> wsConnObservers b' = wsConnObservers b @ methods hd_ws_conn hs
   \<and> wsFrameObservers b' = wsFrameObservers b @ methods hd_ws_frame hs
   \<and> pluginLogObservers b' = pluginLogObservers b @ methods hd_plugin_log hs
   \<and> pluginEnabledObservers b' = pluginEnabledObservers b @ methods hd_plugin_enabled hs
   \<and> pluginLoadObservers b' = pluginLoadObservers b @ methods hd_plugin_load hs
   \<and> proxyCommandObservers b' = proxyCommandObservers b @ methods hd_proxy_command hs"
proof (induction hs arbitrary: b)
  case Nil
  then show ?case by simp
next
  case (Cons h hs)
  then obtain b1 where b1: "Register h b = Inr b1" "register_all hs b1 = Inr b'"
    by (auto split: sum.splits)
  note r = b1(1) [unfolded Register_def Let_def]
  from Cons.IH [OF b1(2)] r show ?case by (auto split: if_split_asm)
qed

subsection \<open>Middlewares that let every request pass\<close>

text \<open>
  The contract of a middleware that is switched off: in a world where \<open>I\<close> holds it returns the
  request and body it was given, does not drop, and keeps \<open>I\<close>. The intercept gate while
  intercept is off and the plugin engine with no enabled hook are such middlewares.
\<close>

definition pass_result :: "RequestEvent \<Rightarrow> RequestResult" where
  "pass_result e = \<lparr>rr_drop = False, rr_request = re_request e, rr_reqbody = re_body e\<rparr>"

locale transparent_middleware =
  fixes mw :: "'w RequestMiddleware" and I :: "'w \<Rightarrow> bool"
  assumes passes: "I w \<Longrightarrow> fst (mw e w) = pass_result e"
    and keeps: "I w \<Longrightarrow> I (snd (mw e w))"
begin

lemma run_transparent:
  assumes "I w" and "\<not> rr_drop r"
  shows "\<exists>w'. I w' \<and> run_middlewares (mw # mws) r w = run_middlewares mws r w'"
proof -
  let ?e = "\<lparr>re_request = rr_request r, re_body = rr_reqbody r\<rparr>"
  have "fst (mw ?e w) = r" using passes [OF assms(1), of ?e] assms(2) by (simp add: pass_result_def)
  moreover have "I (snd (mw ?e w))" by (rule keeps [OF assms(1)])
  ultimately show ?thesis using assms(2)
    by (intro exI [of _ "snd (mw ?e w)"]) (simp add: case_prod_beta)
qed

lemma emit_transparent:
  assumes "I w"
  shows "fst (EmitRequest (b\<lparr>requestMiddlewares := [mw]\<rparr>) e w) = pass_result e"
  using passes [OF assms, of e]
  by (cases e) (simp add: EmitRequest_def case_prod_beta pass_result_def)

end

lemma run_middlewares_transparent:
  "\<forall>m \<in> set ms. transparent_middleware m I \<Longrightarrow> I w \<Longrightarrow> \<not> rr_drop r \<Longrightarrow>
     fst (run_middlewares ms r w) = r \<and> I (snd (run_middlewares ms r w))"
proof (induction ms arbitrary: w)
  case (Cons m ms)
  then have "transparent_middleware m I" by simp
  from transparent_middleware.run_transparent [OF this Cons.prems(2,3)] obtain w'
    where "I w'" "run_middlewares (m # ms) r w = run_middlewares ms r w'" by blast
  with Cons show ?case by simp
qed simp

lemma emit_request_transparent:
  "\<forall>m \<in> set (requestMiddlewares b). transparent_middleware m I \<Longrightarrow> I w \<Longrightarrow>
     fst (EmitRequest b e w) = pass_result e \<and> I (snd (EmitRequest b e w))"
  unfolding EmitRequest_def pass_result_def by (rule run_middlewares_transparent) simp_all

subsection \<open>Frame observers that only look\<close>

text \<open>
  The contract of an observer that never changes a frame, such as the store, and the plugin engine
  while no script wants frames: in a world where \<open>I\<close> holds it hands back the payload it was given.
\<close>

locale frame_tap =
  fixes obs :: "'w WebSocketFrameObserver" and I :: "'w \<Rightarrow> bool"
  assumes same_payload: "I w \<Longrightarrow> fr_payload (fst (obs e w)) = wf_payload e"
    and keeps_world: "I w \<Longrightarrow> I (snd (obs e w))"
begin

lemma run_tap:
  assumes "I w" "fr_payload r = wf_payload e"
  shows "I (snd (obs e w)) \<and> run_ws_frame (obs # hs) e r w = run_ws_frame hs e r (snd (obs e w))"
proof -
  have "r = \<lparr>fr_payload = wf_payload e\<rparr>" using assms(2) by (cases r) simp
  then show ?thesis using same_payload [OF assms(1), of e] keeps_world [OF assms(1), of e]
    by (simp add: case_prod_beta)
qed

end

lemma run_ws_frame_taps:
  "\<forall>h \<in> set hs. frame_tap h I \<Longrightarrow> I w \<Longrightarrow> fr_payload r = wf_payload e \<Longrightarrow>
     fr_payload (fst (run_ws_frame hs e r w)) = wf_payload e \<and> I (snd (run_ws_frame hs e r w))"
proof (induction hs arbitrary: w)
  case (Cons h hs)
  then have "frame_tap h I" by simp
  from frame_tap.run_tap [OF this Cons.prems(2,3)] Cons show ?case by simp
qed simp

lemma emit_ws_frame_taps:
  "\<forall>h \<in> set (wsFrameObservers b). frame_tap h I \<Longrightarrow> I w \<Longrightarrow>
     fr_payload (fst (EmitWebSocketFrame b e w)) = wf_payload e \<and> I (snd (EmitWebSocketFrame b e w))"
  unfolding EmitWebSocketFrame_def by (rule run_ws_frame_taps) simp_all

section \<open>Properties of the bus\<close>

text \<open>
  \<open>EmitRequest\<close> is a left fold with short circuit over the middlewares in registration
  order: the last middleware runs after all the others, on the request and body they returned,
  and not at all once one of them has dropped the request, whose result is then returned. With
  no middleware the event passes through.
\<close>

theorem EmitRequest_order:
  "EmitRequest (b\<lparr>requestMiddlewares := ms @ [m]\<rparr>) e w =
     (let (r, w') = EmitRequest (b\<lparr>requestMiddlewares := ms\<rparr>) e w in
      if rr_drop r then (r, w')
      else m \<lparr>re_request = rr_request r, re_body = rr_reqbody r\<rparr> w')
   \<and> EmitRequest (b\<lparr>requestMiddlewares := []\<rparr>) e w = (pass_result e, w)"
  by (simp add: EmitRequest_def run_middlewares_snoc pass_result_def)

text \<open>
  \<open>EmitWebSocketFrame\<close> hands each observer the payload the observers before it settled on,
  and the last payload that is not \<open>nil\<close> wins; the frame's other fields reach every observer
  unchanged, and a payload that is there is never lost.
\<close>

theorem EmitWebSocketFrame_order:
  "EmitWebSocketFrame (b\<lparr>wsFrameObservers := hs @ [h]\<rparr>) e w =
     (let (r, w') = EmitWebSocketFrame (b\<lparr>wsFrameObservers := hs\<rparr>) e w;
          (q, w'') = h (e\<lparr>wf_payload := fr_payload r\<rparr>) w'
      in (\<lparr>fr_payload = (if fr_payload q \<noteq> None then fr_payload q else fr_payload r)\<rparr>, w''))
   \<and> fr_payload (fst (EmitWebSocketFrame (b\<lparr>wsFrameObservers := []\<rparr>) e w)) = wf_payload e
   \<and> fr_payload (fst (EmitWebSocketFrame b (e\<lparr>wf_payload := Some p\<rparr>) w)) \<in> range Some"
  using run_ws_frame_not_nil [of "\<lparr>fr_payload = Some p\<rparr>" "wsFrameObservers b" "e\<lparr>wf_payload := Some p\<rparr>" w]
  by (auto simp: EmitWebSocketFrame_def run_ws_frame_snoc case_prod_beta Let_def)

text \<open>
  \<open>EmitWebSocketConnection\<close> calls every observer and returns the first connection id that
  is not 0; once an id is found the later observers are still called but cannot change it.
\<close>

theorem EmitWebSocketConnection_first:
  "EmitWebSocketConnection (b\<lparr>wsConnObservers := hs @ [h]\<rparr>) e w =
     (let (i, w') = EmitWebSocketConnection (b\<lparr>wsConnObservers := hs\<rparr>) e w;
          (j, w'') = h e w'
      in (if i = 0 then j else i, w''))"
  by (simp add: EmitWebSocketConnection_def run_ws_conn_snoc)

text \<open>
  after any sequence of successful \<open>Register\<close> calls on a new bus, each handler list holds
  exactly the methods of the registered values that implement its interface, in registration
  order; a value that implements none makes \<open>Register\<close> panic.
\<close>

theorem Register_sequence:
  assumes "register_all hs NewBus = Inr b"
  shows "requestMiddlewares b = methods hd_request hs
   \<and> responseObservers b = methods hd_response hs
   \<and> wsConnObservers b = methods hd_ws_conn hs
   \<and> wsFrameObservers b = methods hd_ws_frame hs
   \<and> pluginLogObservers b = methods hd_plugin_log hs
   \<and> pluginEnabledObservers b = methods hd_plugin_enabled hs
   \<and> pluginLoadObservers b = methods hd_plugin_load hs
   \<and> proxyCommandObservers b = methods hd_proxy_command hs
   \<and> Register no_handler b = Inl NoHandlerInterface"
  using register_all_lists [OF assms] by (simp add: NewBus_def Register_def no_handler_def)

theorem Register_sequence_witness:
  "\<exists>b. register_all [RequestMiddlewareFunc (\<lambda>e (w :: nat). (pass_result e, Suc w)),
       ResponseObserverFunc (\<lambda>e w. w + 2)] NewBus = Inr b
     \<and> length (requestMiddlewares b) = 1 \<and> length (responseObservers b) = 1"
proof -
  let ?hs = "[RequestMiddlewareFunc (\<lambda>e (w :: nat). (pass_result e, Suc w)),
       ResponseObserverFunc (\<lambda>e w. w + 2)]"
  obtain b where b: "register_all ?hs NewBus = Inr b"
    by (simp add: Register_def RequestMiddlewareFunc_def ResponseObserverFunc_def no_handler_def)
  from Register_sequence [OF b] b show ?thesis
    by (auto simp: RequestMiddlewareFunc_def ResponseObserverFunc_def no_handler_def opt_list_def)
qed

end
