(* ===== verification/InterceptGate.thy ===== *)
theory InterceptGate
  imports Events
begin

text \<open>
  The intercept gate (\<open>internal/store/intercept.go\<close>) and its reader in the user interface
  (\<open>watchQueue\<close> of \<open>internal/ui/intercept.go\<close>), as a concurrent state machine.

  The state holds the gate's fields, every pending request made so far, and one program
  counter per goroutine that is inside \<open>Hold\<close>. A step is one atomic action of the code: a
  critical section of one of the mutexes, or one branch of a \<open>select\<close>. Which goroutine moves
  and which ready branch a \<open>select\<close> takes is left open: it is the argument of the step
  function. \<open>SetEnabled\<close> takes two steps, because it holds \<open>mu\<close> and \<open>bypassMu\<close> one after the
  other.

  Channels: \<open>sem\<close> is the number of tokens in a channel of capacity 1, \<open>queue\<close> the contents
  of a channel of capacity 1024, a bypass channel is a number, with the set of closed ones.
  The ghost field \<open>replied\<close> records every decision the user interface sent.
\<close>

subsection \<open>State\<close>

record Decision =
  d_forward :: bool
  d_request :: "http_request option"
  d_body :: string

text \<open>The reply channel has capacity 1; \<open>p_done\<close> says that the \<open>done\<close> channel is closed.\<close>

record PendingRequest =
  p_request :: "http_request option"
  p_body :: string
  p_reply :: "Decision option"
  p_done :: bool

definition newPendingRequest :: "http_request option \<Rightarrow> string \<Rightarrow> PendingRequest" where
  "newPendingRequest req body = \<lparr>p_request = req, p_body = body, p_reply = None, p_done = False\<rparr>"

definition Cancel :: "PendingRequest \<Rightarrow> PendingRequest" where
  "Cancel p = (if p_done p then p else p\<lparr>p_done := True\<rparr>)"

definition IsDone :: "PendingRequest \<Rightarrow> bool" where
  "IsDone p = p_done p"

text \<open>
  Where a goroutine is in \<open>Hold\<close>; the arguments are the locals it has by then: the captured
  bypass channel, then the pending request.
\<close>

datatype pc = PStart | PScope | PCapture | PSem nat | PRecheckEnabled nat | PRecheckBypass nat
  | PEnqueue nat nat | PWait nat nat | PDone "http_request option \<times> string \<times> bool" | PPanic

record goroutine =
  g_req :: "http_request option"
  g_body :: string
  g_pc :: pc

record gate =
  enabled :: bool
  queue :: "nat list"
  sem :: nat
  bypass :: nat
  bypassClosed :: bool
  scopeCheckFn :: "(string \<Rightarrow> bool) option"
  closed :: "nat set"
  next_chan :: nat
  setters :: "bool list"
  gate_panic :: bool
  pend :: "nat \<Rightarrow> PendingRequest"
  n_pend :: nat
  ui_todo :: "nat list"
  shown :: "nat option"
  gos :: "nat \<Rightarrow> goroutine option"
  replied :: "(nat \<times> Decision) list"

definition queue_cap :: nat where
  "queue_cap = 1024"

definition NewInterceptGate :: gate where
  "NewInterceptGate = \<lparr>enabled = False, queue = [], sem = 0, bypass = 0, bypassClosed = False,
     scopeCheckFn = None, closed = {}, next_chan = 1, setters = [], gate_panic = False,
     pend = (\<lambda>_. newPendingRequest None []), n_pend = 0, ui_todo = [], shown = None, gos = (\<lambda>_. None),
     replied = []\<rparr>"

subsection \<open>Steps of Hold\<close>

datatype branch = Comm | Byp

definition set_pc :: "nat \<Rightarrow> pc \<Rightarrow> gate \<Rightarrow> gate" where
  "set_pc g l s = s\<lparr>gos := (gos s)(g := map_option (\<lambda>x. x\<lparr>g_pc := l\<rparr>) (gos s g))\<rparr>"

text \<open>Returning the request unmodified.\<close>

definition pass :: "goroutine \<Rightarrow> pc" where
  "pass x = PDone (g_req x, g_body x, True)"

text \<open>\<open><-g.sem\<close>: blocks on an empty channel.\<close>

definition release_sem :: "gate \<Rightarrow> gate option" where
  "release_sem s = (if sem s = 0 then None else Some (s\<lparr>sem := sem s - 1\<rparr>))"

definition cancel_pending :: "nat \<Rightarrow> gate \<Rightarrow> gate" where
  "cancel_pending p s = s\<lparr>pend := (pend s)(p := Cancel (pend s p))\<rparr>"

text \<open>The host the scope filter sees.\<close>

definition filter_host :: "http_request \<Rightarrow> string" where
  "filter_host r = (case split_host_port (rq_host r) of Some (h, _) \<Rightarrow> h | None \<Rightarrow> rq_host r)"

definition step_scope :: "nat \<Rightarrow> goroutine \<Rightarrow> gate \<Rightarrow> gate option" where
  "step_scope g x s = Some (set_pc g (case scopeCheckFn s of
       None \<Rightarrow> PCapture
     | Some fn \<Rightarrow> (case g_req x of
         None \<Rightarrow> PPanic
       | Some r \<Rightarrow> if fn (filter_host r) then PCapture else pass x)) s)"

definition step_sem :: "nat \<Rightarrow> goroutine \<Rightarrow> nat \<Rightarrow> branch \<Rightarrow> gate \<Rightarrow> gate option" where
  "step_sem g x b br s = (case br of
       Comm \<Rightarrow> if sem s < 1 then Some (set_pc g (PRecheckEnabled b) (s\<lparr>sem := sem s + 1\<rparr>)) else None
     | Byp \<Rightarrow> if b \<in> closed s then Some (set_pc g (pass x) s) else None)"

definition step_recheck_bypass :: "nat \<Rightarrow> goroutine \<Rightarrow> nat \<Rightarrow> gate \<Rightarrow> gate option" where
  "step_recheck_bypass g x b s =
     (if b \<in> closed s then map_option (set_pc g (pass x)) (release_sem s)
      else Some (set_pc g (PEnqueue b (n_pend s))
        (s\<lparr>pend := (pend s)(n_pend s := newPendingRequest (g_req x) (g_body x)),
           n_pend := n_pend s + 1\<rparr>)))"

text \<open>Leaving through the bypass with a pending request in hand.\<close>

definition step_bypass_exit :: "nat \<Rightarrow> goroutine \<Rightarrow> nat \<Rightarrow> nat \<Rightarrow> gate \<Rightarrow> gate option" where
  "step_bypass_exit g x b p s = (if b \<in> closed s
     then map_option (set_pc g (pass x)) (release_sem (cancel_pending p s)) else None)"

definition step_enqueue :: "nat \<Rightarrow> goroutine \<Rightarrow> nat \<Rightarrow> nat \<Rightarrow> branch \<Rightarrow> gate \<Rightarrow> gate option" where
  "step_enqueue g x b p br s = (case br of
       Comm \<Rightarrow> if length (queue s) < queue_cap
         then Some (set_pc g (PWait b p) (s\<lparr>queue := queue s @ [p]\<rparr>)) else None
     | Byp \<Rightarrow> step_bypass_exit g x b p s)"

definition step_wait :: "nat \<Rightarrow> goroutine \<Rightarrow> nat \<Rightarrow> nat \<Rightarrow> branch \<Rightarrow> gate \<Rightarrow> gate option" where
  "step_wait g x b p br s = (case br of
       Comm \<Rightarrow> (case p_reply (pend s p) of
           None \<Rightarrow> None
         | Some d \<Rightarrow> map_option (set_pc g (PDone (d_request d, d_body d, d_forward d)))
             (release_sem (s\<lparr>pend := (pend s)(p := (pend s p)\<lparr>p_reply := None\<rparr>)\<rparr>)))
     | Byp \<Rightarrow> step_bypass_exit g x b p s)"

text \<open>One step of the goroutine \<open>g\<close> inside \<open>Hold\<close>.\<close>

definition Hold_step :: "nat \<Rightarrow> branch \<Rightarrow> gate \<Rightarrow> gate option" where
  "Hold_step g br s = (case gos s g of None \<Rightarrow> None | Some x \<Rightarrow> (case g_pc x of
       PStart \<Rightarrow> Some (set_pc g (if enabled s then PScope else pass x) s)
     | PScope \<Rightarrow> step_scope g x s
     | PCapture \<Rightarrow> Some (set_pc g (PSem (bypass s)) s)
     | PSem b \<Rightarrow> step_sem g x b br s
     | PRecheckEnabled b \<Rightarrow> (if enabled s then Some (set_pc g (PRecheckBypass b) s)
         else map_option (set_pc g (pass x)) (release_sem s))
     | PRecheckBypass b \<Rightarrow> step_recheck_bypass g x b s
     | PEnqueue b p \<Rightarrow> step_enqueue g x b p br s
     | PWait b p \<Rightarrow> step_wait g x b p br s
     | PDone _ \<Rightarrow> None
     | PPanic \<Rightarrow> None))"

text \<open>
  A proxy goroutine calls \<open>Hold\<close>; one that came back from an earlier call may call it again, as
  the goroutine of a keep-alive connection does.
\<close>

fun idle :: "goroutine option \<Rightarrow> bool" where
  "idle None = True"
| "idle (Some x) = (case g_pc x of PDone _ \<Rightarrow> True | _ \<Rightarrow> False)"

definition Hold_call :: "nat \<Rightarrow> http_request option \<Rightarrow> string \<Rightarrow> gate \<Rightarrow> gate option" where
  "Hold_call g req body s = (if idle (gos s g)
     then Some (s\<lparr>gos := (gos s)(g \<mapsto> \<lparr>g_req = req, g_body = body, g_pc = PStart\<rparr>)\<rparr>) else None)"

subsection \<open>Controls\<close>

text \<open>Closing a closed channel panics.\<close>

definition close_bypass :: "gate \<Rightarrow> gate" where
  "close_bypass s = (if bypass s \<in> closed s then s\<lparr>gate_panic := True\<rparr>
     else s\<lparr>closed := insert (bypass s) (closed s), bypassClosed := True\<rparr>)"

definition fresh_bypass :: "gate \<Rightarrow> gate" where
  "fresh_bypass s = s\<lparr>bypass := next_chan s, next_chan := next_chan s + 1, bypassClosed := False\<rparr>"

definition SetEnabled_flag :: "bool \<Rightarrow> gate \<Rightarrow> gate" where
  "SetEnabled_flag v s = s\<lparr>enabled := v, setters := v # setters s\<rparr>"

definition SetEnabled_bypass :: "bool \<Rightarrow> gate \<Rightarrow> gate option" where
  "SetEnabled_bypass v s = (if v \<notin> set (setters s) then None else
     let s = s\<lparr>setters := remove1 v (setters s)\<rparr> in
     Some (if \<not> v then (if \<not> bypassClosed s then close_bypass s else s) else fresh_bypass s))"

definition SetScopeFilter :: "(string \<Rightarrow> bool) option \<Rightarrow> gate \<Rightarrow> gate" where
  "SetScopeFilter fn s = s\<lparr>scopeCheckFn := fn\<rparr>"

definition ForwardAll :: "gate \<Rightarrow> gate" where
  "ForwardAll s = fresh_bypass (if \<not> bypassClosed s then close_bypass s else s)"

text \<open>
  The user interface. \<open>watchQueue\<close> takes the head of the queue on its own goroutine and, unless it
  was cancelled, schedules a callback; \<open>watch_callback\<close> is that callback on the main goroutine:
  it checks again and then shows the request.
\<close>

definition watchQueue :: "gate \<Rightarrow> gate option" where
  "watchQueue s = (case queue s of [] \<Rightarrow> None
     | p # q \<Rightarrow> Some (if IsDone (pend s p) then s\<lparr>queue := q\<rparr>
         else s\<lparr>queue := q, ui_todo := ui_todo s @ [p]\<rparr>))"

definition watch_callback :: "gate \<Rightarrow> gate option" where
  "watch_callback s = (case ui_todo s of [] \<Rightarrow> None
     | p # q \<Rightarrow> Some (if IsDone (pend s p) then s\<lparr>ui_todo := q\<rparr>
         else s\<lparr>ui_todo := q, shown := Some p\<rparr>))"

text \<open>\<open>old.Reply <- d\<close> for the request on display, which is then no longer on display.\<close>

definition send_reply :: "nat \<Rightarrow> Decision \<Rightarrow> gate \<Rightarrow> gate" where
  "send_reply p d s = s\<lparr>shown := None, replied := (p, d) # replied s,
     pend := (pend s)(p := (pend s p)\<lparr>p_reply := Some d\<rparr>)\<rparr>"

text \<open>
  The Forward and Drop buttons. \<open>edited\<close> is what \<open>parseRawRequest\<close> makes of the editor's text,
  \<open>None\<close> when it fails: the original is forwarded then.
\<close>

definition decide :: "bool \<Rightarrow> (http_request \<times> string) option \<Rightarrow> gate \<Rightarrow> gate option" where
  "decide forward edited s = (case shown s of None \<Rightarrow> None
     | Some p \<Rightarrow> let pending = pend s p in
         Some (send_reply p (if forward
           then (case edited of
               Some (req, body) \<Rightarrow> \<lparr>d_forward = True, d_request = Some req, d_body = body\<rparr>
             | None \<Rightarrow> \<lparr>d_forward = True, d_request = p_request pending, d_body = p_body pending\<rparr>)
           else \<lparr>d_forward = False, d_request = p_request pending, d_body = p_body pending\<rparr>) s))"

text \<open>
  Releasing what is on display, as the toggle (when switched off) and the Forward All button do.
\<close>

definition release_shown :: "gate \<Rightarrow> gate" where
  "release_shown s = (case shown s of None \<Rightarrow> s
     | Some p \<Rightarrow> send_reply p \<lparr>d_forward = True, d_request = p_request (pend s p),
         d_body = p_body (pend s p)\<rparr> s)"

text \<open>
  \<open>parseRawRequest\<close> of the same file; \<open>read\<close> is Go's \<open>http.ReadRequest\<close> together with the
  reading of the body.
\<close>

definition parseRawRequest :: "(string \<Rightarrow> (http_request \<times> string) option) \<Rightarrow> string \<Rightarrow> http_request
    \<Rightarrow> (http_request \<times> string) option" where
  "parseRawRequest read raw original = map_option (\<lambda>(req, body).
     (let req = req\<lparr>rq_url := (case (rq_url req, rq_url original) of
            (Some u, Some v) \<Rightarrow> Some (u\<lparr>u_scheme := u_scheme v, u_host := u_host v\<rparr>)
          | (u, _) \<Rightarrow> u)\<rparr>
      in (if rq_host req = [] then req\<lparr>rq_host := rq_host original\<rparr> else req, body))) (read raw)"

datatype action = ACall nat "http_request option" string | AGo nat branch
  | ASetFlag bool | ASetBypass bool | AScope "(string \<Rightarrow> bool) option" | AForwardAll
  | AWatch | ACallback | ADecide bool "(http_request \<times> string) option" | AReleaseShown

fun gate_step :: "action \<Rightarrow> gate \<Rightarrow> gate option" where
  "gate_step (ACall g req body) s = Hold_call g req body s"
| "gate_step (AGo g br) s = Hold_step g br s"
| "gate_step (ASetFlag v) s = Some (SetEnabled_flag v s)"
| "gate_step (ASetBypass v) s = SetEnabled_bypass v s"
| "gate_step (AScope fn) s = Some (SetScopeFilter fn s)"
| "gate_step AForwardAll s = Some (ForwardAll s)"
| "gate_step AWatch s = watchQueue s"
| "gate_step ACallback s = watch_callback s"
| "gate_step (ADecide forward edited) s = decide forward edited s"
| "gate_step AReleaseShown s = Some (release_shown s)"

fun gate_run :: "action list \<Rightarrow> gate \<Rightarrow> gate option" where
  "gate_run [] s = Some s"
| "gate_run (a # as) s = (case gate_step a s of None \<Rightarrow> None | Some t \<Rightarrow> gate_run as t)"

inductive gate_reachable :: "gate \<Rightarrow> bool" where
  start: "gate_reachable NewInterceptGate"
| step: "gate_reachable s \<Longrightarrow> gate_step a s = Some t \<Longrightarrow> gate_reachable t"

subsection \<open>Which goroutine holds the semaphore\<close>

fun holds :: "pc \<Rightarrow> bool" where
  "holds (PRecheckEnabled _) = True"
| "holds (PRecheckBypass _) = True"
| "holds (PEnqueue _ _) = True"
| "holds (PWait _ _) = True"
| "holds _ = False"

fun captured :: "pc \<Rightarrow> nat option" where
  "captured (PSem b) = Some b"
| "captured (PRecheckEnabled b) = Some b"
| "captured (PRecheckBypass b) = Some b"
| "captured (PEnqueue b _) = Some b"
| "captured (PWait b _) = Some b"
| "captured _ = None"

text \<open>The pending request a goroutine has in hand.\<close>

fun in_hand :: "pc \<Rightarrow> nat option" where
  "in_hand (PEnqueue _ p) = Some p"
| "in_hand (PWait _ p) = Some p"
| "in_hand _ = None"

definition holders :: "gate \<Rightarrow> nat set" where
  "holders s = {g. \<exists>x. gos s g = Some x \<and> holds (g_pc x)}"

lemma idle_Some: "idle (Some x) \<longleftrightarrow> (\<exists>r. g_pc x = PDone r)"
  by (simp split: pc.split)

lemma idle_not_inside:
  "idle (gos s g) \<Longrightarrow> gos s g = Some x \<Longrightarrow> \<not> holds (g_pc x) \<and> g_pc x \<noteq> PWait b p"
  by (cases "g_pc x") auto

definition sem_ok :: "gate \<Rightarrow> bool" where
  "sem_ok s = (holders s = {} \<and> sem s = 0 \<or> (\<exists>g. holders s = {g}) \<and> sem s = 1)"

named_theorems gate_simps

lemmas [gate_simps] = set_pc_def pass_def release_sem_def cancel_pending_def step_scope_def
  step_sem_def step_recheck_bypass_def step_bypass_exit_def step_enqueue_def step_wait_def
  Hold_call_def close_bypass_def fresh_bypass_def SetEnabled_flag_def SetEnabled_bypass_def
  SetScopeFilter_def ForwardAll_def watchQueue_def watch_callback_def send_reply_def decide_def
  release_shown_def Let_def newPendingRequest_def Cancel_def IsDone_def

text \<open>
  The shape of a \<open>Hold\<close> step: only the goroutine that moves changes its program counter, and
  the semaphore follows it.
\<close>

lemma Hold_step_gos:
  assumes "Hold_step g br s = Some t"
  shows "\<exists>x l. gos s g = Some x \<and> gos t = (gos s)(g \<mapsto> x\<lparr>g_pc := l\<rparr>)
    \<and> (holds (g_pc x) = holds l \<and> sem t = sem s
       \<or> holds (g_pc x) \<and> \<not> holds l \<and> sem s \<noteq> 0 \<and> sem t = sem s - 1
       \<or> \<not> holds (g_pc x) \<and> holds l \<and> sem s = 0 \<and> sem t = 1)"
proof -
  from assms obtain x where x: "gos s g = Some x"
    by (auto simp: Hold_step_def split: option.splits)
  show ?thesis
    using assms x
    by (cases "g_pc x"; cases br)
      (auto simp: Hold_step_def gate_simps split: option.splits if_splits)
qed

lemma holders_upd:
  "gos t = (gos s)(g \<mapsto> x) \<Longrightarrow>
     holders t = (if holds (g_pc x) then insert g (holders s) else holders s - {g})"
  by (auto simp: holders_def)

lemma other_steps_gos:
  assumes "gate_step a s = Some t" "\<forall>g br. a \<noteq> AGo g br" "\<forall>g r b. a \<noteq> ACall g r b"
  shows "gos t = gos s \<and> sem t = sem s"
  using assms by (cases a)
    (auto simp: gate_simps split: option.splits if_splits list.splits)

lemma gate_step_cases:
  assumes "gate_step a s = Some t"
  obtains (hold) g br where "a = AGo g br" "Hold_step g br s = Some t"
  | (call) g req body where "a = ACall g req body" "Hold_call g req body s = Some t"
  | (other) "gate_step a s = Some t" "\<forall>g br. a \<noteq> AGo g br" "\<forall>g r b. a \<noteq> ACall g r b"
  using assms by (cases a) auto

lemma sem_ok_step:
  assumes "sem_ok s" "gate_step a s = Some t"
  shows "sem_ok t"
  using assms(2)
proof (cases rule: gate_step_cases)
  case (hold g br)
  from Hold_step_gos [OF hold(2)] obtain x l where
    x: "gos s g = Some x" "gos t = (gos s)(g \<mapsto> x\<lparr>g_pc := l\<rparr>)" and
    sh: "holds (g_pc x) = holds l \<and> sem t = sem s
       \<or> holds (g_pc x) \<and> \<not> holds l \<and> sem s \<noteq> 0 \<and> sem t = sem s - 1
       \<or> \<not> holds (g_pc x) \<and> holds l \<and> sem s = 0 \<and> sem t = 1" by blast
  have g: "g \<in> holders s \<longleftrightarrow> holds (g_pc x)" using x(1) by (simp add: holders_def)
  show ?thesis
    using assms(1) sh g holders_upd [OF x(2)] by (auto simp: sem_ok_def)
next
  case (call g req body)
  then have "gos t = (gos s)(g \<mapsto> \<lparr>g_req = req, g_body = body, g_pc = PStart\<rparr>)" "sem t = sem s"
    "g \<notin> holders s"
    by (auto simp: Hold_call_def holders_def dest: idle_not_inside split: if_splits)
  with assms(1) show ?thesis
    using holders_upd [of t s g] by (auto simp: sem_ok_def)
next
  case other
  from other_steps_gos [OF other] assms(1) show ?thesis
    by (simp add: sem_ok_def holders_def)
qed

lemma reachable_sem_ok: "gate_reachable s \<Longrightarrow> sem_ok s"
proof (induction rule: gate_reachable.induct)
  case start
  then show ?case by (simp add: sem_ok_def holders_def NewInterceptGate_def)
next
  case (step s a t)
  then show ?case using sem_ok_step by blast
qed

lemma one_holder:
  assumes "sem_ok s" "gos s g = Some x" "holds (g_pc x)" "gos s g' = Some x'" "holds (g_pc x')"
  shows "g' = g"
proof -
  have "g \<in> holders s" "g' \<in> holders s" using assms by (auto simp: holders_def)
  with assms(1) show ?thesis by (auto simp: sem_ok_def)
qed

subsection \<open>The bypass channels\<close>

definition chan_ok :: "gate \<Rightarrow> bool" where
  "chan_ok s = (\<not> gate_panic s \<and> bypassClosed s = (bypass s \<in> closed s) \<and> bypass s < next_chan s
     \<and> (\<forall>c \<in> closed s. c < next_chan s)
     \<and> (\<forall>g x b. gos s g = Some x \<longrightarrow> captured (g_pc x) = Some b \<longrightarrow> b < next_chan s))"

lemma Hold_step_chan:
  assumes "Hold_step g br s = Some t" "gos s g = Some x"
  shows "closed t = closed s \<and> next_chan t = next_chan s \<and> bypass t = bypass s
    \<and> bypassClosed t = bypassClosed s \<and> gate_panic t = gate_panic s
    \<and> (\<exists>l. gos t = (gos s)(g \<mapsto> x\<lparr>g_pc := l\<rparr>)
        \<and> (captured l = None \<or> captured l = captured (g_pc x)
           \<or> g_pc x = PCapture \<and> captured l = Some (bypass s)))"
  using assms
  by (cases "g_pc x"; cases br)
    (auto simp: Hold_step_def gate_simps split: option.splits if_splits)

lemma chan_ok_step:
  assumes ok: "chan_ok s" and st: "gate_step a s = Some t"
  shows "chan_ok t"
  using st
proof (cases rule: gate_step_cases)
  case (hold g br)
  then obtain x where x: "gos s g = Some x" by (auto simp: Hold_step_def split: option.splits)
  from Hold_step_chan [OF hold(2) x] obtain l where
    t: "closed t = closed s" "next_chan t = next_chan s" "bypass t = bypass s"
      "bypassClosed t = bypassClosed s" "gate_panic t = gate_panic s"
      "gos t = (gos s)(g \<mapsto> x\<lparr>g_pc := l\<rparr>)" and
    c: "captured l = None \<or> captured l = captured (g_pc x)
       \<or> g_pc x = PCapture \<and> captured l = Some (bypass s)" by blast
  have "captured l = Some b \<Longrightarrow> b < next_chan s" for b
    using c ok x by (auto simp: chan_ok_def)
  then show ?thesis using ok by (auto simp: chan_ok_def t)
next
  case (call g req body)
  then show ?thesis using ok by (auto simp: Hold_call_def chan_ok_def split: if_splits)
next
  case other
  have g: "gos t = gos s" using other_steps_gos [OF other] by simp
  have "next_chan s \<le> next_chan t \<and> \<not> gate_panic t \<and> bypassClosed t = (bypass t \<in> closed t)
      \<and> bypass t < next_chan t \<and> (\<forall>c \<in> closed t. c < next_chan t)"
    using st ok other by (cases a)
      (auto simp: gate_simps chan_ok_def less_SucI split: option.splits if_splits list.splits)
  moreover have "captured (g_pc x) = Some b \<Longrightarrow> gos s h = Some x \<Longrightarrow> b < next_chan s" for h x b
    using ok unfolding chan_ok_def by blast
  ultimately show ?thesis unfolding chan_ok_def g by (meson less_le_trans)
qed

lemma reachable_chan_ok: "gate_reachable s \<Longrightarrow> chan_ok s"
proof (induction rule: gate_reachable.induct)
  case start
  then show ?case by (simp add: chan_ok_def NewInterceptGate_def)
next
  case (step s a t)
  then show ?case using chan_ok_step by blast
qed

subsection \<open>Pending requests\<close>

text \<open>The pending requests the user interface still has to deal with.\<close>

definition ui_list :: "gate \<Rightarrow> nat list" where
  "ui_list s = queue s @ ui_todo s @ (case shown s of None \<Rightarrow> [] | Some p \<Rightarrow> [p])"

definition owned :: "gate \<Rightarrow> goroutine \<Rightarrow> nat \<Rightarrow> bool" where
  "owned s x p = (p < n_pend s \<and> p_request (pend s p) = g_req x \<and> p_body (pend s p) = g_body x
     \<and> \<not> p_done (pend s p))"

text \<open>What the state says of the pending request of a goroutine inside \<open>Hold\<close>.\<close>

definition go_ok :: "gate \<Rightarrow> goroutine \<Rightarrow> bool" where
  "go_ok s x = (case g_pc x of
       PEnqueue b p \<Rightarrow> owned s x p \<and> p \<notin> set (ui_list s) \<and> p_reply (pend s p) = None
     | PWait b p \<Rightarrow> owned s x p \<and> (if p \<in> set (ui_list s) then p_reply (pend s p) = None
         else \<exists>d. p_reply (pend s p) = Some d \<and> (p, d) \<in> set (replied s))
     | PDone r \<Rightarrow> r = (g_req x, g_body x, True) \<or> (\<exists>p d. (p, d) \<in> set (replied s)
         \<and> p_request (pend s p) = g_req x \<and> p_body (pend s p) = g_body x
         \<and> r = (d_request d, d_body d, d_forward d))
     | _ \<Rightarrow> True)"

definition waits :: "gate \<Rightarrow> nat \<Rightarrow> bool" where
  "waits s p = (\<exists>g x b. gos s g = Some x \<and> g_pc x = PWait b p)"

definition reply_ok :: "gate \<Rightarrow> nat \<times> Decision \<Rightarrow> bool" where
  "reply_ok s r = (fst r < n_pend s \<and> (\<not> d_forward (snd r) \<longrightarrow>
     d_request (snd r) = p_request (pend s (fst r)) \<and> d_body (snd r) = p_body (pend s (fst r))))"

definition pend_ok :: "gate \<Rightarrow> bool" where
  "pend_ok s = ((\<forall>g x. gos s g = Some x \<longrightarrow> go_ok s x)
     \<and> distinct (ui_list s)
     \<and> (\<forall>p \<in> set (ui_list s). p < n_pend s \<and> (p_done (pend s p) \<or> waits s p))
     \<and> (\<forall>r \<in> set (replied s). reply_ok s r))"

text \<open>The identity of a pending request never changes.\<close>

definition same_pend :: "gate \<Rightarrow> gate \<Rightarrow> bool" where
  "same_pend s t = (n_pend s \<le> n_pend t \<and> (\<forall>p < n_pend s.
     p_request (pend t p) = p_request (pend s p) \<and> p_body (pend t p) = p_body (pend s p)))"

lemma gate_step_same_pend: "gate_step a s = Some t \<Longrightarrow> same_pend s t"
proof (erule gate_step_cases)
  fix g br assume h: "Hold_step g br s = Some t"
  then obtain x where "gos s g = Some x" by (auto simp: Hold_step_def split: option.splits)
  with h show "same_pend s t"
    by (cases "g_pc x"; cases br)
      (auto simp: Hold_step_def gate_simps same_pend_def split: option.splits if_splits)
next
  fix g req body assume "Hold_call g req body s = Some t"
  then show "same_pend s t" by (auto simp: Hold_call_def same_pend_def split: if_splits)
next
  assume "gate_step a s = Some t" "\<forall>g br. a \<noteq> AGo g br" "\<forall>g r b. a \<noteq> ACall g r b"
  then show "same_pend s t"
    by (cases a) (auto simp: gate_simps same_pend_def split: option.splits if_splits list.splits)
qed

lemma gate_step_replied: "gate_step a s = Some t \<Longrightarrow> set (replied s) \<subseteq> set (replied t)"
proof (erule gate_step_cases)
  fix g br assume h: "Hold_step g br s = Some t"
  then obtain x where "gos s g = Some x" by (auto simp: Hold_step_def split: option.splits)
  with h show "set (replied s) \<subseteq> set (replied t)"
    by (cases "g_pc x"; cases br)
      (auto simp: Hold_step_def gate_simps split: option.splits if_splits)
next
  fix g req body assume "Hold_call g req body s = Some t"
  then show "set (replied s) \<subseteq> set (replied t)" by (auto simp: Hold_call_def split: if_splits)
next
  assume "gate_step a s = Some t" "\<forall>g br. a \<noteq> AGo g br" "\<forall>g r b. a \<noteq> ACall g r b"
  then show "set (replied s) \<subseteq> set (replied t)"
    by (cases a) (auto simp: gate_simps split: option.splits if_splits list.splits)
qed

lemma reply_ok_mono:
  "same_pend s t \<Longrightarrow> reply_ok s r \<Longrightarrow> reply_ok t r"
  by (cases r) (auto simp: reply_ok_def same_pend_def)

text \<open>A goroutine without a pending request in hand keeps its invariant in every step.\<close>

lemma go_ok_frame:
  assumes "go_ok s x" "same_pend s t" "set (replied s) \<subseteq> set (replied t)"
    "\<forall>r \<in> set (replied s). reply_ok s r" "in_hand (g_pc x) = None"
  shows "go_ok t x"
proof (cases "g_pc x")
  case (PDone r)
  show ?thesis
  proof (cases "r = (g_req x, g_body x, True)")
    case False
    then obtain p d where d: "(p, d) \<in> set (replied s)" "p_request (pend s p) = g_req x"
      "p_body (pend s p) = g_body x" "r = (d_request d, d_body d, d_forward d)"
      using assms(1) PDone by (auto simp: go_ok_def)
    then have "p < n_pend s" using assms(4) by (force simp: reply_ok_def)
    with d assms(2,3) have "(p, d) \<in> set (replied t) \<and> p_request (pend t p) = g_req x
        \<and> p_body (pend t p) = g_body x \<and> r = (d_request d, d_body d, d_forward d)"
      by (auto simp: same_pend_def)
    then show ?thesis unfolding go_ok_def PDone by auto
  qed (simp add: go_ok_def PDone)
qed (use assms in \<open>auto simp: go_ok_def\<close>)

lemma in_hand_holds: "in_hand l \<noteq> None \<Longrightarrow> holds l"
  by (cases l) auto

lemma go_ok_cong:
  assumes "pend t = pend s" "n_pend t = n_pend s" "queue t = queue s" "ui_todo t = ui_todo s"
    "shown t = shown s" "replied t = replied s"
  shows "go_ok t x = go_ok s x"
  using assms by (simp add: go_ok_def owned_def ui_list_def cong: pc.case_cong)

text \<open>What a goroutine outside the semaphore does to the state.\<close>

lemma Hold_step_outside:
  assumes "Hold_step g br s = Some t" "gos s g = Some x" "\<not> holds (g_pc x)"
  shows "pend t = pend s \<and> n_pend t = n_pend s \<and> queue t = queue s \<and> ui_todo t = ui_todo s
    \<and> shown t = shown s \<and> replied t = replied s
    \<and> (\<exists>l. gos t = (gos s)(g \<mapsto> x\<lparr>g_pc := l\<rparr>) \<and> in_hand l = None
        \<and> (\<forall>r. l = PDone r \<longrightarrow> r = (g_req x, g_body x, True)))"
  using assms
  by (cases "g_pc x"; cases br)
    (auto simp: Hold_step_def gate_simps split: option.splits if_splits)

text \<open>And one that holds it: the others cannot have a pending request in hand.\<close>

lemma Hold_step_inside:
  assumes st: "Hold_step g br s = Some t" and x: "gos s g = Some x" and h: "holds (g_pc x)"
    and ok: "go_ok s x" and ui: "\<forall>p \<in> set (ui_list s). p < n_pend s" and d: "distinct (ui_list s)"
  shows "gos t = (gos s)(g \<mapsto> x\<lparr>g_pc := g_pc (the (gos t g))\<rparr>) \<and> go_ok t (the (gos t g))
    \<and> distinct (ui_list t) \<and> replied t = replied s
    \<and> (\<forall>p \<in> set (ui_list t). p < n_pend t
        \<and> (p \<in> set (ui_list s) \<and> p_done (pend s p) \<longrightarrow> p_done (pend t p))
        \<and> (p \<notin> set (ui_list s) \<longrightarrow> (\<exists>b. g_pc (the (gos t g)) = PWait b p))
        \<and> (p \<in> set (ui_list s) \<longrightarrow> (\<forall>b. g_pc x = PWait b p \<longrightarrow> p_done (pend t p))))"
proof (cases "g_pc x")
  case (PRecheckEnabled b)
  with st x ui d show ?thesis
    by (auto simp: Hold_step_def gate_simps go_ok_def ui_list_def split: if_splits)
next
  case (PRecheckBypass b)
  with st x ui d show ?thesis
    by (auto simp: Hold_step_def gate_simps go_ok_def ui_list_def owned_def less_SucI
      split: if_splits)
next
  case (PEnqueue b p)
  have own: "owned s x p" "p \<notin> set (ui_list s)" "p_reply (pend s p) = None"
    using ok PEnqueue by (auto simp: go_ok_def)
  show ?thesis
  proof (cases br)
    case Comm
    then have t: "t = set_pc g (PWait b p) (s\<lparr>queue := queue s @ [p]\<rparr>)"
      using st x PEnqueue by (simp add: Hold_step_def step_enqueue_def split: if_splits)
    have u: "set (ui_list t) = insert p (set (ui_list s))" "distinct (ui_list t)"
      using own(2) d by (auto simp: t ui_list_def set_pc_def)
    show ?thesis unfolding u(1) using u own ui x PEnqueue
      by (auto simp: t set_pc_def go_ok_def owned_def)
  next
    case Byp
    then have t: "t = set_pc g (pass x) (cancel_pending p s\<lparr>sem := sem s - 1\<rparr>)"
      using st x PEnqueue
      by (auto simp: Hold_step_def step_enqueue_def step_bypass_exit_def release_sem_def
        cancel_pending_def split: if_splits)
    have u: "ui_list t = ui_list s" by (simp add: t ui_list_def set_pc_def cancel_pending_def)
    show ?thesis unfolding u using d own ui x PEnqueue
      by (auto simp: t set_pc_def cancel_pending_def Cancel_def go_ok_def pass_def)
  qed
next
  case (PWait b p)
  have own: "owned s x p" "p \<notin> set (ui_list s) \<Longrightarrow>
      \<exists>d. p_reply (pend s p) = Some d \<and> (p, d) \<in> set (replied s)"
    "p \<in> set (ui_list s) \<Longrightarrow> p_reply (pend s p) = None"
    using ok PWait by (auto simp: go_ok_def)
  show ?thesis
  proof (cases br)
    case Comm
    then obtain r where r: "p_reply (pend s p) = Some r" and
      t: "t = set_pc g (PDone (d_request r, d_body r, d_forward r))
            (s\<lparr>pend := (pend s)(p := (pend s p)\<lparr>p_reply := None\<rparr>), sem := sem s - 1\<rparr>)"
      using st x PWait
      by (auto simp: Hold_step_def step_wait_def release_sem_def split: if_splits option.splits)
    have u: "ui_list t = ui_list s" by (simp add: t ui_list_def set_pc_def)
    have n: "p \<notin> set (ui_list s)" "(p, r) \<in> set (replied s)" using own r by auto
    have "go_ok t (the (gos t g))"
      using n(2) own(1) x unfolding go_ok_def by (auto simp: t set_pc_def owned_def)
    then show ?thesis unfolding u using d n ui x PWait by (auto simp: t set_pc_def)
  next
    case Byp
    then have t: "t = set_pc g (pass x) (cancel_pending p s\<lparr>sem := sem s - 1\<rparr>)"
      using st x PWait
      by (auto simp: Hold_step_def step_wait_def step_bypass_exit_def release_sem_def
        cancel_pending_def split: if_splits)
    have u: "ui_list t = ui_list s" by (simp add: t ui_list_def set_pc_def cancel_pending_def)
    show ?thesis unfolding u using d own ui x PWait
      by (auto simp: t set_pc_def cancel_pending_def Cancel_def go_ok_def pass_def)
  qed
qed (use h in auto)

lemma pend_ok_hold:
  assumes ok: "pend_ok s" and sem: "sem_ok s" and st: "Hold_step g br s = Some t"
  shows "pend_ok t"
proof -
  have step: "gate_step (AGo g br) s = Some t" using st by simp
  note same = gate_step_same_pend [OF step] and rep = gate_step_replied [OF step]
  obtain x where x: "gos s g = Some x"
    using st by (auto simp: Hold_step_def split: option.splits)
  have go: "\<And>h y. gos s h = Some y \<Longrightarrow> go_ok s y" and d: "distinct (ui_list s)" and
    ui: "\<And>p. p \<in> set (ui_list s) \<Longrightarrow> p < n_pend s \<and> (p_done (pend s p) \<or> waits s p)" and
    ro: "\<forall>r \<in> set (replied s). reply_ok s r"
    using ok by (auto simp: pend_ok_def)
  show ?thesis
  proof (cases "holds (g_pc x)")
    case False
    from Hold_step_outside [OF st x False] obtain l where
      eq: "pend t = pend s" "n_pend t = n_pend s" "queue t = queue s" "ui_todo t = ui_todo s"
        "shown t = shown s" "replied t = replied s" and
      t: "gos t = (gos s)(g \<mapsto> x\<lparr>g_pc := l\<rparr>)" "in_hand l = None" and
      r: "\<forall>r. l = PDone r \<longrightarrow> r = (g_req x, g_body x, True)" by blast
    have u: "ui_list t = ui_list s" by (simp add: ui_list_def eq)
    have "go_ok t (x\<lparr>g_pc := l\<rparr>)" using t(2) r by (cases l) (auto simp: go_ok_def)
    then have g': "gos t h = Some y \<Longrightarrow> go_ok t y" for h y
      using go go_ok_cong [of t s, OF eq] by (auto simp: t split: if_splits)
    have "waits s p \<Longrightarrow> waits t p" for p
      using False x by (auto simp: waits_def t) (metis holds.simps(4) option.inject)
    with ui have "p \<in> set (ui_list s) \<Longrightarrow> p < n_pend s \<and> (p_done (pend s p) \<or> waits t p)" for p
      by blast
    with g' d ro show ?thesis by (auto simp: pend_ok_def u eq reply_ok_def)
  next
    case True
    from Hold_step_inside [OF st x True go [OF x] _ d] ui
    have t: "gos t = (gos s)(g \<mapsto> x\<lparr>g_pc := g_pc (the (gos t g))\<rparr>)" "go_ok t (the (gos t g))"
      "distinct (ui_list t)" "replied t = replied s" and
      ui': "\<And>p. p \<in> set (ui_list t) \<Longrightarrow> p < n_pend t
        \<and> (p \<in> set (ui_list s) \<and> p_done (pend s p) \<longrightarrow> p_done (pend t p))
        \<and> (p \<notin> set (ui_list s) \<longrightarrow> (\<exists>b. g_pc (the (gos t g)) = PWait b p))
        \<and> (p \<in> set (ui_list s) \<longrightarrow> (\<forall>b. g_pc x = PWait b p \<longrightarrow> p_done (pend t p)))"
      by blast+
    have g': "go_ok t y" if y: "gos t h = Some y" for h y
    proof (cases "h = g")
      case False
      then have y: "gos s h = Some y" using y by (subst (asm) t(1)) simp
      have "in_hand (g_pc y) = None"
        using one_holder [OF sem x True y] in_hand_holds False by blast
      then show ?thesis using go_ok_frame [OF go [OF y] same rep ro] by simp
    qed (use y t(2) in simp)
    have "p_done (pend t p) \<or> waits t p" if p: "p \<in> set (ui_list t)" for p
    proof (cases "p \<in> set (ui_list s) \<and> waits s p")
      case True
      then obtain h y b where y: "gos s h = Some y" "g_pc y = PWait b p" by (auto simp: waits_def)
      with one_holder [OF sem x \<open>holds (g_pc x)\<close> y(1)] have "h = g" by simp
      with y x ui' [OF p] True show ?thesis by auto
    next
      case False
      with ui ui' [OF p] have "p_done (pend t p) \<or> (\<exists>b. g_pc (the (gos t g)) = PWait b p)" by blast
      then show ?thesis unfolding waits_def by (metis t(1) fun_upd_same option.sel)
    qed
    with g' t(3,4) ui' ro reply_ok_mono [OF same] show ?thesis by (auto simp: pend_ok_def)
  qed
qed

text \<open>Dropping a finished request from the user interface's lists, or reordering them.\<close>

lemma go_ok_ui:
  assumes "go_ok s x" "pend t = pend s" "n_pend t = n_pend s" "replied t = replied s"
    "set (ui_list t) \<subseteq> set (ui_list s)"
    "\<forall>p \<in> set (ui_list s). p \<notin> set (ui_list t) \<longrightarrow> p_done (pend s p)"
  shows "go_ok t x"
proof (cases "g_pc x")
  case (PWait b p)
  with assms have "p \<in> set (ui_list t) \<longleftrightarrow> p \<in> set (ui_list s)"
    by (auto simp: go_ok_def owned_def)
  with PWait assms show ?thesis by (simp add: go_ok_def owned_def)
qed (use assms in \<open>auto simp: go_ok_def owned_def\<close>)

lemma pend_ok_ui:
  assumes "pend_ok s" "pend t = pend s" "n_pend t = n_pend s" "replied t = replied s"
    "gos t = gos s" "distinct (ui_list t)" "set (ui_list t) \<subseteq> set (ui_list s)"
    "\<forall>p \<in> set (ui_list s). p \<notin> set (ui_list t) \<longrightarrow> p_done (pend s p)"
  shows "pend_ok t"
proof -
  have "go_ok t x" if "gos t h = Some x" for h x
    using that assms go_ok_ui [of s x t] by (auto simp: pend_ok_def)
  moreover have "waits t p = waits s p" for p by (simp add: waits_def assms)
  ultimately show ?thesis using assms unfolding pend_ok_def reply_ok_def by auto
qed

lemma watchQueue_ui:
  assumes "pend_ok s" "watchQueue s = Some t"
  shows "pend t = pend s \<and> n_pend t = n_pend s \<and> replied t = replied s \<and> gos t = gos s
    \<and> distinct (ui_list t) \<and> set (ui_list t) \<subseteq> set (ui_list s)
    \<and> (\<forall>p \<in> set (ui_list s). p \<notin> set (ui_list t) \<longrightarrow> p_done (pend s p))"
  using assms by (auto simp: watchQueue_def IsDone_def pend_ok_def ui_list_def
    split: list.splits if_splits option.splits)

lemma one_live:
  assumes "pend_ok s" "sem_ok s" "p \<in> set (ui_list s)" "q \<in> set (ui_list s)"
    "\<not> p_done (pend s p)" "\<not> p_done (pend s q)"
  shows "p = q"
proof -
  from assms have "waits s p" "waits s q" by (auto simp: pend_ok_def)
  then obtain g x b h y c where w: "gos s g = Some x" "g_pc x = PWait b p"
    "gos s h = Some y" "g_pc y = PWait c q" by (auto simp: waits_def)
  then have "h = g" using one_holder [OF assms(2), of g x h y] by simp
  with w show ?thesis by simp
qed

lemma watch_callback_ui:
  assumes ok: "pend_ok s" "sem_ok s" and st: "watch_callback s = Some t"
  shows "pend t = pend s \<and> n_pend t = n_pend s \<and> replied t = replied s \<and> gos t = gos s
    \<and> distinct (ui_list t) \<and> set (ui_list t) \<subseteq> set (ui_list s)
    \<and> (\<forall>p \<in> set (ui_list s). p \<notin> set (ui_list t) \<longrightarrow> p_done (pend s p))"
proof -
  from st obtain p q where l: "ui_todo s = p # q" and
    t: "t = (if IsDone (pend s p) then s\<lparr>ui_todo := q\<rparr> else s\<lparr>ui_todo := q, shown := Some p\<rparr>)"
    by (auto simp: watch_callback_def split: list.splits)
  have d: "distinct (ui_list s)" using ok by (simp add: pend_ok_def)
  show ?thesis
  proof (cases "p_done (pend s p) \<or> shown s = None")
    case True
    then show ?thesis using d l by (auto simp: t ui_list_def IsDone_def split: option.splits)
  next
    case False
    then obtain r where r: "shown s = Some r" by auto
    have "r \<noteq> p" using d l r by (auto simp: ui_list_def)
    then have "p_done (pend s r)"
      using one_live [OF ok, of p r] False l r by (auto simp: ui_list_def)
    then show ?thesis using d l r False by (auto simp: t ui_list_def IsDone_def)
  qed
qed

lemma send_reply_ok:
  assumes ok: "pend_ok s" and sh: "shown s = Some p" and t: "t = send_reply p r s"
    and r: "\<not> d_forward r \<Longrightarrow> d_request r = p_request (pend s p) \<and> d_body r = p_body (pend s p)"
  shows "pend_ok t"
proof -
  have pin: "p \<in> set (ui_list s)" by (simp add: ui_list_def sh)
  have n: "p < n_pend s" "distinct (ui_list s)" using ok pin by (auto simp: pend_ok_def)
  have same: "same_pend s t" by (auto simp: t send_reply_def same_pend_def)
  have rep: "set (replied s) \<subseteq> set (replied t)" by (auto simp: t send_reply_def)
  have ro: "\<forall>r \<in> set (replied s). reply_ok s r" using ok by (simp add: pend_ok_def)
  have u: "set (ui_list t) = set (ui_list s) - {p}" "distinct (ui_list t)"
    using n(2) by (auto simp: t send_reply_def ui_list_def sh)
  have g: "go_ok t x" if x: "gos t h = Some x" for h x
  proof -
    have s: "go_ok s x" using x ok by (auto simp: t send_reply_def pend_ok_def)
    show ?thesis
    proof (cases "in_hand (g_pc x) = None")
      case True
      then show ?thesis using go_ok_frame [OF s same rep ro] by simp
    next
      case False
      then obtain b q where "g_pc x = PEnqueue b q \<or> g_pc x = PWait b q"
        by (cases "g_pc x") auto
      then show ?thesis using s pin unfolding go_ok_def
        by (elim disjE) (auto simp: u(1), auto simp: t send_reply_def owned_def)
    qed
  qed
  have "waits t q = waits s q" for q by (simp add: waits_def t send_reply_def)
  then have "\<forall>q \<in> set (ui_list t). q < n_pend t \<and> (p_done (pend t q) \<or> waits t q)"
    using ok unfolding u(1) by (auto simp: pend_ok_def t send_reply_def)
  moreover have "\<forall>x \<in> set (replied t). reply_ok t x"
    using ro r n(1) by (auto simp: t send_reply_def reply_ok_def)
  ultimately show ?thesis using g u(2) unfolding pend_ok_def by blast
qed

lemma release_shown_eq:
  "release_shown s = (case decide True None s of None \<Rightarrow> s | Some t \<Rightarrow> t)"
  by (simp add: release_shown_def decide_def Let_def split: option.split)

lemma decide_shape:
  assumes "decide fwd edited s = Some t"
  shows "\<exists>p r. shown s = Some p \<and> t = send_reply p r s \<and> d_forward r = fwd
    \<and> (d_request r = p_request (pend s p) \<and> d_body r = p_body (pend s p)
       \<or> fwd \<and> (\<exists>e. edited = Some e \<and> d_request r = Some (fst e) \<and> d_body r = snd e))"
  using assms
  by (cases fwd; cases edited) (auto simp: decide_def Let_def split: option.splits)

lemma decide_ok: "pend_ok s \<Longrightarrow> decide fwd edited s = Some t \<Longrightarrow> pend_ok t"
  using decide_shape [of fwd edited s t] send_reply_ok [of s _ t] by blast

lemma pend_ok_step:
  assumes ok: "pend_ok s" and sem: "sem_ok s" and st: "gate_step a s = Some t"
  shows "pend_ok t"
  using st
proof (cases rule: gate_step_cases)
  case (hold g br)
  then show ?thesis using pend_ok_hold ok sem by blast
next
  case (call g req body)
  then have t: "idle (gos s g)" "t = s\<lparr>gos := (gos s)(g \<mapsto> \<lparr>g_req = req, g_body = body, g_pc = PStart\<rparr>)\<rparr>"
    by (auto simp: Hold_call_def split: if_splits)
  have "waits s p \<Longrightarrow> waits t p" for p using t(2) idle_not_inside [OF t(1)] unfolding waits_def by auto metis
  moreover have "go_ok t x = go_ok s x" for x by (rule go_ok_cong) (simp_all add: t)
  moreover have "go_ok s \<lparr>g_req = req, g_body = body, g_pc = PStart\<rparr>" by (simp add: go_ok_def)
  ultimately show ?thesis using ok t by (auto simp: pend_ok_def ui_list_def reply_ok_def)
next
  case other
  have "a = AWatch \<Longrightarrow> ?thesis"
    using pend_ok_ui [OF ok] watchQueue_ui [OF ok] st by simp
  moreover have "a = ACallback \<Longrightarrow> ?thesis"
    using pend_ok_ui [OF ok] watch_callback_ui [OF ok sem] st by simp
  moreover have "a = ADecide fwd ed \<Longrightarrow> ?thesis" for fwd ed
    using decide_ok [OF ok] st by simp
  moreover have "a = AReleaseShown \<Longrightarrow> ?thesis"
    using decide_ok [OF ok] ok st by (auto simp: release_shown_eq split: option.splits)
  moreover have "?thesis" if "a \<notin> {AWatch, ACallback, AReleaseShown}" "\<And>f e. a \<noteq> ADecide f e"
  proof -
    have "pend t = pend s \<and> n_pend t = n_pend s \<and> queue t = queue s \<and> ui_todo t = ui_todo s
      \<and> shown t = shown s \<and> replied t = replied s \<and> gos t = gos s"
      using st other that by (cases a)
        (auto simp: gate_simps split: if_splits)
    then show ?thesis using ok
      by (intro pend_ok_ui [OF ok]) (auto simp: ui_list_def pend_ok_def)
  qed
  ultimately show ?thesis by (cases a) (use other in auto)
qed

lemma reachable_pend_ok: "gate_reachable s \<Longrightarrow> pend_ok s"
proof (induction rule: gate_reachable.induct)
  case start
  then show ?case by (simp add: pend_ok_def ui_list_def NewInterceptGate_def)
next
  case (step s a t)
  then show ?case using pend_ok_step reachable_sem_ok by blast
qed

subsection \<open>Hold as a call\<close>

definition returned :: "nat \<Rightarrow> gate \<Rightarrow> (http_request option \<times> string \<times> bool) option" where
  "returned g s = (case gos s g of None \<Rightarrow> None
     | Some x \<Rightarrow> (case g_pc x of PDone r \<Rightarrow> Some r | _ \<Rightarrow> None))"

text \<open>
  The goroutine \<open>g\<close> runs by itself until it blocks, the longest way through \<open>Hold\<close> being eight
  steps; a \<open>select\<close> takes its communication when that is ready.
\<close>

fun run_alone :: "nat \<Rightarrow> nat \<Rightarrow> gate \<Rightarrow> gate" where
  "run_alone 0 g s = s"
| "run_alone (Suc n) g s = (case Hold_step g Comm s of Some t \<Rightarrow> run_alone n g t
     | None \<Rightarrow> (case Hold_step g Byp s of Some t \<Rightarrow> run_alone n g t | None \<Rightarrow> s))"

definition Hold_alone :: "nat \<Rightarrow> http_request option \<Rightarrow> string \<Rightarrow> gate
    \<Rightarrow> (http_request option \<times> string \<times> bool) option \<times> gate" where
  "Hold_alone g req body s = (case Hold_call g req body s of None \<Rightarrow> (None, s)
     | Some t \<Rightarrow> (let t = run_alone 8 g t in (returned g t, t)))"

text \<open>
  The adapter \<open>HandleRequest\<close> of goroutine \<open>g\<close>; it has no result while \<open>Hold\<close> blocks.
\<close>

definition HandleRequest :: "nat \<Rightarrow> gate RequestMiddleware" where
  "HandleRequest g e s = (case Hold_alone g (re_request e) (re_body e) s of
       (Some (req, body, forward), t) \<Rightarrow>
         (\<lparr>rr_drop = \<not> forward, rr_request = req, rr_reqbody = body\<rparr>, t)
     | (None, t) \<Rightarrow> (undefined, t))"

definition gate_off :: "nat \<Rightarrow> gate \<Rightarrow> bool" where
  "gate_off g s = (\<not> enabled s \<and> idle (gos s g))"

lemma run_alone_done:
  "gos s g = Some x \<Longrightarrow> g_pc x = PDone r \<Longrightarrow> run_alone n g s = s"
  by (cases n) (simp_all add: Hold_step_def)

lemma run_alone_step: "Hold_step g Comm s = Some t \<Longrightarrow> run_alone (Suc n) g s = run_alone n g t"
  by simp

lemma Hold_alone_off:
  assumes "gate_off g s"
  shows "Hold_alone g req body s = (Some (req, body, True),
    s\<lparr>gos := (gos s)(g \<mapsto> \<lparr>g_req = req, g_body = body, g_pc = PDone (req, body, True)\<rparr>)\<rparr>)"
proof -
  let ?t = "s\<lparr>gos := (gos s)(g \<mapsto> \<lparr>g_req = req, g_body = body, g_pc = PStart\<rparr>)\<rparr>"
  let ?u = "s\<lparr>gos := (gos s)(g \<mapsto> \<lparr>g_req = req, g_body = body, g_pc = PDone (req, body, True)\<rparr>)\<rparr>"
  have "Hold_call g req body s = Some ?t"
    using assms by (simp add: Hold_call_def gate_off_def)
  moreover have "Hold_step g Comm ?t = Some ?u"
    using assms by (simp add: Hold_step_def gate_off_def set_pc_def pass_def)
  from run_alone_step [OF this, of 7] have "run_alone 8 g ?t = run_alone 7 g ?u" by simp
  then have "run_alone 8 g ?t = ?u" by (simp add: run_alone_done)
  ultimately show ?thesis by (simp add: Hold_alone_def returned_def Let_def)
qed

text \<open>With intercept off the gate is a transparent middleware.\<close>

interpretation intercept_off: transparent_middleware "HandleRequest g" "gate_off g" for g
proof
  fix s e
  assume off: "gate_off g s"
  then show "fst (HandleRequest g e s) = pass_result e"
    by (simp add: HandleRequest_def Hold_alone_off pass_result_def)
  from off show "gate_off g (snd (HandleRequest g e s))"
    by (simp add: HandleRequest_def Hold_alone_off) (simp add: gate_off_def)
qed

subsection \<open>Runs\<close>

lemma gate_run_reachable: "gate_reachable s \<Longrightarrow> gate_run as s = Some t \<Longrightarrow> gate_reachable t"
  by (induction as arbitrary: s) (auto split: option.splits intro: gate_reachable.step)

lemma gate_run_append:
  "gate_run (as @ bs) s = (case gate_run as s of None \<Rightarrow> None | Some t \<Rightarrow> gate_run bs t)"
  by (induction as arbitrary: s) (auto split: option.splits)

lemma gate_step_closed: "gate_step a s = Some t \<Longrightarrow> closed s \<subseteq> closed t"
proof (erule gate_step_cases)
  fix g br assume h: "Hold_step g br s = Some t"
  then obtain x where "gos s g = Some x" by (auto simp: Hold_step_def split: option.splits)
  with Hold_step_chan [OF h] show "closed s \<subseteq> closed t" by simp
next
  fix g req body assume "Hold_call g req body s = Some t"
  then show "closed s \<subseteq> closed t" by (auto simp: Hold_call_def split: if_splits)
next
  assume "gate_step a s = Some t" "\<forall>g br. a \<noteq> AGo g br" "\<forall>g r b. a \<noteq> ACall g r b"
  then show "closed s \<subseteq> closed t"
    by (cases a) (auto simp: gate_simps split: option.splits if_splits list.splits)
qed

text \<open>An open channel that is not the current one is never closed again.\<close>

lemma orphan_step:
  assumes "chan_ok s" "gate_step a s = Some t" "b < next_chan s" "b \<noteq> bypass s" "b \<notin> closed s"
  shows "b < next_chan t \<and> b \<noteq> bypass t \<and> b \<notin> closed t"
  using assms(2)
proof (cases rule: gate_step_cases)
  case (hold g br)
  then obtain x where "gos s g = Some x" by (auto simp: Hold_step_def split: option.splits)
  from Hold_step_chan [OF hold(2) this] assms show ?thesis by simp
next
  case (call g req body)
  then show ?thesis using assms by (auto simp: Hold_call_def split: if_splits)
next
  case other
  then show ?thesis using assms by (cases a)
      (auto simp: gate_simps split: option.splits if_splits list.splits)
qed

lemma orphan_run:
  "chan_ok s \<Longrightarrow> gate_run as s = Some t \<Longrightarrow> b < next_chan s \<Longrightarrow> b \<noteq> bypass s \<Longrightarrow> b \<notin> closed s
   \<Longrightarrow> b \<notin> closed t"
proof (induction as arbitrary: s)
  case (Cons a as)
  then obtain s' where "gate_step a s = Some s'" "gate_run as s' = Some t"
    by (auto split: option.splits)
  with Cons orphan_step chan_ok_step show ?case by blast
qed simp

text \<open>The user interface always gets to the live request.\<close>

lemma bring_to_front:
  assumes "gate_reachable s" "p \<in> set (ui_list s)" "\<not> p_done (pend s p)"
  shows "\<exists>as t. set as \<subseteq> {AWatch, ACallback} \<and> gate_run as s = Some t \<and> shown t = Some p
    \<and> gos t = gos s \<and> pend t = pend s \<and> sem t = sem s"
  using assms
proof (induction "2 * length (queue s) + length (ui_todo s)" arbitrary: s rule: less_induct)
  case less
  note ok = reachable_pend_ok [OF less.prems(1)] reachable_sem_ok [OF less.prems(1)]
  show ?case
  proof (cases "shown s = Some p")
    case True
    then show ?thesis by (intro exI [of _ "[]"] exI [of _ s]) simp
  next
    case False
    have "\<exists>a t. a \<in> {AWatch, ACallback} \<and> gate_step a s = Some t \<and> pend t = pend s
        \<and> gos t = gos s \<and> sem t = sem s \<and> set (ui_list s) \<subseteq> set (ui_list t) \<union> {q. p_done (pend s q)}
        \<and> 2 * length (queue t) + length (ui_todo t) < 2 * length (queue s) + length (ui_todo s)"
    proof (cases "ui_todo s = []")
      case True
      then have "queue s \<noteq> []" using less.prems(2) False
        by (auto simp: ui_list_def split: option.splits)
      then obtain t where t: "watchQueue s = Some t"
        "2 * length (queue t) + length (ui_todo t) < 2 * length (queue s) + length (ui_todo s)"
        "sem t = sem s"
        by (cases "queue s") (auto simp: watchQueue_def)
      with watchQueue_ui [OF ok(1) t(1)] show ?thesis
        by (intro exI [of _ AWatch] exI [of _ t]) auto
    next
      case False
      then obtain t where t: "watch_callback s = Some t"
        "2 * length (queue t) + length (ui_todo t) < 2 * length (queue s) + length (ui_todo s)"
        "sem t = sem s"
        by (cases "ui_todo s") (auto simp: watch_callback_def)
      with watch_callback_ui [OF ok t(1)] show ?thesis
        by (intro exI [of _ ACallback] exI [of _ t]) auto
    qed
    then obtain a t where t: "a \<in> {AWatch, ACallback}" "gate_step a s = Some t" "pend t = pend s"
      "gos t = gos s" "sem t = sem s" "p \<in> set (ui_list t)"
      "2 * length (queue t) + length (ui_todo t) < 2 * length (queue s) + length (ui_todo s)"
      using less.prems(2,3) by blast
    with less.hyps [of t] less.prems gate_reachable.step obtain as u where
      "set as \<subseteq> {AWatch, ACallback}" "gate_run as t = Some u" "shown u = Some p"
      "gos u = gos t" "pend u = pend t" "sem u = sem t" by metis
    with t show ?thesis by (intro exI [of _ "a # as"] exI [of _ u]) auto
  qed
qed

section \<open>Properties of the gate\<close>

text \<open>A run used by the witnesses: two requests, the first one on display.\<close>

definition demo_request :: "string \<Rightarrow> http_request" where
  "demo_request host = \<lparr>rq_method = ''GET'', rq_url = None, rq_host = host, rq_header = []\<rparr>"

definition demo_actions :: "action list" where
  "demo_actions = [ASetFlag True, ASetBypass True, ACall 0 (Some (demo_request ''a'')) ''x'',
     AGo 0 Comm, AGo 0 Comm, AGo 0 Comm, AGo 0 Comm, AGo 0 Comm, AGo 0 Comm, AGo 0 Comm,
     ACall 1 None [], AGo 1 Comm, AGo 1 Comm, AGo 1 Comm, AWatch, ACallback]"

definition demo_state :: gate where
  "demo_state = the (gate_run demo_actions NewInterceptGate)"

definition demo_go :: goroutine where
  "demo_go = \<lparr>g_req = Some (demo_request ''a''), g_body = ''x'', g_pc = PWait 1 0\<rparr>"

lemmas demo_simps = demo_actions_def NewInterceptGate_def gate_simps Hold_step_def queue_cap_def

lemma demo_run: "gate_run demo_actions NewInterceptGate = Some demo_state"
  and demo_facts: "gos demo_state 0 = Some demo_go" "shown demo_state = Some 0"
  "\<exists>x. gos demo_state 1 = Some x \<and> g_pc x = PSem 1" "ui_list demo_state = [0]"
  by (simp_all add: demo_state_def demo_simps demo_go_def ui_list_def)

lemma demo_reachable: "gate_reachable demo_state"
  by (rule gate_run_reachable [OF gate_reachable.start demo_run])

text \<open>
  C9: requests are served one at a time. In every reachable state at most one goroutine is past
  the semaphore, the semaphore's channel holds a token exactly when there is one, and at most
  one request in the queue or in the user interface has not been cancelled.
\<close>

theorem gate_one_at_a_time:
  assumes "gate_reachable s"
  shows "(holders s = {} \<and> sem s = 0 \<or> (\<exists>g. holders s = {g}) \<and> sem s = 1)
    \<and> card {p \<in> set (ui_list s). \<not> p_done (pend s p)} \<le> 1 \<and> distinct (ui_list s)"
proof -
  note ok = reachable_pend_ok [OF assms] reachable_sem_ok [OF assms]
  have "card {p \<in> set (ui_list s). \<not> p_done (pend s p)} \<le> Suc 0"
    using one_live [OF ok] by (subst card_le_Suc0_iff_eq) auto
  then show ?thesis using ok by (simp add: sem_ok_def pend_ok_def)
qed

theorem gate_one_at_a_time_witness:
  "gate_reachable demo_state \<and> card {p \<in> set (ui_list demo_state). \<not> p_done (pend demo_state p)} \<le> 1"
  using gate_one_at_a_time [OF demo_reachable] demo_reachable by simp

text \<open>
  C2: \<open>Hold\<close> never alters, mixes up or drops a request by itself. In every reachable state what
  a goroutine came back with is its own request, unmodified and to be forwarded, or the
  decision that the user made for a pending request that carries this goroutine's request; and
  a drop always is the user's, and returns the request unmodified.
\<close>

theorem Hold_integrity:
  assumes "gate_reachable s" and "gos s g = Some x" and "g_pc x = PDone (req, body, forward)"
  shows "((req, body, forward) = (g_req x, g_body x, True)
      \<or> (\<exists>p d. (p, d) \<in> set (replied s) \<and> p_request (pend s p) = g_req x
          \<and> p_body (pend s p) = g_body x \<and> req = d_request d \<and> body = d_body d
          \<and> forward = d_forward d))
    \<and> (\<not> forward \<longrightarrow> req = g_req x \<and> body = g_body x)"
proof -
  have ok: "pend_ok s" by (rule reachable_pend_ok [OF assms(1)])
  then have "go_ok s x" "\<forall>r \<in> set (replied s). reply_ok s r" using assms(2) by (auto simp: pend_ok_def)
  then show ?thesis using assms(3) unfolding go_ok_def reply_ok_def by force
qed

theorem Hold_integrity_witness:
  "\<exists>s x. gate_run [ADecide False None, AGo 0 Comm] demo_state = Some s \<and> gos s 0 = Some x
     \<and> g_pc x = PDone (Some (demo_request ''a''), ''x'', False) \<and> g_req x = Some (demo_request ''a'')"
proof -
  let ?as = "demo_actions @ [ADecide False None, AGo 0 Comm]"
  obtain s where s: "gate_run [ADecide False None, AGo 0 Comm] demo_state = Some s"
    "gos s 0 = Some (demo_go\<lparr>g_pc := PDone (Some (demo_request ''a''), ''x'', False)\<rparr>)"
    by (simp add: demo_state_def demo_simps demo_go_def)
  from Hold_integrity [OF gate_run_reachable [OF demo_reachable s(1)] s(2)] s show ?thesis
    by (auto simp: demo_go_def)
qed

text \<open>
  the bypass channel is never closed twice: no reachable state has panicked, the flag
  \<open>bypassClosed\<close> says truly whether the current channel is closed, and \<open>ForwardAll\<close> and
  \<open>SetEnabled(false)\<close> close the channel that was current.
\<close>

theorem bypass_never_closed_twice:
  assumes "gate_reachable s"
  shows "\<not> gate_panic s \<and> bypassClosed s = (bypass s \<in> closed s)
    \<and> \<not> gate_panic (ForwardAll s) \<and> bypass s \<in> closed (ForwardAll s)
    \<and> bypass (ForwardAll s) \<notin> closed (ForwardAll s) \<and> enabled (ForwardAll s) = enabled s
    \<and> (False \<in> set (setters s) \<longrightarrow> (\<exists>t. SetEnabled_bypass False s = Some t
         \<and> \<not> gate_panic t \<and> bypass s \<in> closed t))"
  using reachable_chan_ok [OF assms] by (auto simp: chan_ok_def gate_simps)

theorem bypass_never_closed_twice_witness:
  "gate_reachable demo_state \<and> bypass demo_state \<in> closed (ForwardAll demo_state)"
  using bypass_never_closed_twice [OF demo_reachable] demo_reachable by simp

text \<open>How many steps a goroutine has left once the channel it captured is closed.\<close>

fun steps_left :: "pc \<Rightarrow> nat" where
  "steps_left (PSem _) = 3"
| "steps_left (PRecheckEnabled _) = 2"
| "steps_left (PRecheckBypass _) = 1"
| "steps_left (PEnqueue _ _) = 2"
| "steps_left (PWait _ _) = 1"
| "steps_left _ = 0"

lemma Hold_step_frame:
  assumes "Hold_step g br s = Some t" "h \<noteq> g"
  shows "gos t h = gos s h"
  using Hold_step_gos [OF assms(1)] assms(2) by auto

lemma released_step:
  assumes sem: "sem_ok s" and x: "gos s g = Some x" "captured (g_pc x) = Some b" "b \<in> closed s"
  shows "Hold_step g Byp s \<noteq> None
    \<and> (\<forall>br t. Hold_step g br s = Some t \<longrightarrow> (\<exists>y. gos t g = Some y
        \<and> steps_left (g_pc y) < steps_left (g_pc x)
        \<and> (captured (g_pc y) = Some b \<or> (\<exists>r. g_pc y = PDone r))))"
proof -
  have "holds (g_pc x) \<Longrightarrow> sem s = 1"
    using sem x(1) by (auto simp: sem_ok_def holders_def)
  then show ?thesis using x
    by (cases "g_pc x")
      (auto simp: Hold_step_def gate_simps split: branch.splits if_splits option.splits)
qed

text \<open>
  C10: once the channel a goroutine captured is closed, \<open>Hold\<close> returns in at most three of its
  own steps, whatever branches its \<open>select\<close>s take and whatever the others do in between: its
  step is always enabled, every own step brings it closer to the return, and the steps of the
  others neither move it nor reopen the channel.
\<close>

theorem Hold_released:
  assumes "gate_reachable s" and "gos s g = Some x" and "captured (g_pc x) = Some b"
    and "b \<in> closed s"
  shows "Hold_step g Byp s \<noteq> None \<and> steps_left (g_pc x) \<le> 3
    \<and> (\<forall>br t. Hold_step g br s = Some t \<longrightarrow> (\<exists>y. gos t g = Some y
        \<and> steps_left (g_pc y) < steps_left (g_pc x)
        \<and> (captured (g_pc y) = Some b \<or> (\<exists>r. g_pc y = PDone r))))
    \<and> (\<forall>a t. gate_step a s = Some t \<longrightarrow> b \<in> closed t \<and> ((\<forall>br. a \<noteq> AGo g br) \<longrightarrow> gos t g = Some x))"
proof -
  have "gos t g = Some x" if st: "gate_step a s = Some t" and a: "\<forall>br. a \<noteq> AGo g br" for a t
    using st
  proof (cases rule: gate_step_cases)
    case (hold h br)
    then have "g \<noteq> h" using a by auto
    then show ?thesis using Hold_step_frame [OF hold(2)] assms(2) by simp
  next
    case (call h req body)
    then have "idle (gos s h)" by (auto simp: Hold_call_def split: if_splits)
    then have "g \<noteq> h" using assms(2,3) idle_Some by fastforce
    then show ?thesis using call assms(2) by (auto simp: Hold_call_def split: if_splits)
  next
    case other
    then show ?thesis using other_steps_gos assms(2) by simp
  qed
  moreover have "steps_left (g_pc x) \<le> 3" by (cases "g_pc x") auto
  ultimately show ?thesis
    using released_step [OF reachable_sem_ok [OF assms(1)] assms(2-4)] gate_step_closed assms(4)
    by blast
qed

theorem Hold_released_witness:
  "\<exists>s x. gate_run [AForwardAll] demo_state = Some s \<and> gos s 0 = Some x \<and> g_pc x = PWait 1 0
     \<and> Hold_step 0 Byp s \<noteq> None"
proof -
  obtain s where s: "gate_run [AForwardAll] demo_state = Some s"
    "gos s 0 = Some demo_go" "1 \<in> closed s"
    by (simp add: demo_state_def demo_simps demo_go_def)
  from Hold_released [OF gate_run_reachable [OF demo_reachable s(1)] s(2) _ s(3)] s show ?thesis
    by (simp add: demo_go_def)
qed

text \<open>
  C8: the user can always decide. Whenever a goroutine waits for a decision that has not been
  made yet, some steps of the user interface bring its request on display, and pressing Forward
  or Drop there makes \<open>Hold\<close> return exactly that decision: a drop, the edited request when the
  text parsed, the original otherwise.
\<close>

theorem Hold_decidable:
  assumes "gate_reachable s" and "gos s g = Some x" and "g_pc x = PWait b p"
    and "p_reply (pend s p) = None"
  shows "\<exists>as t. set as \<subseteq> {AWatch, ACallback, ADecide forward edited, AGo g Comm}
    \<and> gate_run as s = Some t
    \<and> returned g t = Some (if \<not> forward then (g_req x, g_body x, False) else (case edited of
          Some (req, body) \<Rightarrow> (Some req, body, True) | None \<Rightarrow> (g_req x, g_body x, True)))"
proof -
  have ok: "go_ok s x" "sem_ok s"
    using reachable_pend_ok [OF assms(1)] reachable_sem_ok [OF assms(1)] assms(2)
    by (auto simp: pend_ok_def)
  then have p: "owned s x p" "p \<in> set (ui_list s)"
    using assms(3,4) by (auto simp: go_ok_def split: if_splits)
  have "g \<in> holders s" using assms(2,3) by (simp add: holders_def)
  then have sem: "sem s = 1" using ok(2) by (auto simp: sem_ok_def)
  from bring_to_front [OF assms(1) p(2)] p(1) obtain as t where
    t: "set as \<subseteq> {AWatch, ACallback}" "gate_run as s = Some t" "shown t = Some p"
    "gos t = gos s" "pend t = pend s" "sem t = sem s" by (auto simp: owned_def)
  have "\<exists>u. gate_run [ADecide forward edited, AGo g Comm] t = Some u
    \<and> returned g u = Some (if \<not> forward then (g_req x, g_body x, False) else (case edited of
          Some (req, body) \<Rightarrow> (Some req, body, True) | None \<Rightarrow> (g_req x, g_body x, True)))"
    using t p(1) assms(2,3) sem
    by (cases edited) (auto simp: decide_def Let_def send_reply_def Hold_step_def step_wait_def
      release_sem_def set_pc_def returned_def owned_def)
  then obtain u where u: "gate_run [ADecide forward edited, AGo g Comm] t = Some u"
    "returned g u = Some (if \<not> forward then (g_req x, g_body x, False) else (case edited of
          Some (req, body) \<Rightarrow> (Some req, body, True) | None \<Rightarrow> (g_req x, g_body x, True)))" by blast
  have "gate_run (as @ [ADecide forward edited, AGo g Comm]) s = Some u"
    using gate_run_append t(2) u(1) by simp
  moreover have "set (as @ [ADecide forward edited, AGo g Comm])
      \<subseteq> {AWatch, ACallback, ADecide forward edited, AGo g Comm}" using t(1) by auto
  ultimately show ?thesis using u(2) by blast
qed

theorem Hold_decidable_witness:
  "\<exists>as t. gate_run as demo_state = Some t
     \<and> returned 0 t = Some (Some (demo_request ''b''), ''y'', True)"
  using Hold_decidable [OF demo_reachable demo_facts(1), of 1 0 True "Some (demo_request ''b'', ''y'')"]
  by (auto simp: demo_go_def demo_state_def demo_simps)

text \<open>
  a release can miss a request. \<open>SetEnabled(true)\<close> sets the flag before it replaces the
  bypass channel; a goroutine that calls \<open>Hold\<close> in between captures the channel that is about
  to be replaced. It is then held in the queue like any other, but no later action closes its
  channel, so neither \<open>ForwardAll\<close> nor switching intercept off releases it: only a decision on
  the request itself does.
\<close>

theorem Hold_orphaned:
  "\<exists>s x. gate_reachable s \<and> gos s 0 = Some x \<and> g_pc x = PWait 0 0 \<and> enabled s
     \<and> (\<forall>as t. gate_run as s = Some t \<longrightarrow> 0 \<notin> closed t
         \<and> (gos t 0 = Some x \<longrightarrow> Hold_step 0 Byp t = None))"
proof -
  let ?as = "[ASetFlag True, ACall 0 None [], AGo 0 Comm, AGo 0 Comm, AGo 0 Comm, ASetBypass True,
     AGo 0 Comm, AGo 0 Comm, AGo 0 Comm, AGo 0 Comm]"
  obtain s x where s: "gate_run ?as NewInterceptGate = Some s" "gos s 0 = Some x"
    "g_pc x = PWait 0 0" "enabled s" "0 < next_chan s" "0 \<noteq> bypass s" "0 \<notin> closed s"
    by (simp add: demo_simps)
  have r: "gate_reachable s" by (rule gate_run_reachable [OF gate_reachable.start s(1)])
  have "0 \<notin> closed t \<Longrightarrow> gos t 0 = Some x \<Longrightarrow> Hold_step 0 Byp t = None" for t
    using s(3) by (simp add: Hold_step_def step_wait_def step_bypass_exit_def)
  with r s orphan_run [OF reachable_chan_ok [OF r] _ s(5-7)] show ?thesis by blast
qed

theorem Hold_orphaned_witness:
  "\<exists>s. gate_reachable s \<and> 0 \<notin> closed (ForwardAll s)"
proof -
  from Hold_orphaned obtain s where s: "gate_reachable s"
    "\<forall>as t. gate_run as s = Some t \<longrightarrow> 0 \<notin> closed t" by blast
  have "gate_run [AForwardAll] s = Some (ForwardAll s)" by simp
  with s show ?thesis by blast
qed

text \<open>
  while intercept is off, \<open>HandleRequest\<close> is transparent: on a bus that has only the gate,
  \<open>EmitRequest\<close> returns the request and the body it was given and drops nothing.
\<close>

theorem gate_off_transparent:
  assumes "gate_off g s"
  shows "fst (EmitRequest (b\<lparr>requestMiddlewares := [HandleRequest g]\<rparr>) e s) = pass_result e"
  by (rule intercept_off.emit_transparent [OF assms])

theorem gate_off_transparent_witness:
  "let e = \<lparr>re_request = Some (demo_request ''a''), re_body = ''x''\<rparr>
   in fst (EmitRequest (NewBus\<lparr>requestMiddlewares := [HandleRequest 3]\<rparr>) e NewInterceptGate) = pass_result e"
  using gate_off_transparent [of 3 NewInterceptGate NewBus "\<lparr>re_request = Some (demo_request ''a''), re_body = ''x''\<rparr>"]
  unfolding Let_def by (simp add: gate_off_def NewInterceptGate_def)

end
