(* ===== verification/Project.thy ===== *)
theory Project
  imports Sql Events InterceptGate
begin

text \<open>
  The project store (\<open>internal/store/project.go\<close>): the state behind a \<open>*Store\<close>, how it is
  opened and closed, and the serialiser through which every write goes.

  The tables of the schema are the table values of \<^theory_text>\<open>Sql\<close>, one field per table. Every SQL
  statement takes one tick of \<open>s_clock\<close> and fails when \<open>s_fault\<close> says so at that tick, so the
  error branches of the code are branches of the model; a statement that fails changes nothing.
  SQLite does not enforce foreign keys unless a connection asks for it, and the code never does.

  The second half is the concurrent behaviour of \<open>write\<close>, \<open>writeLoop\<close> and \<open>Close\<close>, as a step
  relation. The sequential model of the operations uses \<^theory_text>\<open>store_write\<close>, which runs the function at
  once; that is what the step relation shows an accepted write to amount to.
\<close>

section \<open>Rows\<close>

record Transaction =
  tx_id :: nat
  tx_timestamp :: int
  tx_host :: string
  tx_port :: int
  tx_method :: string
  tx_url :: string
  tx_proto :: string
  tx_req_headers :: header
  tx_req_body :: string
  tx_status :: int
  tx_resp_headers :: header
  tx_resp_body :: string
  tx_resp_size :: int
  tx_duration_ms :: int
  tx_tls :: bool
  tx_in_scope :: bool

record history_row =
  hr_timestamp :: string
  hr_host :: string
  hr_port :: int
  hr_method :: string
  hr_url :: string
  hr_proto :: string
  hr_req_headers :: string
  hr_req_body :: string
  hr_status :: int
  hr_resp_headers :: string
  hr_resp_body :: string
  hr_duration_ms :: int
  hr_tls :: int
  hr_in_scope :: int
  hr_resp_size :: int

record ScopeEntry =
  se_id :: nat
  se_host :: string

record WebSocketConnection =
  wsc_id :: nat
  wsc_history_id :: nat
  wsc_host :: string
  wsc_url :: string
  wsc_tls :: bool
  wsc_in_scope :: bool
  wsc_timestamp :: int
  wsc_frame_count :: nat

record ws_conn_row =
  cr_history_id :: nat
  cr_host :: string
  cr_url :: string
  cr_tls :: int
  cr_in_scope :: int
  cr_timestamp :: string

record WebSocketFrame =
  wsf_id :: nat
  wsf_conn_id :: nat
  wsf_timestamp :: int
  wsf_direction :: WebSocketDirection
  wsf_opcode :: WebSocketOpcode
  wsf_payload :: "string option"

record ws_frame_row =
  fw_conn_id :: nat
  fw_timestamp :: string
  fw_direction :: WebSocketDirection
  fw_opcode :: WebSocketOpcode
  fw_payload :: "string option"

record LootEntry =
  le_id :: nat
  le_title :: string
  le_severity :: string
  le_notes :: string
  le_history_id :: "nat option"
  le_raw_request :: string
  le_raw_response :: string
  le_created_at :: int

record loot_row =
  lr_title :: string
  lr_severity :: string
  lr_notes :: string
  lr_history_id :: "nat option"
  lr_raw_request :: string
  lr_raw_response :: string
  lr_created_at :: string

record RepeaterTab =
  rt_id :: nat
  rt_name :: string
  rt_host :: string
  rt_port :: int
  rt_tls :: bool
  rt_type :: string
  rt_raw_request :: string
  rt_last_response :: string
  rt_position :: int

record repeater_row =
  rp_name :: string
  rp_host :: string
  rp_port :: int
  rp_tls :: int
  rp_type :: string
  rp_raw_request :: string
  rp_last_response :: string
  rp_position :: int

record IntruderConfig =
  ic_delay_ms :: int
  ic_stop_on_status :: int
  ic_max_redirects :: int
  ic_follow_redirects :: string
  ic_timeout_ms :: int
  ic_raw_request :: string
  ic_payloads :: string

record PluginEntry =
  pn_name :: string
  pn_path :: string
  pn_enabled :: bool

record plugin_row =
  pw_path :: string
  pw_enabled :: int

record Annotation =
  an_history_id :: nat
  an_comment :: string
  an_color :: string

section \<open>The store\<close>

text \<open>
  Tables with a key of their own (\<open>plugins\<close>, \<open>annotations\<close>) are association lists in insertion
  order; \<open>intruder_config\<close> only ever holds the row with id 1. A notification channel is its
  contents, or their number when it carries \<open>struct{}\<close>.
\<close>

record store =
  s_done :: bool
  s_fault :: "nat \<Rightarrow> bool"
  s_clock :: nat
  t_history :: "history_row table"
  t_scope :: "string table"
  t_ws_conns :: "ws_conn_row table"
  t_ws_frames :: "ws_frame_row table"
  t_loot :: "loot_row table"
  t_repeater :: "repeater_row table"
  t_intruder :: "IntruderConfig option"
  t_plugins :: "(string \<times> plugin_row) list"
  t_annotations :: "(nat \<times> string \<times> string) list"
  s_updates :: "Transaction list"
  s_ws_conn_ch :: "WebSocketConnection list"
  s_ws_frame_ch :: "WebSocketFrame list"
  s_loot_ch :: nat
  s_plugin_ch :: nat
  s_plugin_logs :: "string \<Rightarrow> string list"
  s_scope_cache :: "ScopeEntry list"
  s_scope_cache_set :: bool

datatype store_error = StoreClosed | SqlError | NoRows | MarshalError

type_synonym 'a st = "store \<Rightarrow> (store_error + 'a) \<times> store"

definition chan_cap :: nat where
  "chan_cap = 256"

text \<open>A non-blocking send: dropped when the buffer is full.\<close>

definition try_send :: "'a \<Rightarrow> 'a list \<Rightarrow> 'a list" where
  "try_send x ch = (if length ch < chan_cap then ch @ [x] else ch)"

definition try_signal :: "nat \<Rightarrow> nat" where
  "try_signal n = (if n < chan_cap then Suc n else n)"

text \<open>A statement runs or fails; then the rest of the operation follows.\<close>

definition tick :: "store \<Rightarrow> store" where
  "tick s = s\<lparr>s_clock := Suc (s_clock s)\<rparr>"

definition sql :: "'a st \<Rightarrow> 'a st" where
  "sql k s = (if s_fault s (s_clock s) then (Inl SqlError, tick s) else k (tick s))"

text \<open>The serialiser seen by one caller.\<close>

definition store_write :: "'a st \<Rightarrow> 'a st" where
  "store_write f s = (if s_done s then (Inl StoreClosed, s) else f s)"

definition boolToInt :: "bool \<Rightarrow> int" where
  "boolToInt b = (if b then 1 else 0)"

text \<open>
  The text forms the program stores: \<open>json.Marshal\<close> and \<open>json.Unmarshal\<close> on a header map, and
  \<open>time.RFC3339\<close> in UTC. A timestamp is a number of nanoseconds.
\<close>

record codec =
  marshal :: "header \<Rightarrow> string option"
  unmarshal :: "string \<Rightarrow> header option"
  format_time :: "int \<Rightarrow> string"
  parse_time :: "string \<Rightarrow> int option"

text \<open>What the standard library documents: a formatted time reads back to the whole second.\<close>

definition time_law :: "codec \<Rightarrow> bool" where
  "time_law c = (\<forall>n. parse_time c (format_time c n) = Some (n - n mod 1000000000))"

definition header_law :: "codec \<Rightarrow> header \<Rightarrow> bool" where
  "header_law c h = (\<exists>s. marshal c h = Some s \<and> unmarshal c s = Some h)"

definition parse_time_or_zero :: "codec \<Rightarrow> string \<Rightarrow> int" where
  "parse_time_or_zero c s = (case parse_time c s of None \<Rightarrow> 0 | Some n \<Rightarrow> n)"

text \<open>
  \<open>Open\<close> on a database file. \<open>open_db\<close> says whether \<open>sql.Open\<close> and the pragma succeed, \<open>file\<close>
  holds the tables of the file, empty in a new one; \<open>migrate\<close> only fails if the schema does, the
  errors of the added columns are ignored.
\<close>

record db_file =
  f_history :: "history_row table"
  f_scope :: "string table"
  f_ws_conns :: "ws_conn_row table"
  f_ws_frames :: "ws_frame_row table"
  f_loot :: "loot_row table"
  f_repeater :: "repeater_row table"
  f_intruder :: "IntruderConfig option"
  f_plugins :: "(string \<times> plugin_row) list"
  f_annotations :: "(nat \<times> string \<times> string) list"

definition new_file :: db_file where
  "new_file = \<lparr>f_history = empty_table, f_scope = empty_table, f_ws_conns = empty_table,
     f_ws_frames = empty_table, f_loot = empty_table, f_repeater = empty_table, f_intruder = None,
     f_plugins = [], f_annotations = []\<rparr>"

definition fresh_store :: "(nat \<Rightarrow> bool) \<Rightarrow> db_file \<Rightarrow> store" where
  "fresh_store fault f = \<lparr>s_done = False, s_fault = fault, s_clock = 0, t_history = f_history f,
     t_scope = f_scope f, t_ws_conns = f_ws_conns f, t_ws_frames = f_ws_frames f,
     t_loot = f_loot f, t_repeater = f_repeater f, t_intruder = f_intruder f,
     t_plugins = f_plugins f, t_annotations = f_annotations f, s_updates = [], s_ws_conn_ch = [],
     s_ws_frame_ch = [], s_loot_ch = 0, s_plugin_ch = 0, s_plugin_logs = (\<lambda>_. []),
     s_scope_cache = [], s_scope_cache_set = False\<rparr>"

definition migrate :: "unit st" where
  "migrate = sql (\<lambda>s. (Inr (), s\<lparr>s_clock := s_clock s + 7\<rparr>))"

definition Open :: "bool \<Rightarrow> (nat \<Rightarrow> bool) \<Rightarrow> db_file \<Rightarrow> store_error + store" where
  "Open open_db fault f = (if \<not> open_db then Inl SqlError
     else (case sql (\<lambda>s. migrate s) (fresh_store fault f) of
         (Inl e, _) \<Rightarrow> Inl e
       | (Inr (), s) \<Rightarrow> Inr s))"

text \<open>\<open>Close\<close>: closing a second time panics on the closed channel, which is \<open>None\<close>.\<close>

definition Close :: "store \<Rightarrow> (store_error option \<times> store) option" where
  "Close s = (if s_done s then None
     else Some (if s_fault s (s_clock s) then Some SqlError else None,
                s\<lparr>s_done := True, s_clock := Suc (s_clock s)\<rparr>))"

lemma tick_simps [simp]:
  "s_done (tick s) = s_done s" "s_fault (tick s) = s_fault s" "s_clock (tick s) = Suc (s_clock s)"
  "t_history (tick s) = t_history s" "t_scope (tick s) = t_scope s" "t_ws_conns (tick s) = t_ws_conns s"
  "t_ws_frames (tick s) = t_ws_frames s" "t_loot (tick s) = t_loot s"
  "t_repeater (tick s) = t_repeater s" "t_intruder (tick s) = t_intruder s"
  "t_plugins (tick s) = t_plugins s" "t_annotations (tick s) = t_annotations s"
  "s_updates (tick s) = s_updates s" "s_ws_conn_ch (tick s) = s_ws_conn_ch s"
  "s_ws_frame_ch (tick s) = s_ws_frame_ch s" "s_loot_ch (tick s) = s_loot_ch s"
  "s_plugin_ch (tick s) = s_plugin_ch s" "s_plugin_logs (tick s) = s_plugin_logs s"
  "s_scope_cache (tick s) = s_scope_cache s" "s_scope_cache_set (tick s) = s_scope_cache_set s"
  by (simp_all add: tick_def)

lemma write_closed: "s_done s \<Longrightarrow> store_write f s = (Inl StoreClosed, s)"
  by (simp add: store_write_def)

lemma write_open: "\<not> s_done s \<Longrightarrow> store_write f s = f s"
  by (simp add: store_write_def)

lemma sql_ok: "\<not> s_fault s (s_clock s) \<Longrightarrow> sql k s = k (tick s)"
  by (simp add: sql_def)

lemma sql_fails: "s_fault s (s_clock s) \<Longrightarrow> sql k s = (Inl SqlError, tick s)"
  by (simp add: sql_def)

lemma length_try_send: "length ch \<le> chan_cap \<Longrightarrow> length (try_send x ch) \<le> chan_cap"
  by (simp add: try_send_def)

lemmas store_simps = store_write_def sql_def Let_def

section \<open>The write serialiser\<close>

text \<open>
  Any number of goroutines call \<open>write\<close>; \<open>writeLoop\<close> runs their functions. A write is a number;
  \<open>job\<close> gives its effect on the database, \<open>kind\<close> where it notifies the user interface: \<open>Log\<close>
  inside its function, on \<open>Updates\<close> after a check of \<open>done\<close>, most others after \<open>write\<close> came back,
  without a check. Sending on a closed channel panics.
\<close>

datatype notify = NoNotify | InLoop | AfterWrite

datatype wpc = WIdle | WSend | WWait | WNotify | WRet "store_error + unit"

text \<open>The loop: the flag says that \<open>done\<close> was seen and the channel is being drained.\<close>

datatype lpc = LRun bool | LCheck bool nat | LSend bool nat | LExit

record 'd jobs =
  job :: "nat \<Rightarrow> 'd \<Rightarrow> (store_error + unit) \<times> 'd"
  kind :: "nat \<Rightarrow> notify"

record 'd wstate =
  w_ch :: "nat list"
  w_done :: bool
  w_closed :: bool
  w_loop :: lpc
  w_pc :: "nat \<Rightarrow> wpc"
  w_err :: "nat \<Rightarrow> (store_error + unit) option"
  w_db :: 'd
  w_sent :: "nat list"
  w_exec :: "nat list"
  w_panic :: bool

definition w_start :: "'d \<Rightarrow> 'd wstate" where
  "w_start d = \<lparr>w_ch = [], w_done = False, w_closed = False, w_loop = LRun False,
     w_pc = (\<lambda>_. WIdle), w_err = (\<lambda>_. None), w_db = d, w_sent = [], w_exec = [], w_panic = False\<rparr>"

text \<open>Taking a function from the channel and running it.\<close>

definition run_job :: "'d jobs \<Rightarrow> bool \<Rightarrow> nat \<Rightarrow> nat list \<Rightarrow> 'd wstate \<Rightarrow> 'd wstate" where
  "run_job J dr j q s = (let (r, d) = job J j (w_db s);
       s = s\<lparr>w_ch := q, w_db := d, w_exec := w_exec s @ [j]\<rparr>
     in if kind J j = InLoop \<and> r = Inr () then s\<lparr>w_loop := LCheck dr j\<rparr>
        else s\<lparr>w_err := (w_err s)(j := Some r)\<rparr>)"

inductive wstep :: "'d jobs \<Rightarrow> 'd wstate \<Rightarrow> 'd wstate \<Rightarrow> bool" for J where
  call: "w_pc s j = WIdle \<Longrightarrow> wstep J s (s\<lparr>w_pc := (w_pc s)(j := WSend)\<rparr>)"
| send: "w_pc s j = WSend \<Longrightarrow> length (w_ch s) < chan_cap \<Longrightarrow>
    wstep J s (s\<lparr>w_pc := (w_pc s)(j := WWait), w_ch := w_ch s @ [j], w_sent := w_sent s @ [j]\<rparr>)"
| send_closed: "w_pc s j = WSend \<Longrightarrow> w_done s \<Longrightarrow>
    wstep J s (s\<lparr>w_pc := (w_pc s)(j := WRet (Inl StoreClosed))\<rparr>)"
| recv: "w_pc s j = WWait \<Longrightarrow> w_err s j = Some r \<Longrightarrow>
    wstep J s (s\<lparr>w_pc := (w_pc s)(j := if kind J j = AfterWrite \<and> r = Inr () then WNotify else WRet r),
                 w_err := (w_err s)(j := None)\<rparr>)"
| recv_closed: "w_pc s j = WWait \<Longrightarrow> w_done s \<Longrightarrow>
    wstep J s (s\<lparr>w_pc := (w_pc s)(j := WRet (Inl StoreClosed))\<rparr>)"
| notify: "w_pc s j = WNotify \<Longrightarrow>
    wstep J s (if w_closed s then s\<lparr>w_panic := True\<rparr> else s\<lparr>w_pc := (w_pc s)(j := WRet (Inr ()))\<rparr>)"
| take: "w_loop s = LRun dr \<Longrightarrow> w_ch s = j # q \<Longrightarrow> wstep J s (run_job J dr j q s)"
| check: "w_loop s = LCheck dr j \<Longrightarrow>
    wstep J s (if w_done s then s\<lparr>w_loop := LRun dr, w_err := (w_err s)(j := Some (Inr ()))\<rparr>
               else s\<lparr>w_loop := LSend dr j\<rparr>)"
| update: "w_loop s = LSend dr j \<Longrightarrow>
    wstep J s (if w_closed s then s\<lparr>w_panic := True\<rparr>
               else s\<lparr>w_loop := LRun dr, w_err := (w_err s)(j := Some (Inr ()))\<rparr>)"
| seen_done: "w_loop s = LRun False \<Longrightarrow> w_done s \<Longrightarrow> wstep J s (s\<lparr>w_loop := LRun True\<rparr>)"
| drained: "w_loop s = LRun True \<Longrightarrow> w_ch s = [] \<Longrightarrow> wstep J s (s\<lparr>w_loop := LExit\<rparr>)"
| close_done: "\<not> w_done s \<Longrightarrow> wstep J s (s\<lparr>w_done := True\<rparr>)"
| close_chans: "w_done s \<Longrightarrow> \<not> w_closed s \<Longrightarrow> wstep J s (s\<lparr>w_closed := True\<rparr>)"

definition w_reachable :: "'d jobs \<Rightarrow> 'd \<Rightarrow> 'd wstate \<Rightarrow> bool" where
  "w_reachable J d s = (wstep J)\<^sup>*\<^sup>* (w_start d) s"

text \<open>The abstract specification: the writes run one after the other.\<close>

fun serial :: "'d jobs \<Rightarrow> nat list \<Rightarrow> 'd \<Rightarrow> (nat \<times> (store_error + unit)) list \<times> 'd" where
  "serial J [] d = ([], d)"
| "serial J (j # js) d = (let (r, d) = job J j d; (rs, d) = serial J js d in ((j, r) # rs, d))"

lemma serial_snoc:
  "serial J (js @ [j]) d = (let (rs, d) = serial J js d; (r, d) = job J j d in (rs @ [(j, r)], d))"
  by (induction js arbitrary: d) (simp_all add: case_prod_beta Let_def)

text \<open>What holds of every write and of the loop.\<close>

definition w_ok :: "'d jobs \<Rightarrow> 'd \<Rightarrow> 'd wstate \<Rightarrow> bool" where
  "w_ok J d s = (w_exec s @ w_ch s = w_sent s \<and> distinct (w_sent s)
     \<and> snd (serial J (w_exec s) d) = w_db s
     \<and> (\<forall>j. w_pc s j \<in> {WIdle, WSend} \<longrightarrow> j \<notin> set (w_sent s))
     \<and> (\<forall>j r. w_err s j = Some r \<longrightarrow> (j, r) \<in> set (fst (serial J (w_exec s) d)))
     \<and> (\<forall>j r. w_pc s j = WRet r \<longrightarrow> r = Inl StoreClosed \<or> (j, r) \<in> set (fst (serial J (w_exec s) d)))
     \<and> (\<forall>j. w_pc s j = WNotify \<longrightarrow> (j, Inr ()) \<in> set (fst (serial J (w_exec s) d)))
     \<and> (\<forall>dr j. w_loop s = LCheck dr j \<or> w_loop s = LSend dr j
          \<longrightarrow> (j, Inr ()) \<in> set (fst (serial J (w_exec s) d))))"

lemma w_ok_start: "w_ok J d (w_start d)"
  by (simp add: w_ok_def w_start_def)

lemma w_ok_run_job:
  assumes "w_ok J d s" "w_loop s = LRun dr" "w_ch s = j # q"
  shows "w_ok J d (run_job J dr j q s)"
proof -
  obtain r e where r: "job J j (w_db s) = (r, e)" by fastforce
  have "serial J (w_exec s @ [j]) d = (fst (serial J (w_exec s) d) @ [(j, r)], e)"
    using assms(1) r by (simp add: serial_snoc case_prod_beta Let_def w_ok_def)
  with assms r show ?thesis
    by (auto simp: w_ok_def run_job_def Let_def)
qed

lemma w_ok_step: "wstep J s t \<Longrightarrow> w_ok J d s \<Longrightarrow> w_ok J d t"
proof (induction rule: wstep.induct)
  case (take s dr j q)
  from w_ok_run_job [OF take(3,1,2)] show ?case .
next
  case (drained s)
  then have "w_sent s = w_exec s" by (simp add: w_ok_def)
  with drained show ?case unfolding w_ok_def by simp
qed (auto simp: w_ok_def)

lemma w_ok_reachable: "w_reachable J d s \<Longrightarrow> w_ok J d s"
  unfolding w_reachable_def by (induction rule: rtranclp_induct) (auto intro: w_ok_start w_ok_step)

inductive_cases wstepE [elim]: "wstep J s t"

text \<open>The loop always works while a write waits, so a caller is never stuck.\<close>

fun busy :: "lpc \<Rightarrow> nat option" where
  "busy (LCheck _ j) = Some j"
| "busy (LSend _ j) = Some j"
| "busy _ = None"

fun draining :: "lpc \<Rightarrow> bool" where
  "draining (LRun dr) = dr"
| "draining (LCheck dr _) = dr"
| "draining (LSend dr _) = dr"
| "draining LExit = True"

definition w_live :: "'d wstate \<Rightarrow> bool" where
  "w_live s = ((\<forall>j. w_pc s j = WWait \<longrightarrow> w_err s j \<noteq> None \<or> j \<in> set (w_ch s) \<or> w_done s
       \<or> busy (w_loop s) = Some j)
     \<and> (draining (w_loop s) \<longrightarrow> w_done s) \<and> (w_closed s \<longrightarrow> w_done s))"

lemma w_live_step: "wstep J s t \<Longrightarrow> w_live s \<Longrightarrow> w_live t"
proof (induction rule: wstep.induct)
  case (take s dr j q)
  then show ?case by (auto simp: w_live_def run_job_def case_prod_beta Let_def)
next
  case (check s dr j)
  then show ?case by (cases dr) (auto simp: w_live_def)
next
  case (update s dr j)
  then show ?case by (cases dr) (auto simp: w_live_def)
qed (auto simp: w_live_def)

lemma w_live_start: "w_live (w_start d)"
  by (simp add: w_live_def w_start_def)

lemma w_live_reachable: "w_reachable J d s \<Longrightarrow> w_live s"
  unfolding w_reachable_def by (induction rule: rtranclp_induct) (auto intro: w_live_start w_live_step)

section \<open>Properties of the serialiser\<close>

text \<open>
  C3: the serialiser is linearisable. In every reachable state the database is the result of
  running the accepted writes one after the other, in the order they were sent, each at most
  once; and a caller that got an answer other than "store: closed" got the answer its write
  gave in that serial run.
\<close>

theorem write_serialises:
  assumes "w_reachable J d s"
  shows "w_exec s @ w_ch s = w_sent s \<and> distinct (w_exec s)
    \<and> w_db s = snd (serial J (w_exec s) d)
    \<and> (\<forall>j r. w_pc s j = WRet r \<longrightarrow>
          r = Inl StoreClosed \<or> (j, r) \<in> set (fst (serial J (w_exec s) d)))"
  using w_ok_reachable [OF assms] unfolding w_ok_def
  by (metis distinct_append)

text \<open>Two writes, the second overtaking the first in calling, not in effect.\<close>

definition demo_jobs :: "(nat \<Rightarrow> notify) \<Rightarrow> nat list jobs" where
  "demo_jobs k = \<lparr>job = (\<lambda>j d. (Inr (), j # d)), kind = k\<rparr>"

lemma w_reach_step: "w_reachable J d s \<Longrightarrow> wstep J s t \<Longrightarrow> w_reachable J d t"
  by (simp add: w_reachable_def)

lemma demo_one_write:
  "\<exists>s. w_reachable (demo_jobs k) [] s \<and> w_exec s = [0] \<and> w_db s = [0] \<and> \<not> w_done s \<and> \<not> w_closed s
     \<and> w_pc s 0 = WWait \<and> w_loop s = (if k 0 = InLoop then LCheck False 0 else LRun False)
     \<and> (k 0 \<noteq> InLoop \<longrightarrow> w_err s 0 = Some (Inr ()))"
proof -
  let ?J = "demo_jobs k"
  define s1 where "s1 = (w_start ([] :: nat list))\<lparr>w_pc := (\<lambda>_. WIdle)(0 := WSend)\<rparr>"
  define s2 where "s2 = s1\<lparr>w_pc := (w_pc s1)(0 := WWait), w_ch := w_ch s1 @ [0], w_sent := w_sent s1 @ [0]\<rparr>"
  have "w_reachable ?J [] (w_start [])" by (simp add: w_reachable_def)
  moreover have "wstep ?J (w_start []) s1"
    using wstep.call [of "w_start []" 0 ?J] by (simp add: w_start_def s1_def)
  moreover have "wstep ?J s1 s2" unfolding s2_def
    by (rule wstep.send) (simp_all add: s1_def w_start_def chan_cap_def)
  moreover have "wstep ?J s2 (run_job ?J False 0 [] s2)"
    by (rule wstep.take) (simp_all add: s2_def s1_def w_start_def)
  ultimately have "w_reachable ?J [] (run_job ?J False 0 [] s2)" by (meson w_reach_step)
  then show ?thesis
    by (intro exI [of _ "run_job ?J False 0 [] s2"])
      (auto simp: run_job_def demo_jobs_def w_start_def s1_def s2_def)
qed

theorem write_serialises_witness:
  "\<exists>s :: nat list wstate. w_exec s @ w_ch s = w_sent s \<and> w_exec s = [0]
     \<and> w_db s = snd (serial (demo_jobs (\<lambda>_. NoNotify)) [0] [])"
proof -
  from demo_one_write [of "\<lambda>_. NoNotify"] obtain s where
    "w_reachable (demo_jobs (\<lambda>_. NoNotify)) [] s" "w_exec s = [0]" by blast
  with write_serialises [OF this(1)] show ?thesis by (intro exI [of _ s]) (simp del: serial.simps)
qed

lemma loop_moves:
  assumes "w_live s" "w_ch s \<noteq> [] \<or> busy (w_loop s) \<noteq> None" "\<not> w_done s"
  shows "\<exists>t. wstep J s t \<and> (w_loop t \<noteq> w_loop s \<or> w_ch t \<noteq> w_ch s)"
proof (cases "w_loop s")
  case (LRun dr)
  then obtain j q where ch: "w_ch s = j # q" using assms(2) by (auto simp: neq_Nil_conv)
  have "w_ch (run_job J dr j q s) \<noteq> w_ch s"
    by (simp add: run_job_def case_prod_beta Let_def ch)
  then show ?thesis using wstep.take [OF LRun ch] by blast
next
  case (LCheck dr j)
  then show ?thesis using wstep.check [OF LCheck, of J] assms(3) by (intro exI conjI) auto
next
  case (LSend dr j)
  then show ?thesis using wstep.update [OF LSend, of J] assms(1,3)
    by (intro exI conjI) (auto simp: w_live_def)
next
  case LExit
  then show ?thesis using assms by (auto simp: w_live_def)
qed

text \<open>
  no write blocks for ever. In every reachable state a caller of \<open>write\<close> that has not come
  back can move, or the loop can: take the next write, or go on from its notification; and once
  \<open>done\<close> is closed the caller can leave at once.
\<close>

theorem write_progress:
  assumes "w_reachable J d s" and "w_pc s j \<in> {WSend, WWait}"
  shows "(\<exists>t. wstep J s t \<and> (w_pc t j \<noteq> w_pc s j \<or> w_loop t \<noteq> w_loop s \<or> w_ch t \<noteq> w_ch s))
    \<and> (w_done s \<longrightarrow> wstep J s (s\<lparr>w_pc := (w_pc s)(j := WRet (Inl StoreClosed))\<rparr>))"
proof -
  have live: "w_live s" by (rule w_live_reachable [OF assms(1)])
  have closed: "w_done s \<Longrightarrow> wstep J s (s\<lparr>w_pc := (w_pc s)(j := WRet (Inl StoreClosed))\<rparr>)"
    using assms(2) wstep.send_closed wstep.recv_closed by auto
  have "\<exists>t. wstep J s t \<and> (w_pc t j \<noteq> w_pc s j \<or> w_loop t \<noteq> w_loop s \<or> w_ch t \<noteq> w_ch s)"
  proof (cases "w_done s \<or> w_ch s \<noteq> [] \<or> busy (w_loop s) \<noteq> None")
    case True
    then show ?thesis using loop_moves [OF live, of J] closed assms(2) by (cases "w_done s") force+
  next
    case False
    consider "w_pc s j = WSend" | r where "w_pc s j = WWait" "w_err s j = Some r"
      using assms(2) live False by (auto simp: w_live_def)
    then show ?thesis
    proof cases
      case 1
      then show ?thesis using wstep.send [OF 1, of J] False by (intro exI conjI) (auto simp: chan_cap_def)
    next
      case 2
      then show ?thesis using wstep.recv [OF 2, of J] by (intro exI conjI) (auto split: if_splits)
    qed
  qed
  with closed show ?thesis by blast
qed

theorem write_progress_witness:
  "\<exists>s t. w_pc s 0 = WWait \<and> wstep (demo_jobs (\<lambda>_. NoNotify)) s t"
proof -
  from demo_one_write [of "\<lambda>_. NoNotify"] obtain s where
    s: "w_reachable (demo_jobs (\<lambda>_. NoNotify)) [] s" "w_pc s 0 = WWait" by blast
  with write_progress [OF s(1), of 0] show ?thesis by auto
qed

text \<open>
  \<open>Close\<close> can crash a write that is under way. The check of \<open>done\<close> before \<open>Updates <- t\<close> in
  \<open>Log\<close> and the unguarded notifications after \<open>write\<close> leave a window: from a reachable state
  each of the two reaches a send on a channel that \<open>Close\<close> has closed, which panics.
\<close>

theorem Close_races_with_notify:
  "k \<in> {InLoop, AfterWrite} \<Longrightarrow>
     \<exists>s. w_reachable (demo_jobs (\<lambda>_. k)) [] s \<and> w_panic s"
proof -
  assume k: "k \<in> {InLoop, AfterWrite}"
  let ?J = "demo_jobs (\<lambda>_. k)"
  from demo_one_write [of "\<lambda>_. k"] obtain s where s: "w_reachable ?J [] s" "\<not> w_done s" "\<not> w_closed s"
    "w_pc s 0 = WWait" "w_loop s = (if k = InLoop then LCheck False 0 else LRun False)"
    "k \<noteq> InLoop \<longrightarrow> w_err s 0 = Some (Inr ())" by blast
  obtain t where t: "w_reachable ?J [] t" "\<not> w_done t" "\<not> w_closed t"
    "k = InLoop \<and> w_loop t = LSend False 0 \<or> k = AfterWrite \<and> w_pc t 0 = WNotify"
  proof (cases "k = InLoop")
    case True
    then have "wstep ?J s (s\<lparr>w_loop := LSend False 0\<rparr>)"
      using wstep.check [of s False 0 ?J] s by simp
    from w_reach_step [OF s(1) this] True s show ?thesis
      by (intro that [of "s\<lparr>w_loop := LSend False 0\<rparr>"]) auto
  next
    case False
    then have "wstep ?J s (s\<lparr>w_pc := (w_pc s)(0 := WNotify), w_err := (w_err s)(0 := None)\<rparr>)"
      using wstep.recv [of s 0 "Inr ()" ?J] s k by (simp add: demo_jobs_def)
    from w_reach_step [OF s(1) this] False s k show ?thesis
      by (intro that [of "s\<lparr>w_pc := (w_pc s)(0 := WNotify), w_err := (w_err s)(0 := None)\<rparr>"]) auto
  qed
  define u where "u = t\<lparr>w_done := True, w_closed := True\<rparr>"
  have "wstep ?J t (t\<lparr>w_done := True\<rparr>)" by (rule wstep.close_done [OF t(2)])
  from w_reach_step [OF t(1) this] have v: "w_reachable ?J [] (t\<lparr>w_done := True\<rparr>)" .
  have "wstep ?J (t\<lparr>w_done := True\<rparr>) u"
    using wstep.close_chans [of "t\<lparr>w_done := True\<rparr>" ?J] t(3) by (simp add: u_def)
  from w_reach_step [OF v this] have u: "w_reachable ?J [] u" .
  have closed: "w_closed u" by (simp add: u_def)
  have "w_loop u = LSend False 0 \<or> w_pc u 0 = WNotify" using t(4) by (auto simp: u_def)
  then have "wstep ?J u (u\<lparr>w_panic := True\<rparr>)"
    using wstep.update [of u False 0 ?J] wstep.notify [of u 0 ?J] closed by (elim disjE) simp_all
  from w_reach_step [OF u this] have "w_reachable ?J [] (u\<lparr>w_panic := True\<rparr>)" .
  moreover have "w_panic (u\<lparr>w_panic := True\<rparr>)" unfolding u_def by (cases t) simp
  ultimately show ?thesis by blast
qed

theorem Close_races_with_notify_witness:
  "\<exists>s. w_reachable (demo_jobs (\<lambda>_. AfterWrite)) [] s \<and> w_panic s"
  by (rule Close_races_with_notify) simp

end
