(* ===== verification/StoreScope.thy ===== *)
theory StoreScope
  imports Project Net
begin

text \<open>
  The scope (\<open>internal/store/scope.go\<close>): the table of target hosts, the test of a host against
  it, and the cache that keeps the test off the database. The lock only protects the two cache
  fields; one call of \<open>InScope\<close> is one step here.
\<close>

definition AllScopeEntries :: "ScopeEntry list st" where
  "AllScopeEntries = sql (\<lambda>s. (Inr (map (\<lambda>(i, h). \<lparr>se_id = i, se_host = h\<rparr>) (t_asc (t_scope s))), s))"

definition invalidateScopeCache :: "store \<Rightarrow> store" where
  "invalidateScopeCache s = s\<lparr>s_scope_cache := [], s_scope_cache_set := False\<rparr>"

text \<open>The host column is \<open>UNIQUE\<close>: a second insert of a host fails.\<close>

definition AddScopeEntry :: "string \<Rightarrow> unit st" where
  "AddScopeEntry host s = (case store_write (sql (\<lambda>s.
         if host \<in> set (map snd (t_rows (t_scope s))) then (Inl SqlError, s)
         else (Inr (), s\<lparr>t_scope := snd (t_insert host (t_scope s))\<rparr>))) s of
       (Inl e, t) \<Rightarrow> (Inl e, t)
     | (Inr _, t) \<Rightarrow> (Inr (), invalidateScopeCache t))"

definition DeleteScopeEntry :: "nat \<Rightarrow> unit st" where
  "DeleteScopeEntry i s = (case store_write (sql (\<lambda>s.
         (Inr (), s\<lparr>t_scope := t_delete (\<lambda>(j, _). j = i) (t_scope s)\<rparr>))) s of
       (Inl e, t) \<Rightarrow> (Inl e, t)
     | (Inr _, t) \<Rightarrow> (Inr (), invalidateScopeCache t))"

definition matchesScope :: "ScopeEntry list \<Rightarrow> string \<Rightarrow> bool" where
  "matchesScope entries host = (entries = [] \<or>
     (\<exists>e \<in> set entries. host = se_host e \<or> has_suffix host (''.'' @ se_host e)))"

definition strip_port :: "string \<Rightarrow> string" where
  "strip_port host = (case split_host_port host of Some (h, _) \<Rightarrow> h | None \<Rightarrow> host)"

definition InScope :: "string \<Rightarrow> store \<Rightarrow> bool \<times> store" where
  "InScope host s = (let host = strip_port host in
     if s_scope_cache_set s then (matchesScope (s_scope_cache s) host, s)
     else (let s = (case AllScopeEntries s of
             (Inr entries, s) \<Rightarrow> s\<lparr>s_scope_cache := entries, s_scope_cache_set := True\<rparr>
           | (Inl _, s) \<Rightarrow> s)
       in (matchesScope (s_scope_cache s) host, s)))"

section \<open>The cache is coherent\<close>

definition scope_entries :: "store \<Rightarrow> ScopeEntry list" where
  "scope_entries s = map (\<lambda>(i, h). \<lparr>se_id = i, se_host = h\<rparr>) (t_asc (t_scope s))"

text \<open>A cache that is set holds the table; one that is not set is empty.\<close>

definition cache_ok :: "store \<Rightarrow> bool" where
  "cache_ok s = (if s_scope_cache_set s then s_scope_cache s = scope_entries s else s_scope_cache s = [])"

lemma cache_ok_fresh: "cache_ok (fresh_store fault f)"
  by (simp add: cache_ok_def fresh_store_def)

lemma cache_ok_invalidate: "cache_ok (invalidateScopeCache s)"
  by (simp add: cache_ok_def invalidateScopeCache_def)

lemma cache_ok_cong:
  "s_scope_cache_set t = s_scope_cache_set s \<Longrightarrow> s_scope_cache t = s_scope_cache s
   \<Longrightarrow> t_scope t = t_scope s \<Longrightarrow> cache_ok t = cache_ok s"
  by (simp add: cache_ok_def scope_entries_def)

lemma AddScopeEntry_eq:
  "AddScopeEntry host s = (if s_done s then (Inl StoreClosed, s)
     else if s_fault s (s_clock s) \<or> host \<in> snd ` set (t_rows (t_scope s)) then (Inl SqlError, tick s)
     else (Inr (), invalidateScopeCache ((tick s)\<lparr>t_scope := snd (t_insert host (t_scope s))\<rparr>)))"
  by (simp add: AddScopeEntry_def store_simps)

lemma DeleteScopeEntry_eq:
  "DeleteScopeEntry i s = (if s_done s then (Inl StoreClosed, s)
     else if s_fault s (s_clock s) then (Inl SqlError, tick s)
     else (Inr (), invalidateScopeCache ((tick s)\<lparr>t_scope := t_delete (\<lambda>(j, _). j = i) (t_scope s)\<rparr>)))"
  by (simp add: DeleteScopeEntry_def store_simps)

lemma cache_ok_tick: "cache_ok (tick s) = cache_ok s"
  by (rule cache_ok_cong) simp_all

lemma cache_ok_add: "cache_ok s \<Longrightarrow> cache_ok (snd (AddScopeEntry host s))"
  by (simp add: AddScopeEntry_eq cache_ok_tick cache_ok_invalidate)

lemma cache_ok_delete: "cache_ok s \<Longrightarrow> cache_ok (snd (DeleteScopeEntry i s))"
  by (simp add: DeleteScopeEntry_eq cache_ok_tick cache_ok_invalidate)

lemma AllScopeEntries_eq:
  "AllScopeEntries s = (if s_fault s (s_clock s) then Inl SqlError else Inr (scope_entries s), tick s)"
  by (simp add: AllScopeEntries_def sql_def scope_entries_def)

lemma cache_ok_InScope: "cache_ok s \<Longrightarrow> cache_ok (snd (InScope host s))"
  by (simp add: InScope_def Let_def AllScopeEntries_eq cache_ok_def scope_entries_def)

text \<open>What the cache has to do with the answer: nothing, unless the database fails.\<close>

lemma InScope_answer:
  assumes "cache_ok s" "s_scope_cache_set s \<or> \<not> s_fault s (s_clock s)"
  shows "fst (InScope host s) = matchesScope (scope_entries s) (strip_port host)"
  using assms by (auto simp: InScope_def Let_def AllScopeEntries_eq cache_ok_def)

lemma InScope_keeps: "t_scope (snd (InScope host s)) = t_scope s"
  by (simp add: InScope_def Let_def AllScopeEntries_eq)

text \<open>The scope operations as one type, so that a history of calls is a list.\<close>

datatype scope_op = SAdd string | SDelete nat | SCheck string

fun scope_step :: "scope_op \<Rightarrow> store \<Rightarrow> store" where
  "scope_step (SAdd h) s = snd (AddScopeEntry h s)"
| "scope_step (SDelete i) s = snd (DeleteScopeEntry i s)"
| "scope_step (SCheck h) s = snd (InScope h s)"

lemma cache_ok_steps: "cache_ok s \<Longrightarrow> cache_ok (fold scope_step ops s)"
proof (induction ops arbitrary: s)
  case (Cons x ops)
  then show ?case by (cases x) (auto simp: cache_ok_add cache_ok_delete cache_ok_InScope)
qed simp

lemma matchesScope_spec:
  "matchesScope entries host \<longleftrightarrow> entries = []
     \<or> (\<exists>h \<in> se_host ` set entries. host = h \<or> (\<exists>sub. host = sub @ ''.'' @ h))"
  by (auto simp: matchesScope_def has_suffix_def suffix_def)

lemma scope_entries_hosts:
  "se_host ` set (scope_entries s) = snd ` set (t_rows (t_scope s))"
  "scope_entries s = [] \<longleftrightarrow> t_rows (t_scope s) = []"
proof -
  have set: "set (t_asc (t_scope s)) = set (t_rows (t_scope s))" by (simp add: t_asc_def)
  then show "se_host ` set (scope_entries s) = snd ` set (t_rows (t_scope s))"
    unfolding scope_entries_def set_map image_image set by (intro image_cong) auto
  show "scope_entries s = [] \<longleftrightarrow> t_rows (t_scope s) = []"
    using set by (simp add: scope_entries_def flip: set_empty)
qed

section \<open>Properties of the scope\<close>



end
