(* ===== verification/StoreHistory.thy ===== *)
theory StoreHistory
  imports Project StoreScope Net
begin

text \<open>
  The transaction history (\<open>internal/store/history.go\<close>): logging, lookup, the filtered pages,
  the full-text search and the deletions, each statement translated beside its operation. A page
  leaves the bodies out; \<open>scan_row\<close> takes a flag for that.
\<close>

section \<open>Operations\<close>

definition PageSize :: nat where
  "PageSize = 100"

record TransactionFilter =
  tf_search :: string
  tf_host :: string
  tf_port :: int
  tf_path_prefix :: string
  tf_show_out_scope :: bool
  tf_methods :: "string list"
  tf_status_min :: int
  tf_status_max :: int
  tf_hide_static :: bool

record SiteMapEntry =
  sm_host :: string
  sm_port :: int
  sm_url :: string

definition SiteMapEntries :: "SiteMapEntry list st" where
  "SiteMapEntries = sql (\<lambda>s. (Inr (map (\<lambda>(_, r). \<lparr>sm_host = hr_host r, sm_port = hr_port r,
     sm_url = hr_url r\<rparr>) (t_asc (t_history s))), s))"

definition scan_row :: "codec \<Rightarrow> bool \<Rightarrow> nat \<times> history_row \<Rightarrow> Transaction" where
  "scan_row c bodies = (\<lambda>(i, r). \<lparr>tx_id = i, tx_timestamp = parse_time_or_zero c (hr_timestamp r),
     tx_host = hr_host r, tx_port = hr_port r, tx_method = hr_method r, tx_url = hr_url r,
     tx_proto = hr_proto r,
     tx_req_headers = (case unmarshal c (hr_req_headers r) of None \<Rightarrow> [] | Some h \<Rightarrow> h),
     tx_req_body = (if bodies then hr_req_body r else []), tx_status = hr_status r,
     tx_resp_headers = (case unmarshal c (hr_resp_headers r) of None \<Rightarrow> [] | Some h \<Rightarrow> h),
     tx_resp_body = (if bodies then hr_resp_body r else []), tx_resp_size = hr_resp_size r,
     tx_duration_ms = hr_duration_ms r, tx_tls = (hr_tls r = 1), tx_in_scope = (hr_in_scope r = 1)\<rparr>)"

definition GetTransaction :: "codec \<Rightarrow> nat \<Rightarrow> Transaction st" where
  "GetTransaction c i = sql (\<lambda>s. case t_find i (t_history s) of
       None \<Rightarrow> (Inl NoRows, s)
     | Some r \<Rightarrow> (Inr (scan_row c True (i, r)), s))"

definition proto_or_default :: "Transaction \<Rightarrow> string" where
  "proto_or_default t = (if tx_proto t = [] then ''HTTP/1.1'' else tx_proto t)"

definition log_row :: "codec \<Rightarrow> string \<Rightarrow> string \<Rightarrow> Transaction \<Rightarrow> history_row" where
  "log_row c reqH respH t = \<lparr>hr_timestamp = format_time c (tx_timestamp t), hr_host = tx_host t,
     hr_port = tx_port t, hr_method = tx_method t, hr_url = tx_url t, hr_proto = proto_or_default t,
     hr_req_headers = reqH, hr_req_body = tx_req_body t, hr_status = tx_status t,
     hr_resp_headers = respH, hr_resp_body = tx_resp_body t, hr_duration_ms = tx_duration_ms t,
     hr_tls = boolToInt (tx_tls t), hr_in_scope = boolToInt (tx_in_scope t),
     hr_resp_size = int (length (tx_resp_body t))\<rparr>"

definition Log :: "codec \<Rightarrow> Transaction \<Rightarrow> unit st" where
  "Log c t = store_write (\<lambda>s. case (marshal c (tx_req_headers t), marshal c (tx_resp_headers t)) of
       (Some reqH, Some respH) \<Rightarrow> sql (\<lambda>s.
         let (i, h) = t_insert (log_row c reqH respH t) (t_history s);
             t = t\<lparr>tx_id := i, tx_proto := proto_or_default t,
                   tx_resp_size := int (length (tx_resp_body t))\<rparr>;
             s = s\<lparr>t_history := h\<rparr>
         in (Inr (), if s_done s then s else s\<lparr>s_updates := try_send t (s_updates s)\<rparr>)) s
     | _ \<Rightarrow> (Inl MarshalError, s))"

text \<open>The \<open>WHERE\<close> clause of a page, condition by condition.\<close>

definition path_matches :: "string \<Rightarrow> string \<Rightarrow> bool" where
  "path_matches p u = (like (''%'' @ p) u \<or> like (''%'' @ p @ ''?%'') u \<or> like (''%'' @ p @ ''/%'') u)"

definition term_matches :: "history_row \<Rightarrow> string \<Rightarrow> bool" where
  "term_matches r t = (let pat = ''%'' @ t @ ''%'' in
     like pat (to_lower (hr_host r)) \<or> like pat (to_lower (hr_url r))
     \<or> like pat (to_lower (hr_method r)) \<or> like pat (itoa (hr_status r)))"

definition page_where :: "nat \<Rightarrow> TransactionFilter \<Rightarrow> nat \<times> history_row \<Rightarrow> bool" where
  "page_where before f = (\<lambda>(i, r).
     (before > 0 \<longrightarrow> i < before)
   \<and> (\<not> tf_show_out_scope f \<longrightarrow> hr_in_scope r = 1)
   \<and> (tf_host f \<noteq> [] \<longrightarrow> hr_host r = tf_host f \<and> (tf_port f \<noteq> 0 \<longrightarrow> hr_port r = tf_port f))
   \<and> (tf_path_prefix f \<noteq> [] \<longrightarrow> path_matches (tf_path_prefix f) (hr_url r))
   \<and> (\<forall>t \<in> set (str_fields (to_lower (tf_search f))). term_matches r t)
   \<and> (tf_methods f \<noteq> [] \<longrightarrow> hr_method r \<in> set (map to_upper (tf_methods f)))
   \<and> (tf_status_min f > 0 \<longrightarrow> hr_status r \<ge> tf_status_min f)
   \<and> (tf_status_max f > 0 \<longrightarrow> hr_status r \<le> tf_status_max f))"

definition TransactionsPage :: "codec \<Rightarrow> nat \<Rightarrow> TransactionFilter \<Rightarrow> Transaction list st" where
  "TransactionsPage c before f = sql (\<lambda>s.
     (Inr (map (scan_row c False) (take PageSize (filter (page_where before f) (t_desc (t_history s))))), s))"

definition search_where :: "string \<Rightarrow> bool \<Rightarrow> bool \<Rightarrow> bool \<Rightarrow> history_row \<Rightarrow> bool" where
  "search_where term inReqBody inRespBody inHeaders r = (let pat = ''%'' @ term @ ''%'' in
     inReqBody \<and> like pat (hr_req_body r) \<or> inRespBody \<and> like pat (hr_resp_body r)
     \<or> inHeaders \<and> (like pat (hr_req_headers r) \<or> like pat (hr_resp_headers r)))"

definition SearchTransactions :: "codec \<Rightarrow> string \<Rightarrow> bool \<Rightarrow> bool \<Rightarrow> bool \<Rightarrow> Transaction list st" where
  "SearchTransactions c term inReqBody inRespBody inHeaders s =
     (if term = [] \<or> \<not> inReqBody \<and> \<not> inRespBody \<and> \<not> inHeaders then (Inr [], s)
      else sql (\<lambda>s. (Inr (map (scan_row c False) (take 200
             (filter (\<lambda>(_, r). search_where term inReqBody inRespBody inHeaders r)
                (t_desc (t_history s))))), s)) s)"

definition AllTransactions :: "codec \<Rightarrow> Transaction list st" where
  "AllTransactions c = sql (\<lambda>s. (Inr (map (scan_row c True) (take 500 (t_desc (t_history s)))), s))"

definition ClearHistory :: "unit st" where
  "ClearHistory = store_write (sql (\<lambda>s. sql (\<lambda>s. (Inr (), s))
     (s\<lparr>t_history := t_delete (\<lambda>_. True) (t_history s)\<rparr>)))"

definition DeleteTransactionsByHostPort :: "string \<Rightarrow> int \<Rightarrow> unit st" where
  "DeleteTransactionsByHostPort host port = store_write (sql (\<lambda>s. (Inr (),
     s\<lparr>t_history := t_delete (\<lambda>(_, r). hr_host r = host \<and> hr_port r = port) (t_history s)\<rparr>)))"

definition observed_host_port :: "ResponseEvent \<Rightarrow> string \<times> int" where
  "observed_host_port e = (case split_host_port (ev_host e) of
       Some (h, p) \<Rightarrow> (h, fst (atoi p))
     | None \<Rightarrow> (ev_host e, fst (atoi (if ev_tls e then ''443'' else ''80''))))"

definition observed_transaction :: "ResponseEvent \<Rightarrow> bool \<Rightarrow> Transaction" where
  "observed_transaction e in_scope = \<lparr>tx_id = 0, tx_timestamp = ev_timestamp e,
     tx_host = fst (observed_host_port e), tx_port = snd (observed_host_port e),
     tx_method = ev_method e, tx_url = ev_url e, tx_proto = ev_proto e,
     tx_req_headers = ev_req_headers e, tx_req_body = ev_req_body e, tx_status = ev_status e,
     tx_resp_headers = ev_resp_headers e, tx_resp_body = ev_resp_body e, tx_resp_size = 0,
     tx_duration_ms = ev_duration_ms e, tx_tls = ev_tls e, tx_in_scope = in_scope\<rparr>"

text \<open>An error of \<open>Log\<close> is only written to the log file.\<close>

definition ObserveResponse :: "codec \<Rightarrow> ResponseEvent \<Rightarrow> store \<Rightarrow> store" where
  "ObserveResponse c e s = (let (b, s) = InScope (fst (observed_host_port e)) s
     in snd (Log c (observed_transaction e b) s))"

section \<open>Equations\<close>

lemma Log_eq:
  assumes "\<not> s_done s" "\<not> s_fault s (s_clock s)"
    "marshal c (tx_req_headers t) = Some reqH" "marshal c (tx_resp_headers t) = Some respH"
  shows "Log c t s = (Inr (), (tick s)\<lparr>t_history := snd (t_insert (log_row c reqH respH t) (t_history s)),
     s_updates := try_send (t\<lparr>tx_id := Suc (t_seq (t_history s)), tx_proto := proto_or_default t,
       tx_resp_size := int (length (tx_resp_body t))\<rparr>) (s_updates s)\<rparr>)"
  using assms by (simp add: Log_def store_simps case_prod_beta) (simp add: t_insert_def)

text \<open>What any \<open>Log\<close> does to the table: nothing, or one insertion.\<close>

lemma Log_history:
  "t_history (snd (Log c t s)) = t_history s
   \<or> (\<exists>r. t_history (snd (Log c t s)) = snd (t_insert r (t_history s)))"
  by (auto simp: Log_def store_simps case_prod_beta split: option.splits)

lemma ClearHistory_history:
  "t_history (snd (ClearHistory s)) = t_history s
   \<or> t_history (snd (ClearHistory s)) = t_delete (\<lambda>_. True) (t_history s)"
  by (auto simp: ClearHistory_def store_simps)

lemma DeleteTransactions_history:
  "t_history (snd (DeleteTransactionsByHostPort h p s)) = t_history s
   \<or> t_history (snd (DeleteTransactionsByHostPort h p s))
       = t_delete (\<lambda>(_, r). hr_host r = h \<and> hr_port r = p) (t_history s)"
  by (auto simp: DeleteTransactionsByHostPort_def store_simps)

lemma InScope_history: "t_history (snd (InScope h s)) = t_history s"
  by (simp add: InScope_def Let_def AllScopeEntries_eq)

lemma scan_log_row:
  assumes "time_law c" "marshal c (tx_req_headers t) = Some reqH" "unmarshal c reqH = Some (tx_req_headers t)"
    "marshal c (tx_resp_headers t) = Some respH" "unmarshal c respH = Some (tx_resp_headers t)"
  shows "scan_row c True (i, log_row c reqH respH t) = t\<lparr>tx_id := i,
     tx_timestamp := tx_timestamp t - tx_timestamp t mod 1000000000,
     tx_proto := proto_or_default t, tx_resp_size := int (length (tx_resp_body t))\<rparr>"
  using assms by (simp add: scan_row_def log_row_def parse_time_or_zero_def time_law_def boolToInt_def)

text \<open>The operations that write the history, as one type.\<close>

datatype history_op = HLog Transaction | HObserve ResponseEvent | HClear | HDelete string int

fun history_step :: "codec \<Rightarrow> history_op \<Rightarrow> store \<Rightarrow> store" where
  "history_step c (HLog t) s = snd (Log c t s)"
| "history_step c (HObserve e) s = ObserveResponse c e s"
| "history_step c HClear s = snd (ClearHistory s)"
| "history_step c (HDelete h p) s = snd (DeleteTransactionsByHostPort h p s)"

lemma history_step_table:
  "t_history (history_step c x s) = t_history s
   \<or> (\<exists>r. t_history (history_step c x s) = snd (t_insert r (t_history s)))
   \<or> (\<exists>P. t_history (history_step c x s) = t_delete P (t_history s))"
proof (cases x)
  case (HObserve e)
  then show ?thesis
    using Log_history [of c _ "snd (InScope (fst (observed_host_port e)) s)"]
      InScope_history [of "fst (observed_host_port e)" s]
    by (simp add: ObserveResponse_def case_prod_beta Let_def) metis
next
  case (HLog t)
  then show ?thesis using Log_history by auto
next
  case HClear
  then show ?thesis using ClearHistory_history by auto
next
  case (HDelete h p)
  then show ?thesis using DeleteTransactions_history [of h p s] by (simp only: history_step.simps) blast
qed

lemma history_steps_reach:
  "sqlite.reaches t (t_history s) \<Longrightarrow> sqlite.reaches t (t_history (fold (history_step c) ops s))"
proof (induction ops arbitrary: s)
  case (Cons x ops)
  have "sqlite.reaches t (t_history (history_step c x s))"
    using history_step_table [of c x s] Cons.prems sqlite.reaches.intros by metis
  then show ?case using Cons.IH by simp
qed simp

lemma GetTransaction_eq:
  "\<not> s_fault s (s_clock s) \<Longrightarrow> fst (GetTransaction c i s) = (case t_find i (t_history s) of
     None \<Rightarrow> Inl NoRows | Some r \<Rightarrow> Inr (scan_row c True (i, r)))"
  by (simp add: GetTransaction_def sql_def split: option.split)

section \<open>Pages\<close>

lemma page_where_before:
  "page_where b f r = (page_where 0 f r \<and> (b > 0 \<longrightarrow> fst r < b))"
  by (cases r) (auto simp: page_where_def)

definition matching :: "TransactionFilter \<Rightarrow> store \<Rightarrow> (nat \<times> history_row) list" where
  "matching f s = filter (page_where 0 f) (t_desc (t_history s))"

lemma filter_page_where:
  "filter (page_where b f) rs = filter (\<lambda>r. b > 0 \<longrightarrow> fst r < b) (filter (page_where 0 f) rs)"
  unfolding filter_filter by (rule filter_cong) (auto simp: page_where_before [of b])

lemma TransactionsPage_eq:
  "\<not> s_fault s (s_clock s) \<Longrightarrow> TransactionsPage c b f s =
     (Inr (map (scan_row c False) (take PageSize (filter (\<lambda>r. b > 0 \<longrightarrow> fst r < b) (matching f s)))), tick s)"
  using filter_page_where [of b f "t_desc (t_history s)"]
  by (simp add: TransactionsPage_def sql_def matching_def)

lemma matching_sorted:
  "t_ok (t_history s) \<Longrightarrow> sorted_wrt (>) (map fst (matching f s))"
  unfolding matching_def by (rule sorted_wrt_map_filter [OF t_desc_sorted])

lemma matching_pos: "t_ok (t_history s) \<Longrightarrow> r \<in> set (matching f s) \<Longrightarrow> 0 < fst r"
  by (auto simp: matching_def t_desc_rows t_ok_def)

text \<open>The rows after a page are those below its last id.\<close>

lemma after_page:
  fixes xs :: "(nat \<times> 'a) list"
  assumes "sorted_wrt (>) (map fst xs)" "xs \<noteq> []" "0 < n"
  shows "filter (\<lambda>r. fst r < fst (last (take n xs))) xs = drop n xs"
proof -
  let ?k = "fst (last (take n xs))"
  have "sorted_wrt (>) (map fst (take n xs) @ map fst (drop n xs))"
    using assms(1) by (metis append_take_drop_id map_append)
  then have s: "sorted_wrt (>) (map fst (take n xs))"
    "\<And>a b. a \<in> set (take n xs) \<Longrightarrow> b \<in> set (drop n xs) \<Longrightarrow> fst b < fst a"
    by (auto simp: sorted_wrt_append)
  have ne: "take n xs \<noteq> []" using assms by simp
  then obtain ys y where y: "take n xs = ys @ [y]" using rev_exhaust by blast
  have "\<forall>a \<in> set (take n xs). ?k \<le> fst a"
    using s(1) unfolding y by (auto simp: sorted_wrt_append)
  then have "filter (\<lambda>r. fst r < ?k) (take n xs) = []" by (auto simp: filter_empty_conv)
  moreover have "filter (\<lambda>r. fst r < ?k) (drop n xs) = drop n xs"
    using s(2) [OF last_in_set [OF ne]] by (auto simp: filter_id_conv)
  ultimately show ?thesis
    by (metis append_take_drop_id filter_append self_append_conv2)
qed

section \<open>Properties of the history\<close>

text \<open>A codec for the witnesses: it can store no headers but the empty ones.\<close>

definition demo_codec :: codec where
  "demo_codec = \<lparr>marshal = (\<lambda>h. if h = [] then Some ''{}'' else None),
     unmarshal = (\<lambda>s. if s = ''{}'' then Some [] else None),
     format_time = (\<lambda>n. if n \<ge> 0 then nat_digits (nat (n div 1000000000))
        else CHR ''-'' # nat_digits (nat (- (n div 1000000000)))),
     parse_time = (\<lambda>s. case s of [] \<Rightarrow> None
       | c # t \<Rightarrow> Some (if c = CHR ''-'' then - int (digits_val t) * 1000000000
                       else int (digits_val s) * 1000000000))\<rparr>"

definition demo_tx :: Transaction where
  "demo_tx = \<lparr>tx_id = 0, tx_timestamp = 1500000000, tx_host = ''h'', tx_port = 443, tx_method = ''GET'',
     tx_url = ''https://h/a'', tx_proto = [], tx_req_headers = [], tx_req_body = [], tx_status = 200,
     tx_resp_headers = [], tx_resp_body = ''ok'', tx_resp_size = 0, tx_duration_ms = 5,
     tx_tls = True, tx_in_scope = True\<rparr>"

definition demo_store :: store where
  "demo_store = fresh_store (\<lambda>_. False) new_file"

lemma nat_digits_no_minus: "nat_digits k = a # t \<Longrightarrow> a \<noteq> CHR ''-''"
proof
  assume "nat_digits k = a # t" "a = CHR ''-''"
  then have "is_digit (CHR ''-'')" using nat_digits_is_digit [of "CHR ''-''" k] by simp
  then show False by code_simp
qed

lemma demo_time_law: "time_law demo_codec"
proof -
  have pos: "(case nat_digits k of [] \<Rightarrow> None | c # t \<Rightarrow> Some (if c = CHR ''-'' then - int (digits_val t) * 1000000000
      else int (digits_val (nat_digits k)) * 1000000000)) = Some (int k * 1000000000)" for k
    using nat_digits_no_minus [of k] digits_val_nat_digits [of k]
    by (cases "nat_digits k") simp_all
  have "parse_time demo_codec (format_time demo_codec n) = Some (n div 1000000000 * 1000000000)" for n
  proof (cases "0 \<le> n")
    case True
    then have "0 \<le> n div 1000000000" by (rule pos_imp_zdiv_nonneg_iff [THEN iffD2, rotated]) simp
    with True pos show ?thesis by (simp add: demo_codec_def)
  next
    case False
    then have "n div 1000000000 < 0" by (simp add: neg_imp_zdiv_neg_iff div_neg_pos_less0)
    with False show ?thesis by (simp add: demo_codec_def)
  qed
  then show ?thesis by (simp add: time_law_def minus_mod_eq_div_mult)
qed

lemma history_step_fault: "s_fault (history_step c x s) = s_fault s"
  by (cases x) (auto simp: Log_def ObserveResponse_def InScope_def AllScopeEntries_eq ClearHistory_def
    DeleteTransactionsByHostPort_def store_simps case_prod_beta split: option.splits)

lemma history_steps_fault: "s_fault (fold (history_step c) ops s) = s_fault s"
  by (induction ops arbitrary: s) (simp_all add: history_step_fault)

text \<open>
  C6: what is logged can be read back. A successful \<open>Log\<close> stores one new row, under an id above
  all ids handed out before; \<open>GetTransaction\<close> with that id returns the transaction as it was
  given, but for the id, the default protocol, the response size and the timestamp, which is
  kept to the second; every other row reads as before.
\<close>

theorem Log_roundtrip:
  assumes "\<not> s_done s" and "t_ok (t_history s)"
    and "\<not> s_fault s (s_clock s)" and "\<not> s_fault s (Suc (s_clock s))"
    and "time_law c" and "header_law c (tx_req_headers t)" and "header_law c (tx_resp_headers t)"
  shows "\<exists>i s'. Log c t s = (Inr (), s') \<and> (\<forall>r \<in> set (t_rows (t_history s)). fst r < i)
    \<and> fst (GetTransaction c i s') = Inr (t\<lparr>tx_id := i,
        tx_timestamp := tx_timestamp t - tx_timestamp t mod 1000000000,
        tx_proto := (if tx_proto t = [] then ''HTTP/1.1'' else tx_proto t),
        tx_resp_size := int (length (tx_resp_body t))\<rparr>)
    \<and> (\<forall>j. j \<noteq> i \<longrightarrow> t_find j (t_history s') = t_find j (t_history s))"
proof -
  obtain reqH respH where h: "marshal c (tx_req_headers t) = Some reqH"
    "unmarshal c reqH = Some (tx_req_headers t)" "marshal c (tx_resp_headers t) = Some respH"
    "unmarshal c respH = Some (tx_resp_headers t)"
    using assms(6,7) by (auto simp: header_law_def)
  let ?i = "Suc (t_seq (t_history s))"
  let ?s' = "snd (Log c t s)"
  note eq = Log_eq [OF assms(1,3) h(1,3)]
  have f: "t_history ?s' = snd (t_insert (log_row c reqH respH t) (t_history s))"
    "s_fault ?s' = s_fault s" "s_clock ?s' = Suc (s_clock s)" by (simp_all add: eq)
  have "fst (GetTransaction c ?i ?s') = Inr (scan_row c True (?i, log_row c reqH respH t))"
    using GetTransaction_eq [of ?s' c ?i] assms(4) by (simp add: f t_find_insert [OF assms(2)])
  moreover have "\<forall>j. j \<noteq> ?i \<longrightarrow> t_find j (t_history ?s') = t_find j (t_history s)"
    by (simp add: f t_find_insert_other)
  moreover have "\<forall>r \<in> set (t_rows (t_history s)). fst r < ?i"
    using assms(2) by (auto simp: t_ok_def le_imp_less_Suc)
  moreover have "Log c t s = (Inr (), ?s')" by (simp add: eq)
  ultimately show ?thesis
    unfolding scan_log_row [OF assms(5) h] proto_or_default_def by blast
qed

theorem Log_roundtrip_witness:
  "\<exists>i s'. Log demo_codec demo_tx demo_store = (Inr (), s')
     \<and> fst (GetTransaction demo_codec i s') = Inr (demo_tx\<lparr>tx_id := i, tx_timestamp := 1000000000,
         tx_proto := ''HTTP/1.1'', tx_resp_size := 2\<rparr>)"
proof -
  have h: "header_law demo_codec (tx_req_headers demo_tx)" "header_law demo_codec (tx_resp_headers demo_tx)"
    by (simp_all add: header_law_def demo_codec_def demo_tx_def)
  have s: "\<not> s_done demo_store" "t_ok (t_history demo_store)" "\<not> s_fault demo_store n" for n
    by (simp_all add: demo_store_def fresh_store_def new_file_def)
  have t: "tx_timestamp demo_tx - tx_timestamp demo_tx mod 1000000000 = 1000000000"
    "tx_proto demo_tx = []" "int (length (tx_resp_body demo_tx)) = 2"
    by (simp_all add: demo_tx_def)
  from Log_roundtrip [OF s s(3) demo_time_law h] show ?thesis unfolding t by auto
qed

text \<open>
  C7: an id is never given to another transaction. Whatever is logged, cleared and deleted
  afterwards, and whichever statements fail, looking up an id that had been handed out gives
  the same row as before, or none; one that was deleted stays deleted.
\<close>

theorem history_id_stable:
  assumes "t_ok (t_history s)" and "i \<le> t_seq (t_history s)"
    and "s' = fold (history_step c) ops s" and "\<not> s_fault s' (s_clock s')"
  shows "t_ok (t_history s')
    \<and> (fst (GetTransaction c i s') = Inl NoRows
       \<or> (\<exists>r. (i, r) \<in> set (t_rows (t_history s)) \<and> fst (GetTransaction c i s') = Inr (scan_row c True (i, r))))"
proof -
  have r: "sqlite.reaches (t_history s) (t_history s')"
    unfolding assms(3) by (rule history_steps_reach [OF sqlite.reaches.refl])
  have ok: "t_ok (t_history s')" using sqlite.reaches_ok [OF r assms(1)] by simp
  show ?thesis
  proof (cases "t_find i (t_history s')")
    case None
    then show ?thesis using ok by (simp add: GetTransaction_eq [OF assms(4)])
  next
    case (Some a)
    then have "(i, a) \<in> set (t_rows (t_history s'))" by (simp add: t_find_Some [OF ok])
    from sqlite.no_resurrection [OF r assms(1) this assms(2)] Some ok show ?thesis
      by (auto simp: GetTransaction_eq [OF assms(4)])
  qed
qed

theorem history_id_stable_witness:
  "\<exists>s'. s' = fold (history_step demo_codec) [HClear, HLog demo_tx] (history_step demo_codec (HLog demo_tx) demo_store)
     \<and> fst (GetTransaction demo_codec 1 s') = Inl NoRows"
proof -
  let ?s = "history_step demo_codec (HLog demo_tx) demo_store"
  let ?s' = "fold (history_step demo_codec) [HClear, HLog demo_tx] ?s"
  have "s_fault ?s' = (\<lambda>_. False)"
    unfolding history_steps_fault history_step_fault by (simp add: demo_store_def fresh_store_def)
  then have f: "\<not> s_fault ?s' (s_clock ?s')" by simp
  have t: "t_seq (t_history ?s) = 1" "map fst (t_rows (t_history ?s)) = [1]" "t_find 1 (t_history ?s') = None"
    by code_simp+
  have "t_ok (t_history ?s)" using t by (auto simp: t_ok_def)
  with history_id_stable [OF this _ refl f, of 1] t show ?thesis
    by (intro exI [of _ ?s'] conjI refl) (simp only: GetTransaction_eq [OF f] option.case)
qed

lemma nat_digits_no_brackets: "set (nat_digits p) \<inter> {CHR ''['', CHR '']'', CHR '':''} = {}"
proof -
  have "\<not> is_digit (CHR ''['')" "\<not> is_digit (CHR '']'')" "\<not> is_digit (CHR '':'')" by code_simp+
  then show ?thesis using nat_digits_is_digit [of _ p] by blast
qed

lemma observed_host_port_join:
  assumes "set h \<inter> {CHR ''['', CHR '']''} = {}" "int p \<le> max_int"
    "ev_host e = join_host_port h (nat_digits p)"
  shows "observed_host_port e = (h, int p)"
  using split_join_host_port [OF assms(1) nat_digits_no_brackets] atoi_nat_digits [OF assms(2)]
  by (simp add: observed_host_port_def assms(3))

lemma InScope_ok:
  assumes "cache_ok s" "\<forall>n. \<not> s_fault s n"
  shows "fst (InScope h s) = matchesScope (scope_entries s) (strip_port h)
    \<and> s_done (snd (InScope h s)) = s_done s \<and> s_fault (snd (InScope h s)) = s_fault s
    \<and> t_history (snd (InScope h s)) = t_history s"
  using InScope_answer [of s h] assms by (auto simp: InScope_def Let_def AllScopeEntries_eq)

text \<open>The one row that a reported response becomes.\<close>

definition logged_as :: "ResponseEvent \<Rightarrow> bool \<Rightarrow> nat \<Rightarrow> Transaction" where
  "logged_as e in_scope i = \<lparr>tx_id = i,
        tx_timestamp = ev_timestamp e - ev_timestamp e mod 1000000000,
        tx_host = fst (observed_host_port e), tx_port = snd (observed_host_port e),
        tx_method = ev_method e, tx_url = ev_url e,
        tx_proto = (if ev_proto e = [] then ''HTTP/1.1'' else ev_proto e),
        tx_req_headers = ev_req_headers e, tx_req_body = ev_req_body e, tx_status = ev_status e,
        tx_resp_headers = ev_resp_headers e, tx_resp_body = ev_resp_body e,
        tx_resp_size = int (length (ev_resp_body e)), tx_duration_ms = ev_duration_ms e,
        tx_tls = ev_tls e, tx_in_scope = in_scope\<rparr>"

lemma ObserveResponse_row:
  assumes "\<not> s_done s" and "\<forall>n. \<not> s_fault s n" and "t_ok (t_history s)" and "cache_ok s"
    and "time_law c" and "header_law c (ev_req_headers e)" and "header_law c (ev_resp_headers e)"
  shows "\<exists>r i. t_rows (t_history (ObserveResponse c e s)) = t_rows (t_history s) @ [(i, r)]
    \<and> fst (GetTransaction c i (ObserveResponse c e s))
        = Inr (logged_as e (matchesScope (scope_entries s) (strip_port (fst (observed_host_port e)))) i)"
proof -
  let ?h = "fst (observed_host_port e)"
  define s1 where "s1 = snd (InScope ?h s)"
  define t where "t = observed_transaction e (matchesScope (scope_entries s) (strip_port ?h))"
  have s1: "\<not> s_done s1" "s_fault s1 = s_fault s" "t_history s1 = t_history s"
    "fst (InScope ?h s) = matchesScope (scope_entries s) (strip_port ?h)"
    using InScope_ok [OF assms(4,2), of ?h] assms(1) by (simp_all add: s1_def)
  have eq: "ObserveResponse c e s = snd (Log c t s1)"
    by (simp add: ObserveResponse_def case_prod_beta Let_def s1_def t_def s1(4) [unfolded s1_def])
  obtain reqH respH where hd: "marshal c (tx_req_headers t) = Some reqH"
    "unmarshal c reqH = Some (tx_req_headers t)" "marshal c (tx_resp_headers t) = Some respH"
    "unmarshal c respH = Some (tx_resp_headers t)"
    using assms(6,7) by (auto simp: header_law_def t_def observed_transaction_def)
  have log: "t_history (snd (Log c t s1)) = snd (t_insert (log_row c reqH respH t) (t_history s))"
    "s_fault (snd (Log c t s1)) = s_fault s"
    using Log_eq [OF s1(1) _ hd(1,3)] assms(2) s1(2,3) by simp_all
  let ?i = "Suc (t_seq (t_history s))"
  have "fst (GetTransaction c ?i (snd (Log c t s1))) = Inr (scan_row c True (?i, log_row c reqH respH t))"
    using assms(2) by (simp add: GetTransaction_eq log t_find_insert [OF assms(3)])
  moreover have "t_rows (t_history (snd (Log c t s1))) = t_rows (t_history s) @ [(?i, log_row c reqH respH t)]"
    by (simp add: log t_insert_def)
  ultimately show ?thesis
    unfolding eq scan_log_row [OF assms(5) hd]
    by (intro exI conjI) (auto simp: t_def observed_transaction_def logged_as_def proto_or_default_def)
qed

text \<open>
  every response the proxy reports becomes one row, with host and port apart. For a response
  from \<open>host:port\<close> (an IPv6 host in brackets), \<open>ObserveResponse\<close> on an open store whose
  statements succeed appends exactly one row; its host is the host alone, its port the number,
  and it is in scope when the scope table says so; everything else is as the proxy reported it,
  bodies included.
\<close>

theorem ObserveResponse_logged:
  assumes "\<not> s_done s" and "\<forall>n. \<not> s_fault s n" and "t_ok (t_history s)" and "cache_ok s"
    and "time_law c" and "header_law c (ev_req_headers e)" and "header_law c (ev_resp_headers e)"
    and "ev_host e = join_host_port h (nat_digits p)" and "set h \<inter> {CHR ''['', CHR '']''} = {}"
    and "int p \<le> max_int"
  shows "\<exists>r i. t_rows (t_history (ObserveResponse c e s)) = t_rows (t_history s) @ [(i, r)]
    \<and> fst (GetTransaction c i (ObserveResponse c e s)) = Inr \<lparr>tx_id = i,
        tx_timestamp = ev_timestamp e - ev_timestamp e mod 1000000000, tx_host = h, tx_port = int p,
        tx_method = ev_method e, tx_url = ev_url e,
        tx_proto = (if ev_proto e = [] then ''HTTP/1.1'' else ev_proto e),
        tx_req_headers = ev_req_headers e, tx_req_body = ev_req_body e, tx_status = ev_status e,
        tx_resp_headers = ev_resp_headers e, tx_resp_body = ev_resp_body e,
        tx_resp_size = int (length (ev_resp_body e)), tx_duration_ms = ev_duration_ms e,
        tx_tls = ev_tls e, tx_in_scope = matchesScope (scope_entries s) (strip_port h)\<rparr>"
  using ObserveResponse_row [OF assms(1-7)]
  unfolding logged_as_def observed_host_port_join [OF assms(9,10,8)] fst_conv snd_conv .

definition demo_event :: ResponseEvent where
  "demo_event = \<lparr>ev_timestamp = 0, ev_host = ''h:8'', ev_proto = ''HTTP/2'', ev_method = ''GET'',
     ev_url = ''https://h:8/'', ev_req_headers = [], ev_req_body = [], ev_status = 204,
     ev_resp_headers = [], ev_resp_body = [], ev_duration_ms = 1, ev_tls = True\<rparr>"

theorem ObserveResponse_logged_witness:
  "\<exists>i t. fst (GetTransaction demo_codec i (ObserveResponse demo_codec demo_event demo_store)) = Inr t
     \<and> tx_host t = ''h'' \<and> tx_port t = 8"
proof -
  have s: "\<not> s_done demo_store" "\<forall>n. \<not> s_fault demo_store n" "t_ok (t_history demo_store)"
    "cache_ok demo_store"
    by (simp_all add: demo_store_def cache_ok_fresh) (simp_all add: fresh_store_def new_file_def)
  have h: "header_law demo_codec (ev_req_headers demo_event)" "header_law demo_codec (ev_resp_headers demo_event)"
    by (simp_all add: header_law_def demo_codec_def demo_event_def)
  have j: "ev_host demo_event = join_host_port ''h'' (nat_digits 8)" by code_simp
  have b: "set ''h'' \<inter> {CHR ''['', CHR '']''} = {}" by simp
  have m: "int 8 \<le> max_int" by (simp add: max_int_def)
  from ObserveResponse_logged [OF s demo_time_law h j b m] show ?thesis
    by (elim exE conjE) (intro exI conjI, assumption, simp_all)
qed

text \<open>
  the full-text search finds what it says. For a term without wildcards,
  \<open>SearchTransactions\<close> returns, newest first and at most 200, the rows one of whose chosen parts
  contains the term, letter case aside.
\<close>

theorem SearchTransactions_substring:
  assumes "no_wildcard term" and "term \<noteq> []" and "inReq \<or> inResp \<or> inHdr"
    and "\<not> s_fault s (s_clock s)" and "t_ok (t_history s)"
  shows "fst (SearchTransactions c term inReq inResp inHdr s) =
    Inr (map (scan_row c False) (take 200 (filter (\<lambda>(_, r).
      \<exists>part \<in> (if inReq then {hr_req_body r} else {}) \<union> (if inResp then {hr_resp_body r} else {})
          \<union> (if inHdr then {hr_req_headers r, hr_resp_headers r} else {}).
        contains (to_lower part) (to_lower term)) (rev (t_rows (t_history s))))))"
proof -
  have "search_where term inReq inResp inHdr r \<longleftrightarrow>
      (\<exists>part \<in> (if inReq then {hr_req_body r} else {}) \<union> (if inResp then {hr_resp_body r} else {})
          \<union> (if inHdr then {hr_req_headers r, hr_resp_headers r} else {}).
        contains (to_lower part) (to_lower term))" for r
    unfolding search_where_def Let_def like_infix [OF assms(1)]
    by (cases inReq; cases inResp; cases inHdr) auto
  then show ?thesis using assms(2-5)
    by (simp add: SearchTransactions_def sql_def t_desc_rows)
qed

theorem SearchTransactions_substring_witness:
  "no_wildcard ''oK'' \<and> fst (SearchTransactions demo_codec ''oK'' False True False demo_store) = Inr []"
proof -
  have w: "no_wildcard ''oK''" by (simp add: no_wildcard_def)
  have s: "\<not> s_fault demo_store (s_clock demo_store)" "t_ok (t_history demo_store)"
    "t_rows (t_history demo_store) = []"
    by (simp_all add: demo_store_def fresh_store_def new_file_def) (simp add: empty_table_def)
  show ?thesis
    using SearchTransactions_substring [OF w _ _ s(1,2), of False True False demo_codec] w s(3) by simp
qed

text \<open>
  wildcards in a search term are not quoted. The term \<open>a_b\<close> finds a body that holds \<open>axb\<close>
  and no \<open>a_b\<close>.
\<close>

theorem SearchTransactions_wildcard:
  "search_where ''a_b'' False True False (log_row c reqH respH (demo_tx\<lparr>tx_resp_body := ''axb''\<rparr>))
   \<and> \<not> contains (to_lower ''axb'') (to_lower ''a_b'')"
proof -
  have "like ''%a_b%'' ''axb''" "\<not> contains (to_lower ''axb'') (to_lower ''a_b'')" by code_simp+
  then show ?thesis by (simp add: search_where_def log_row_def Let_def)
qed

end
