(* ===== verification/HttpUtil.thy ===== *)
theory HttpUtil
  imports GoHttp
begin

text \<open>
  The package \<open>internal/http\<close> without its raw-request half: \<open>compression.go\<close>
  (decompression by \<open>Content-Encoding\<close>, the binary test, truncation for display) and
  \<open>headers.go\<close> (host normalisation, cache headers, hop-by-hop headers).

  The decompressors themselves (\<open>compress/gzip\<close>, \<open>zlib\<close>, \<open>flate\<close>, and the
  third-party brotli and zstd) are parameters: a \<open>codecs\<close> record of functions from the
  compressed bytes to the decompressed ones, \<open>None\<close> for an error of the reader's
  constructor or of reading it to the end, which the code treats alike.
\<close>

record codecs =
  gunzip :: "string \<Rightarrow> string option"
  unzlib :: "string \<Rightarrow> string option"
  inflate :: "string \<Rightarrow> string option"
  unbrotli :: "string \<Rightarrow> string option"
  unzstd :: "string \<Rightarrow> string option"

subsection \<open>compression.go\<close>

definition MaxDisplayBytes :: nat where
  "MaxDisplayBytes = 64 * 1024"

definition content_encoding :: "header \<Rightarrow> string" where
  "content_encoding h = to_lower (trim_space (h_get h ''Content-Encoding''))"

text \<open>\<open>decompressZlib\<close>: \<open>None\<close> stands for its error.\<close>

definition decompressZlib :: "codecs \<Rightarrow> string \<Rightarrow> string option" where
  "decompressZlib cs body = unzlib cs body"

definition Decompress :: "codecs \<Rightarrow> header \<Rightarrow> string \<Rightarrow> string" where
  "Decompress cs h body = (let encoding = content_encoding h in
     if encoding = ''gzip'' then (case gunzip cs body of None \<Rightarrow> body | Some out \<Rightarrow> out)
     else if encoding = ''deflate'' then
       (case decompressZlib cs body of
          Some out \<Rightarrow> out
        | None \<Rightarrow> (case inflate cs body of None \<Rightarrow> body | Some out \<Rightarrow> out))
     else if encoding = ''br'' then (case unbrotli cs body of None \<Rightarrow> body | Some out \<Rightarrow> out)
     else if encoding = ''zstd'' then (case unzstd cs body of None \<Rightarrow> body | Some out \<Rightarrow> out)
     else if encoding \<in> {'''', ''identity''} then body
     else body)"

definition textPrefixes :: "string list" where
  "textPrefixes = [''text/'', ''application/json'', ''application/xml'',
     ''application/javascript'', ''application/x-www-form-urlencoded'', ''application/xhtml'',
     ''application/ld+json'', ''application/graphql'', ''application/x-yaml'', ''application/yaml'']"

definition IsBinary :: "header \<Rightarrow> bool" where
  "IsBinary h = (let encoding = content_encoding h in
     if encoding \<notin> {'''', ''identity'', ''gzip'', ''deflate'', ''br'', ''zstd''} then True
     else let ct = to_lower (h_get h ''Content-Type'') in
       if ct = '''' then False
       else \<not> list_ex (contains ct) textPrefixes)"

definition truncated_notice :: string where
  "truncated_notice = CHR 0x0A # ''... truncated''"

definition TruncateBody :: "string \<Rightarrow> string" where
  "TruncateBody body = (if length body \<le> MaxDisplayBytes then body
     else take MaxDisplayBytes body @ truncated_notice)"

subsection \<open>headers.go\<close>

definition NormalizeHost :: "string \<Rightarrow> bool \<Rightarrow> string" where
  "NormalizeHost host tls = (case split_host_port host of
     None \<Rightarrow> host
   | Some (h, port) \<Rightarrow>
       if tls \<and> port = ''443'' \<or> \<not> tls \<and> port = ''80'' then h else host)"

definition StripRequestCacheHeaders :: "header \<Rightarrow> header" where
  "StripRequestCacheHeaders h =
     h_del (h_del (h_del (h_del (h_del h ''If-None-Match'') ''If-Modified-Since'')
       ''If-Range'') ''If-Match'') ''If-Unmodified-Since''"

definition no_store :: string where
  "no_store = ''no-store, no-cache, must-revalidate''"

definition StripResponseCacheHeaders :: "header \<Rightarrow> header" where
  "StripResponseCacheHeaders h =
     h_set (h_del (h_del (h_del (h_del (h_del h ''Cache-Control'') ''Expires'') ''ETag'')
       ''Last-Modified'') ''Pragma'') ''Cache-Control'' no_store"

definition HopByHop :: "string list" where
  "HopByHop = [''Connection'', ''Proxy-Connection'', ''Keep-Alive'', ''Proxy-Authenticate'',
     ''Proxy-Authorization'', ''Te'', ''Trailers'', ''Transfer-Encoding'', ''Upgrade'']"

subsection \<open>Lemmas\<close>

lemma Decompress_cases:
  "Decompress cs h body = body
   \<or> (content_encoding h = ''gzip'' \<and> gunzip cs body = Some (Decompress cs h body))
   \<or> (content_encoding h = ''deflate'' \<and> unzlib cs body = Some (Decompress cs h body))
   \<or> (content_encoding h = ''deflate'' \<and> unzlib cs body = None
        \<and> inflate cs body = Some (Decompress cs h body))
   \<or> (content_encoding h = ''br'' \<and> unbrotli cs body = Some (Decompress cs h body))
   \<or> (content_encoding h = ''zstd'' \<and> unzstd cs body = Some (Decompress cs h body))"
  by (simp add: Decompress_def decompressZlib_def Let_def split: option.splits)

definition known_encodings :: "string list" where
  "known_encodings = ['''', ''identity'', ''gzip'', ''deflate'', ''br'', ''zstd'']"

lemma not_IsBinary_known: "\<not> IsBinary h \<Longrightarrow> content_encoding h \<in> set known_encodings"
  by (auto simp: IsBinary_def known_encodings_def Let_def split: if_splits)

lemma length_TruncateBody:
  "length (TruncateBody body) \<le> MaxDisplayBytes + length truncated_notice"
  by (simp add: TruncateBody_def)

lemma TruncateBody_prefix:
  "take MaxDisplayBytes (TruncateBody body) = take MaxDisplayBytes body"
  by (simp add: TruncateBody_def)

definition stripped_request_keys :: "string list" where
  "stripped_request_keys =
     [''If-None-Match'', ''If-Modified-Since'', ''If-Range'', ''If-Match'', ''If-Unmodified-Since'']"

definition stripped_response_keys :: "string list" where
  "stripped_response_keys = [''Cache-Control'', ''Expires'', ''Etag'', ''Last-Modified'', ''Pragma'']"

text \<open>The names the code deletes, in the canonical form under which \<open>Del\<close> looks them up.\<close>

lemma canonical_stripped [simp]:
  "canonical_key ''If-None-Match'' = ''If-None-Match''"
  "canonical_key ''If-Modified-Since'' = ''If-Modified-Since''"
  "canonical_key ''If-Range'' = ''If-Range''"
  "canonical_key ''If-Match'' = ''If-Match''"
  "canonical_key ''If-Unmodified-Since'' = ''If-Unmodified-Since''"
  "canonical_key ''Cache-Control'' = ''Cache-Control''"
  "canonical_key ''Expires'' = ''Expires''"
  "canonical_key ''ETag'' = ''Etag''"
  "canonical_key ''Last-Modified'' = ''Last-Modified''"
  "canonical_key ''Pragma'' = ''Pragma''"
  by code_simp+

lemma h_has_StripRequestCacheHeaders:
  "h_has (StripRequestCacheHeaders h) k = (k \<notin> set stripped_request_keys \<and> h_has h k)"
  by (auto simp: StripRequestCacheHeaders_def stripped_request_keys_def h_has_del)

lemma h_vals_StripRequestCacheHeaders:
  "h_vals (StripRequestCacheHeaders h) k = (if k \<in> set stripped_request_keys then [] else h_vals h k)"
  by (simp add: StripRequestCacheHeaders_def stripped_request_keys_def h_vals_del)

lemma h_vals_StripResponseCacheHeaders:
  "h_vals (StripResponseCacheHeaders h) k =
     (if k = ''Cache-Control'' then [no_store]
      else if k \<in> set stripped_response_keys then [] else h_vals h k)"
  by (simp add: StripResponseCacheHeaders_def stripped_response_keys_def h_vals_del h_vals_set)

lemma wf_StripRequestCacheHeaders: "wf_header h \<Longrightarrow> wf_header (StripRequestCacheHeaders h)"
  by (simp add: StripRequestCacheHeaders_def wf_header_del)

lemma wf_StripResponseCacheHeaders: "wf_header h \<Longrightarrow> wf_header (StripResponseCacheHeaders h)"
  by (simp add: StripResponseCacheHeaders_def wf_header_del wf_header_set)

end
