(* ===== verification/RawRequest.thy ===== *)
theory RawRequest
  imports HttpUtil
begin

text \<open>
  The file \<open>internal/http/rawrequest.go\<close>: the raw requests that Repeater and Intruder put on
  the wire. Line by line: splitting a raw message at its blank line, normalising line
  endings, rewriting the request line and the headers, reading the target host back out of a
  raw request, and \<open>SendRaw\<close>, which runs them in order on a connection.

  The connection is a parameter (\<open>raw_env\<close>): what dialling, setting the deadline and writing
  return, the response \<open>http.ReadResponse\<close> parses, and its cookies. A cookie jar is a Go map,
  so an association list in iteration order.
\<close>

subsection \<open>Splitting and normalising\<close>

definition SplitRaw :: "string \<Rightarrow> string \<times> string" where
  "SplitRaw raw = (case index_of raw CRLF2 of
     Some idx \<Rightarrow> (take idx raw, drop (idx + 4) raw)
   | None \<Rightarrow> (case index_of raw LF2 of
       Some idx \<Rightarrow> (take idx raw, drop (idx + 2) raw)
     | None \<Rightarrow> (raw, [])))"

definition NormalizeLineEndings :: "string \<Rightarrow> string" where
  "NormalizeLineEndings raw = (let (header, body) = SplitRaw raw;
       header = replace_all header CRLF LF;
       header = replace_all header LF CRLF
     in header @ CRLF2 @ body)"

subsection \<open>Rewriting\<close>

definition rewriteRequestLine :: "string \<Rightarrow> string" where
  "rewriteRequestLine raw = (case index_of raw CRLF of
     None \<Rightarrow> raw
   | Some idx \<Rightarrow>
       (let firstLine = take idx raw; parts = str_fields firstLine in
        if length parts < 2 then raw
        else parts ! 0 @ '' '' @ parts ! 1 @ '' HTTP/1.1'' @ drop idx raw))"

text \<open>The host line of \<open>rewriteHeaders\<close>: a port 443 or 80 is dropped.\<close>

definition rewrite_host_line :: "string \<Rightarrow> string" where
  "rewrite_host_line line = (case split_host_port (trim_space (drop 5 line)) of
     Some (h, port) \<Rightarrow> (if port = ''443'' \<or> port = ''80'' then ''Host: '' @ h else line)
   | None \<Rightarrow> line)"

text \<open>
  The switch of \<open>rewriteHeaders\<close> on one header line: what it appends to \<open>out\<close>, and whether
  it sets \<open>connectionSeen\<close>.
\<close>

definition rewrite_line :: "(string \<times> string) list \<Rightarrow> string \<Rightarrow> string list \<times> bool" where
  "rewrite_line jar line = (let lower = to_lower line in
     if has_prefix lower ''cookie:'' then (if jar = [] then [line] else [], False)
     else if has_prefix lower ''accept-encoding:'' then ([], False)
     else if has_prefix lower ''content-length:'' then ([], False)
     else if has_prefix lower ''transfer-encoding:'' then ([], False)
     else if has_prefix lower ''connection:'' then ([''Connection: close''], True)
     else if has_prefix lower ''host:'' then ([rewrite_host_line line], False)
     else ([line], False))"

text \<open>The loop over the lines.\<close>

fun rewrite_header_lines :: "(string \<times> string) list \<Rightarrow> string list \<Rightarrow> string list \<times> bool" where
  "rewrite_header_lines jar [] = ([], False)"
| "rewrite_header_lines jar (line # ls) =
     (let (new, conn) = rewrite_line jar line; (out, seen) = rewrite_header_lines jar ls in
      (new @ out, conn \<or> seen))"

definition cookie_line :: "(string \<times> string) list \<Rightarrow> string" where
  "cookie_line jar = ''Cookie: '' @ join (map (\<lambda>(k, v). k @ ''='' @ v) jar) ''; ''"

definition content_length_line :: "string \<Rightarrow> string" where
  "content_length_line body = ''Content-Length: '' @ itoa (int (length body))"

text \<open>The header lines \<open>rewriteHeaders\<close> writes for the given input lines and body.\<close>

definition rewritten_lines :: "string list \<Rightarrow> (string \<times> string) list \<Rightarrow> string \<Rightarrow> string list" where
  "rewritten_lines lines jar body = (let (out, connectionSeen) = rewrite_header_lines jar lines in
     out @ (if connectionSeen then [] else [''Connection: close''])
         @ (if jar = [] then [] else [cookie_line jar])
         @ (if body = [] then [] else [content_length_line body]))"

definition rewriteHeaders :: "string \<Rightarrow> (string \<times> string) list \<Rightarrow> string" where
  "rewriteHeaders raw jar = (let parts = split_n2 raw CRLF2;
       headerSection = parts ! 0;
       body = (if length parts = 2 then parts ! 1 else '''');
       lines = split headerSection CRLF
     in join (rewritten_lines lines jar body) CRLF @ CRLF2 @ body)"

subsection \<open>Reading a raw request\<close>

definition first_line :: "string \<Rightarrow> string" where
  "first_line raw = split_n2 raw LF ! 0"

definition request_line_tls :: "string \<Rightarrow> bool" where
  "request_line_tls raw = (let parts = str_fields (first_line raw) in
     if 2 \<le> length parts then has_prefix (parts ! 1) ''https://'' else False)"

text \<open>What \<open>ParseHostFromRaw\<close> makes of the value of the first \<open>Host\<close> line.\<close>

definition parse_host_value :: "string \<Rightarrow> bool \<Rightarrow> string \<times> int \<times> bool" where
  "parse_host_value hostVal useTLS = (case split_host_port hostVal of
     Some (h, portStr) \<Rightarrow> (let port = fst (atoi portStr) in (h, port, port = 443))
   | None \<Rightarrow>
       if is_ip hostVal then (hostVal, 80, False)
       else let port = (if useTLS then 443 else 80) in
         (hostVal, port, if port = 443 then True else useTLS))"

fun parse_host_lines :: "bool \<Rightarrow> string list \<Rightarrow> string \<times> int \<times> bool" where
  "parse_host_lines useTLS [] = ('''', 0, False)"
| "parse_host_lines useTLS (l # ls) = (let line = trim_space l in
     if \<not> has_prefix (to_lower line) ''host:'' then parse_host_lines useTLS ls
     else parse_host_value (trim_space (drop 5 line)) useTLS)"

definition ParseHostFromRaw :: "string \<Rightarrow> string \<times> int \<times> bool" where
  "ParseHostFromRaw raw = parse_host_lines (request_line_tls raw) (split raw LF)"

text \<open>The header lines up to the first empty one, each added to the map if it has a colon and a space.\<close>

fun parse_raw_header_lines :: "header \<Rightarrow> string list \<Rightarrow> header" where
  "parse_raw_header_lines h [] = h"
| "parse_raw_header_lines h (line # ls) =
     (if line = '''' then h
      else let parts = split_n2 line '': '' in
        parse_raw_header_lines (if length parts = 2 then h_add h (parts ! 0) (parts ! 1) else h) ls)"

definition ParseRawHeaders :: "string \<Rightarrow> header" where
  "ParseRawHeaders raw = (let lines = split raw CRLF in
     if lines = [] then [] else parse_raw_header_lines [] (tl lines))"

definition ExtractURL :: "string \<Rightarrow> string" where
  "ExtractURL rawRequest = (let parts = str_fields (first_line rawRequest) in
     if 2 \<le> length parts then parts ! 1 else ''/'')"

definition ExtractMethod :: "string \<Rightarrow> string" where
  "ExtractMethod rawRequest = (let parts = str_fields (first_line rawRequest) in
     if 1 \<le> length parts then parts ! 0 else ''GET'')"

subsection \<open>SendRaw\<close>

record RawRequestOptions =
  ro_host :: string
  ro_port :: int
  ro_tls :: bool
  ro_raw :: string
  ro_jar :: "(string \<times> string) list"
  ro_timeout :: int

record wire_response =
  w_status :: int
  w_header :: header
  w_body :: string
  w_body_err :: "string option"

record raw_env =
  dial_conn :: "bool \<Rightarrow> string \<Rightarrow> int \<Rightarrow> string option"
  set_deadline :: "int \<Rightarrow> string option"
  write_conn :: "string \<Rightarrow> string option"
  read_response :: "string \<Rightarrow> string + wire_response"
  cookies_of :: "header \<Rightarrow> (string \<times> string) list"

record RawResponse =
  rr_raw :: string
  rr_status :: int
  rr_headers :: header
  rr_body :: string
  rr_cookies :: "(string \<times> string) list"

datatype raw_error = DialError string string | DeadlineError string | WriteError string
  | ReadResponseError string | ReadBodyError string

text \<open>
  \<open>io.ReadAll (io.LimitReader (r, n))\<close>: the error at the end of a stream is met only when the
  limit does not cut the stream first.
\<close>

definition read_all_limit :: "nat \<Rightarrow> string \<Rightarrow> string option \<Rightarrow> string + string" where
  "read_all_limit n bytes err = (if n \<le> length bytes then Inr (take n bytes)
     else case err of None \<Rightarrow> Inr bytes | Some e \<Rightarrow> Inl e)"

definition buildRawResponse :: "wire_response \<Rightarrow> string \<Rightarrow> string" where
  "buildRawResponse resp body =
     ''HTTP/1.1 '' @ itoa (w_status resp) @ '' '' @ status_text (w_status resp) @ CRLF
     @ concat (map (\<lambda>(k, v). k @ '': '' @ v @ CRLF) (h_lines (w_header resp)))
     @ CRLF @ body"

definition raw_body_limit :: nat where
  "raw_body_limit = 2097152"

definition wire_request :: "RawRequestOptions \<Rightarrow> string" where
  "wire_request opts =
     rewriteHeaders (rewriteRequestLine (NormalizeLineEndings (ro_raw opts))) (ro_jar opts)"

definition SendRaw :: "raw_env \<Rightarrow> codecs \<Rightarrow> RawRequestOptions \<Rightarrow> raw_error + RawResponse" where
  "SendRaw env cs opts = (let addr = join_host_port (ro_host opts) (itoa (ro_port opts));
       timeout = (if ro_timeout opts > 0 then ro_timeout opts else 30000)
     in case dial_conn env (ro_tls opts) addr timeout of
       Some e \<Rightarrow> Inl (DialError addr e)
     | None \<Rightarrow>
     (case set_deadline env timeout of Some e \<Rightarrow> Inl (DeadlineError e)
     | None \<Rightarrow>
     (let raw = wire_request opts in
      case write_conn env raw of Some e \<Rightarrow> Inl (WriteError e)
     | None \<Rightarrow>
     (case read_response env raw of Inl e \<Rightarrow> Inl (ReadResponseError e)
     | Inr resp \<Rightarrow>
     (case read_all_limit raw_body_limit (w_body resp) (w_body_err resp) of
       Inl e \<Rightarrow> Inl (ReadBodyError e)
     | Inr body \<Rightarrow>
        (let body = TruncateBody (Decompress cs (w_header resp) body) in
         Inr \<lparr>rr_raw = buildRawResponse resp body, rr_status = w_status resp,
              rr_headers = w_header resp, rr_body = body, rr_cookies = cookies_of env (w_header resp)\<rparr>))))))"


subsection \<open>Normalising line endings\<close>

text \<open>A one-pass reference for the two replacements: every line break becomes CRLF.\<close>

function norm_nl :: "string \<Rightarrow> string" where
  "norm_nl [] = []"
| "norm_nl (c # s) =
     (if prefix CRLF (c # s) then CRLF @ norm_nl (tl s)
      else if c = CHR 0x0A then CRLF @ norm_nl s
      else c # norm_nl s)"
  by pat_completeness auto
termination by (relation "measure length") (auto simp: le_imp_less_Suc)

text \<open>Every LF is preceded by a CR.\<close>

function crlf_ok :: "string \<Rightarrow> bool" where
  "crlf_ok [] = True"
| "crlf_ok (c # s) =
     (if prefix CRLF (c # s) then crlf_ok (tl s) else c \<noteq> CHR 0x0A \<and> crlf_ok s)"
  by pat_completeness auto
termination by (relation "measure length") (auto simp: le_imp_less_Suc)

lemma replace_all_LF_norm:
  "replace_all (replace_all s CRLF LF) LF CRLF = norm_nl s"
proof (induction s rule: norm_nl.induct)
  case 1
  then show ?case by simp
next
  case (2 c s)
  show ?case
  proof (cases "prefix CRLF (c # s)")
    case True
    then obtain t where t: "c # s = CRLF @ t" by (auto simp: prefix_def)
    then have "replace_all (c # s) CRLF LF = LF @ replace_all t CRLF LF"
      by (simp add: replace_all_prefix [of CRLF, simplified])
    then have "replace_all (replace_all (c # s) CRLF LF) LF CRLF = CRLF @ norm_nl t"
      using replace_all_prefix [of LF "replace_all t CRLF LF" CRLF] "2.IH"(1) [OF True] t
      by simp
    then show ?thesis using True t by simp
  next
    case False
    then have step: "replace_all (c # s) CRLF LF = c # replace_all s CRLF LF"
      by (simp add: replace_all_skip)
    show ?thesis
    proof (cases "c = CHR 0x0A")
      case True
      then show ?thesis
        using False step replace_all_prefix [of LF "replace_all s CRLF LF" CRLF] "2.IH"(2)
        by simp
    next
      case nl: False
      then have "\<not> prefix LF (c # replace_all s CRLF LF)" by simp
      then show ?thesis using False nl step "2.IH"(3) by (auto simp: replace_all_skip)
    qed
  qed
qed

lemma crlf_ok_norm_nl: "crlf_ok (norm_nl s)"
  by (induction s rule: norm_nl.induct) (auto simp: prefix_def)

lemma norm_nl_crlf_ok: "crlf_ok s \<Longrightarrow> norm_nl s = s"
  by (induction s rule: norm_nl.induct) (auto simp: prefix_def split: if_splits)

lemma crlf_ok_take: "crlf_ok s \<Longrightarrow> crlf_ok (take i s)"
proof (induction s arbitrary: i rule: crlf_ok.induct)
  case 1
  then show ?case by simp
next
  case (2 c s)
  show ?case
  proof (cases "prefix CRLF (c # s)")
    case True
    then obtain t where t: "c # s = CRLF @ t" by (auto simp: prefix_def)
    with True 2 have IH: "crlf_ok (take j t)" for j by auto
    consider "i = 0" | "i = 1" | j where "i = Suc (Suc j)"
      by (metis One_nat_def not0_implies_Suc)
    then show ?thesis
    proof cases
      case 3
      then show ?thesis using IH [of j] t by simp
    qed (use t in simp_all)
  next
    case False
    with 2 have c: "c \<noteq> CHR 0x0A" and IH: "crlf_ok (take j s)" for j by auto
    show ?thesis
    proof (cases i)
      case (Suc j)
      have "\<not> prefix CRLF (c # take j s)"
        using False by (auto simp: prefix_def) (metis append_take_drop_id append_Cons)
      then show ?thesis using Suc c IH by auto
    qed simp
  qed
qed

lemma NormalizeLineEndings_norm_nl:
  "NormalizeLineEndings raw = norm_nl (fst (SplitRaw raw)) @ CRLF2 @ snd (SplitRaw raw)"
  by (simp add: NormalizeLineEndings_def replace_all_LF_norm split: prod.splits)

lemma SplitRaw_CRLF2:
  "index_of raw CRLF2 = Some i \<Longrightarrow> raw = fst (SplitRaw raw) @ CRLF2 @ snd (SplitRaw raw)
     \<and> length (fst (SplitRaw raw)) = i"
proof -
  assume i: "index_of raw CRLF2 = Some i"
  then have "i + 4 \<le> length raw" and "raw = take i raw @ CRLF2 @ drop (i + 4) raw"
    using index_of_Some_split [OF i] index_of_SomeD [OF i] by (simp_all add: eval_nat_numeral)
  with i \<open>i + 4 \<le> length raw\<close> show ?thesis by (simp add: SplitRaw_def)
qed

lemma index_of_le:
  assumes "s = a @ sub @ b" shows "\<exists>i \<le> length a. index_of s sub = Some i"
proof -
  have p: "prefix sub (drop (length a) s)" using assms by (simp add: prefix_def)
  moreover have "length a \<le> length s" using assms by simp
  ultimately obtain i where i: "index_of s sub = Some i"
    by (metis index_of_None_iff not_None_eq)
  with p show ?thesis by (metis index_of_least linorder_not_le)
qed

lemma NormalizeLineEndings_idem_aux:
  "NormalizeLineEndings (NormalizeLineEndings raw) = NormalizeLineEndings raw"
proof -
  define r where "r = NormalizeLineEndings raw"
  define h where "h = norm_nl (fst (SplitRaw raw))"
  have r: "r = h @ CRLF2 @ snd (SplitRaw raw)"
    by (simp add: r_def h_def NormalizeLineEndings_norm_nl)
  from index_of_le [OF r] obtain i where i: "i \<le> length h" "index_of r CRLF2 = Some i" by blast
  note s = SplitRaw_CRLF2 [OF i(2)]
  have "fst (SplitRaw r) = take i h"
    using s i(1) r by (metis append_eq_conv_conj take_append diff_is_0_eq' take_0 append_Nil2)
  then have "crlf_ok (fst (SplitRaw r))" by (simp add: h_def crlf_ok_norm_nl crlf_ok_take)
  then have "NormalizeLineEndings r = r"
    using s by (simp add: NormalizeLineEndings_norm_nl [of r] norm_nl_crlf_ok)
  then show ?thesis by (simp add: r_def)
qed

subsection \<open>Framing of rewritten headers\<close>

text \<open>A header line as a raw request holds it: not empty, without CR or LF.\<close>

definition clean :: "string \<Rightarrow> bool" where
  "clean s = (CHR 0x0D \<notin> set s \<and> CHR 0x0A \<notin> set s)"

definition header_line :: "string \<Rightarrow> bool" where
  "header_line s = (s \<noteq> [] \<and> clean s)"

lemma clean_append [simp]: "clean (a @ b) = (clean a \<and> clean b)"
  by (auto simp: clean_def)

lemma clean_Cons [simp]: "clean (c # s) = (c \<noteq> CHR 0x0D \<and> c \<noteq> CHR 0x0A \<and> clean s)"
  by (auto simp: clean_def)

lemma clean_Nil [simp]: "clean []"
  by (simp add: clean_def)

lemma clean_subset: "set s \<subseteq> set t \<Longrightarrow> clean t \<Longrightarrow> clean s"
  by (auto simp: clean_def)

lemma clean_digits: "clean (nat_digits n)"
  by (auto simp: clean_def is_digit_def dest!: nat_digits_is_digit)

lemma index_of_header_block:
  "ls \<noteq> [] \<Longrightarrow> \<forall>l \<in> set ls. header_line l \<Longrightarrow>
   index_of (join ls CRLF @ CRLF2 @ body) CRLF2 = Some (length (join ls CRLF))"
proof (induction ls)
  case Nil
  then show ?case by simp
next
  case (Cons l ls)
  then have l: "CHR 0x0D \<notin> set l" by (simp add: header_line_def clean_def)
  show ?case
  proof (cases "ls = []")
    case True
    have "index_of (CRLF2 @ body) CRLF2 = Some 0" by simp
    with True l show ?thesis using index_of_skip_set [of CRLF2 l "CRLF2 @ body"] by simp
  next
    case False
    then obtain m ms where ls: "ls = m # ms" by (cases ls) auto
    obtain c m' where m: "m = c # m'" "c \<noteq> CHR 0x0D"
      using Cons.prems ls by (cases m) (auto simp: header_line_def)
    then obtain t where t: "join ls CRLF @ CRLF2 @ body = c # t"
      using ls by (cases ms) auto
    have "index_of (CRLF @ join ls CRLF @ CRLF2 @ body) CRLF2
        = map_option (\<lambda>i. 2 + i) (index_of (join ls CRLF @ CRLF2 @ body) CRLF2)"
      unfolding t using m(2) by (simp add: option.map_comp comp_def)
    with Cons False l show ?thesis
      using index_of_skip_set [of CRLF2 l "CRLF @ join ls CRLF @ CRLF2 @ body"]
      by (simp add: join_Cons header_line_def)
  qed
qed

lemma SplitRaw_header_block:
  "ls \<noteq> [] \<Longrightarrow> \<forall>l \<in> set ls. header_line l \<Longrightarrow>
   SplitRaw (join ls CRLF @ CRLF2 @ body) = (join ls CRLF, body)"
  by (simp add: SplitRaw_def index_of_header_block [simplified])

lemma split_n2_header_block:
  "ls \<noteq> [] \<Longrightarrow> \<forall>l \<in> set ls. header_line l \<Longrightarrow>
   split_n2 (join ls CRLF @ CRLF2 @ body) CRLF2 = [join ls CRLF, body]"
  by (simp add: split_n2_def cut_def index_of_header_block [simplified])

lemma split_header_block:
  "ls \<noteq> [] \<Longrightarrow> \<forall>l \<in> set ls. header_line l \<Longrightarrow> split (join ls CRLF) CRLF = ls"
  by (rule split_join_avoid) (auto simp: header_line_def clean_def)

lemma rewriteHeaders_block:
  "ls \<noteq> [] \<Longrightarrow> \<forall>l \<in> set ls. header_line l \<Longrightarrow>
   rewriteHeaders (join ls CRLF @ CRLF2 @ body) jar
     = join (rewritten_lines ls jar body) CRLF @ CRLF2 @ body"
  by (simp add: rewriteHeaders_def split_n2_header_block [simplified] split_header_block)

lemma clean_rewrite_host_line: "header_line line \<Longrightarrow> header_line (rewrite_host_line line)"
proof -
  assume l: "header_line line"
  have "clean h" if "split_host_port (trim_space (drop 5 line)) = Some (h, p)" for h p
  proof -
    have "set h \<subseteq> set (trim_space (drop 5 line))"
      using split_host_port_host_subset [OF that] .
    also have "\<dots> \<subseteq> set line" using set_trim_space set_drop_subset by (metis subset_trans)
    finally show ?thesis using l by (auto intro: clean_subset simp: header_line_def)
  qed
  with l show ?thesis by (auto simp: rewrite_host_line_def header_line_def split: option.splits)
qed

lemma rewrite_line_header_line:
  assumes "header_line line" shows "\<forall>l \<in> set (fst (rewrite_line jar line)). header_line l"
proof -
  have "header_line ''Connection: close''" by (simp add: header_line_def)
  with assms clean_rewrite_host_line [OF assms] show ?thesis
    by (simp add: rewrite_line_def Let_def)
qed

lemma rewrite_header_lines_header_line:
  "\<forall>l \<in> set ls. header_line l \<Longrightarrow> \<forall>l \<in> set (fst (rewrite_header_lines jar ls)). header_line l"
proof (induction ls)
  case (Cons line ls)
  then show ?case using rewrite_line_header_line [of line jar]
    by (auto simp: split: prod.splits)
qed simp

lemma clean_join: "\<forall>x \<in> set xs. clean x \<Longrightarrow> clean sep \<Longrightarrow> clean (join xs sep)"
  by (induction xs rule: induct_list012) (auto simp: join_Cons)

definition clean_jar :: "(string \<times> string) list \<Rightarrow> bool" where
  "clean_jar jar = (\<forall>(k, v) \<in> set jar. clean k \<and> clean v)"

lemma rewritten_lines_header_line:
  assumes "\<forall>l \<in> set ls. header_line l" and "clean_jar jar"
  shows "\<forall>l \<in> set (rewritten_lines ls jar body). header_line l"
proof -
  have "clean (cookie_line jar)"
    using assms(2) by (force simp: cookie_line_def clean_jar_def intro!: clean_join)
  then have c: "header_line (cookie_line jar)" by (simp add: header_line_def cookie_line_def)
  have "header_line (content_length_line body)"
    by (simp add: header_line_def content_length_line_def itoa_def clean_digits)
  moreover have "header_line ''Connection: close''" by (simp add: header_line_def)
  moreover note c rewrite_header_lines_header_line [OF assms(1), of jar]
  ultimately show ?thesis by (simp add: rewritten_lines_def case_prod_beta ball_Un)
qed

lemma rewritten_lines_not_Nil: "rewritten_lines ls jar body \<noteq> []"
proof (cases "snd (rewrite_header_lines jar ls)")
  case True
  then have "fst (rewrite_header_lines jar ls) \<noteq> []"
  proof (induction ls)
    case (Cons line ls)
    have "snd (rewrite_line jar line) \<longrightarrow> fst (rewrite_line jar line) \<noteq> []"
      unfolding rewrite_line_def Let_def by simp
    with Cons show ?case by (auto split: prod.splits)
  qed simp
  then show ?thesis by (auto simp: rewritten_lines_def split: prod.splits)
next
  case False
  then show ?thesis by (auto simp: rewritten_lines_def split: prod.splits)
qed

text \<open>Which lines of a given name (lower case, with its colon) a list of lines has.\<close>

definition named_lines :: "string \<Rightarrow> string list \<Rightarrow> string list" where
  "named_lines name ls = filter (\<lambda>l. has_prefix (to_lower l) name) ls"

lemma has_prefix_clash:
  "has_prefix s p \<Longrightarrow> \<not> prefix p q \<Longrightarrow> \<not> prefix q p \<Longrightarrow> \<not> has_prefix s q"
  unfolding has_prefix_def by (metis prefix_same_cases)

lemma has_prefix_both: "has_prefix s p \<Longrightarrow> has_prefix s q \<Longrightarrow> prefix p q \<or> prefix q p"
  unfolding has_prefix_def by (metis prefix_same_cases)

lemma named_lines_append [simp]: "named_lines n (a @ b) = named_lines n a @ named_lines n b"
  by (simp add: named_lines_def)

definition dropped_names :: "string list" where
  "dropped_names = [''content-length:'', ''accept-encoding:'', ''transfer-encoding:'']"

lemma dropped_name_clash:
  assumes "n \<in> set dropped_names"
  shows "has_prefix s ''cookie:'' \<Longrightarrow> \<not> has_prefix s n"
    and "has_prefix s ''host:'' \<Longrightarrow> \<not> has_prefix s n"
    and "has_prefix s ''connection:'' \<Longrightarrow> \<not> has_prefix s n"
  using assms by (auto simp: dropped_names_def dest: has_prefix_both)

lemma connection_clash:
  "has_prefix s ''cookie:'' \<Longrightarrow> \<not> has_prefix s ''connection:''"
  "has_prefix s ''host:'' \<Longrightarrow> \<not> has_prefix s ''connection:''"
  "has_prefix s ''content-length:'' \<Longrightarrow> \<not> has_prefix s ''connection:''"
  by (auto dest: has_prefix_both)

text \<open>What the switch lets through: a replaced connection line, a cookie or host line, or a line
  of none of the names it looks for.\<close>

lemma to_lower_Connection_close [simp]: "to_lower ''Connection: close'' = ''connection: close''"
  by code_simp

lemma to_lower_append: "to_lower (a @ b) = to_lower a @ to_lower b"
  by (simp add: to_lower_def)

lemma lower_rewrite_host_line:
  "has_prefix (to_lower line) ''host:'' \<Longrightarrow> has_prefix (to_lower (rewrite_host_line line)) ''host:''"
proof -
  have "to_lower ''Host: '' = ''host: ''" by code_simp
  then have "has_prefix (to_lower (''Host: '' @ h)) ''host:''" for h
    unfolding to_lower_append by (simp add: has_prefix_def)
  then show "has_prefix (to_lower line) ''host:'' \<Longrightarrow> ?thesis"
    by (simp add: rewrite_host_line_def split: option.splits)
qed

lemma rewrite_line_out:
  assumes "l \<in> set (fst (rewrite_line jar line))"
  shows "(l = ''Connection: close'' \<and> snd (rewrite_line jar line))
    \<or> has_prefix (to_lower l) ''cookie:'' \<or> has_prefix (to_lower l) ''host:''
    \<or> (\<forall>n \<in> insert ''connection:'' (set dropped_names). \<not> has_prefix (to_lower l) n)"
  using assms lower_rewrite_host_line [of line]
  unfolding rewrite_line_def Let_def dropped_names_def
  by (simp split: if_split_asm)

lemma named_lines_rewrite_line:
  "n \<in> set dropped_names \<Longrightarrow> named_lines n (fst (rewrite_line jar line)) = []"
  "set (named_lines ''connection:'' (fst (rewrite_line jar line)))
     = (if snd (rewrite_line jar line) then {''Connection: close''} else {})"
proof -
  have clash: "\<not> has_prefix (to_lower ''Connection: close'') n" if "n \<in> set dropped_names"
    using that by (auto simp: dropped_names_def has_prefix_def)
  show "named_lines n (fst (rewrite_line jar line)) = []" if "n \<in> set dropped_names"
    using rewrite_line_out [of _ jar line] dropped_name_clash [OF that] clash [OF that] that
    unfolding named_lines_def filter_empty_conv by (metis insertCI)
  have "snd (rewrite_line jar line) \<longrightarrow> ''Connection: close'' \<in> set (fst (rewrite_line jar line))"
    unfolding rewrite_line_def Let_def by simp
  moreover have "has_prefix (to_lower ''Connection: close'') ''connection:''"
    by (simp add: has_prefix_def)
  ultimately show "set (named_lines ''connection:'' (fst (rewrite_line jar line)))
     = (if snd (rewrite_line jar line) then {''Connection: close''} else {})"
    using rewrite_line_out [of _ jar line] connection_clash
    by (auto simp: named_lines_def)
qed

lemma named_lines_rewrite_header_lines:
  "n \<in> set dropped_names \<Longrightarrow> named_lines n (fst (rewrite_header_lines jar ls)) = []"
  "set (named_lines ''connection:'' (fst (rewrite_header_lines jar ls)))
     = (if snd (rewrite_header_lines jar ls) then {''Connection: close''} else {})"
proof (induction ls)
  case Nil
  {
    case 1
    show ?case by (simp add: named_lines_def)
  next
    case 2
    show ?case by (simp add: named_lines_def)
  }
next
  case (Cons line ls)
  {
    case 1
    with Cons(1) show ?case by (simp add: case_prod_beta named_lines_rewrite_line)
  next
    case 2
    show ?case using Cons(2) by (simp add: case_prod_beta named_lines_rewrite_line)
  }
qed

lemma to_lower_added_lines:
  "has_prefix (to_lower (cookie_line jar)) ''cookie:''"
  "has_prefix (to_lower (content_length_line body)) ''content-length:''"
proof -
  have "to_lower ''Cookie: '' = ''cookie: ''" "to_lower ''Content-Length: '' = ''content-length: ''"
    by code_simp+
  then show "has_prefix (to_lower (cookie_line jar)) ''cookie:''"
    "has_prefix (to_lower (content_length_line body)) ''content-length:''"
    unfolding cookie_line_def content_length_line_def to_lower_append
    by (simp_all add: has_prefix_def)
qed

lemma named_lines_single:
  "named_lines n [l] = (if has_prefix (to_lower l) n then [l] else [])"
  by (simp add: named_lines_def)

lemma named_lines_cookie_line:
  "named_lines ''connection:'' [cookie_line jar] = []"
  "n \<in> set dropped_names \<Longrightarrow> named_lines n [cookie_line jar] = []"
  using to_lower_added_lines(1) [of jar] connection_clash dropped_name_clash
  by (auto simp: named_lines_single)

lemma named_lines_content_length_line:
  "named_lines ''connection:'' [content_length_line body] = []"
  "named_lines ''content-length:'' [content_length_line body] = [content_length_line body]"
  "named_lines ''accept-encoding:'' [content_length_line body] = []"
  "named_lines ''transfer-encoding:'' [content_length_line body] = []"
  using to_lower_added_lines(2) [of body]
  by (auto simp: named_lines_single dest: has_prefix_both)

lemma named_lines_connection_close:
  "named_lines ''connection:'' [''Connection: close''] = [''Connection: close'']"
  "n \<in> set dropped_names \<Longrightarrow> named_lines n [''Connection: close''] = []"
  by (auto simp: named_lines_single dropped_names_def has_prefix_def)

lemma named_lines_Nil [simp]: "named_lines n [] = []"
  by (simp add: named_lines_def)

lemmas named_lines_simps = named_lines_rewrite_header_lines named_lines_cookie_line
  named_lines_content_length_line named_lines_connection_close

lemma named_rewritten_lines:
  "set (named_lines ''connection:'' (rewritten_lines ls jar body)) = {''Connection: close''}"
  "named_lines ''content-length:'' (rewritten_lines ls jar body)
     = (if body = [] then [] else [content_length_line body])"
  "named_lines ''accept-encoding:'' (rewritten_lines ls jar body) = []"
  "named_lines ''transfer-encoding:'' (rewritten_lines ls jar body) = []"
  by (simp_all add: rewritten_lines_def case_prod_beta named_lines_simps dropped_names_def)

subsection \<open>The request as a whole\<close>

lemma crlf_ok_skip: "c \<noteq> CHR 0x0D \<Longrightarrow> c \<noteq> CHR 0x0A \<Longrightarrow> crlf_ok (c # s) = crlf_ok s"
  by simp

lemma crlf_ok_CRLF: "crlf_ok (CRLF @ s) = crlf_ok s"
  by simp

lemma crlf_ok_clean_append: "clean x \<Longrightarrow> crlf_ok (x @ s) = crlf_ok s"
  by (induction x) (auto simp del: crlf_ok.simps(2) simp: crlf_ok_skip)

lemma crlf_ok_join: "\<forall>l \<in> set ls. header_line l \<Longrightarrow> crlf_ok (join ls CRLF)"
proof (induction ls)
  case Nil
  then show ?case by simp
next
  case (Cons l ls)
  then have "clean l" by (simp add: header_line_def)
  with Cons crlf_ok_clean_append [of l "[]"] show ?case
    by (cases "ls = []") (simp_all add: join_Cons crlf_ok_clean_append)
qed

lemma NormalizeLineEndings_block:
  "ls \<noteq> [] \<Longrightarrow> \<forall>l \<in> set ls. header_line l \<Longrightarrow>
   NormalizeLineEndings (join ls CRLF @ CRLF2 @ body) = join ls CRLF @ CRLF2 @ body"
  using SplitRaw_header_block [of ls body]
  by (simp add: NormalizeLineEndings_norm_nl norm_nl_crlf_ok crlf_ok_join)

text \<open>A request line whose first two fields are the method and the target.\<close>

definition new_request_line :: "string \<Rightarrow> string \<Rightarrow> string" where
  "new_request_line m p = m @ '' '' @ p @ '' HTTP/1.1''"

lemma join_Cons_tail: "\<exists>t. join (x # xs) sep @ sep @ r = x @ sep @ t"
  by (cases xs) auto

lemma rewriteRequestLine_block:
  assumes "header_line rl" and "str_fields rl = m # p # rest"
  shows "rewriteRequestLine (join (rl # hs) CRLF @ CRLF2 @ body)
     = join (new_request_line m p # hs) CRLF @ CRLF2 @ body"
proof -
  have nc: "CHR 0x0D \<notin> set rl" using assms(1) by (simp add: header_line_def clean_def)
  obtain t where t: "join (rl # hs) CRLF @ CRLF @ CRLF @ body = rl @ CRLF @ t"
    using join_Cons_tail [of rl hs CRLF "CRLF @ body"] by auto
  have "index_of (CRLF @ t) CRLF = Some 0" by simp
  then have "index_of (rl @ CRLF @ t) CRLF = Some (length rl)"
    using index_of_skip_set [of CRLF rl "CRLF @ t"] nc by simp
  moreover have "join (new_request_line m p # hs) CRLF @ CRLF @ CRLF @ body
      = new_request_line m p @ CRLF @ t"
    using t by (cases hs) auto
  ultimately show ?thesis using t assms(2)
    by (simp add: rewriteRequestLine_def new_request_line_def)
qed

lemma wire_request_block:
  assumes "\<forall>l \<in> set (rl # hs). header_line l" and "str_fields rl = m # p # rest"
    and "ro_raw opts = join (rl # hs) CRLF @ CRLF2 @ body"
  shows "header_line (new_request_line m p)"
    and "wire_request opts
      = join (rewritten_lines (new_request_line m p # hs) (ro_jar opts) body) CRLF @ CRLF2 @ body"
proof -
  have "m \<in> set (str_fields rl)" "p \<in> set (str_fields rl)" using assms(2) by simp_all
  then have "set m \<subseteq> set rl" "set p \<subseteq> set rl" by (auto dest: set_str_fields)
  with assms(1) have "clean m" "clean p" by (auto intro: clean_subset simp: header_line_def)
  then show h: "header_line (new_request_line m p)"
    by (simp add: header_line_def new_request_line_def)
  show "wire_request opts
      = join (rewritten_lines (new_request_line m p # hs) (ro_jar opts) body) CRLF @ CRLF2 @ body"
    unfolding wire_request_def assms(3)
    using assms h rewriteHeaders_block [of "new_request_line m p # hs" body "ro_jar opts"]
      NormalizeLineEndings_block [of "rl # hs" body] rewriteRequestLine_block [of rl m p rest hs body]
    by simp
qed

text \<open>A line that starts with a word without a colon is none of the lines the switch looks for.\<close>

lemma lower_char_inv:
  assumes "lower_char c = CHR '':''" shows "c = CHR '':''"
proof (cases "65 \<le> (of_char c :: nat) \<and> (of_char c :: nat) \<le> 90")
  case True
  then have "of_char (lower_char c) = (of_char c + 32 :: nat)"
    by (simp add: lower_char_def)
  with assms True show ?thesis by simp
next
  case False
  then have "lower_char c = c" by (auto simp: lower_char_def Let_def)
  with assms show ?thesis by simp
qed

lemma no_colon_no_prefix:
  assumes "CHR '':'' \<notin> set m" and "CHR '' '' \<notin> set n" and "CHR '':'' \<in> set n"
  shows "\<not> has_prefix (to_lower (m @ '' '' @ t)) n"
proof
  have low: "CHR '':'' \<notin> set (to_lower m)" using assms(1) lower_char_inv unfolding to_lower_def by (metis imageE list.set_map)
  have sp: "to_lower '' '' = '' ''" by code_simp
  assume "has_prefix (to_lower (m @ '' '' @ t)) n"
  then have "prefix n (to_lower m @ '' '' @ to_lower t)"
    by (simp only: has_prefix_def to_lower_append sp)
  then consider "prefix n (to_lower m)"
    | us where "n = to_lower m @ us" "prefix us ('' '' @ to_lower t)"
    by (auto simp: prefix_append)
  then show False
  proof cases
    case 1
    then show False using low assms(3) by (auto dest: set_mono_prefix)
  next
    case 2
    then show False using low assms(2,3) by (cases us) auto
  qed
qed

lemma rewrite_line_request_line:
  "CHR '':'' \<notin> set m \<Longrightarrow> rewrite_line jar (new_request_line m p) = ([new_request_line m p], False)"
  unfolding rewrite_line_def new_request_line_def Let_def
  by (simp add: no_colon_no_prefix del: append.simps append_Cons)

lemma hd_rewritten_lines_request:
  "CHR '':'' \<notin> set m \<Longrightarrow> hd (rewritten_lines (new_request_line m p # hs) jar body) = new_request_line m p"
  by (simp add: rewritten_lines_def rewrite_line_request_line case_prod_beta)

subsection \<open>The host of a raw request\<close>

definition host_line :: "string \<Rightarrow> bool" where
  "host_line l = has_prefix (to_lower (trim_space l)) ''host:''"

lemma parse_host_lines_simp:
  "parse_host_lines tls (l # ls) = (if host_line l
     then parse_host_value (trim_space (drop 5 (trim_space l))) tls else parse_host_lines tls ls)"
  by (simp add: host_line_def Let_def)

lemma split_LF_line: "clean l \<Longrightarrow> split (l @ CRLF @ r) LF = (l @ [CHR 0x0D]) # split r LF"
proof -
  assume "clean l"
  then have "cut ((l @ [CHR 0x0D]) @ LF @ r) LF = Some (l @ [CHR 0x0D], r)"
    by (intro cut_skip_set) (auto simp: clean_def)
  then show ?thesis by (simp add: split_cut_Some)
qed

lemma trim_space_CR: "trim_space (l @ [CHR 0x0D]) = trim_space l"
  by (rule trim_space_append_space) (simp add: is_space_def)

lemma host_line_CR: "host_line (l @ [CHR 0x0D]) = host_line l"
  by (simp add: host_line_def trim_space_CR)

text \<open>The first host line of the header block decides; the lines before it are passed over.\<close>

lemma parse_host_lines_block:
  assumes "\<forall>l \<in> set (pre @ [hl]). header_line l" and "\<forall>l \<in> set pre. \<not> host_line l"
    and "host_line hl"
  shows "parse_host_lines tls (split (join (pre @ hl # post) CRLF @ CRLF @ r) LF)
     = parse_host_value (trim_space (drop 5 (trim_space hl))) tls"
  using assms(1,2)
proof (induction pre)
  case Nil
  obtain t where t: "join (hl # post) CRLF @ CRLF @ r = hl @ CRLF @ t"
    using join_Cons_tail [of hl post CRLF r] by auto
  have "clean hl" using Nil by (simp add: header_line_def)
  then show ?case using assms(3) t
    by (simp add: split_LF_line [simplified] parse_host_lines_simp host_line_CR trim_space_CR
        del: parse_host_lines.simps)
next
  case (Cons l pre)
  then have "clean l" and "\<not> host_line l" by (simp_all add: header_line_def)
  with Cons show ?case
    by (simp add: join_Cons split_LF_line [simplified] parse_host_lines_simp host_line_CR
        del: parse_host_lines.simps)
qed

lemma first_line_block: "header_line rl \<Longrightarrow> first_line (join (rl # hs) CRLF @ CRLF @ r) = rl @ [CHR 0x0D]"
proof -
  assume rl: "header_line rl"
  obtain t where t: "join (rl # hs) CRLF @ CRLF @ r = (rl @ [CHR 0x0D]) @ LF @ t"
    using join_Cons_tail [of rl hs CRLF r] by auto
  have "cut ((rl @ [CHR 0x0D]) @ LF @ t) LF = Some (rl @ [CHR 0x0D], t)"
    by (rule cut_skip_set) (use rl in \<open>auto simp: header_line_def clean_def\<close>)
  then show ?thesis unfolding t by (simp add: first_line_def split_n2_def)
qed

lemma str_fields_append_space:
  assumes "is_space c" shows "str_fields (s @ [c]) = str_fields s"
  using split_by_append_sep [of is_space c s "[]"] assms by (simp add: str_fields_def)

lemma request_line_tls_block:
  "header_line rl \<Longrightarrow> request_line_tls (join (rl # hs) CRLF @ CRLF @ r)
     = (2 \<le> length (str_fields rl) \<and> has_prefix (str_fields rl ! 1) ''https://'')"
proof -
  have "is_space (CHR 0x0D)" by (simp add: is_space_def)
  then show "header_line rl \<Longrightarrow> ?thesis"
    by (simp add: request_line_tls_def first_line_block [simplified] str_fields_append_space Let_def)
qed

lemma ParseHostFromRaw_block:
  assumes "\<forall>l \<in> set (rl # pre @ [hl]). header_line l" and "\<forall>l \<in> set (rl # pre). \<not> host_line l"
    and "host_line hl"
  shows "ParseHostFromRaw (join (rl # pre @ hl # post) CRLF @ CRLF2 @ body)
     = parse_host_value (trim_space (drop 5 (trim_space hl)))
         (2 \<le> length (str_fields rl) \<and> has_prefix (str_fields rl ! 1) ''https://'')"
  using parse_host_lines_block [of "rl # pre" hl _ post "CRLF @ body"] assms
    request_line_tls_block [of rl "pre @ hl # post" "CRLF @ body"]
  by (simp add: ParseHostFromRaw_def)

text \<open>A host name as it stands in a \<open>Host\<close> line: no white space, colon or bracket.\<close>

definition host_name :: "string \<Rightarrow> bool" where
  "host_name h = (h \<noteq> [] \<and> (\<forall>c \<in> set h. \<not> is_space c \<and> c \<notin> {CHR '':'', CHR ''['', CHR '']''}))"

lemma is_space_breaks: "is_space (CHR 0x0D)" "is_space (CHR 0x0A)" "\<not> is_space (CHR '':'')"
  by (simp_all add: is_space_def)

lemma host_name_clean: "host_name h \<Longrightarrow> clean h"
  using is_space_breaks(1,2) unfolding host_name_def clean_def by blast

lemma host_line_value:
  assumes "v \<noteq> []" and "\<forall>c \<in> set v. \<not> is_space c"
  shows "host_line (''Host: '' @ v)"
    and "trim_space (drop 5 (trim_space (''Host: '' @ v))) = v"
proof -
  have t: "trim_space (''Host: '' @ v) = ''Host: '' @ v"
    by (rule trim_space_id) (use assms in \<open>simp add: is_space_def\<close>)
  have "to_lower ''Host: '' = ''host: ''" by code_simp
  then have "to_lower (''Host: '' @ v) = ''host: '' @ to_lower v" by (simp only: to_lower_append)
  then show "host_line (''Host: '' @ v)" unfolding host_line_def t by (simp add: has_prefix_def)
  have "trim_space ('' '' @ v) = trim_space v"
    by (simp add: trim_space_def trim_left_def)
  then show "trim_space (drop 5 (trim_space (''Host: '' @ v))) = v"
    unfolding t using assms by (simp add: trim_space_no_space)
qed

lemma host_name_colon: "host_name h \<Longrightarrow> CHR '':'' \<notin> set h"
  by (auto simp: host_name_def)

lemma split_host_name_port:
  "host_name h \<Longrightarrow> split_host_port (h @ '':'' @ nat_digits n) = Some (h, nat_digits n)"
proof (rule split_host_port_plain)
  show "host_name h \<Longrightarrow> set h \<inter> {CHR ''['', CHR '']'', CHR '':''} = {}" by (auto simp: host_name_def)
  have "c \<notin> {CHR ''['', CHR '']'', CHR '':''}" if "is_digit c" for c
    using that by (auto simp: is_digit_def Let_def)
  then show "set (nat_digits n) \<inter> {CHR ''['', CHR '']'', CHR '':''} = {}"
    using nat_digits_is_digit by blast
qed

lemma parse_host_value_port:
  "host_name h \<Longrightarrow> int n \<le> max_int \<Longrightarrow>
   parse_host_value (h @ '':'' @ nat_digits n) tls = (h, int n, n = 443)"
  using split_host_name_port [of h n] by (simp add: parse_host_value_def atoi_nat_digits Let_def)

lemma parse_host_value_name:
  "host_name h \<Longrightarrow> \<not> is_ip h \<Longrightarrow>
   parse_host_value h tls = (h, if tls then 443 else 80, tls)"
  by (simp add: parse_host_value_def split_host_port_no_colon host_name_colon Let_def)

lemma host_port_no_space:
  "host_name h \<Longrightarrow> \<forall>c \<in> set (h @ '':'' @ nat_digits n). \<not> is_space c"
  using is_space_breaks(3) nat_digits_is_digit digit_not_space unfolding host_name_def by fastforce

lemma content_length_line_nat:
  "content_length_line body = ''Content-Length: '' @ nat_digits (length body)"
  by (simp add: content_length_line_def itoa_def)

lemma parse_host_target:
  assumes "\<forall>l \<in> set (rl # pre). header_line l \<and> \<not> host_line l"
    and "host_name h" and "\<not> is_ip h" and "int n \<le> max_int"
  shows "ParseHostFromRaw (join (rl # pre @ (''Host: '' @ h @ '':'' @ nat_digits n) # post) CRLF @ CRLF2 @ body)
      = (h, int n, n = 443)
    \<and> ParseHostFromRaw (join (rl # pre @ (''Host: '' @ h) # post) CRLF @ CRLF2 @ body)
      = (let tls = (2 \<le> length (str_fields rl) \<and> has_prefix (str_fields rl ! 1) ''https://'')
         in (h, if tls then 443 else 80, tls))"
proof
  let ?v = "h @ '':'' @ nat_digits n"
  have "clean ?v" using assms(2) by (simp add: host_name_clean clean_digits)
  then have "\<forall>l \<in> set (rl # pre @ [''Host: '' @ ?v]). header_line l"
    using assms(1) by (simp add: header_line_def)
  moreover have v: "?v \<noteq> []" by simp
  note hv = host_line_value [OF v host_port_no_space [OF assms(2)]]
  ultimately show "ParseHostFromRaw (join (rl # pre @ (''Host: '' @ ?v) # post) CRLF @ CRLF2 @ body)
      = (h, int n, n = 443)"
    using ParseHostFromRaw_block [of rl pre "''Host: '' @ ?v" post body] assms(1)
    unfolding hv(2) parse_host_value_port [OF assms(2,4)] using hv(1) by blast
next
  have "\<forall>l \<in> set (rl # pre @ [''Host: '' @ h]). header_line l"
    using assms(1) host_name_clean [OF assms(2)] by (simp add: header_line_def)
  moreover have h: "h \<noteq> []" "\<forall>c \<in> set h. \<not> is_space c" using assms(2) by (auto simp: host_name_def)
  note hv = host_line_value [OF h]
  ultimately show "ParseHostFromRaw (join (rl # pre @ (''Host: '' @ h) # post) CRLF @ CRLF2 @ body)
      = (let tls = (2 \<le> length (str_fields rl) \<and> has_prefix (str_fields rl ! 1) ''https://'')
         in (h, if tls then 443 else 80, tls))"
    using ParseHostFromRaw_block [of rl pre "''Host: '' @ h" post body] assms(1)
    unfolding hv(2) parse_host_value_name [OF assms(2,3)] Let_def using hv(1) by blast
qed

section \<open>Properties of raw requests\<close>

text \<open>
  \<open>NormalizeLineEndings\<close> turns every line break of the header section into CRLF, leaves the
  body as it is, and is idempotent: normalising a normalised request changes nothing.
\<close>

theorem NormalizeLineEndings_normal:
  "NormalizeLineEndings raw = norm_nl (fst (SplitRaw raw)) @ CRLF2 @ snd (SplitRaw raw)
   \<and> crlf_ok (norm_nl (fst (SplitRaw raw)))
   \<and> NormalizeLineEndings (NormalizeLineEndings raw) = NormalizeLineEndings raw"
  using NormalizeLineEndings_idem_aux NormalizeLineEndings_norm_nl crlf_ok_norm_nl
  by (intro conjI)

text \<open>
  \<open>rewriteHeaders\<close> frames the request correctly: its output splits back into the rewritten
  header lines and the unchanged body; there is a \<open>Content-Length\<close> line exactly when the body
  is not empty, it is the only one and gives the body's byte length; no
  \<open>Accept-Encoding\<close> or \<open>Transfer-Encoding\<close> line is left; and the connection lines, of which
  there is at least one, all say \<open>close\<close>.
\<close>

theorem rewriteHeaders_framing:
  assumes "ls \<noteq> []" and "\<forall>l \<in> set ls. header_line l" and "clean_jar jar"
  shows "SplitRaw (rewriteHeaders (join ls CRLF @ CRLF2 @ body) jar)
      = (join (rewritten_lines ls jar body) CRLF, body)
    \<and> split (join (rewritten_lines ls jar body) CRLF) CRLF = rewritten_lines ls jar body
    \<and> named_lines ''content-length:'' (rewritten_lines ls jar body)
      = (if body = [] then [] else [''Content-Length: '' @ nat_digits (length body)])
    \<and> named_lines ''accept-encoding:'' (rewritten_lines ls jar body) = []
    \<and> named_lines ''transfer-encoding:'' (rewritten_lines ls jar body) = []
    \<and> set (named_lines ''connection:'' (rewritten_lines ls jar body)) = {''Connection: close''}"
proof -
  note l = rewritten_lines_header_line [OF assms(2,3), of body]
  note n = rewritten_lines_not_Nil [of ls jar body]
  show ?thesis
    unfolding rewriteHeaders_block [OF assms(1,2)] SplitRaw_header_block [OF n l]
      split_header_block [OF n l] named_rewritten_lines content_length_line_nat
    by (intro conjI refl)
qed

theorem rewriteHeaders_framing_witness:
  "SplitRaw (rewriteHeaders (join [''POST / HTTP/1.1'', ''Host: a''] CRLF @ CRLF2 @ ''x=1'') [(''s'', ''1'')])
     = (join (rewritten_lines [''POST / HTTP/1.1'', ''Host: a''] [(''s'', ''1'')] ''x=1'') CRLF, ''x=1'')"
proof -
  have "\<forall>l \<in> set [''POST / HTTP/1.1'', ''Host: a'']. header_line l" by (simp add: header_line_def)
  moreover have "clean_jar [(''s'', ''1'')]" by (simp add: clean_jar_def)
  ultimately show ?thesis
    using rewriteHeaders_framing [of "[''POST / HTTP/1.1'', ''Host: a'']" "[(''s'', ''1'')]" "''x=1''"]
    by (metis list.distinct(1))
qed

text \<open>
  C15: what \<open>SendRaw\<close> writes on the connection for a well-formed raw request with CRLF line
  ends (request line, header lines, blank line, any body): the same method and target with
  \<open>HTTP/1.1\<close> as the first line, the rewritten header lines, the blank line and the body
  byte for byte.
\<close>

theorem wire_request_framing:
  assumes "\<forall>l \<in> set (rl # hs). header_line l" and "str_fields rl = m # p # rest"
    and "CHR '':'' \<notin> set m" and "clean_jar (ro_jar opts)"
    and "ro_raw opts = join (rl # hs) CRLF @ CRLF2 @ body"
  defines "out \<equiv> rewritten_lines (new_request_line m p # hs) (ro_jar opts) body"
  shows "SplitRaw (wire_request opts) = (join out CRLF, body)
    \<and> split (join out CRLF) CRLF = out
    \<and> hd out = m @ '' '' @ p @ '' HTTP/1.1''
    \<and> named_lines ''content-length:'' out
      = (if body = [] then [] else [''Content-Length: '' @ nat_digits (length body)])"
proof -
  note w = wire_request_block [OF assms(1,2,5)]
  have "\<forall>l \<in> set (new_request_line m p # hs). header_line l" using w(1) assms(1) by simp
  then have l: "\<forall>l \<in> set out. header_line l"
    unfolding out_def using assms(4) by (rule rewritten_lines_header_line)
  have n: "out \<noteq> []" unfolding out_def by (rule rewritten_lines_not_Nil)
  have "SplitRaw (wire_request opts) = (join out CRLF, body)"
    unfolding w(2) out_def [symmetric] by (rule SplitRaw_header_block [OF n l])
  moreover have "split (join out CRLF) CRLF = out" by (rule split_header_block [OF n l])
  moreover have "hd out = m @ '' '' @ p @ '' HTTP/1.1''"
    using hd_rewritten_lines_request [OF assms(3), of p hs "ro_jar opts" body]
    unfolding out_def new_request_line_def .
  moreover have "named_lines ''content-length:'' out
      = (if body = [] then [] else [''Content-Length: '' @ nat_digits (length body)])"
    unfolding out_def named_rewritten_lines content_length_line_nat ..
  ultimately show ?thesis by blast
qed

theorem wire_request_framing_witness:
  "let opts = \<lparr>ro_host = ''a'', ro_port = 80, ro_tls = False,
        ro_raw = join [''GET /x HTTP/2'', ''Host: a''] CRLF @ CRLF2 @ ''hi'',
        ro_jar = [], ro_timeout = 0\<rparr>
   in snd (SplitRaw (wire_request opts)) = ''hi''"
proof -
  define opts where "opts = \<lparr>ro_host = ''a'', ro_port = 80, ro_tls = False,
      ro_raw = join [''GET /x HTTP/2'', ''Host: a''] CRLF @ CRLF2 @ ''hi'',
      ro_jar = [], ro_timeout = 0\<rparr>"
  have l: "\<forall>l \<in> set [''GET /x HTTP/2'', ''Host: a'']. header_line l" by (simp add: header_line_def)
  have f: "str_fields ''GET /x HTTP/2'' = [''GET'', ''/x'', ''HTTP/2'']" by code_simp
  have c: "CHR '':'' \<notin> set ''GET''" by simp
  have j: "clean_jar (ro_jar opts)" by (simp add: opts_def clean_jar_def)
  have r: "ro_raw opts = join [''GET /x HTTP/2'', ''Host: a''] CRLF @ CRLF2 @ ''hi''"
    by (simp add: opts_def)
  from wire_request_framing [OF l f c j r] have "snd (SplitRaw (wire_request opts)) = ''hi''"
    by (metis snd_conv)
  then show ?thesis unfolding opts_def Let_def .
qed

text \<open>
  \<open>ParseHostFromRaw\<close> on a request whose first host line is \<open>Host: name:port\<close> returns that
  name and port, with TLS exactly for port 443; on a bare name it returns port 443 with TLS
  when the target of the request line is an \<open>https\<close> URL, and port 80 without TLS otherwise.
\<close>

theorem ParseHostFromRaw_target:
  assumes "\<forall>l \<in> set (rl # pre). header_line l \<and> \<not> host_line l"
    and "host_name h" and "\<not> is_ip h" and "int n \<le> max_int"
  shows "ParseHostFromRaw (join (rl # pre @ (''Host: '' @ h @ '':'' @ nat_digits n) # post) CRLF @ CRLF2 @ body)
      = (h, int n, n = 443)
    \<and> ParseHostFromRaw (join (rl # pre @ (''Host: '' @ h) # post) CRLF @ CRLF2 @ body)
      = (let tls = (2 \<le> length (str_fields rl) \<and> has_prefix (str_fields rl ! 1) ''https://'')
         in (h, if tls then 443 else 80, tls))"
  by (rule parse_host_target [OF assms])

theorem ParseHostFromRaw_target_witness:
  "ParseHostFromRaw (join [''GET / HTTP/1.1'', ''Host: a.com''] CRLF @ CRLF2 @ '''') = (''a.com'', 80, False)"
proof -
  have a: "\<forall>l \<in> set [''GET / HTTP/1.1'']. header_line l \<and> \<not> host_line l"
    unfolding header_line_def clean_def by code_simp
  have h: "host_name ''a.com''" by code_simp
  have i: "\<not> is_ip ''a.com''" by code_simp
  have n: "int 0 \<le> max_int" by (simp add: max_int_def)
  have f: "str_fields ''GET / HTTP/1.1'' = [''GET'', ''/'', ''HTTP/1.1'']" by code_simp
  have p: "\<not> has_prefix ''/'' ''https://''" by code_simp
  from ParseHostFromRaw_target [OF a h i n, of "[]" "''''"] show ?thesis
    by (simp add: f p)
qed


definition demo_env :: raw_env where
  "demo_env = \<lparr>dial_conn = \<lambda>_ _ _. None, set_deadline = \<lambda>_. None, write_conn = \<lambda>_. None,
     read_response = \<lambda>_. Inr \<lparr>w_status = 200, w_header = [], w_body = ''ok'', w_body_err = None\<rparr>,
     cookies_of = \<lambda>_. []\<rparr>"

definition demo_codecs :: codecs where
  "demo_codecs = \<lparr>gunzip = Some, unzlib = Some, inflate = Some, unbrotli = Some, unzstd = Some\<rparr>"

definition demo_opts :: RawRequestOptions where
  "demo_opts = \<lparr>ro_host = ''a'', ro_port = 80, ro_tls = False, ro_raw = ''GET / HTTP/1.1'',
     ro_jar = [], ro_timeout = 0\<rparr>"


end
