(* ===== verification/Format.thy ===== *)
theory Format
  imports Project RawRequest "HOL-Library.List_Lexorder" "HOL-Library.Char_ord"
begin

text \<open>
  How the user interface prints stored transactions (\<open>internal/ui/format.go\<close>): the raw text shown
  in the history, sent to Repeater, to Intruder and copied to the clipboard. \<open>json.Indent\<close> is the
  argument \<open>indent\<close>, \<open>None\<close> for a body that is not JSON. Go sorts strings by their bytes, as the
  lexicographic order on character lists does.
\<close>

definition PathOf :: "string \<Rightarrow> string" where
  "PathOf rawURL = (
     let after = (\<lambda>prefix. let rest = drop (length prefix) rawURL in
           case index_of rest ''/'' of Some slash \<Rightarrow> drop slash rest | None \<Rightarrow> ''/'')
     in if has_prefix rawURL ''https://'' then after ''https://''
        else if has_prefix rawURL ''http://'' then after ''http://''
        else rawURL)"

definition PrettyJSON :: "(string \<Rightarrow> string option) \<Rightarrow> string \<Rightarrow> string" where
  "PrettyJSON indent body = (if body = [] then body
     else case indent body of None \<Rightarrow> body | Some b \<Rightarrow> b)"

definition port_omitted :: "Transaction \<Rightarrow> bool" where
  "port_omitted tx = (tx_port tx = 0 \<or> (tx_tls tx \<and> tx_port tx = 443) \<or> (\<not> tx_tls tx \<and> tx_port tx = 80))"

definition hostHeader :: "Transaction \<Rightarrow> string" where
  "hostHeader tx = (if port_omitted tx then tx_host tx else tx_host tx @ '':'' @ itoa (tx_port tx))"

definition sortedKeys :: "header \<Rightarrow> string list" where
  "sortedKeys h = sort (map fst h)"

definition key_lines :: "header \<Rightarrow> string \<Rightarrow> string list" where
  "key_lines h k = map (\<lambda>v. k @ '': '' @ v) (h_vals h k)"

definition FormatStoreRequest :: "(string \<Rightarrow> string option) \<Rightarrow> Transaction \<Rightarrow> string" where
  "FormatStoreRequest indent tx = (let proto = (if tx_proto tx = [] then ''HTTP/1.1'' else tx_proto tx) in
     tx_method tx @ '' '' @ PathOf (tx_url tx) @ '' '' @ proto @ CRLF
     @ ''Host: '' @ hostHeader tx @ CRLF
     @ concat (map (\<lambda>k. if to_lower k = ''host'' then [] else
         concat (map (\<lambda>l. l @ CRLF) (key_lines (tx_req_headers tx) k))) (sortedKeys (tx_req_headers tx)))
     @ CRLF
     @ (if tx_req_body tx = [] then [] else PrettyJSON indent (tx_req_body tx)))"

definition FormatStoreResponse :: "(string \<Rightarrow> string option) \<Rightarrow> Transaction \<Rightarrow> string" where
  "FormatStoreResponse indent tx =
     ''HTTP/1.1 '' @ itoa (tx_status tx) @ CRLF
     @ concat (map (\<lambda>k. concat (map (\<lambda>l. l @ CRLF) (key_lines (tx_resp_headers tx) k)))
         (sortedKeys (tx_resp_headers tx)))
     @ CRLF
     @ (if tx_resp_body tx = [] then []
        else if contains (h_get (tx_resp_headers tx) ''Content-Type'') ''application/json''
        then PrettyJSON indent (tx_resp_body tx) else tx_resp_body tx)"

section \<open>The request as lines\<close>

definition request_lines :: "Transaction \<Rightarrow> string list" where
  "request_lines tx = (let proto = (if tx_proto tx = [] then ''HTTP/1.1'' else tx_proto tx) in
     (tx_method tx @ '' '' @ PathOf (tx_url tx) @ '' '' @ proto) # (''Host: '' @ hostHeader tx)
     # concat (map (key_lines (tx_req_headers tx))
         (filter (\<lambda>k. to_lower k \<noteq> ''host'') (sortedKeys (tx_req_headers tx)))))"

definition request_body :: "(string \<Rightarrow> string option) \<Rightarrow> Transaction \<Rightarrow> string" where
  "request_body indent tx = PrettyJSON indent (tx_req_body tx)"

lemma concat_lines: "ls \<noteq> [] \<Longrightarrow> concat (map (\<lambda>l. l @ sep) ls) = join ls sep @ sep"
proof (induction ls)
  case (Cons l ls)
  then show ?case by (cases ls) simp_all
qed simp

lemma FormatStoreRequest_lines:
  "FormatStoreRequest indent tx = join (request_lines tx) CRLF @ CRLF2 @ request_body indent tx"
proof -
  let ?h = "tx_req_headers tx"
  have keys: "concat (map (\<lambda>k. if to_lower k = ''host'' then [] else
         concat (map (\<lambda>l. l @ CRLF) (key_lines ?h k))) ks)
      = concat (map (\<lambda>l. l @ CRLF) (concat (map (key_lines ?h) (filter (\<lambda>k. to_lower k \<noteq> ''host'') ks))))"
    for ks by (induction ks) simp_all
  have "request_lines tx \<noteq> []" by (simp add: request_lines_def Let_def)
  from concat_lines [OF this, of CRLF] have
    "FormatStoreRequest indent tx = join (request_lines tx) CRLF @ CRLF @ CRLF @ request_body indent tx"
    by (simp add: FormatStoreRequest_def request_lines_def Let_def keys request_body_def PrettyJSON_def)
  then show ?thesis by simp
qed

text \<open>A transaction whose parts can stand in a raw HTTP/1.1 request.\<close>

definition plain_word :: "string \<Rightarrow> bool" where
  "plain_word s = (s \<noteq> [] \<and> (\<forall>c \<in> set s. \<not> is_space c))"

definition replayable :: "Transaction \<Rightarrow> bool" where
  "replayable tx = (plain_word (tx_method tx) \<and> CHR '':'' \<notin> set (tx_method tx)
     \<and> plain_word (PathOf (tx_url tx)) \<and> has_prefix (PathOf (tx_url tx)) ''/''
     \<and> (tx_proto tx = [] \<or> plain_word (tx_proto tx))
     \<and> host_name (tx_host tx) \<and> \<not> is_ip (tx_host tx) \<and> 0 \<le> tx_port tx \<and> tx_port tx \<le> max_int
     \<and> (\<forall>(k, vs) \<in> set (tx_req_headers tx). clean k \<and> (\<forall>v \<in> set vs. clean v)))"

definition request_line :: "Transaction \<Rightarrow> string" where
  "request_line tx = tx_method tx @ '' '' @ PathOf (tx_url tx) @ '' ''
     @ (if tx_proto tx = [] then ''HTTP/1.1'' else tx_proto tx)"

lemma plain_word_clean: "plain_word s \<Longrightarrow> clean s"
  using is_space_breaks(1,2) unfolding plain_word_def clean_def by blast

lemma plain_proto: "plain_word ''HTTP/1.1''"
  by code_simp

lemma request_line_fields:
  assumes "replayable tx"
  shows "str_fields (request_line tx) = [tx_method tx, PathOf (tx_url tx),
      if tx_proto tx = [] then ''HTTP/1.1'' else tx_proto tx]"
    and "header_line (request_line tx)" and "\<not> host_line (request_line tx)"
proof -
  let ?p = "if tx_proto tx = [] then ''HTTP/1.1'' else tx_proto tx"
  have w: "plain_word (tx_method tx)" "plain_word (PathOf (tx_url tx))" "plain_word ?p"
    using assms plain_proto by (auto simp: replayable_def)
  have j: "request_line tx = join [tx_method tx, PathOf (tx_url tx), ?p] '' ''"
    by (simp add: request_line_def)
  show "str_fields (request_line tx) = [tx_method tx, PathOf (tx_url tx), ?p]"
    unfolding j by (rule str_fields_join) (use w in \<open>auto simp: plain_word_def\<close>)
  have "clean '' ''" by (simp add: clean_def)
  then show "header_line (request_line tx)"
    using w plain_word_clean unfolding header_line_def request_line_def clean_append
    by (auto simp: plain_word_def)
  have "\<not> is_space (hd (request_line tx))" "\<not> is_space (last (request_line tx))"
    using w unfolding request_line_def by (auto simp: plain_word_def hd_append)
  then have "trim_space (request_line tx) = request_line tx" by (intro trim_space_id) simp
  moreover have "\<not> has_prefix (to_lower (request_line tx)) ''host:''"
    unfolding request_line_def by (rule no_colon_no_prefix) (use assms in \<open>simp_all add: replayable_def\<close>)
  ultimately show "\<not> host_line (request_line tx)" by (simp add: host_line_def)
qed

lemma clean_host_header: "replayable tx \<Longrightarrow> header_line (''Host: '' @ hostHeader tx)"
  by (auto simp: hostHeader_def header_line_def itoa_def clean_digits replayable_def host_name_clean
    clean_def [of "''Host: ''"])

lemma request_lines_eq:
  "request_lines tx = request_line tx # (''Host: '' @ hostHeader tx) # tl (tl (request_lines tx))"
  by (simp add: request_lines_def request_line_def Let_def)

lemma request_lines_header_line:
  assumes "replayable tx"
  shows "\<forall>l \<in> set (request_lines tx). header_line l"
proof -
  have "header_line (k @ '': '' @ v)" if "v \<in> set (h_vals (tx_req_headers tx) k)" for k v
  proof -
    from that obtain vs where "(k, vs) \<in> set (tx_req_headers tx)" "v \<in> set vs"
      by (cases "map_of (tx_req_headers tx) k") (auto simp: h_vals_def dest: map_of_SomeD)
    with assms have "clean k" "clean v" by (auto simp: replayable_def)
    then show ?thesis by (simp add: header_line_def clean_def)
  qed
  then have "\<forall>l \<in> set (tl (tl (request_lines tx))). header_line l"
    by (auto simp: request_lines_def Let_def key_lines_def)
  with request_lines_eq [of tx] request_line_fields(2) [OF assms] clean_host_header [OF assms]
  show ?thesis by (metis set_ConsD)
qed

section \<open>Properties of the printed request\<close>

text \<open>
  the printed request reads back. For a transaction whose parts can stand in a raw request,
  splitting \<open>FormatStoreRequest\<close> gives its header lines and the body, \<open>ExtractMethod\<close> and
  \<open>ExtractURL\<close> give the method and the path of the transaction; and \<open>ParseHostFromRaw\<close>, by
  which Intruder finds its target, gives the host, with the port if the host line has it.
  The host line never says \<open>https\<close>: for a default port the target is port 80 without TLS, also
  when the transaction was HTTPS on port 443.
\<close>

theorem FormatStoreRequest_target:
  assumes "replayable tx"
  shows "SplitRaw (FormatStoreRequest indent tx) = (join (request_lines tx) CRLF, request_body indent tx)
    \<and> split (join (request_lines tx) CRLF) CRLF = request_lines tx
    \<and> str_fields (hd (request_lines tx)) ! 0 = tx_method tx
    \<and> str_fields (hd (request_lines tx)) ! 1 = PathOf (tx_url tx)
    \<and> ParseHostFromRaw (FormatStoreRequest indent tx) =
        (if port_omitted tx then (tx_host tx, 80, False) else (tx_host tx, tx_port tx, tx_port tx = 443))"
proof -
  note ls = request_lines_header_line [OF assms]
  have ne: "request_lines tx \<noteq> []" using request_lines_eq [of tx] by auto
  have hd: "hd (request_lines tx) = request_line tx" using request_lines_eq [of tx] by (metis list.sel(1))
  have rl: "\<forall>l \<in> set [request_line tx]. header_line l \<and> \<not> host_line l"
    using request_line_fields(2,3) [OF assms] by simp
  have h: "host_name (tx_host tx)" "\<not> is_ip (tx_host tx)" using assms by (auto simp: replayable_def)
  obtain n where n: "tx_port tx = int n" "int n \<le> max_int"
    using assms by (auto simp: replayable_def dest: nonneg_int_cases)
  have sl: "\<not> has_prefix (PathOf (tx_url tx)) ''https://''"
  proof
    assume "has_prefix (PathOf (tx_url tx)) ''https://''"
    moreover have "has_prefix (PathOf (tx_url tx)) ''/''" using assms by (simp add: replayable_def)
    ultimately show False by (auto simp: has_prefix_def prefix_def)
  qed
  have "ParseHostFromRaw (FormatStoreRequest indent tx) =
      (if port_omitted tx then (tx_host tx, 80, False) else (tx_host tx, tx_port tx, tx_port tx = 443))"
    unfolding FormatStoreRequest_lines
    using request_lines_eq [of tx] request_line_fields(1) [OF assms] sl
      parse_host_target [OF rl h n(2), of "tl (tl (request_lines tx))" "request_body indent tx"]
    by (cases "port_omitted tx") (simp_all add: hostHeader_def n(1) itoa_def)
  then show ?thesis
    using SplitRaw_header_block [OF ne ls] split_header_block [OF ne ls] request_line_fields(1) [OF assms]
    unfolding FormatStoreRequest_lines hd by simp
qed

definition demo_https :: Transaction where
  "demo_https = \<lparr>tx_id = 1, tx_timestamp = 0, tx_host = ''a.com'', tx_port = 443, tx_method = ''GET'',
     tx_url = ''https://a.com/x'', tx_proto = ''HTTP/2'', tx_req_headers = [(''Accept'', [''*''])],
     tx_req_body = [], tx_status = 200, tx_resp_headers = [], tx_resp_body = [], tx_resp_size = 0,
     tx_duration_ms = 1, tx_tls = True, tx_in_scope = True\<rparr>"

theorem FormatStoreRequest_target_witness:
  "tx_tls demo_https \<and> tx_port demo_https = 443
   \<and> ParseHostFromRaw (FormatStoreRequest (\<lambda>_. None) demo_https) = (''a.com'', 80, False)"
proof -
  have "replayable demo_https"
    unfolding replayable_def clean_def max_int_def by code_simp
  moreover have "port_omitted demo_https" by (simp add: port_omitted_def demo_https_def)
  ultimately show ?thesis using FormatStoreRequest_target [of demo_https "\<lambda>_. None"]
    by (simp add: demo_https_def)
qed

lemma index_of_slash: "CHR ''/'' \<notin> set h \<Longrightarrow> index_of (h @ CHR ''/'' # p) ''/'' = Some (length h)"
  by (induction h) auto

lemma index_of_no_slash: "CHR ''/'' \<notin> set h \<Longrightarrow> index_of h ''/'' = None"
  by (induction h) auto

text \<open>
  \<open>PathOf\<close> is the part of an \<open>http\<close> or \<open>https\<close> URL from the first slash after the authority,
  query included, \<open>/\<close> when there is none; any other text is returned as it is.
\<close>

theorem PathOf_url:
  assumes "scheme = ''https://'' \<or> scheme = ''http://''" and "CHR ''/'' \<notin> set authority"
  shows "PathOf (scheme @ authority @ ''/'' @ rest) = ''/'' @ rest
    \<and> PathOf (scheme @ authority) = ''/''"
proof -
  have p: "has_prefix (s @ t) s" for s t by (simp add: has_prefix_def)
  have n: "\<not> has_prefix (''http://'' @ t) ''https://''" for t by (simp add: has_prefix_def)
  note pre = p [of "''https://''", simplified] p [of "''http://''", simplified] n [simplified]
  from assms(1) show ?thesis
    by (elim disjE)
      (simp_all add: PathOf_def Let_def pre index_of_slash [OF assms(2), simplified]
        index_of_no_slash [OF assms(2)])
qed

theorem PathOf_url_witness: "PathOf ''https://a/b?c'' = ''/b?c''"
  using PathOf_url [of "''https://''" "''a''" "''b?c''"] by simp

end
