(* ===== verification/HistoryTab.thy ===== *)
theory HistoryTab
  imports StoreHistory Format "HOL-Library.AList"
begin

text \<open>
  The history tab (\<open>internal/ui/history.go\<close>) without its widgets: the site map, the filter that
  is applied in memory, the pages of the infinite scroll, the live updates, the CSRF proof of
  concept, and the page loop of the HAR export (\<open>internal/ui/har.go\<close>).

  A Go map is an association list. A page is loaded in two steps, as in the code: the request,
  which notes the query it belongs to, and the callback that takes the result.
\<close>

section \<open>Paths and node ids\<close>

definition treePathOf :: "string \<Rightarrow> string" where
  "treePathOf rawURL = (let p = PathOf rawURL in
     case index_of p ''?'' of Some idx \<Rightarrow> take idx p | None \<Rightarrow> p)"

definition splitPath :: "string \<Rightarrow> string list" where
  "splitPath path = filter (\<lambda>s. s \<noteq> []) (split path ''/'')"

definition hostPortKey :: "string \<Rightarrow> int \<Rightarrow> string" where
  "hostPortKey host port = join_host_port host (itoa port)"

definition displayHost :: "string \<Rightarrow> int \<Rightarrow> string" where
  "displayHost host port = (if port = 0 \<or> port = 80 \<or> port = 443 then host
     else join_host_port host (itoa port))"

definition parseNodeID :: "string \<Rightarrow> (string \<times> int \<times> string) option" where
  "parseNodeID uid =
     (if has_prefix uid ''h:'' then
        (case split_host_port (drop 2 uid) of
           None \<Rightarrow> Some (drop 2 uid, 0, [])
         | Some (h, p) \<Rightarrow> Some (h, fst (atoi p), []))
      else if has_prefix uid ''p:'' then
        (case cut (drop 2 uid) ''|'' of
           None \<Rightarrow> None
         | Some (hostPort, p) \<Rightarrow> (case split_host_port hostPort of
             None \<Rightarrow> Some (hostPort, 0, p)
           | Some (h, portStr) \<Rightarrow> Some (h, fst (atoi portStr), p)))
      else None)"

text \<open>A label of a path without segments would index an empty slice.\<close>

definition labelFor :: "string \<Rightarrow> string option" where
  "labelFor uid = (case parseNodeID uid of
       None \<Rightarrow> Some uid
     | Some (host, port, path) \<Rightarrow> if path = [] then Some (displayHost host port)
         else (case splitPath path of [] \<Rightarrow> None | segs \<Rightarrow> Some (''/'' @ last segs)))"

section \<open>The site map\<close>

datatype site_node = SiteNode (node_children: "(string \<times> site_node) list")

record site_map =
  sm_hosts :: "(string \<times> site_node) list"
  sm_scope_filter :: "(string \<Rightarrow> bool) option"
  sm_text_filter :: string

definition newSiteMap :: site_map where
  "newSiteMap = \<lparr>sm_hosts = [], sm_scope_filter = None, sm_text_filter = []\<rparr>"

definition child :: "string \<Rightarrow> (string \<times> site_node) list \<Rightarrow> site_node" where
  "child seg cs = (case map_of cs seg of None \<Rightarrow> SiteNode [] | Some n \<Rightarrow> n)"

fun add_path :: "string list \<Rightarrow> site_node \<Rightarrow> site_node" where
  "add_path [] n = n"
| "add_path (seg # segs) n = SiteNode (AList.update seg (add_path segs (child seg (node_children n))) (node_children n))"

fun find_path :: "string list \<Rightarrow> site_node \<Rightarrow> site_node option" where
  "find_path [] n = Some n"
| "find_path (seg # segs) n = (case map_of (node_children n) seg of
     None \<Rightarrow> None | Some c \<Rightarrow> find_path segs c)"

definition sm_add :: "Transaction \<Rightarrow> site_map \<Rightarrow> site_map" where
  "sm_add tx sm = (let key = hostPortKey (tx_host tx) (tx_port tx) in
     sm\<lparr>sm_hosts := AList.update key (add_path (splitPath (treePathOf (tx_url tx))) (child key (sm_hosts sm)))
        (sm_hosts sm)\<rparr>)"

definition sm_clear :: "site_map \<Rightarrow> site_map" where
  "sm_clear sm = sm\<lparr>sm_hosts := []\<rparr>"

definition host_shown :: "site_map \<Rightarrow> string \<Rightarrow> bool" where
  "host_shown sm key = (let (h, portStr) = (case split_host_port key of
         Some (h, p) \<Rightarrow> (if h = [] then key else h, p) | None \<Rightarrow> (key, []))
     in (case sm_scope_filter sm of None \<Rightarrow> True | Some f \<Rightarrow> f h)
      \<and> (sm_text_filter sm \<noteq> [] \<longrightarrow>
           contains (to_lower (displayHost h (fst (atoi portStr)))) (to_lower (sm_text_filter sm))))"

definition node_at :: "site_map \<Rightarrow> string \<Rightarrow> int \<Rightarrow> string \<Rightarrow> site_node option" where
  "node_at sm host port path = (case map_of (sm_hosts sm) (hostPortKey host port) of
     None \<Rightarrow> None | Some n \<Rightarrow> find_path (splitPath path) n)"

definition childUIDs :: "site_map \<Rightarrow> string \<Rightarrow> string list" where
  "childUIDs sm uid = (if uid = [] then
       sort (map (\<lambda>key. ''h:'' @ key) (filter (host_shown sm) (map fst (sm_hosts sm))))
     else (case parseNodeID uid of None \<Rightarrow> []
       | Some (host, port, path) \<Rightarrow> (case node_at sm host port path of None \<Rightarrow> []
           | Some n \<Rightarrow> sort (map (\<lambda>seg. ''p:'' @ hostPortKey host port @ ''|'' @ path @ ''/'' @ seg)
               (map fst (node_children n))))))"

definition isBranch :: "site_map \<Rightarrow> string \<Rightarrow> bool" where
  "isBranch sm uid = (if uid = [] then True
     else (case parseNodeID uid of None \<Rightarrow> False
       | Some (host, port, path) \<Rightarrow> (case node_at sm host port path of None \<Rightarrow> False
           | Some n \<Rightarrow> node_children n \<noteq> [])))"

section \<open>The filter in memory\<close>

definition staticExtensions :: "string list" where
  "staticExtensions = [''.js'', ''.css'', ''.png'', ''.jpg'', ''.jpeg'', ''.gif'', ''.ico'', ''.svg'',
     ''.woff'', ''.woff2'', ''.ttf'', ''.eot'', ''.map'', ''.webp'', ''.avif'']"

definition matchesFilter :: "Transaction \<Rightarrow> TransactionFilter \<Rightarrow> bool" where
  "matchesFilter tx f = (
     (tf_host f = [] \<or> tx_host tx = tf_host f)
   \<and> (tf_port f = 0 \<or> tx_port tx = tf_port f)
   \<and> (tf_path_prefix f = [] \<or> (let p = treePathOf (tx_url tx) in
        p = tf_path_prefix f \<or> has_prefix p (tf_path_prefix f @ ''/'')))
   \<and> (tf_show_out_scope f \<or> tx_in_scope tx)
   \<and> (tf_methods f = [] \<or> (\<exists>m \<in> set (tf_methods f). to_lower (tx_method tx) = to_lower m))
   \<and> \<not> (tf_status_min f > 0 \<and> tx_status tx < tf_status_min f)
   \<and> \<not> (tf_status_max f > 0 \<and> tx_status tx > tf_status_max f)
   \<and> \<not> (tf_hide_static f \<and> (\<exists>ext \<in> set staticExtensions.
          has_suffix (to_lower (treePathOf (tx_url tx))) ext)))"

section \<open>Pages of the table\<close>

record history_tab =
  ht_displayed :: "Transaction list"
  ht_cursor :: nat
  ht_loading :: bool
  ht_has_more :: bool
  ht_query :: nat
  ht_site_map :: site_map

definition newHistoryTab :: history_tab where
  "newHistoryTab = \<lparr>ht_displayed = [], ht_cursor = 0, ht_loading = False, ht_has_more = True,
     ht_query = 0, ht_site_map = newSiteMap\<rparr>"

definition fetchPage :: "codec \<Rightarrow> nat \<Rightarrow> TransactionFilter \<Rightarrow> (Transaction list \<times> nat) st" where
  "fetchPage c cursor f s = (case TransactionsPage c cursor f s of
       (Inl e, s) \<Rightarrow> (Inl e, s)
     | (Inr txs, s) \<Rightarrow> (Inr (if tf_path_prefix f \<noteq> [] \<or> tf_hide_static f
           then filter (\<lambda>tx. matchesFilter tx f) txs else txs, length txs), s))"

text \<open>\<open>loadFirstPage\<close>: the request, and the callback on success.\<close>

definition first_page_start :: "history_tab \<Rightarrow> nat \<times> history_tab" where
  "first_page_start h = (Suc (ht_query h), h\<lparr>ht_query := Suc (ht_query h)\<rparr>)"

definition first_page_done :: "nat \<Rightarrow> Transaction list \<times> nat \<Rightarrow> history_tab \<Rightarrow> history_tab" where
  "first_page_done localID page h = (let (txs, fullLen) = page in
     if localID \<noteq> ht_query h then h
     else (let h = h\<lparr>ht_loading := False, ht_displayed := txs, ht_has_more := (fullLen = PageSize)\<rparr> in
       if txs \<noteq> [] then h\<lparr>ht_cursor := tx_id (last txs)\<rparr>
       else h\<lparr>ht_cursor := 0, ht_has_more := False\<rparr>))"

text \<open>\<open>loadNextPage\<close>: the request with its cursor, if one is made, and the callback.\<close>

definition next_page_start :: "history_tab \<Rightarrow> (nat \<times> nat \<times> history_tab) option" where
  "next_page_start h = (if ht_loading h \<or> \<not> ht_has_more h \<or> ht_cursor h = 0 then None
     else Some (ht_cursor h, ht_query h, h\<lparr>ht_loading := True\<rparr>))"

definition next_page_done :: "nat \<Rightarrow> store_error + (Transaction list \<times> nat) \<Rightarrow> history_tab \<Rightarrow> history_tab" where
  "next_page_done localID result h = (case result of
       Inl _ \<Rightarrow> h\<lparr>ht_loading := False\<rparr>
     | Inr (txs, fullLen) \<Rightarrow>
         if localID \<noteq> ht_query h then h\<lparr>ht_loading := False\<rparr>
         else (let h = h\<lparr>ht_displayed := ht_displayed h @ txs, ht_has_more := (fullLen = PageSize)\<rparr>;
                   h = (if txs \<noteq> [] then h\<lparr>ht_cursor := tx_id (last txs)\<rparr> else h)
               in h\<lparr>ht_loading := False\<rparr>))"

text \<open>Both loads when nothing comes between the request and the callback.\<close>

definition loadFirstPage :: "codec \<Rightarrow> TransactionFilter \<Rightarrow> history_tab \<times> store \<Rightarrow> history_tab \<times> store" where
  "loadFirstPage c f = (\<lambda>(h, s). let (i, h) = first_page_start h in
     case fetchPage c 0 f s of (Inl _, s) \<Rightarrow> (h, s) | (Inr page, s) \<Rightarrow> (first_page_done i page h, s))"

definition loadNextPage :: "codec \<Rightarrow> TransactionFilter \<Rightarrow> history_tab \<times> store \<Rightarrow> history_tab \<times> store" where
  "loadNextPage c f = (\<lambda>(h, s). case next_page_start h of None \<Rightarrow> (h, s)
     | Some (cursor, i, h) \<Rightarrow> let (r, s) = fetchPage c cursor f s in (next_page_done i r h, s))"

text \<open>One update of \<open>watchUpdates\<close>.\<close>

definition watch_update :: "TransactionFilter \<Rightarrow> Transaction \<Rightarrow> history_tab \<Rightarrow> history_tab" where
  "watch_update f tx h = (if \<exists>r \<in> set (ht_displayed h). tx_id r = tx_id tx then h
     else (let h = (if matchesFilter tx f
             then h\<lparr>ht_displayed := tx # ht_displayed h, ht_cursor := tx_id (last (tx # ht_displayed h))\<rparr>
             else h)
           in h\<lparr>ht_site_map := sm_add tx (ht_site_map h)\<rparr>))"

section \<open>Exporting\<close>

text \<open>
  The page loop of \<open>exportHAR\<close>. It is given fuel; one more than the number of rows is enough.
\<close>

fun har_collect :: "nat \<Rightarrow> codec \<Rightarrow> TransactionFilter \<Rightarrow> nat \<Rightarrow> Transaction list \<Rightarrow> store
    \<Rightarrow> ((store_error + Transaction list) \<times> store) option" where
  "har_collect 0 c f cursor all s = None"
| "har_collect (Suc n) c f cursor all s = (case TransactionsPage c cursor f s of
       (Inl e, s) \<Rightarrow> Some (Inl e, s)
     | (Inr page, s) \<Rightarrow>
         if page = [] then Some (Inr all, s)
         else if length page < PageSize then Some (Inr (all @ page), s)
         else har_collect n c f (tx_id (last page)) (all @ page) s)"

text \<open>The full rows; a row that cannot be read is exported as the page had it.\<close>

fun har_full :: "codec \<Rightarrow> Transaction list \<Rightarrow> store \<Rightarrow> Transaction list \<times> store" where
  "har_full c [] s = ([], s)"
| "har_full c (tx # txs) s = (let (r, s) = GetTransaction c (tx_id tx) s; (rest, s) = har_full c txs s in
     ((case r of Inl _ \<Rightarrow> tx | Inr t \<Rightarrow> t) # rest, s))"

section \<open>The CSRF proof of concept\<close>

definition htmlAttrEscape :: "string \<Rightarrow> string" where
  "htmlAttrEscape s = replace_all (replace_all (replace_all (replace_all s ''&'' ''&amp;'')
     [CHR 0x22] ''&quot;'') ''<'' ''&lt;'') ''>'' ''&gt;''"

definition csrf_field :: "string \<Rightarrow> string" where
  "csrf_field pair = (let kv = split_n2 pair ''='';
       name = htmlAttrEscape (kv ! 0); v = (if length kv = 2 then htmlAttrEscape (kv ! 1) else [])
     in ''    <input type='' @ [CHR 0x22] @ ''hidden'' @ [CHR 0x22] @ '' name='' @ [CHR 0x22] @ name
        @ [CHR 0x22] @ '' value='' @ [CHR 0x22] @ v @ [CHR 0x22] @ '' />'' @ LF)"

definition generateCSRFPoC :: "Transaction \<Rightarrow> string" where
  "generateCSRFPoC tx = (let method = to_upper (tx_method tx);
       method = (if method = [] then ''POST'' else method);
       ct = h_get (tx_req_headers tx) ''Content-Type'';
       fs = (if contains ct ''application/x-www-form-urlencoded'' \<and> tx_req_body tx \<noteq> []
             then concat (map csrf_field (split (tx_req_body tx) ''&'')) else [])
     in ''<!DOCTYPE html>'' @ LF @ ''<html>'' @ LF @ ''<body>'' @ LF
      @ ''<form id='' @ [CHR 0x22] @ ''csrf'' @ [CHR 0x22] @ '' action='' @ [CHR 0x22]
      @ htmlAttrEscape (tx_url tx) @ [CHR 0x22] @ '' method='' @ [CHR 0x22] @ method @ [CHR 0x22] @ ''>'' @ LF
      @ fs @ ''  <input type='' @ [CHR 0x22] @ ''submit'' @ [CHR 0x22] @ '' value='' @ [CHR 0x22]
      @ ''Submit'' @ [CHR 0x22] @ '' />'' @ LF @ ''</form>'' @ LF
      @ ''<script>document.getElementById('' @ [CHR 0x27] @ ''csrf'' @ [CHR 0x27] @ '').submit();</script>'' @ LF
      @ ''</body>'' @ LF @ ''</html>'' @ LF)"

definition protoLabel :: "Transaction \<Rightarrow> string" where
  "protoLabel tx = (if tx_tls tx then (if tx_proto tx = ''HTTP/2'' then ''H2 TLS'' else ''H1 TLS'')
     else if tx_proto tx = ''HTTP/2'' then ''H2'' else ''H1.1'')"

section \<open>Lemmas\<close>

lemma replace_all_single:
  "replace_all s [c] new = concat (map (\<lambda>x. if x = c then new else [x]) s)"
proof (induction s)
  case (Cons x s)
  then show ?case
    using replace_all_prefix [of "[c]" s new] replace_all_skip [of "[c]" x s new]
    by (cases "x = c") auto
qed simp

text \<open>The four replacements in one pass.\<close>

definition attr_char :: "char \<Rightarrow> string" where
  "attr_char c = (if c = CHR ''&'' then ''&amp;'' else if c = CHR 0x22 then ''&quot;''
     else if c = CHR ''<'' then ''&lt;'' else if c = CHR ''>'' then ''&gt;'' else [c])"

lemma concat_map_concat: "concat (map f (concat xs)) = concat (map (\<lambda>x. concat (map f x)) xs)"
  by (induction xs) simp_all

lemma htmlAttrEscape_map: "htmlAttrEscape s = concat (map attr_char s)"
  unfolding htmlAttrEscape_def replace_all_single concat_map_concat map_map comp_def
  by (intro arg_cong [where f = concat] map_cong refl) (auto simp: attr_char_def)

lemma map_of_update [simp]: "map_of (AList.update k v al) = (map_of al)(k \<mapsto> v)"
  by (simp add: update_conv')

lemma find_add_path:
  "find_path p (add_path q n) \<noteq> None \<longleftrightarrow> prefix p q \<or> find_path p n \<noteq> None"
proof (induction p arbitrary: q n)
  case (Cons seg p)
  have e: "find_path p (SiteNode []) \<noteq> None \<longleftrightarrow> p = []" by (cases p) simp_all
  show ?case
  proof (cases q)
    case q: (Cons seg' q')
    show ?thesis
    proof (cases "seg = seg'")
      case True
      have "prefix (seg # p) q \<longleftrightarrow> prefix p q'" by (simp add: q True)
      then show ?thesis using Cons.IH [of q' "child seg (node_children n)"] e
        by (cases "map_of (node_children n) seg") (auto simp: q True child_def)
    qed (simp add: q)
  qed simp
qed simp

definition tree_path :: "Transaction \<Rightarrow> string list" where
  "tree_path tx = splitPath (treePathOf (tx_url tx))"

definition tx_key :: "Transaction \<Rightarrow> string" where
  "tx_key tx = hostPortKey (tx_host tx) (tx_port tx)"

lemma sm_add_node:
  "node_at (sm_add tx sm) h p path \<noteq> None \<longleftrightarrow>
     tx_key tx = hostPortKey h p \<and> prefix (splitPath path) (tree_path tx) \<or> node_at sm h p path \<noteq> None"
proof -
  have e: "find_path ps (SiteNode []) \<noteq> None \<longleftrightarrow> ps = []" for ps by (cases ps) simp_all
  show ?thesis
    using find_add_path [of "splitPath path" "tree_path tx" "child (tx_key tx) (sm_hosts sm)"] e [of "splitPath path"]
    by (cases "map_of (sm_hosts sm) (hostPortKey h p)")
      (auto simp: node_at_def sm_add_def Let_def tx_key_def tree_path_def child_def)
qed

lemma sm_adds_node:
  "node_at (fold sm_add txs sm) h p path \<noteq> None \<longleftrightarrow>
     (\<exists>tx \<in> set txs. tx_key tx = hostPortKey h p \<and> prefix (splitPath path) (tree_path tx))
     \<or> node_at sm h p path \<noteq> None"
proof (induction txs arbitrary: sm)
  case (Cons tx txs)
  show ?case unfolding fold_simps comp_apply Cons.IH sm_add_node by auto
qed simp

lemma hostPortKey_split:
  assumes "set h \<inter> {CHR ''['', CHR '']''} = {}" "0 \<le> p" "p \<le> max_int"
  shows "split_host_port (hostPortKey h p) = Some (h, nat_digits (nat p))" "fst (atoi (nat_digits (nat p))) = p"
proof -
  have i: "itoa p = nat_digits (nat p)" using assms(2) by (simp add: itoa_def)
  show "split_host_port (hostPortKey h p) = Some (h, nat_digits (nat p))"
    unfolding hostPortKey_def i using split_join_host_port [OF assms(1) nat_digits_no_brackets] .
  show "fst (atoi (nat_digits (nat p))) = p" using atoi_nat_digits [of "nat p"] assms(2,3) by simp
qed

lemma set_hostPortKey: "set (hostPortKey h p) \<subseteq> set h \<union> {CHR ''['', CHR '']'', CHR '':''} \<union> set (itoa p)"
  by (auto simp: hostPortKey_def join_host_port_def)

lemma set_itoa: "set (itoa p) \<subseteq> {c. is_digit c} \<union> {CHR ''-''}"
  by (auto simp: itoa_def dest: nat_digits_is_digit)

lemma hostPortKey_no_pipe: "CHR ''|'' \<notin> set h \<Longrightarrow> CHR ''|'' \<notin> set (hostPortKey h p)"
proof -
  have "\<not> is_digit (CHR ''|'')" by code_simp
  then show "CHR ''|'' \<notin> set h \<Longrightarrow> ?thesis" using set_hostPortKey [of h p] set_itoa [of p] by auto
qed

section \<open>Properties of the site map\<close>

text \<open>
  the site map shows exactly what was seen. After adding any transactions to a new map there
  is a node for a host, a port and a path exactly when the path's segments begin those of some
  transaction's URL path, query stripped, at that host and port.
\<close>

theorem siteMap_nodes:
  "node_at (fold sm_add txs newSiteMap) host port path \<noteq> None \<longleftrightarrow>
     (\<exists>tx \<in> set txs. hostPortKey (tx_host tx) (tx_port tx) = hostPortKey host port
        \<and> prefix (splitPath path) (splitPath (treePathOf (tx_url tx))))"
  using sm_adds_node [of txs newSiteMap host port path]
  by (simp add: tx_key_def tree_path_def node_at_def newSiteMap_def)

text \<open>
  a node id of the site map reads back: \<open>parseNodeID\<close> returns the host, port and path that
  \<open>childUIDs\<close> put in it, also for an IPv6 host.
\<close>

theorem parseNodeID_roundtrip:
  assumes "set host \<inter> {CHR ''['', CHR '']'', CHR ''|''} = {}" and "0 \<le> port" and "port \<le> max_int"
  shows "parseNodeID (''h:'' @ hostPortKey host port) = Some (host, port, [])
    \<and> parseNodeID (''p:'' @ hostPortKey host port @ ''|'' @ path) = Some (host, port, path)"
proof -
  have b: "set host \<inter> {CHR ''['', CHR '']''} = {}" "CHR ''|'' \<notin> set host" using assms(1) by auto
  note s = hostPortKey_split [OF b(1) assms(2,3)]
  have c: "cut (hostPortKey host port @ ''|'' @ path) ''|'' = Some (hostPortKey host port, path)"
    using cut_single_append [OF hostPortKey_no_pipe [OF b(2)]] by simp
  have "has_prefix (''h:'' @ x) ''h:''" "\<not> has_prefix (''p:'' @ x) ''h:''" "has_prefix (''p:'' @ x) ''p:''" for x
    by (simp_all add: has_prefix_def)
  moreover have "drop 2 (''h:'' @ x) = x" "drop 2 (''p:'' @ x) = x" for x by simp_all
  ultimately show ?thesis unfolding parseNodeID_def using s c by simp
qed

theorem parseNodeID_roundtrip_witness:
  "parseNodeID (''p:'' @ hostPortKey ''::1'' 8080 @ ''|'' @ ''/a/b'') = Some (''::1'', 8080, ''/a/b'')"
  using parseNodeID_roundtrip [of "''::1''" 8080 "''/a/b''"] by (simp add: max_int_def)

section \<open>The two filters\<close>

lemma like_self_append: "like p s \<Longrightarrow> like (t @ p) (t @ s)"
proof (induction t)
  case (Cons c t)
  then show ?case
    by (cases "c = CHR ''%''") (auto simp: like_percent like.simps(2) intro: exI [of _ "[c]"])
qed simp

lemma like_rest: "like p s \<Longrightarrow> like (CHR ''%'' # p) (u @ s)"
  unfolding like_percent by blast

lemma PathOf_suffix: "suffix (PathOf u) u \<or> PathOf u = ''/''"
  by (auto simp: PathOf_def Let_def suffix_drop split: option.splits)

text \<open>A path that the tree shows is found by one of the three patterns.\<close>

lemma path_matches_tree:
  assumes "has_prefix u ''https://'' \<or> has_prefix u ''http://''" "suffix (PathOf u) u" "p \<noteq> []"
    and "treePathOf u = p \<or> has_prefix (treePathOf u) (p @ ''/'')"
  shows "path_matches p u"
proof -
  obtain a where u: "u = a @ PathOf u" using assms(2) by (auto simp: suffix_def)
  have cases: "\<exists>r. PathOf u = treePathOf u @ r \<and> (r = [] \<or> hd r = CHR ''?'')"
  proof (cases "index_of (PathOf u) ''?''")
    case None
    then show ?thesis by (simp add: treePathOf_def Let_def)
  next
    case (Some i)
    from index_of_SomeD [OF this] have "drop i (PathOf u) \<noteq> [] \<and> hd (drop i (PathOf u)) = CHR ''?''"
      by (metis drop_eq_Nil hd_Cons_tl length_greater_0_conv list.sel(1) list.simps(3) take_Suc
        take_eq_Nil One_nat_def length_Cons list.size(3) not_less_zero less_numeral_extra(1))
    with Some show ?thesis by (intro exI [of _ "drop i (PathOf u)"]) (simp add: treePathOf_def Let_def)
  qed
  then obtain r where r: "PathOf u = treePathOf u @ r" "r = [] \<or> hd r = CHR ''?''" by blast
  have all: "like ''%'' x" for x by (rule like_end)
  from assms(4) show ?thesis
  proof
    assume t: "treePathOf u = p"
    show ?thesis
    proof (cases r)
      case Nil
      with r t have "u = a @ p" using u by simp
      then show ?thesis using like_rest [OF like_self_append [of "[]" "[]" p], of a]
        by (simp add: path_matches_def like.simps(1))
    next
      case (Cons c r')
      with r t have "u = a @ p @ ''?'' @ r'" using u by simp
      moreover have "like (p @ ''?%'') (p @ ''?'' @ r')"
        using like_self_append [OF all, of "p @ ''?''" r'] by simp
      ultimately show ?thesis using like_rest [of "p @ ''?%''" "p @ ''?'' @ r'" a]
        by (simp add: path_matches_def)
    qed
  next
    assume "has_prefix (treePathOf u) (p @ ''/'')"
    then obtain q where "treePathOf u = p @ ''/'' @ q" by (auto simp: has_prefix_def prefix_def)
    with r have "u = a @ p @ ''/'' @ q @ r" using u by simp
    moreover have "like (p @ ''/%'') (p @ ''/'' @ q @ r)"
      using like_self_append [OF all, of "p @ ''/''" "q @ r"] by simp
    ultimately show ?thesis using like_rest [of "p @ ''/%''" "p @ ''/'' @ q @ r" a]
      by (simp add: path_matches_def)
  qed
qed

lemma upper_lower_char: "upper_char (lower_char c) = upper_char c"
  by (auto simp: upper_char_def lower_char_def Let_def)

lemma to_lower_eq_upper: "to_lower a = to_lower b \<Longrightarrow> to_upper a = to_upper b"
  unfolding to_lower_def to_upper_def
  by (metis (no_types, lifting) map_eq_conv map_map comp_apply upper_lower_char)

lemma lower_upper_char: "lower_char (upper_char c) = lower_char c"
  by (auto simp: upper_char_def lower_char_def Let_def)

lemma to_lower_upper: "to_lower (to_upper s) = to_lower s"
  by (simp add: to_lower_def to_upper_def lower_upper_char)

lemma treePathOf_root: "PathOf u = ''/'' \<Longrightarrow> treePathOf u = ''/''"
  by (simp add: treePathOf_def Let_def)

lemma scan_row_fields:
  "tx_host (scan_row c b (i, r)) = hr_host r" "tx_port (scan_row c b (i, r)) = hr_port r"
  "tx_url (scan_row c b (i, r)) = hr_url r" "tx_method (scan_row c b (i, r)) = hr_method r"
  "tx_status (scan_row c b (i, r)) = hr_status r" "tx_id (scan_row c b (i, r)) = i"
  "tx_in_scope (scan_row c b (i, r)) = (hr_in_scope r = 1)"
  by (simp_all add: scan_row_def)


definition demo_filter :: TransactionFilter where
  "demo_filter = \<lparr>tf_search = [], tf_host = ''h'', tf_port = 443, tf_path_prefix = ''/a'',
     tf_show_out_scope = True, tf_methods = [''get''], tf_status_min = 200, tf_status_max = 299,
     tf_hide_static = True\<rparr>"


section \<open>Paging\<close>

lemma tx_id_last: "xs \<noteq> [] \<Longrightarrow> tx_id (last (map (scan_row c b) xs)) = fst (last xs)"
  by (cases "last xs") (simp add: last_map scan_row_def)

text \<open>What is left below a cursor.\<close>

definition below :: "nat \<Rightarrow> (nat \<times> 'a) list \<Rightarrow> (nat \<times> 'a) list" where
  "below cursor xs = filter (\<lambda>r. cursor > 0 \<longrightarrow> fst r < cursor) xs"

lemma below_0: "below 0 xs = xs"
  by (simp add: below_def)

lemma below_page:
  assumes "t_ok (t_history s)" "below k (matching f s) \<noteq> []" "0 < n"
  shows "below (fst (last (take n (below k (matching f s))))) (matching f s) = drop n (below k (matching f s))"
proof -
  let ?xs = "below k (matching f s)"
  let ?l = "fst (last (take n ?xs))"
  have sorted: "sorted_wrt (>) (map fst ?xs)"
    unfolding below_def by (rule sorted_wrt_map_filter [OF matching_sorted [OF assms(1)]])
  have l: "last (take n ?xs) \<in> set ?xs"
    using assms(2,3) by (metis in_set_takeD last_in_set take_eq_Nil gr_implies_not0)
  have pos: "0 < ?l" by (rule matching_pos [OF assms(1), of _ f]) (use l in \<open>simp add: below_def\<close>)
  have le: "k > 0 \<Longrightarrow> ?l < k" using l by (simp add: below_def)
  have "below ?l (matching f s) = filter (\<lambda>r. fst r < ?l) ?xs"
    unfolding below_def filter_filter using pos le by (intro filter_cong) (auto simp: below_def)
  then show ?thesis using after_page [OF sorted assms(2,3)] by simp
qed

lemma sql_frame:
  "s_fault (tick s) = s_fault s \<and> t_history (tick s) = t_history s \<and> matching f (tick s) = matching f s"
  by (simp add: matching_def)

lemma PageSize_pos: "0 < PageSize"
  by (simp add: PageSize_def)

lemma har_collect_all:
  assumes "t_ok (t_history s)" "\<forall>n. \<not> s_fault s n" "length (below k (matching f s)) < n"
  shows "\<exists>t. har_collect n c f k all s = Some (Inr (all @ map (scan_row c False) (below k (matching f s))), t)
    \<and> t_history t = t_history s \<and> s_fault t = s_fault s"
  using assms
proof (induction n arbitrary: k all s)
  case (Suc n)
  let ?xs = "below k (matching f s)"
  have page: "TransactionsPage c k f s = (Inr (map (scan_row c False) (take PageSize ?xs)), tick s)"
    using Suc.prems(2) by (simp add: TransactionsPage_eq below_def)
  show ?case
  proof (cases "length ?xs < PageSize")
    case True
    then show ?thesis using page by (cases "?xs = []") auto
  next
    case False
    then have ne: "?xs \<noteq> []" "take PageSize ?xs \<noteq> []" using PageSize_pos by auto
    let ?l = "fst (last (take PageSize ?xs))"
    have b: "below ?l (matching f (tick s)) = drop PageSize ?xs"
      using below_page [OF Suc.prems(1) ne(1) PageSize_pos] sql_frame by simp
    have "length (below ?l (matching f (tick s))) < n"
      using b False Suc.prems(3) PageSize_pos by simp
    from Suc.IH [OF _ _ this, of "all @ map (scan_row c False) (take PageSize ?xs)"] Suc.prems(1,2)
    obtain t where t: "har_collect n c f ?l (all @ map (scan_row c False) (take PageSize ?xs)) (tick s) =
        Some (Inr ((all @ map (scan_row c False) (take PageSize ?xs)) @ map (scan_row c False) (drop PageSize ?xs)), t)"
      "t_history t = t_history (tick s)" "s_fault t = s_fault (tick s)" unfolding b tick_simps by blast
    then have t: "har_collect n c f ?l (all @ map (scan_row c False) (take PageSize ?xs)) (tick s) =
        Some (Inr ((all @ map (scan_row c False) (take PageSize ?xs)) @ map (scan_row c False) (drop PageSize ?xs)), t)"
      "t_history t = t_history s" "s_fault t = s_fault s" by simp_all
    have "map (scan_row c False) ?xs = map (scan_row c False) (take PageSize ?xs) @ map (scan_row c False) (drop PageSize ?xs)"
      by (simp flip: map_append)
    with t page ne False show ?thesis by (auto simp: tx_id_last)
  qed
qed simp

lemma har_full_ids:
  assumes "\<forall>n. \<not> s_fault s n" "\<forall>(i, r) \<in> set xs. t_find i (t_history s) = Some r"
  shows "fst (har_full c (map (scan_row c False) xs) s) = map (scan_row c True) xs"
  using assms
proof (induction xs arbitrary: s)
  case (Cons x xs)
  obtain i r where x: "x = (i, r)" by (cases x)
  have "GetTransaction c i s = (Inr (scan_row c True (i, r)), tick s)"
    using Cons.prems by (simp add: GetTransaction_def sql_def x)
  moreover have "fst (har_full c (map (scan_row c False) xs) (tick s)) = map (scan_row c True) xs"
    by (rule Cons.IH) (use Cons.prems in auto)
  ultimately show ?case by (simp add: x scan_row_fields case_prod_beta Let_def)
qed simp

text \<open>
  the HAR export misses nothing. With fuel for one page more than there are rows, the page loop
  ends and has collected every row that matches the filter, once each, newest first; fetching
  the full rows then gives exactly these rows with their bodies.
\<close>

theorem exportHAR_complete:
  assumes "t_ok (t_history s)" and "\<forall>n. \<not> s_fault s n" and "length (t_rows (t_history s)) < n"
  shows "\<exists>page t. har_collect n c f 0 [] s = Some (Inr page, t)
    \<and> page = map (scan_row c False) (filter (page_where 0 f) (rev (t_rows (t_history s))))
    \<and> fst (har_full c page t) = map (scan_row c True) (filter (page_where 0 f) (rev (t_rows (t_history s))))"
proof -
  have m: "matching f s = filter (page_where 0 f) (rev (t_rows (t_history s)))"
    by (simp add: matching_def t_desc_rows [OF assms(1)])
  have "length (matching f s) \<le> length (t_rows (t_history s))"
    unfolding m by (metis length_filter_le length_rev)
  then have "length (below 0 (matching f s)) < n" using assms(3) by (simp add: below_0)
  from har_collect_all [OF assms(1,2) this, of c "[]"] obtain t where
    t: "har_collect n c f 0 [] s = Some (Inr (map (scan_row c False) (matching f s)), t)"
    "t_history t = t_history s" "s_fault t = s_fault s" by (auto simp: below_0)
  have "\<forall>(i, r) \<in> set (matching f s). t_find i (t_history t) = Some r"
    using t_find_Some [OF assms(1)] by (auto simp: m t(2))
  from har_full_ids [OF _ this] assms(2) t show ?thesis unfolding m by auto
qed

theorem exportHAR_complete_witness:
  "\<exists>page t. har_collect 5 demo_codec demo_filter 0 [] (history_step demo_codec (HLog demo_tx) demo_store) = Some (Inr page, t)
     \<and> length page = 1"
proof -
  let ?s = "history_step demo_codec (HLog demo_tx) demo_store"
  have f: "\<forall>n. \<not> s_fault ?s n"
    unfolding history_step_fault by (simp add: demo_store_def fresh_store_def)
  have r: "t_seq (t_history ?s) = 1" "map fst (t_rows (t_history ?s)) = [1]"
    "length (filter (page_where 0 demo_filter) (rev (t_rows (t_history ?s)))) = 1" by code_simp+
  then have ok: "t_ok (t_history ?s)" by (auto simp: t_ok_def)
  have "length (t_rows (t_history ?s)) = 1" using r(2) by (metis length_map length_Cons list.size(3) One_nat_def)
  then have "length (t_rows (t_history ?s)) < 5" by simp
  from exportHAR_complete [OF ok f this, of demo_codec demo_filter] r(3) show ?thesis by auto
qed

section \<open>The infinite scroll\<close>

definition no_memory_filter :: "TransactionFilter \<Rightarrow> bool" where
  "no_memory_filter f = (tf_path_prefix f = [] \<and> \<not> tf_hide_static f)"

lemma fetchPage_eq:
  assumes "\<not> s_fault s (s_clock s)" "no_memory_filter f"
  shows "fetchPage c k f s = (Inr (map (scan_row c False) (take PageSize (below k (matching f s))),
    length (take PageSize (below k (matching f s)))), tick s)"
  using assms by (simp add: fetchPage_def TransactionsPage_eq below_def no_memory_filter_def)

text \<open>What the table shows after \<open>k\<close> pages.\<close>

definition shows_pages :: "codec \<Rightarrow> TransactionFilter \<Rightarrow> (nat \<times> history_row) list \<Rightarrow> nat \<Rightarrow> history_tab \<Rightarrow> bool" where
  "shows_pages c f M k h = (\<not> ht_loading h \<and> ht_displayed h = map (scan_row c False) (take (k * PageSize) M)
     \<and> (M \<noteq> [] \<longrightarrow> ht_cursor h = fst (last (take (k * PageSize) M)))
     \<and> ht_has_more h = (k * PageSize \<le> length M))"

lemma loadFirstPage_shows:
  assumes "\<not> s_fault s (s_clock s)" "no_memory_filter f" "loadFirstPage c f (h, s) = (h', s')"
  shows "shows_pages c f (matching f s) 1 h' \<and> s' = tick s"
  using assms(3) PageSize_pos
  by (cases "matching f s = []")
    (auto simp: loadFirstPage_def first_page_start_def first_page_done_def fetchPage_eq [OF assms(1,2)]
      below_0 shows_pages_def Let_def tx_id_last min_def split: if_splits)

lemma below_pages:
  assumes "t_ok (t_history s)" "matching f s \<noteq> []" "0 < k"
  shows "below (fst (last (take (k * PageSize) (matching f s)))) (matching f s) = drop (k * PageSize) (matching f s)"
  using below_page [OF assms(1), of 0 f "k * PageSize"] assms(2,3) PageSize_pos by (simp add: below_0)

lemma loadNextPage_shows:
  assumes ok: "t_ok (t_history s)" "\<not> s_fault s (s_clock s)" "no_memory_filter f"
    and h: "shows_pages c f (matching f s) k h" "0 < k" and st: "loadNextPage c f (h, s) = (h', s')"
  shows "shows_pages c f (matching f s) (Suc k) h' \<and> t_history s' = t_history s \<and> s_fault s' = s_fault s"
proof (cases "ht_has_more h")
  case False
  then have "length (matching f s) < k * PageSize" using h by (simp add: shows_pages_def)
  then have "take (Suc k * PageSize) (matching f s) = take (k * PageSize) (matching f s)" by simp
  with False h st show ?thesis
    by (auto simp: loadNextPage_def next_page_start_def shows_pages_def)
next
  case True
  let ?M = "matching f s"
  have len: "k * PageSize \<le> length ?M" using True h by (simp add: shows_pages_def)
  then have ne: "?M \<noteq> []" "take (k * PageSize) ?M \<noteq> []" using h(2) PageSize_pos by auto
  have cur: "ht_cursor h = fst (last (take (k * PageSize) ?M))" using h ne by (simp add: shows_pages_def)
  have "0 < ht_cursor h" unfolding cur
    by (rule matching_pos [OF ok(1), of _ f]) (use ne in \<open>metis in_set_takeD last_in_set\<close>)
  with True h have start: "next_page_start h = Some (ht_cursor h, ht_query h, h\<lparr>ht_loading := True\<rparr>)"
    by (simp add: next_page_start_def shows_pages_def)
  have b: "below (ht_cursor h) ?M = drop (k * PageSize) ?M" unfolding cur by (rule below_pages [OF ok(1) ne(1) h(2)])
  have add: "take (Suc k * PageSize) ?M = take (k * PageSize) ?M @ take PageSize (drop (k * PageSize) ?M)"
    by (metis add.commute mult_Suc take_add)
  have more: "(length (take PageSize (drop (k * PageSize) ?M)) = PageSize) = (Suc k * PageSize \<le> length ?M)"
    using len by auto
  define P where "P = take PageSize (drop (k * PageSize) ?M)"
  have fetch: "fetchPage c (ht_cursor h) f s = (Inr (map (scan_row c False) P, length P), tick s)"
    unfolding fetchPage_eq [OF ok(2,3)] b P_def ..
  have h': "h' = next_page_done (ht_query h) (Inr (map (scan_row c False) P, length P)) (h\<lparr>ht_loading := True\<rparr>)"
    and s': "s' = tick s" using st start fetch by (auto simp: loadNextPage_def)
  have "shows_pages c f ?M (Suc k) h'"
    using h cur ne unfolding shows_pages_def add more [folded P_def, symmetric] h' P_def [symmetric]
    by (cases "P = []") (auto simp: next_page_done_def Let_def tx_id_last)
  then show ?thesis by (simp add: s')
qed

text \<open>The scroll: the first page, then \<open>k\<close> more.\<close>

definition scroll :: "codec \<Rightarrow> TransactionFilter \<Rightarrow> nat \<Rightarrow> history_tab \<times> store \<Rightarrow> history_tab \<times> store" where
  "scroll c f k hs = (loadNextPage c f ^^ k) (loadFirstPage c f hs)"

lemma scroll_shows:
  assumes "t_ok (t_history s)" "\<forall>n. \<not> s_fault s n" "no_memory_filter f"
  shows "shows_pages c f (matching f s) (Suc k) (fst (scroll c f k (h, s)))
    \<and> t_history (snd (scroll c f k (h, s))) = t_history s \<and> s_fault (snd (scroll c f k (h, s))) = s_fault s"
proof (induction k)
  case 0
  obtain h' s' where "loadFirstPage c f (h, s) = (h', s')" by fastforce
  with loadFirstPage_shows [OF _ assms(3) this] assms(2) show ?case by (simp add: scroll_def)
next
  case (Suc k)
  obtain h1 s1 where 1: "scroll c f k (h, s) = (h1, s1)" by fastforce
  obtain h2 s2 where 2: "loadNextPage c f (h1, s1) = (h2, s2)" by fastforce
  have m: "matching f s1 = matching f s" using Suc 1 by (simp add: matching_def)
  have "scroll c f (Suc k) (h, s) = (h2, s2)" using 1 2 by (simp add: scroll_def)
  with loadNextPage_shows [OF _ _ assms(3) _ _ 2, of "Suc k"] Suc 1 assms(1,2) m show ?case by auto
qed

text \<open>
  the infinite scroll shows what the filter matches. With no path and no static filter, the
  table after the first page and \<open>k\<close> more holds the newest \<open>(k + 1) * 100\<close> matching rows, once each
  and newest first; and there are more exactly as long as the database may have more, so that
  scrolling on ends with all of them.
\<close>

theorem scroll_complete:
  assumes "t_ok (t_history s)" and "\<forall>n. \<not> s_fault s n" and "no_memory_filter f"
  shows "ht_displayed (fst (scroll c f k (h, s))) = map (scan_row c False)
      (take (Suc k * 100) (filter (page_where 0 f) (rev (t_rows (t_history s)))))
    \<and> ht_has_more (fst (scroll c f k (h, s)))
      = (Suc k * 100 \<le> length (filter (page_where 0 f) (rev (t_rows (t_history s)))))"
  using scroll_shows [OF assms, of c k h]
  by (simp add: shows_pages_def matching_def t_desc_rows [OF assms(1)] PageSize_def)

definition demo_open_filter :: TransactionFilter where
  "demo_open_filter = demo_filter\<lparr>tf_path_prefix := [], tf_hide_static := False\<rparr>"

theorem scroll_complete_witness:
  "\<not> ht_has_more (fst (scroll demo_codec demo_open_filter 1 (newHistoryTab, demo_store)))"
proof -
  have s: "t_ok (t_history demo_store)" "\<forall>n. \<not> s_fault demo_store n" "t_rows (t_history demo_store) = []"
    by (simp_all add: demo_store_def fresh_store_def new_file_def) (simp add: empty_table_def)
  have f: "no_memory_filter demo_open_filter" by (simp add: no_memory_filter_def demo_open_filter_def)
  from scroll_complete [OF s(1,2) f, of demo_codec 1 newHistoryTab] s(3) show ?thesis by simp
qed

text \<open>
  with static files hidden the scroll can stop before it showed anything. When all rows of the
  first page are filtered out in memory, the table is empty, is marked as having no more rows,
  and no next page is ever requested, however many matching rows the database holds.
\<close>

theorem scroll_stops_early:
  assumes "fetchPage c 0 f s = (Inr ([], PageSize), s')"
  shows "scroll c f k (h, s) = scroll c f 0 (h, s)
    \<and> ht_displayed (fst (scroll c f k (h, s))) = [] \<and> \<not> ht_has_more (fst (scroll c f k (h, s)))"
proof -
  let ?h = "h\<lparr>ht_query := Suc (ht_query h), ht_loading := False, ht_displayed := [], ht_has_more := False, ht_cursor := 0\<rparr>"
  have first: "loadFirstPage c f (h, s) = (?h, s')"
    using assms by (simp add: loadFirstPage_def first_page_start_def first_page_done_def Let_def)
  have "loadNextPage c f (?h, s') = (?h, s')" by (simp add: loadNextPage_def next_page_start_def)
  then have "(loadNextPage c f ^^ k) (?h, s') = (?h, s')" by (induction k) simp_all
  then show ?thesis by (simp add: scroll_def first)
qed

text \<open>An old page below a hundred scripts.\<close>

definition demo_html :: history_row where
  "demo_html = log_row demo_codec ''{}'' ''{}'' demo_tx"

definition demo_js :: history_row where
  "demo_js = log_row demo_codec ''{}'' ''{}'' (demo_tx\<lparr>tx_url := ''https://h/a.js''\<rparr>)"

definition demo_scripts :: store where
  "demo_scripts = demo_store\<lparr>t_history := \<lparr>t_rows = (1, demo_html) # map (\<lambda>i. (i + 2, demo_js)) [0..<100],
     t_seq = 101\<rparr>\<rparr>"

definition demo_hide_filter :: TransactionFilter where
  "demo_hide_filter = demo_filter\<lparr>tf_path_prefix := []\<rparr>"

lemma demo_scripts_page: "\<exists>s'. fetchPage demo_codec 0 demo_hide_filter demo_scripts = (Inr ([], PageSize), s')"
proof -
  let ?rows = "t_rows (t_history demo_scripts)"
  have rows: "?rows = (1, demo_html) # map (\<lambda>i. (i + 2, demo_js)) [0..<100]" by (simp add: demo_scripts_def)
  have inc: "sorted_wrt (<) (map (\<lambda>i. i + 2) [0..<n])" for n :: nat
    by (induction n) (auto simp: sorted_wrt_append)
  have ok: "t_ok (t_history demo_scripts)"
    using inc [of 100] by (auto simp: t_ok_def demo_scripts_def comp_def)
  have ind: "page_where 0 f (i, r) = page_where 0 f (0, r)" for f i r by (simp add: page_where_def)
  have w: "page_where 0 demo_hide_filter (0, demo_html)" "page_where 0 demo_hide_filter (0, demo_js)"
    by code_simp+
  then have all: "\<forall>x \<in> set (rev ?rows). page_where 0 demo_hide_filter x"
    using ind unfolding rows by (auto simp del: upt_rec_numeral)
  then have m: "matching demo_hide_filter demo_scripts = rev ?rows"
    unfolding matching_def t_desc_rows [OF ok] by (rule filter_True)
  have f: "\<not> s_fault demo_scripts n" for n by (simp add: demo_scripts_def demo_store_def fresh_store_def)
  have t: "take PageSize (rev ?rows) = rev (map (\<lambda>i. (i + 2, demo_js)) [0..<100])"
    unfolding rows by (simp add: PageSize_def del: upt_rec_numeral)
  have "\<not> matchesFilter (scan_row demo_codec False (0, demo_js)) demo_hide_filter" by code_simp
  then have "\<not> matchesFilter (scan_row demo_codec False (i, demo_js)) demo_hide_filter" for i
    by (simp add: matchesFilter_def scan_row_fields)
  then have "filter (\<lambda>tx. matchesFilter tx demo_hide_filter)
      (map (scan_row demo_codec False) (rev (map (\<lambda>i. (i + 2, demo_js)) [0..<100]))) = []"
    by (auto simp: filter_empty_conv simp del: upt_rec_numeral)
  moreover have "tf_hide_static demo_hide_filter" by (simp add: demo_hide_filter_def demo_filter_def)
  ultimately show ?thesis
    using TransactionsPage_eq [OF f, of demo_codec 0 demo_hide_filter] t
    by (simp add: fetchPage_def m PageSize_def del: upt_rec_numeral)
qed

theorem scroll_stops_early_witness:
  "matchesFilter (scan_row demo_codec False (1, demo_html)) demo_hide_filter
   \<and> (1, demo_html) \<in> set (t_rows (t_history demo_scripts))
   \<and> ht_displayed (fst (scroll demo_codec demo_hide_filter 7 (newHistoryTab, demo_scripts))) = []"
proof -
  obtain s' where "fetchPage demo_codec 0 demo_hide_filter demo_scripts = (Inr ([], PageSize), s')"
    using demo_scripts_page by blast
  from scroll_stops_early [OF this] have
    "ht_displayed (fst (scroll demo_codec demo_hide_filter 7 (newHistoryTab, demo_scripts))) = []" by blast
  moreover have "matchesFilter (scan_row demo_codec False (1, demo_html)) demo_hide_filter" by code_simp
  ultimately show ?thesis by (simp add: demo_scripts_def del: upt_rec_numeral)
qed

text \<open>
  live updates ignore the search term. The in-memory filter that decides whether a new
  transaction enters the table gives the same answer for every search text, so a transaction
  that the search excludes is shown.
\<close>

theorem live_update_ignores_search:
  "matchesFilter tx (f\<lparr>tf_search := term\<rparr>) = matchesFilter tx f
   \<and> tx_id (hd (ht_displayed (watch_update (demo_open_filter\<lparr>tf_search := ''zzz''\<rparr>) demo_tx newHistoryTab))) = tx_id demo_tx
   \<and> \<not> page_where 0 (demo_open_filter\<lparr>tf_search := ''zzz''\<rparr>) (1, demo_html)"
proof -
  have "matchesFilter demo_tx (demo_open_filter\<lparr>tf_search := ''zzz''\<rparr>)"
    "\<not> page_where 0 (demo_open_filter\<lparr>tf_search := ''zzz''\<rparr>) (1, demo_html)" by code_simp+
  then show ?thesis
    by (simp add: watch_update_def newHistoryTab_def Let_def) (simp add: matchesFilter_def)
qed

text \<open>
  the escaped text cannot leave its attribute. \<open>htmlAttrEscape\<close>, four replacements one after
  the other, is the same as replacing each character on its own; its result has no quote and no
  angle bracket, and different texts stay different.
\<close>

theorem htmlAttrEscape_one_pass:
  "htmlAttrEscape s = concat (map attr_char s)
   \<and> set (htmlAttrEscape s) \<inter> {CHR 0x22, CHR ''<'', CHR ''>''} = {}
   \<and> (htmlAttrEscape s = htmlAttrEscape t \<longleftrightarrow> s = t)"
proof -
  have inj: "concat (map attr_char a) = concat (map attr_char b) \<Longrightarrow> a = b" for a b
  proof (induction a arbitrary: b)
    case Nil
    then show ?case by (cases b) (auto simp: attr_char_def split: if_splits)
  next
    case (Cons x a)
    then obtain y b' where b: "b = y # b'" by (cases b) (auto simp: attr_char_def split: if_splits)
    from Cons.prems have e: "attr_char x @ concat (map attr_char a) = attr_char y @ concat (map attr_char b')"
      by (simp add: b)
    then have "x = y" by (auto simp: attr_char_def split: if_splits)
    with e Cons.IH [of b'] b show ?case by simp
  qed
  have "set (attr_char c) \<inter> {CHR 0x22, CHR ''<'', CHR ''>''} = {}" for c by (simp add: attr_char_def)
  then have "set (concat (map attr_char s)) \<inter> {CHR 0x22, CHR ''<'', CHR ''>''} = {}" by auto
  with inj show ?thesis unfolding htmlAttrEscape_map by blast
qed

end
