(* ===== verification/StoreWs.thy ===== *)
theory StoreWs
  imports StoreHistory
begin

text \<open>
  Captured WebSocket traffic (\<open>internal/store/websocket.go\<close>): connections, frames, and the two
  observers of the event bus that record them while the proxy relays.
\<close>

definition wsFrameSizeLimit :: nat where
  "wsFrameSizeLimit = 1048576"

definition ws_conn_row :: "codec \<Rightarrow> WebSocketConnection \<Rightarrow> ws_conn_row" where
  "ws_conn_row c conn = \<lparr>cr_history_id = wsc_history_id conn, cr_host = wsc_host conn, cr_url = wsc_url conn,
     cr_tls = boolToInt (wsc_tls conn), cr_in_scope = boolToInt (wsc_in_scope conn),
     cr_timestamp = format_time c (wsc_timestamp conn)\<rparr>"

definition LogWebSocketConnection :: "codec \<Rightarrow> WebSocketConnection \<Rightarrow> nat st" where
  "LogWebSocketConnection c conn s = (case store_write (sql (\<lambda>s.
       let (i, t) = t_insert (ws_conn_row c conn) (t_ws_conns s) in (Inr i, s\<lparr>t_ws_conns := t\<rparr>))) s of
     (Inl e, s) \<Rightarrow> (Inl e, s)
   | (Inr i, s) \<Rightarrow> (Inr i, s\<lparr>s_ws_conn_ch := try_send (conn\<lparr>wsc_id := i\<rparr>) (s_ws_conn_ch s)\<rparr>))"

definition ws_frame_row :: "codec \<Rightarrow> WebSocketFrame \<Rightarrow> ws_frame_row" where
  "ws_frame_row c f = \<lparr>fw_conn_id = wsf_conn_id f, fw_timestamp = format_time c (wsf_timestamp f),
     fw_direction = wsf_direction f, fw_opcode = wsf_opcode f, fw_payload = wsf_payload f\<rparr>"

definition LogWebSocketFrame :: "codec \<Rightarrow> WebSocketFrame \<Rightarrow> unit st" where
  "LogWebSocketFrame c f s = (case store_write (sql (\<lambda>s.
       (Inr (), s\<lparr>t_ws_frames := snd (t_insert (ws_frame_row c f) (t_ws_frames s))\<rparr>))) s of
     (Inl e, s) \<Rightarrow> (Inl e, s)
   | (Inr _, s) \<Rightarrow> (Inr (), s\<lparr>s_ws_frame_ch := try_send f (s_ws_frame_ch s)\<rparr>))"

definition AllWebSocketConnections :: "codec \<Rightarrow> WebSocketConnection list st" where
  "AllWebSocketConnections c = sql (\<lambda>s. (Inr (map (\<lambda>(i, r).
     \<lparr>wsc_id = i, wsc_history_id = cr_history_id r, wsc_host = cr_host r, wsc_url = cr_url r,
      wsc_tls = (cr_tls r = 1), wsc_in_scope = (cr_in_scope r = 1),
      wsc_timestamp = parse_time_or_zero c (cr_timestamp r),
      wsc_frame_count = length (filter (\<lambda>(_, f). fw_conn_id f = i) (t_rows (t_ws_frames s)))\<rparr>)
     (t_desc (t_ws_conns s))), s))"

definition scan_frame :: "codec \<Rightarrow> nat \<times> ws_frame_row \<Rightarrow> WebSocketFrame" where
  "scan_frame c = (\<lambda>(i, r). \<lparr>wsf_id = i, wsf_conn_id = fw_conn_id r,
     wsf_timestamp = parse_time_or_zero c (fw_timestamp r), wsf_direction = fw_direction r,
     wsf_opcode = fw_opcode r, wsf_payload = fw_payload r\<rparr>)"

definition FramesForConnection :: "codec \<Rightarrow> nat \<Rightarrow> WebSocketFrame list st" where
  "FramesForConnection c connectionID = sql (\<lambda>s.
     (Inr (map (scan_frame c) (filter (\<lambda>(_, r). fw_conn_id r = connectionID) (t_asc (t_ws_frames s)))), s))"

definition ObserveWebSocketConnection :: "codec \<Rightarrow> WebSocketConnectionEvent \<Rightarrow> store \<Rightarrow> nat \<times> store" where
  "ObserveWebSocketConnection c e s = (let (b, s) = InScope (wc_host e) s in
     case LogWebSocketConnection c \<lparr>wsc_id = 0, wsc_history_id = 0, wsc_host = wc_host e, wsc_url = wc_url e,
        wsc_tls = wc_tls e, wsc_in_scope = b, wsc_timestamp = wc_timestamp e, wsc_frame_count = 0\<rparr> s of
       (Inl _, s) \<Rightarrow> (0, s) | (Inr i, s) \<Rightarrow> (i, s))"

definition stored_payload :: "string option \<Rightarrow> string option" where
  "stored_payload p = (case p of None \<Rightarrow> None
     | Some b \<Rightarrow> Some (if length b > wsFrameSizeLimit then take wsFrameSizeLimit b else b))"

definition observed_frame :: "WebSocketFrameEvent \<Rightarrow> WebSocketFrame" where
  "observed_frame e = \<lparr>wsf_id = 0, wsf_conn_id = wf_conn_id e, wsf_timestamp = wf_timestamp e,
     wsf_direction = wf_direction e, wsf_opcode = wf_opcode e, wsf_payload = stored_payload (wf_payload e)\<rparr>"

definition ObserveWebSocketFrame :: "codec \<Rightarrow> WebSocketFrameEvent \<Rightarrow> store \<Rightarrow> WebSocketFrameResult \<times> store" where
  "ObserveWebSocketFrame c e s = (if wf_conn_id e = 0 then (\<lparr>fr_payload = wf_payload e\<rparr>, s)
     else let (_, s) = LogWebSocketFrame c (observed_frame e) s in (\<lparr>fr_payload = wf_payload e\<rparr>, s))"

section \<open>Lemmas\<close>

text \<open>A store whose statements succeed.\<close>

definition healthy :: "store \<Rightarrow> bool" where
  "healthy s = (\<not> s_done s \<and> s_fault s = (\<lambda>_. False))"

lemma healthy_tick [simp]: "healthy (tick s) = healthy s"
  by (simp add: healthy_def)

lemma healthy_sql: "healthy s \<Longrightarrow> sql k s = k (tick s)"
  by (simp add: healthy_def sql_def)

lemma healthy_write: "healthy s \<Longrightarrow> store_write f s = f s"
  by (simp add: healthy_def store_write_def)

lemma t_asc_insert: "t_ok t \<Longrightarrow> t_asc (snd (t_insert a t)) = t_asc t @ [(Suc (t_seq t), a)]"
  using t_asc_rows [OF t_ok_insert, of t a] by (simp add: t_asc_rows) (simp add: t_insert_def)

lemma LogWebSocketFrame_eq:
  "healthy s \<Longrightarrow> LogWebSocketFrame c f s = (Inr (), (tick s)\<lparr>
     t_ws_frames := snd (t_insert (ws_frame_row c f) (t_ws_frames s)),
     s_ws_frame_ch := try_send f (s_ws_frame_ch s)\<rparr>)"
  by (simp add: LogWebSocketFrame_def healthy_sql healthy_write)

definition observe_frames :: "codec \<Rightarrow> WebSocketFrameEvent list \<Rightarrow> store \<Rightarrow> store" where
  "observe_frames c es s = fold (\<lambda>e s. snd (ObserveWebSocketFrame c e s)) es s"

lemma observe_frame_rows:
  assumes "healthy s" "t_ok (t_ws_frames s)"
  shows "healthy (snd (ObserveWebSocketFrame c e s)) \<and> t_ok (t_ws_frames (snd (ObserveWebSocketFrame c e s)))
    \<and> map snd (t_asc (t_ws_frames (snd (ObserveWebSocketFrame c e s)))) = map snd (t_asc (t_ws_frames s))
        @ (if wf_conn_id e = 0 then [] else [ws_frame_row c (observed_frame e)])"
  using assms by (simp add: ObserveWebSocketFrame_def LogWebSocketFrame_eq t_ok_insert t_asc_insert)
    (simp add: healthy_def)

lemma observe_frames_rows:
  "healthy s \<Longrightarrow> t_ok (t_ws_frames s) \<Longrightarrow>
     healthy (observe_frames c es s) \<and> t_ok (t_ws_frames (observe_frames c es s))
   \<and> map snd (t_asc (t_ws_frames (observe_frames c es s))) = map snd (t_asc (t_ws_frames s))
        @ map (ws_frame_row c \<circ> observed_frame) (filter (\<lambda>e. wf_conn_id e \<noteq> 0) es)"
proof (induction es arbitrary: s)
  case (Cons e es)
  from observe_frame_rows [OF Cons.prems, of c e] Cons.IH [of "snd (ObserveWebSocketFrame c e s)"]
  show ?case by (simp add: observe_frames_def)
qed (simp add: observe_frames_def)

text \<open>A frame as it is read back, without its id.\<close>

definition frame_data :: "WebSocketFrame \<Rightarrow> int \<times> WebSocketDirection \<times> WebSocketOpcode \<times> string option" where
  "frame_data f = (wsf_timestamp f, wsf_direction f, wsf_opcode f, wsf_payload f)"

definition event_data :: "WebSocketFrameEvent \<Rightarrow> int \<times> WebSocketDirection \<times> WebSocketOpcode \<times> string option" where
  "event_data e = (wf_timestamp e - wf_timestamp e mod 1000000000, wf_direction e, wf_opcode e,
     stored_payload (wf_payload e))"

lemma frame_data_scan: "time_law c \<Longrightarrow> frame_data (scan_frame c (i, ws_frame_row c (observed_frame e))) = event_data e"
  by (simp add: frame_data_def scan_frame_def ws_frame_row_def observed_frame_def event_data_def
      parse_time_or_zero_def time_law_def)

lemma FramesForConnection_eq: "healthy s \<Longrightarrow> fst (FramesForConnection c i s) =
    Inr (map (scan_frame c) (filter (\<lambda>(_, r). fw_conn_id r = i) (t_asc (t_ws_frames s))))"
  by (simp add: FramesForConnection_def healthy_sql)

lemma frames_scanned:
  "map frame_data (map (scan_frame c) (filter (\<lambda>(_, r). fw_conn_id r = i) rs))
   = map (\<lambda>r. frame_data (scan_frame c (0, r))) (filter (\<lambda>r. fw_conn_id r = i) (map snd rs))"
  by (induction rs) (auto simp: frame_data_def scan_frame_def)

lemma frames_after:
  assumes "healthy s" "t_ok (t_ws_frames s)" "time_law c" "i \<noteq> 0"
    and "fst (FramesForConnection c i s) = Inr old"
    and "fst (FramesForConnection c i (observe_frames c es s)) = Inr fs"
  shows "map frame_data fs = map frame_data old @ map event_data (filter (\<lambda>e. wf_conn_id e = i) es)"
proof -
  let ?s = "observe_frames c es s"
  have o: "healthy ?s" "map snd (t_asc (t_ws_frames ?s)) = map snd (t_asc (t_ws_frames s))
      @ map (ws_frame_row c \<circ> observed_frame) (filter (\<lambda>e. wf_conn_id e \<noteq> 0) es)"
    using observe_frames_rows [OF assms(1,2)] by blast+
  have new: "map (\<lambda>r. frame_data (scan_frame c (0, r)))
      (filter (\<lambda>r. fw_conn_id r = i) (map (ws_frame_row c \<circ> observed_frame) (filter (\<lambda>e. wf_conn_id e \<noteq> 0) es)))
    = map event_data (filter (\<lambda>e. wf_conn_id e = i) es)"
    using assms(3,4) by (induction es) (auto simp: frame_data_scan, simp_all add: ws_frame_row_def observed_frame_def)
  have "fs = map (scan_frame c) (filter (\<lambda>(_, r). fw_conn_id r = i) (t_asc (t_ws_frames ?s)))"
    "old = map (scan_frame c) (filter (\<lambda>(_, r). fw_conn_id r = i) (t_asc (t_ws_frames s)))"
    using assms(5,6) by (simp_all add: FramesForConnection_eq assms(1) o(1))
  then show ?thesis by (simp only: frames_scanned o(2) filter_append map_append new)
qed

text \<open>The frame list of a connection is what was seen on the wire. After the store has observed any
  interleaving of frames of any connections, \<open>FramesForConnection\<close> returns the earlier frames of
  the connection and then its new ones, all of them, in the order they came, with the time cut to
  the second and the payload to one megabyte.\<close>

theorem frames_recorded_in_order:
  assumes "healthy s" "t_ok (t_ws_frames s)" "time_law c" "i \<noteq> 0"
    and "fst (FramesForConnection c i s) = Inr old"
    and "fst (FramesForConnection c i (observe_frames c es s)) = Inr fs"
  shows "map frame_data fs = map frame_data old @ map event_data (filter (\<lambda>e. wf_conn_id e = i) es)"
  using assms by (rule frames_after)

text \<open>Recording is invisible to the traffic.\<close>

interpretation store_tap: frame_tap "ObserveWebSocketFrame c" "\<lambda>_. True" for c
  by unfold_locales (simp_all add: ObserveWebSocketFrame_def case_prod_beta)

definition demo_frame :: "nat \<Rightarrow> string option \<Rightarrow> WebSocketFrameEvent" where
  "demo_frame i p = \<lparr>wf_conn_id = i, wf_timestamp = 1500000000, wf_direction = 0, wf_opcode = 1, wf_payload = p\<rparr>"

lemma demo_store_healthy [simp]: "healthy demo_store" "t_ok (t_ws_frames demo_store)"
  by (simp_all add: healthy_def demo_store_def fresh_store_def new_file_def)

theorem frames_recorded_in_order_witness:
  "map frame_data (case fst (FramesForConnection demo_codec 1 (observe_frames demo_codec
       [demo_frame 1 (Some ''a''), demo_frame 2 None, demo_frame 1 (Some ''b'')] demo_store)) of Inr fs \<Rightarrow> fs | Inl _ \<Rightarrow> [])
   = [(1000000000, 0, 1, Some ''a''), (1000000000, 0, 1, Some ''b'')]"
proof -
  let ?es = "[demo_frame 1 (Some ''a''), demo_frame 2 None, demo_frame 1 (Some ''b'')]"
  have "healthy (observe_frames demo_codec ?es demo_store)"
    using observe_frames_rows [of demo_store demo_codec ?es] by simp
  then obtain fs where fs: "fst (FramesForConnection demo_codec 1 (observe_frames demo_codec ?es demo_store)) = Inr fs"
    by (simp add: FramesForConnection_eq)
  have old: "fst (FramesForConnection demo_codec 1 demo_store) = Inr []"
    by (simp add: FramesForConnection_eq) (simp add: demo_store_def fresh_store_def new_file_def t_asc_rows, simp add: empty_table_def)
  have "map frame_data fs = map frame_data [] @ map event_data (filter (\<lambda>e. wf_conn_id e = 1) ?es)"
    by (rule frames_recorded_in_order [OF _ _ demo_time_law _ old fs]) simp_all
  then show ?thesis
    unfolding fs by (simp add: demo_frame_def event_data_def stored_payload_def wsFrameSizeLimit_def)
qed

text \<open>Recording never touches the traffic: whatever the state of the store (closed, failing, full
  channels) the frame observer hands back the payload it was given, whole, however long it is, and
  changes no table but the frames; a frame of no connection is not recorded at all.\<close>

theorem frame_observer_transparent:
  "fr_payload (fst (ObserveWebSocketFrame c e s)) = wf_payload e
   \<and> (let t = snd (ObserveWebSocketFrame c e s) in
       (t_ws_frames t = t_ws_frames s \<or> t_ws_frames t = snd (t_insert (ws_frame_row c (observed_frame e)) (t_ws_frames s)))
     \<and> t_ws_conns t = t_ws_conns s \<and> t_history t = t_history s \<and> t_scope t = t_scope s
     \<and> t_loot t = t_loot s \<and> t_repeater t = t_repeater s \<and> t_plugins t = t_plugins s
     \<and> t_annotations t = t_annotations s \<and> t_intruder t = t_intruder s
     \<and> (wf_conn_id e = 0 \<longrightarrow> t = s))"
  by (auto simp: ObserveWebSocketFrame_def LogWebSocketFrame_def store_simps)

text \<open>The frame count of the connection list is the length of the connection's frame list, and the
  connections come newest first.\<close>

theorem frame_counts_match:
  assumes "healthy s" "t_ok (t_ws_conns s)" "t_ok (t_ws_frames s)"
    and "fst (AllWebSocketConnections c s) = Inr conns" "conn \<in> set conns"
    and "fst (FramesForConnection c (wsc_id conn) s) = Inr fs"
  shows "wsc_frame_count conn = length fs \<and> sorted_wrt (>) (map wsc_id conns)"
proof -
  have conns: "conns = map (\<lambda>(i, r).
     \<lparr>wsc_id = i, wsc_history_id = cr_history_id r, wsc_host = cr_host r, wsc_url = cr_url r,
      wsc_tls = (cr_tls r = 1), wsc_in_scope = (cr_in_scope r = 1),
      wsc_timestamp = parse_time_or_zero c (cr_timestamp r),
      wsc_frame_count = length (filter (\<lambda>(_, f). fw_conn_id f = i) (t_rows (t_ws_frames s)))\<rparr>)
     (t_desc (t_ws_conns s))"
    using assms(1,4) by (simp add: AllWebSocketConnections_def healthy_sql)
  then have "map wsc_id conns = map fst (t_desc (t_ws_conns s))" by (simp add: case_prod_beta)
  moreover have "wsc_frame_count conn = length fs"
    using assms(5,6) unfolding conns
    by (auto simp: FramesForConnection_eq assms(1) t_asc_rows [OF assms(3)])
  ultimately show ?thesis using t_desc_sorted [OF assms(2)] by simp
qed

definition demo_conn :: WebSocketConnectionEvent where
  "demo_conn = \<lparr>wc_host = ''h:80'', wc_url = ''ws://h/'', wc_tls = False, wc_timestamp = 0\<rparr>"

definition demo_ws_store :: store where
  "demo_ws_store = observe_frames demo_codec [demo_frame 1 (Some ''a''), demo_frame 1 None]
     (snd (ObserveWebSocketConnection demo_codec demo_conn demo_store))"

lemma observe_conn_ok:
  assumes "healthy s" "t_ok (t_ws_conns s)" "t_ok (t_ws_frames s)"
  shows "healthy (snd (ObserveWebSocketConnection c e s)) \<and> t_ok (t_ws_conns (snd (ObserveWebSocketConnection c e s)))
    \<and> t_ok (t_ws_frames (snd (ObserveWebSocketConnection c e s)))
    \<and> map fst (t_rows (t_ws_conns (snd (ObserveWebSocketConnection c e s))))
        = map fst (t_rows (t_ws_conns s)) @ [Suc (t_seq (t_ws_conns s))]"
  using assms
  by (simp add: ObserveWebSocketConnection_def LogWebSocketConnection_def InScope_def AllScopeEntries_def
      healthy_sql healthy_write case_prod_beta Let_def t_ok_insert healthy_def sql_def store_write_def)
     (simp add: t_insert_def)

lemma observe_frames_conns: "t_ws_conns (observe_frames c es s) = t_ws_conns s"
  unfolding observe_frames_def
  by (induction es arbitrary: s) (simp_all add: ObserveWebSocketFrame_def LogWebSocketFrame_def store_simps)

theorem frame_counts_match_witness:
  "case fst (AllWebSocketConnections demo_codec demo_ws_store) of Inl _ \<Rightarrow> False
   | Inr conns \<Rightarrow> map wsc_frame_count conns = [2]"
proof -
  let ?c = "snd (ObserveWebSocketConnection demo_codec demo_conn demo_store)"
  let ?es = "[demo_frame 1 (Some ''a''), demo_frame 1 None]"
  have d: "t_ok (t_ws_conns demo_store)" "t_rows (t_ws_conns demo_store) = []" "t_seq (t_ws_conns demo_store) = 0"
    by (simp_all add: demo_store_def fresh_store_def new_file_def) (simp_all add: empty_table_def)
  have c: "healthy ?c" "t_ok (t_ws_conns ?c)" "t_ok (t_ws_frames ?c)" "map fst (t_rows (t_ws_conns ?c)) = [1]"
    using observe_conn_ok [of demo_store demo_codec demo_conn] d by simp_all
  have s: "healthy demo_ws_store" "t_ok (t_ws_frames demo_ws_store)" "t_ws_conns demo_ws_store = t_ws_conns ?c"
    "map snd (t_asc (t_ws_frames demo_ws_store)) = map snd (t_asc (t_ws_frames ?c))
        @ map (ws_frame_row demo_codec \<circ> observed_frame) (filter (\<lambda>e. wf_conn_id e \<noteq> 0) ?es)"
    using observe_frames_rows [OF c(1,3), of demo_codec ?es] by (simp_all add: demo_ws_store_def observe_frames_conns)
  have "t_ws_frames ?c = t_ws_frames demo_store"
    by (simp add: ObserveWebSocketConnection_def LogWebSocketConnection_def InScope_def AllScopeEntries_def
      store_simps case_prod_beta)
  then have e: "t_asc (t_ws_frames ?c) = []"
    by (simp add: demo_store_def fresh_store_def new_file_def t_asc_rows) (simp add: empty_table_def)
  obtain r where r: "t_desc (t_ws_conns demo_ws_store) = [(1, r)]"
    using c(2,4) by (auto simp: s(3) t_desc_rows)
  then obtain conn where conns: "fst (AllWebSocketConnections demo_codec demo_ws_store) = Inr [conn]" "wsc_id conn = 1"
    by (simp add: AllWebSocketConnections_def healthy_sql s(1))
  obtain fs where fs: "fst (FramesForConnection demo_codec (wsc_id conn) demo_ws_store) = Inr fs"
    by (simp add: FramesForConnection_eq s(1))
  have "length fs = length (filter (\<lambda>r. fw_conn_id r = 1) (map snd (t_asc (t_ws_frames demo_ws_store))))"
    using fs conns(2) by (auto simp: FramesForConnection_eq s(1) filter_map comp_def case_prod_unfold)
  then have "length fs = 2"
    unfolding s(4) e by (simp add: demo_frame_def ws_frame_row_def observed_frame_def)
  moreover have "t_ok (t_ws_conns demo_ws_store)" using c(2) s(3) by simp
  ultimately show ?thesis
    using frame_counts_match [OF s(1) _ s(2) conns(1) _ fs] conns(1) by simp
qed

end
