(* ===== verification/StoreTables.thy ===== *)
theory StoreTables
  imports StoreWs "HOL-Library.List_Lexorder" "HOL-Library.Char_ord"
begin

text \<open>
  The small tables of the store: plugins and their logs (\<open>plugin.go\<close>), findings (\<open>loot.go\<close>),
  row annotations (\<open>annotation.go\<close>), Repeater tabs (\<open>repeater.go\<close>) and the Intruder settings
  (\<open>intruder.go\<close>).
\<close>

section \<open>Plugins\<close>

definition maxPluginLogLines :: nat where
  "maxPluginLogLines = 500"

definition signal_plugins :: "store \<Rightarrow> store" where
  "signal_plugins s = s\<lparr>s_plugin_ch := try_signal (s_plugin_ch s)\<rparr>"

text \<open>\<open>INSERT ... ON CONFLICT (name) DO UPDATE SET path\<close>.\<close>

definition upsert_plugin :: "string \<Rightarrow> string \<Rightarrow> (string \<times> plugin_row) list \<Rightarrow> (string \<times> plugin_row) list" where
  "upsert_plugin name path ps = (case map_of ps name of
     None \<Rightarrow> ps @ [(name, \<lparr>pw_path = path, pw_enabled = 1\<rparr>)]
   | Some r \<Rightarrow> AList.update name (r\<lparr>pw_path := path\<rparr>) ps)"

definition RegisterPlugin :: "string \<Rightarrow> string \<Rightarrow> unit st" where
  "RegisterPlugin name path s = (case store_write (sql (\<lambda>s.
       (Inr (), s\<lparr>t_plugins := upsert_plugin name path (t_plugins s)\<rparr>))) s of
     (Inl e, s) \<Rightarrow> (Inl e, s)
   | (Inr _, s) \<Rightarrow> (Inr (), signal_plugins s))"

definition plugin_entry :: "string \<times> plugin_row \<Rightarrow> PluginEntry" where
  "plugin_entry = (\<lambda>(n, r). \<lparr>pn_name = n, pn_path = pw_path r, pn_enabled = (pw_enabled r = 1)\<rparr>)"

definition AllPlugins :: "PluginEntry list st" where
  "AllPlugins = sql (\<lambda>s. (Inr (map plugin_entry (sort_key fst (t_plugins s))), s))"

definition delete_plugin :: "string \<Rightarrow> unit st" where
  "delete_plugin name = store_write (sql (\<lambda>s. (Inr (), s\<lparr>t_plugins := AList.delete name (t_plugins s)\<rparr>)))"

text \<open>The loop of \<open>ScanPlugins\<close> over the known plugins.\<close>

fun remove_missing :: "string set \<Rightarrow> PluginEntry list \<Rightarrow> unit st" where
  "remove_missing active [] s = (Inr (), s)"
| "remove_missing active (e # es) s = (if pn_name e \<in> active then remove_missing active es s
     else case delete_plugin (pn_name e) s of
       (Inl err, s) \<Rightarrow> (Inl err, s)
     | (Inr _, s) \<Rightarrow> remove_missing active es s)"

definition ScanPlugins :: "string list \<Rightarrow> unit st" where
  "ScanPlugins active s = (case AllPlugins s of
     (Inl e, s) \<Rightarrow> (Inl e, s)
   | (Inr entries, s) \<Rightarrow> (case remove_missing (set active) entries s of
       (Inl e, s) \<Rightarrow> (Inl e, s)
     | (Inr _, s) \<Rightarrow> (Inr (), signal_plugins s)))"

text \<open>The answer comes with the error, if any; an unknown plugin is enabled.\<close>

definition PluginEnabled :: "string \<Rightarrow> store \<Rightarrow> (bool \<times> store_error option) \<times> store" where
  "PluginEnabled name s = (case sql (\<lambda>s. case map_of (t_plugins s) name of
       None \<Rightarrow> (Inl NoRows, s) | Some r \<Rightarrow> (Inr (pw_enabled r), s)) s of
     (Inl e, s) \<Rightarrow> ((True, Some e), s)
   | (Inr n, s) \<Rightarrow> ((n = 1, None), s))"

definition PluginLogs :: "string \<Rightarrow> store \<Rightarrow> string list" where
  "PluginLogs name s = s_plugin_logs s name"

definition ObservePluginLog :: "PluginLogEvent \<Rightarrow> store \<Rightarrow> store" where
  "ObservePluginLog e s = (let lines = s_plugin_logs s (pl_name e) @ [pl_message e];
       lines = (if length lines > maxPluginLogLines then drop (length lines - maxPluginLogLines) lines else lines)
     in signal_plugins (s\<lparr>s_plugin_logs := (s_plugin_logs s)(pl_name e := lines)\<rparr>))"

definition ObservePluginEnabled :: "SetPluginEnabledEvent \<Rightarrow> store \<Rightarrow> store" where
  "ObservePluginEnabled e s = (case store_write (sql (\<lambda>s. (Inr (), s\<lparr>t_plugins :=
         map (\<lambda>(n, r). (n, if n = pe_name e then r\<lparr>pw_enabled := boolToInt (pe_enabled e)\<rparr> else r)) (t_plugins s)\<rparr>))) s of
     (Inl _, s) \<Rightarrow> s
   | (Inr _, s) \<Rightarrow> signal_plugins s)"

section \<open>Loot\<close>

definition severity_rank :: "string \<Rightarrow> nat" where
  "severity_rank s = (if s = ''Critical'' then 1 else if s = ''High'' then 2 else if s = ''Medium'' then 3
     else if s = ''Low'' then 4 else if s = ''Info'' then 5 else 6)"

definition notifyLoot :: "store \<Rightarrow> store" where
  "notifyLoot s = s\<lparr>s_loot_ch := try_signal (s_loot_ch s)\<rparr>"

definition scan_loot :: "codec \<Rightarrow> nat \<times> loot_row \<Rightarrow> LootEntry" where
  "scan_loot c = (\<lambda>(i, r). \<lparr>le_id = i, le_title = lr_title r, le_severity = lr_severity r, le_notes = lr_notes r,
     le_history_id = lr_history_id r, le_raw_request = lr_raw_request r, le_raw_response = lr_raw_response r,
     le_created_at = parse_time_or_zero c (lr_created_at r)\<rparr>)"

text \<open>\<open>ORDER BY CASE severity ... END ASC, id DESC\<close>.\<close>

definition AllLoot :: "codec \<Rightarrow> LootEntry list st" where
  "AllLoot c = sql (\<lambda>s. (Inr (map (scan_loot c)
     (sort_key (\<lambda>r. severity_rank (lr_severity (snd r))) (t_desc (t_loot s)))), s))"

definition AddLoot :: "codec \<Rightarrow> int \<Rightarrow> LootEntry \<Rightarrow> nat st" where
  "AddLoot c now e s = (case store_write (sql (\<lambda>s.
       let (i, t) = t_insert \<lparr>lr_title = le_title e, lr_severity = le_severity e, lr_notes = le_notes e,
         lr_history_id = le_history_id e, lr_raw_request = le_raw_request e,
         lr_raw_response = le_raw_response e, lr_created_at = format_time c now\<rparr> (t_loot s)
       in (Inr i, s\<lparr>t_loot := t\<rparr>))) s of
     (Inl err, s) \<Rightarrow> (Inl err, s)
   | (Inr i, s) \<Rightarrow> (Inr i, notifyLoot s))"

definition DeleteLoot :: "nat \<Rightarrow> unit st" where
  "DeleteLoot i s = (case store_write (sql (\<lambda>s.
       (Inr (), s\<lparr>t_loot := t_delete (\<lambda>(j, _). j = i) (t_loot s)\<rparr>))) s of
     (Inl e, s) \<Rightarrow> (Inl e, s)
   | (Inr _, s) \<Rightarrow> (Inr (), notifyLoot s))"

section \<open>Annotations\<close>

definition SetAnnotation :: "Annotation \<Rightarrow> unit st" where
  "SetAnnotation a = store_write (sql (\<lambda>s. (Inr (), s\<lparr>t_annotations :=
     AList.update (an_history_id a) (an_comment a, an_color a) (t_annotations s)\<rparr>)))"

definition DeleteAnnotation :: "nat \<Rightarrow> unit st" where
  "DeleteAnnotation i = store_write (sql (\<lambda>s. (Inr (), s\<lparr>t_annotations := AList.delete i (t_annotations s)\<rparr>)))"

definition AllAnnotations :: "Annotation list st" where
  "AllAnnotations = sql (\<lambda>s. (Inr (map (\<lambda>(i, c, col). \<lparr>an_history_id = i, an_comment = c, an_color = col\<rparr>)
     (t_annotations s)), s))"

section \<open>Repeater tabs\<close>

definition scan_tab :: "nat \<times> repeater_row \<Rightarrow> RepeaterTab" where
  "scan_tab = (\<lambda>(i, r). \<lparr>rt_id = i, rt_name = rp_name r, rt_host = rp_host r, rt_port = rp_port r,
     rt_tls = (rp_tls r = 1), rt_type = (if rp_type r = [] then ''http'' else rp_type r),
     rt_raw_request = rp_raw_request r, rt_last_response = rp_last_response r, rt_position = rp_position r\<rparr>)"

definition AllRepeaterTabs :: "RepeaterTab list st" where
  "AllRepeaterTabs = sql (\<lambda>s. (Inr (map scan_tab (sort_key (\<lambda>r. rp_position (snd r)) (t_asc (t_repeater s)))), s))"

text \<open>\<open>COALESCE (MAX (position), 0) + 1\<close>.\<close>

definition next_position :: "repeater_row table \<Rightarrow> int" where
  "next_position t = (case map (rp_position \<circ> snd) (t_rows t) of [] \<Rightarrow> 0 | p # ps \<Rightarrow> fold max ps p) + 1"

definition SaveRepeaterTab :: "RepeaterTab \<Rightarrow> nat st" where
  "SaveRepeaterTab tab = (let tabType = (if rt_type tab = [] then ''http'' else rt_type tab) in
     store_write (sql (\<lambda>s. let (i, t) = t_insert \<lparr>rp_name = rt_name tab, rp_host = rt_host tab,
         rp_port = rt_port tab, rp_tls = boolToInt (rt_tls tab), rp_type = tabType,
         rp_raw_request = rt_raw_request tab, rp_last_response = rt_last_response tab,
         rp_position = next_position (t_repeater s)\<rparr> (t_repeater s)
       in (Inr i, s\<lparr>t_repeater := t\<rparr>))))"

definition UpdateRepeaterTab :: "nat \<Rightarrow> string \<Rightarrow> string \<Rightarrow> unit st" where
  "UpdateRepeaterTab i rawRequest lastResponse = store_write (sql (\<lambda>s. (Inr (), s\<lparr>t_repeater :=
     t_update (\<lambda>(j, _). j = i) (\<lambda>r. r\<lparr>rp_raw_request := rawRequest, rp_last_response := lastResponse\<rparr>) (t_repeater s)\<rparr>)))"

definition RenameRepeaterTab :: "nat \<Rightarrow> string \<Rightarrow> unit st" where
  "RenameRepeaterTab i name = store_write (sql (\<lambda>s. (Inr (), s\<lparr>t_repeater :=
     t_update (\<lambda>(j, _). j = i) (\<lambda>r. r\<lparr>rp_name := name\<rparr>) (t_repeater s)\<rparr>)))"

definition DeleteRepeaterTab :: "nat \<Rightarrow> unit st" where
  "DeleteRepeaterTab i = store_write (sql (\<lambda>s. (Inr (), s\<lparr>t_repeater :=
     t_delete (\<lambda>(j, _). j = i) (t_repeater s)\<rparr>)))"

section \<open>Intruder settings\<close>

definition DefaultIntruderConfig :: IntruderConfig where
  "DefaultIntruderConfig = \<lparr>ic_delay_ms = 0, ic_stop_on_status = 0, ic_max_redirects = 10,
     ic_follow_redirects = ''never'', ic_timeout_ms = 30000, ic_raw_request = [], ic_payloads = []\<rparr>"

definition LoadIntruderConfig :: "store \<Rightarrow> IntruderConfig \<times> store" where
  "LoadIntruderConfig s = (case sql (\<lambda>s. case t_intruder s of None \<Rightarrow> (Inl NoRows, s) | Some c \<Rightarrow> (Inr c, s)) s of
     (Inl _, s) \<Rightarrow> (DefaultIntruderConfig, s)
   | (Inr c, s) \<Rightarrow> (c, s))"

definition SaveIntruderConfig :: "IntruderConfig \<Rightarrow> unit st" where
  "SaveIntruderConfig config = store_write (sql (\<lambda>s. (Inr (), s\<lparr>t_intruder := Some config\<rparr>)))"

section \<open>Which plugins are enabled\<close>

datatype plugin_op = PRegister string string | PScan "string list" | PSet SetPluginEnabledEvent | PLog PluginLogEvent

fun plugin_step :: "plugin_op \<Rightarrow> store \<Rightarrow> store" where
  "plugin_step (PRegister name path) s = snd (RegisterPlugin name path s)"
| "plugin_step (PScan active) s = snd (ScanPlugins active s)"
| "plugin_step (PSet e) s = ObservePluginEnabled e s"
| "plugin_step (PLog e) s = ObservePluginLog e s"

text \<open>The abstract table: the flag of each known plugin.\<close>

definition plugin_flags :: "store \<Rightarrow> string \<Rightarrow> bool option" where
  "plugin_flags s n = map_option (\<lambda>r. pw_enabled r = 1) (map_of (t_plugins s) n)"

fun flags_step :: "plugin_op \<Rightarrow> (string \<Rightarrow> bool option) \<Rightarrow> string \<Rightarrow> bool option" where
  "flags_step (PRegister name path) m = (if m name = None then m(name \<mapsto> True) else m)"
| "flags_step (PScan active) m = (\<lambda>n. if n \<in> set active then m n else None)"
| "flags_step (PSet e) m = (\<lambda>n. if n = pe_name e \<and> m n \<noteq> None then Some (pe_enabled e) else m n)"
| "flags_step (PLog e) m = m"

lemma healthy_signal [simp]: "healthy (signal_plugins s) = healthy s" "t_plugins (signal_plugins s) = t_plugins s"
  by (simp_all add: healthy_def signal_plugins_def)

lemma healthy_plugins [simp]: "healthy (s\<lparr>t_plugins := ps\<rparr>) = healthy s"
  by (simp add: healthy_def)

lemma remove_missing_eq:
  "healthy s \<Longrightarrow> \<exists>t. remove_missing A es s = (Inr (), t) \<and> healthy t
     \<and> map_of (t_plugins t) = (\<lambda>n. if n \<in> pn_name ` set es - A then None else map_of (t_plugins s) n)"
proof (induction es arbitrary: s)
  case (Cons e es)
  show ?case
  proof (cases "pn_name e \<in> A")
    case True
    with Cons.IH [OF Cons.prems] show ?thesis by (auto simp: fun_eq_iff)
  next
    case False
    let ?s = "(tick s)\<lparr>t_plugins := AList.delete (pn_name e) (t_plugins s)\<rparr>"
    have d: "delete_plugin (pn_name e) s = (Inr (), ?s)"
      using Cons.prems by (simp add: delete_plugin_def healthy_write healthy_sql)
    obtain t where t: "remove_missing A es ?s = (Inr (), t)" "healthy t"
      "map_of (t_plugins t) = (\<lambda>n. if n \<in> pn_name ` set es - A then None else map_of (t_plugins ?s) n)"
      using Cons.IH [of ?s] Cons.prems by auto
    have "map_of (t_plugins t) = (\<lambda>n. if n \<in> pn_name ` set (e # es) - A then None else map_of (t_plugins s) n)"
      unfolding t(3) using False by (auto simp: fun_eq_iff delete_conv')
    with d t False show ?thesis by simp
  qed
qed (simp add: fun_eq_iff)

lemma ScanPlugins_eq:
  assumes "healthy s"
  shows "healthy (snd (ScanPlugins active s))
    \<and> map_of (t_plugins (snd (ScanPlugins active s))) = (\<lambda>n. if n \<in> set active then map_of (t_plugins s) n else None)"
proof -
  let ?es = "map plugin_entry (sort_key fst (t_plugins s))"
  have all: "AllPlugins s = (Inr ?es, tick s)" using assms by (simp add: AllPlugins_def healthy_sql)
  have pn: "pn_name ` plugin_entry ` A = fst ` A" for A by (force simp: plugin_entry_def image_iff)
  obtain t where t: "remove_missing (set active) ?es (tick s) = (Inr (), t)" "healthy t"
    "map_of (t_plugins t) = (\<lambda>n. if n \<in> pn_name ` set ?es - set active then None else map_of (t_plugins (tick s)) n)"
    using remove_missing_eq [of "tick s" "set active" ?es] assms unfolding healthy_tick by blast
  then show ?thesis by (auto simp: ScanPlugins_def all t fun_eq_iff pn map_of_eq_None_iff)
qed

lemma plugin_step_flags:
  assumes "healthy s"
  shows "healthy (plugin_step x s) \<and> plugin_flags (plugin_step x s) = flags_step x (plugin_flags s)"
proof (cases x)
  case (PRegister name path)
  have "plugin_step x s = signal_plugins ((tick s)\<lparr>t_plugins := upsert_plugin name path (t_plugins s)\<rparr>)"
    using assms PRegister by (simp add: RegisterPlugin_def healthy_write healthy_sql)
  then show ?thesis using assms PRegister
    by (auto simp: plugin_flags_def upsert_plugin_def update_conv' fun_eq_iff map_add_def split: option.splits)
next
  case (PScan active)
  then show ?thesis using ScanPlugins_eq [OF assms, of active] by (auto simp: plugin_flags_def fun_eq_iff)
next
  case (PSet e)
  have "map_of (map (\<lambda>(n, r). (n, if n = k then f r else r)) ps) n
      = map_option (\<lambda>r. if n = k then f r else r) (map_of ps n)" for k n f and ps :: "(string \<times> plugin_row) list"
    by (induction ps) auto
  moreover have "plugin_step x s = signal_plugins ((tick s)\<lparr>t_plugins :=
       map (\<lambda>(n, r). (n, if n = pe_name e then r\<lparr>pw_enabled := boolToInt (pe_enabled e)\<rparr> else r)) (t_plugins s)\<rparr>)"
    using assms PSet by (simp add: ObservePluginEnabled_def healthy_write healthy_sql)
  ultimately have "plugin_flags (plugin_step x s) n = flags_step x (plugin_flags s) n" for n
    using PSet by (cases "map_of (t_plugins s) n") (auto simp: plugin_flags_def boolToInt_def)
  moreover have "healthy (plugin_step x s)"
    using assms PSet by (simp add: ObservePluginEnabled_def healthy_write healthy_sql)
  ultimately show ?thesis by blast
next
  case (PLog e)
  then show ?thesis using assms
    by (auto simp: ObservePluginLog_def Let_def signal_plugins_def plugin_flags_def healthy_def fun_eq_iff)
qed

lemma PluginEnabled_flags:
  "healthy s \<Longrightarrow> fst (fst (PluginEnabled n s)) = (case plugin_flags s n of None \<Rightarrow> True | Some b \<Rightarrow> b)"
  by (simp add: PluginEnabled_def healthy_sql plugin_flags_def split: option.split)

text \<open>C19: The plugin table remembers the user's switches. Over any sequence of registrations, scans,
  switches and log lines, \<open>PluginEnabled\<close> answers as the abstract table does, in which registering
  adds a plugin as enabled but leaves a known one as it was switched, a switch changes only the
  plugin it names, and a scan forgets exactly the plugins no longer on disk.\<close>

theorem plugin_table_refines:
  assumes "healthy s"
  shows "plugin_flags (fold plugin_step ops s) = fold flags_step ops (plugin_flags s)
    \<and> (\<forall>n. fst (fst (PluginEnabled n (fold plugin_step ops s)))
        = (case fold flags_step ops (plugin_flags s) n of None \<Rightarrow> True | Some b \<Rightarrow> b))"
proof -
  have "healthy (fold plugin_step ops s) \<and> plugin_flags (fold plugin_step ops s) = fold flags_step ops (plugin_flags s)"
    using assms
  proof (induction ops arbitrary: s)
    case (Cons x ops)
    then show ?case using plugin_step_flags [OF Cons.prems, of x] by simp
  qed simp
  then show ?thesis by (simp add: PluginEnabled_flags)
qed

theorem plugin_table_refines_witness:
  "fst (fst (PluginEnabled ''p'' (fold plugin_step
      [PRegister ''p'' ''/a'', PSet \<lparr>pe_name = ''p'', pe_enabled = False\<rparr>, PRegister ''p'' ''/b'', PScan [''p'']]
      demo_store))) = False"
proof -
  have e: "plugin_flags demo_store = (\<lambda>n. None)"
    by (simp add: fun_eq_iff plugin_flags_def demo_store_def fresh_store_def new_file_def)
  show ?thesis
    unfolding plugin_table_refines [OF demo_store_healthy(1), THEN conjunct2, THEN spec] e by code_simp
qed

section \<open>Plugin logs\<close>

definition last_lines :: "'a list \<Rightarrow> 'a list" where
  "last_lines xs = drop (length xs - maxPluginLogLines) xs"

lemma last_lines_append: "last_lines (last_lines xs @ ys) = last_lines (xs @ ys)"
  by (cases "length xs \<le> maxPluginLogLines") (simp_all add: last_lines_def add.commute)

text \<open>The log of a plugin holds its last 500 messages, oldest first, and messages of other plugins
  never push them out.\<close>

theorem plugin_log_ring:
  assumes "length (PluginLogs n s) \<le> maxPluginLogLines"
  shows "PluginLogs n (fold ObservePluginLog es s)
      = last_lines (PluginLogs n s @ map pl_message (filter (\<lambda>e. pl_name e = n) es))
    \<and> length (PluginLogs n (fold ObservePluginLog es s)) \<le> maxPluginLogLines"
proof -
  have step: "PluginLogs n (ObservePluginLog e s)
      = (if pl_name e = n then last_lines (PluginLogs n s @ [pl_message e]) else PluginLogs n s)" for e s
    by (auto simp: PluginLogs_def ObservePluginLog_def Let_def signal_plugins_def last_lines_def)
  have "PluginLogs n s = last_lines xs \<Longrightarrow> PluginLogs n (fold ObservePluginLog es s)
      = last_lines (xs @ map pl_message (filter (\<lambda>e. pl_name e = n) es))" for xs
  proof (induction es arbitrary: s xs)
    case (Cons e es)
    show ?case
    proof (cases "pl_name e = n")
      case True
      with Cons.prems have "PluginLogs n (ObservePluginLog e s) = last_lines (xs @ [pl_message e])"
        by (simp add: step last_lines_append)
      from Cons.IH [OF this] True show ?thesis by simp
    next
      case False
      with Cons show ?thesis by (simp add: step)
    qed
  qed simp
  from this [of "PluginLogs n s"] show ?thesis using assms by (simp add: last_lines_def maxPluginLogLines_def)
qed

theorem plugin_log_ring_witness:
  "PluginLogs ''p'' (fold ObservePluginLog [\<lparr>pl_name = ''p'', pl_message = ''a''\<rparr>, \<lparr>pl_name = ''q'', pl_message = ''b''\<rparr>] demo_store) = [''a'']"
proof -
  have e: "PluginLogs ''p'' demo_store = []" by (simp add: PluginLogs_def demo_store_def fresh_store_def)
  then have "length (PluginLogs ''p'' demo_store) \<le> maxPluginLogLines" by simp
  from plugin_log_ring [OF this, THEN conjunct1] show ?thesis
    unfolding e by (simp only:) (simp add: last_lines_def maxPluginLogLines_def)
qed

section \<open>Repeater tabs keep their order\<close>

lemma fold_max_ge: "a \<le> fold max ps (a :: int)"
  by (induction ps arbitrary: a) (auto intro: order_trans [OF max.cobounded2])

lemma fold_max_mem: "x \<in> set ps \<Longrightarrow> x \<le> fold max ps (a :: int)"
proof (induction ps arbitrary: a)
  case (Cons p ps)
  show ?case
  proof (cases "x = p")
    case True
    have "p \<le> max p a" by simp
    also have "\<dots> \<le> fold max ps (max p a)" by (rule fold_max_ge)
    finally show ?thesis using True by simp
  next
    case False
    with Cons show ?thesis by simp
  qed
qed simp

lemma next_position_above: "r \<in> set (t_rows t) \<Longrightarrow> rp_position (snd r) < next_position t"
proof -
  assume r: "r \<in> set (t_rows t)"
  then obtain a rs where rs: "t_rows t = a # rs" by (cases "t_rows t") auto
  have "rp_position (snd r) \<le> fold max (map (rp_position \<circ> snd) rs) (rp_position (snd a))"
    using r rs fold_max_ge fold_max_mem by (cases "r = a") auto
  then show ?thesis by (simp add: next_position_def rs)
qed

lemma insort_key_snoc: "f y < f x \<Longrightarrow> insort_key f y (zs @ [x]) = insort_key f y zs @ [x]"
  by (induction zs) auto

lemma sort_key_snoc: "\<forall>y \<in> set xs. f y < f x \<Longrightarrow> sort_key f (xs @ [x]) = sort_key f xs @ [x]"
  by (induction xs) (simp_all add: insort_key_snoc)

text \<open>Saving a Repeater tab appends it: the list of tabs afterwards is the list before followed by the
  new tab with the values given, the HTTP type when none is named, and a position above all others;
  the tab is stored under a fresh id, which \<open>SaveRepeaterTab\<close> returns.\<close>

theorem SaveRepeaterTab_appends:
  assumes "healthy s" "t_ok (t_repeater s)"
    and "fst (AllRepeaterTabs s) = Inr tabs" "SaveRepeaterTab tab s = (r, s')"
  shows "\<exists>i p. r = Inr i \<and> i \<notin> rt_id ` set tabs \<and> (\<forall>t \<in> set tabs. rt_position t < p)
    \<and> fst (AllRepeaterTabs s') = Inr (tabs @ [tab\<lparr>rt_id := i, rt_position := p,
         rt_type := (if rt_type tab = [] then ''http'' else rt_type tab)\<rparr>])"
proof -
  let ?i = "Suc (t_seq (t_repeater s))" and ?p = "next_position (t_repeater s)"
  let ?row = "\<lparr>rp_name = rt_name tab, rp_host = rt_host tab, rp_port = rt_port tab, rp_tls = boolToInt (rt_tls tab),
         rp_type = (if rt_type tab = [] then ''http'' else rt_type tab), rp_raw_request = rt_raw_request tab,
         rp_last_response = rt_last_response tab, rp_position = ?p\<rparr>"
  let ?s = "(tick s)\<lparr>t_repeater := snd (t_insert ?row (t_repeater s))\<rparr>"
  have save: "SaveRepeaterTab tab s = (Inr ?i, ?s)"
    using assms(1) by (simp add: SaveRepeaterTab_def healthy_write healthy_sql case_prod_beta Let_def t_insert_def)
  have h: "healthy ?s" using assms(1) by (simp add: healthy_def)
  have rows: "t_asc (t_repeater s) = t_rows (t_repeater s)" using assms(2) by (rule t_asc_rows)
  have tabs: "tabs = map scan_tab (sort_key (\<lambda>r. rp_position (snd r)) (t_rows (t_repeater s)))"
    using assms(1,3) by (simp add: AllRepeaterTabs_def healthy_sql rows)
  have sorted: "sort_key (\<lambda>r. rp_position (snd r)) (t_rows (t_repeater s) @ [(?i, ?row)])
      = sort_key (\<lambda>r. rp_position (snd r)) (t_rows (t_repeater s)) @ [(?i, ?row)]"
    by (rule sort_key_snoc) (simp add: next_position_above)
  have "fst (AllRepeaterTabs ?s) = Inr (tabs @ [scan_tab (?i, ?row)])"
    using h by (simp add: AllRepeaterTabs_def healthy_sql t_asc_insert [OF assms(2)] rows sorted tabs)
  moreover have "scan_tab (?i, ?row) = tab\<lparr>rt_id := ?i, rt_position := ?p,
         rt_type := (if rt_type tab = [] then ''http'' else rt_type tab)\<rparr>"
    by (simp add: scan_tab_def boolToInt_def)
  moreover have "?i \<notin> rt_id ` set tabs"
    using assms(2) unfolding tabs by (auto simp: t_ok_def scan_tab_def)
  moreover have "\<forall>t \<in> set tabs. rt_position t < ?p"
    unfolding tabs by (auto simp: scan_tab_def dest: next_position_above)
  moreover have "r = Inr ?i" "s' = ?s" using assms(4) save by simp_all
  ultimately show ?thesis by auto
qed

definition demo_tab :: RepeaterTab where
  "demo_tab = \<lparr>rt_id = 0, rt_name = ''t'', rt_host = ''h'', rt_port = 80, rt_tls = False, rt_type = '''',
     rt_raw_request = ''GET /'', rt_last_response = '''', rt_position = 0\<rparr>"

theorem SaveRepeaterTab_appends_witness:
  "\<exists>i p. fst (SaveRepeaterTab demo_tab demo_store) = Inr i
    \<and> fst (AllRepeaterTabs (snd (SaveRepeaterTab demo_tab demo_store)))
      = Inr [demo_tab\<lparr>rt_id := i, rt_position := p, rt_type := ''http''\<rparr>]"
proof -
  have "t_ok (t_repeater demo_store)" "fst (AllRepeaterTabs demo_store) = Inr []"
    by (simp_all add: AllRepeaterTabs_def healthy_sql demo_store_def fresh_store_def new_file_def)
       (simp add: sql_def tick_def t_asc_rows, simp add: empty_table_def)
  from SaveRepeaterTab_appends [OF demo_store_healthy(1) this prod.collapse [symmetric], of demo_tab]
  show ?thesis by (auto simp: demo_tab_def)
qed

section \<open>Annotations and deleted history\<close>

text \<open>Annotations point at ids handed out already; the history tab annotates rows it shows.\<close>

definition annotations_old :: "store \<Rightarrow> bool" where
  "annotations_old s = (\<forall>i \<in> fst ` set (t_annotations s). i \<le> t_seq (t_history s))"

lemma history_step_annotations: "t_annotations (history_step c x s) = t_annotations s"
  by (cases x) (auto simp: Log_def ObserveResponse_def InScope_def AllScopeEntries_eq ClearHistory_def
    DeleteTransactionsByHostPort_def store_simps case_prod_beta split: option.splits)

lemma history_steps_annotations: "t_annotations (fold (history_step c) ops s) = t_annotations s"
  by (induction ops arbitrary: s) (simp_all add: history_step_annotations)

text \<open>The annotation of a transaction that was deleted stays in its table (nothing in the store
  removes it: SQLite enforces the schema's cascade only when asked to), but it never comes back on
  another transaction: whatever is logged or deleted afterwards, a newly logged transaction has an
  id without an annotation.\<close>

theorem annotations_never_resurface:
  assumes "t_ok (t_history s)" "annotations_old s"
    and "(i, r) \<in> set (t_rows (t_history (fold (history_step c) ops s)))"
    and "i \<notin> fst ` set (t_rows (t_history s))"
  shows "map_of (t_annotations (fold (history_step c) ops s)) i = None
    \<and> t_annotations (fold (history_step c) ops s) = t_annotations s"
proof -
  have rch: "sqlite.reaches (t_history s) (t_history (fold (history_step c) ops s))"
    by (rule history_steps_reach) (rule sqlite.reaches.refl)
  have "t_seq (t_history s) < i"
    using sqlite.no_resurrection [OF rch assms(1,3)] assms(4) by force
  then have "i \<notin> fst ` set (t_annotations s)" using assms(2) by (auto simp: annotations_old_def)
  then show ?thesis by (simp add: history_steps_annotations map_of_eq_None_iff)
qed

definition demo_annotated :: store where
  "demo_annotated = snd (SetAnnotation \<lparr>an_history_id = 1, an_comment = ''look'', an_color = ''red''\<rparr>
     (snd (Log demo_codec demo_tx demo_store)))"

lemma demo_log_eq:
  "healthy s \<Longrightarrow> t_history (snd (Log demo_codec demo_tx s))
     = snd (t_insert (log_row demo_codec ''{}'' ''{}'' demo_tx) (t_history s)) \<and> healthy (snd (Log demo_codec demo_tx s))
     \<and> t_annotations (snd (Log demo_codec demo_tx s)) = t_annotations s"
  by (subst Log_eq [where reqH = "''{}''" and respH = "''{}''"]; simp add: healthy_def demo_codec_def demo_tx_def)+

theorem annotations_never_resurface_witness:
  "map_of (t_annotations (fold (history_step demo_codec) [HClear, HLog demo_tx] demo_annotated)) 2 = None
   \<and> map_of (t_annotations (fold (history_step demo_codec) [HClear, HLog demo_tx] demo_annotated)) 1 = Some (''look'', ''red'')"
proof -
  let ?l = "snd (Log demo_codec demo_tx demo_store)" and ?s = demo_annotated
  have l: "t_history ?l = snd (t_insert (log_row demo_codec ''{}'' ''{}'' demo_tx) empty_table)" "healthy ?l"
    "t_annotations ?l = []"
    using demo_log_eq [OF demo_store_healthy(1)] by (simp_all add: demo_store_def fresh_store_def new_file_def)
  then have s: "healthy ?s" "t_history ?s = snd (t_insert (log_row demo_codec ''{}'' ''{}'' demo_tx) empty_table)"
    "t_annotations ?s = [(1, ''look'', ''red'')]"
    by (simp_all add: demo_annotated_def SetAnnotation_def healthy_write healthy_sql) (simp add: healthy_def)
  let ?c = "snd (ClearHistory ?s)"
  have c: "healthy ?c" "t_history ?c = t_delete (\<lambda>_. True) (t_history ?s)"
    using s(1) by (simp_all add: ClearHistory_def healthy_write sql_def healthy_def)
  have "t_rows (t_history (fold (history_step demo_codec) [HClear, HLog demo_tx] ?s))
      = [(2, log_row demo_codec ''{}'' ''{}'' demo_tx)]"
    using demo_log_eq [OF c(1)] c(2) s(2) by (simp add: t_insert_def t_delete_def empty_table_def)
  then have m: "(2, log_row demo_codec ''{}'' ''{}'' demo_tx)
      \<in> set (t_rows (t_history (fold (history_step demo_codec) [HClear, HLog demo_tx] ?s)))" by simp
  have o: "t_ok (t_history ?s)" "annotations_old ?s" "2 \<notin> fst ` set (t_rows (t_history ?s))"
    using s(2,3) by (simp_all add: t_ok_insert annotations_old_def) (simp_all add: t_insert_def empty_table_def)
  show ?thesis using annotations_never_resurface [OF o(1,2) m o(3)] unfolding s(3) by simp
qed

end
