(* ===== verification/PluginEngine.thy ===== *)
theory PluginEngine
  imports StoreTables
begin

text \<open>
  The plugin engine (\<open>internal/plugin\<close>): the plugins of \<open>plugin.go\<close>, the bus handlers of
  \<open>engine.go\<close> and the \<open>db\<close> functions of \<open>api.go\<close>.

  The Lua machine (gopher-lua) is a parameter. \<open>vm_has\<close> says whether a script defines a function;
  \<open>vm_call\<close> calls one with a table: it may fail (an error, the timeout, a panic), it returns the value
  and the lines passed to \<open>log\<close>, and it may change its own state \<open>'v\<close> and, through the functions of
  \<open>api.go\<close>, the rest of the program \<open>'w\<close>. \<open>vm_load\<close> runs a script file and its \<open>on_load\<close>.
\<close>

section \<open>Lua values\<close>

datatype lua = LNil | LBool bool | LNumber int | LString string | LTable "(lua \<times> lua) list" | LOther string

text \<open>
  \<open>String\<close>. A number here is whole; a fraction, a function or another table-like value is \<open>LOther\<close>
  with its text, and the text of a table (its address) is the argument \<open>tab\<close>.
\<close>

definition lua_text :: "((lua \<times> lua) list \<Rightarrow> string) \<Rightarrow> lua \<Rightarrow> string" where
  "lua_text tab v = (case v of LNil \<Rightarrow> ''nil'' | LBool b \<Rightarrow> (if b then ''true'' else ''false'') | LNumber n \<Rightarrow> itoa n
     | LString s \<Rightarrow> s | LTable t \<Rightarrow> tab t | LOther s \<Rightarrow> s)"

text \<open>\<open>RawGetString\<close>, on what is a table or not.\<close>

definition lua_field :: "(lua \<times> lua) list \<Rightarrow> string \<Rightarrow> lua" where
  "lua_field t k = (case map_of t (LString k) of None \<Rightarrow> LNil | Some v \<Rightarrow> v)"

definition str_field :: "string \<Rightarrow> string \<Rightarrow> lua \<times> lua" where
  "str_field k s = (LString k, LString s)"

definition header_table :: "header \<Rightarrow> lua" where
  "header_table h = LTable (map (\<lambda>(k, vs). str_field k (join vs '', '')) h)"

section \<open>Plugins\<close>

record 'v plugin =
  p_name :: string
  p_path :: string
  p_vm :: 'v
  p_enabled :: bool
  p_logBuf :: "string list"

record ('v, 'w) vm =
  vm_has :: "string \<Rightarrow> 'v \<Rightarrow> bool"
  vm_call :: "string \<Rightarrow> lua \<Rightarrow> 'v \<Rightarrow> 'w \<Rightarrow> lua option \<times> string list \<times> 'v \<times> 'w"
  vm_load :: "string \<Rightarrow> 'w \<Rightarrow> ('v \<times> string list) option \<times> 'w"
  vm_url_parse :: "url \<Rightarrow> string \<Rightarrow> url option"
  vm_text :: "(lua \<times> lua) list \<Rightarrow> string"
  vm_emit :: "PluginLogEvent \<Rightarrow> 'w \<Rightarrow> 'w"

definition has_hook :: "('v, 'w) vm \<Rightarrow> string \<Rightarrow> 'v plugin \<Rightarrow> bool" where
  "has_hook m fn p = vm_has m fn (p_vm p)"

text \<open>
  \<open>callWithBuilder\<close>: \<open>None\<close> for an error, \<open>Some None\<close> when no table comes back.
\<close>

definition callWithBuilder :: "('v, 'w) vm \<Rightarrow> string \<Rightarrow> lua \<Rightarrow> 'v plugin \<Rightarrow> 'w
    \<Rightarrow> (lua \<times> lua) list option option \<times> 'v plugin \<times> 'w" where
  "callWithBuilder m fn arg p w = (if \<not> has_hook m fn p then (Some None, p, w)
     else let (r, logs, v, w) = vm_call m fn arg (p_vm p) w;
              p = p\<lparr>p_vm := v, p_logBuf := p_logBuf p @ logs\<rparr>
       in (case r of None \<Rightarrow> None | Some (LTable t) \<Rightarrow> Some (Some t) | Some _ \<Rightarrow> Some None, p, w))"

definition drainLogs :: "'v plugin \<Rightarrow> string list \<times> 'v plugin" where
  "drainLogs p = (p_logBuf p, p\<lparr>p_logBuf := []\<rparr>)"

definition emitLogs :: "('v, 'w) vm \<Rightarrow> 'v plugin \<Rightarrow> 'w \<Rightarrow> 'v plugin \<times> 'w" where
  "emitLogs m p w = (let (lines, p) = drainLogs p in
     (p, fold (\<lambda>line w. vm_emit m \<lparr>pl_name = p_name p, pl_message = line\<rparr> w) lines w))"

text \<open>A hook call with its logs emitted, as every handler of the engine makes it.\<close>

definition call_hook :: "('v, 'w) vm \<Rightarrow> string \<Rightarrow> lua \<Rightarrow> 'v plugin \<Rightarrow> 'w
    \<Rightarrow> (lua \<times> lua) list option option \<times> 'v plugin \<times> 'w" where
  "call_hook m fn arg p w = (let (r, p, w) = callWithBuilder m fn arg p w; (p, w) = emitLogs m p w in (r, p, w))"

text \<open>\<open>filepath.Base\<close> of the path of a file; \<open>filepath.Join\<close> of a directory and a name is the slash between them.\<close>

definition base_name :: "string \<Rightarrow> string" where
  "base_name path = last (split path ''/'')"

definition load_plugin :: "('v, 'w) vm \<Rightarrow> string \<Rightarrow> 'w \<Rightarrow> 'v plugin option \<times> 'w" where
  "load_plugin m path w = (case vm_load m path w of
     (None, w) \<Rightarrow> (None, w)
   | (Some (v, logs), w) \<Rightarrow> (Some \<lparr>p_name = base_name path, p_path = path, p_vm = v, p_enabled = True,
       p_logBuf = logs\<rparr>, w))"

text \<open>The loop of \<open>loadDir\<close>, over the directory entries: a name and whether it is a directory.\<close>

fun load_entries :: "('v, 'w) vm \<Rightarrow> string \<Rightarrow> (string \<times> bool) list \<Rightarrow> 'w \<Rightarrow> 'v plugin list \<times> 'w" where
  "load_entries m dir [] w = ([], w)"
| "load_entries m dir ((name, is_dir) # es) w =
     (if is_dir \<or> \<not> has_suffix name ''.lua'' then load_entries m dir es w
      else let (p, w) = load_plugin m (dir @ ''/'' @ name) w; (ps, w) = load_entries m dir es w
        in (case p of None \<Rightarrow> ps | Some p \<Rightarrow> p # ps, w))"

datatype dir_listing = NoDir | DirError | Entries "(string \<times> bool) list"

definition loadDir :: "('v, 'w) vm \<Rightarrow> string \<Rightarrow> dir_listing \<Rightarrow> 'w \<Rightarrow> 'v plugin list option \<times> 'w" where
  "loadDir m dir ls w = (case ls of NoDir \<Rightarrow> (Some [], w) | DirError \<Rightarrow> (None, w)
     | Entries es \<Rightarrow> (let (ps, w) = load_entries m dir es w in (Some ps, w)))"

section \<open>The request hook\<close>

definition request_table :: "http_request \<Rightarrow> url \<Rightarrow> string \<Rightarrow> lua" where
  "request_table req u body = LTable [str_field ''method'' (rq_method req), str_field ''url'' (url_string u),
     str_field ''body'' body, (LString ''drop'', LBool False), (LString ''headers'', header_table (rq_header req))]"

definition new_headers :: "((lua \<times> lua) list \<Rightarrow> string) \<Rightarrow> (lua \<times> lua) list \<Rightarrow> header" where
  "new_headers tab t = fold (\<lambda>(k, v) h. h_set h (lua_text tab k) (lua_text tab v)) t []"

definition read_back :: "('v, 'w) vm \<Rightarrow> (lua \<times> lua) list \<Rightarrow> url \<Rightarrow> http_request \<times> string \<Rightarrow> http_request \<times> string" where
  "read_back m ret u rb = (let (req, body) = rb;
       req = (case lua_field ret ''method'' of LString s \<Rightarrow> if s \<noteq> [] then req\<lparr>rq_method := s\<rparr> else req | _ \<Rightarrow> req);
       req = (case lua_field ret ''url'' of LString s \<Rightarrow> if s \<noteq> [] then
           (case vm_url_parse m u s of Some parsed \<Rightarrow> req\<lparr>rq_url := Some parsed\<rparr> | None \<Rightarrow> req) else req | _ \<Rightarrow> req);
       body = (case lua_field ret ''body'' of LString s \<Rightarrow> s | _ \<Rightarrow> body);
       req = (case lua_field ret ''headers'' of LTable t \<Rightarrow> req\<lparr>rq_header := new_headers (vm_text m) t\<rparr> | _ \<Rightarrow> req)
     in (req, body))"

text \<open>
  The loop of \<open>HandleRequest\<close>: the result, the plugins after it and the world. The URL is there: the
  guard before the loop tests it, and reading back only replaces it by another.
\<close>

fun request_loop :: "('v, 'w) vm \<Rightarrow> 'v plugin list \<Rightarrow> http_request \<Rightarrow> url \<Rightarrow> string \<Rightarrow> 'w
    \<Rightarrow> RequestResult \<times> 'v plugin list \<times> 'w" where
  "request_loop m [] req u body w = (\<lparr>rr_drop = False, rr_request = Some req, rr_reqbody = body\<rparr>, [], w)"
| "request_loop m (p # ps) req u body w =
     (if \<not> p_enabled p \<or> \<not> has_hook m ''on_request'' p then
        (let (r, ps, w) = request_loop m ps req u body w in (r, p # ps, w))
      else let (ret, p, w) = call_hook m ''on_request'' (request_table req u body) p w in
        (case ret of
          Some (Some t) \<Rightarrow>
            (if lua_field t ''drop'' = LBool True
             then (\<lparr>rr_drop = True, rr_request = Some req, rr_reqbody = body\<rparr>, p # ps, w)
             else let (req, body) = read_back m t u (req, body);
                      (r, ps, w) = request_loop m ps req (case rq_url req of Some u \<Rightarrow> u | None \<Rightarrow> u) body w
               in (r, p # ps, w))
        | _ \<Rightarrow> (let (r, ps, w) = request_loop m ps req u body w in (r, p # ps, w))))"

text \<open>The engine's handlers act on its plugins and the rest of the program.\<close>

type_synonym ('v, 'w) ew = "'v plugin list \<times> 'w"

definition Engine_HandleRequest :: "('v, 'w) vm \<Rightarrow> ('v, 'w) ew RequestMiddleware" where
  "Engine_HandleRequest m ev = (\<lambda>(ps, w). case re_request ev of
     None \<Rightarrow> (\<lparr>rr_drop = False, rr_request = None, rr_reqbody = re_body ev\<rparr>, ps, w)
   | Some req \<Rightarrow> (case rq_url req of
       None \<Rightarrow> (\<lparr>rr_drop = False, rr_request = Some req, rr_reqbody = re_body ev\<rparr>, ps, w)
     | Some u \<Rightarrow> request_loop m ps req u (re_body ev) w))"

section \<open>The response and frame hooks\<close>

definition response_table :: "ResponseEvent \<Rightarrow> lua" where
  "response_table ev = LTable
    [str_field ''host'' (case split_host_port (ev_host ev) of Some (h, _) \<Rightarrow> h | None \<Rightarrow> ev_host ev),
     str_field ''method'' (ev_method ev), str_field ''url'' (ev_url ev), str_field ''proto'' (ev_proto ev),
     (LString ''status'', LNumber (ev_status ev)), (LString ''duration_ms'', LNumber (ev_duration_ms ev)),
     (LString ''tls'', LBool (ev_tls ev)), str_field ''req_body'' (ev_req_body ev),
     str_field ''resp_body'' (ev_resp_body ev), (LString ''req_headers'', header_table (ev_req_headers ev)),
     (LString ''resp_headers'', header_table (ev_resp_headers ev))]"

fun response_loop :: "('v, 'w) vm \<Rightarrow> 'v plugin list \<Rightarrow> lua \<Rightarrow> 'w \<Rightarrow> 'v plugin list \<times> 'w" where
  "response_loop m [] arg w = ([], w)"
| "response_loop m (p # ps) arg w =
     (if \<not> p_enabled p \<or> \<not> has_hook m ''on_response'' p then
        (let (ps, w) = response_loop m ps arg w in (p # ps, w))
      else let (_, p, w) = call_hook m ''on_response'' arg p w; (ps, w) = response_loop m ps arg w in (p # ps, w))"

definition Engine_ObserveResponse :: "('v, 'w) vm \<Rightarrow> ('v, 'w) ew ResponseObserver" where
  "Engine_ObserveResponse m ev = (\<lambda>(ps, w). response_loop m ps (response_table ev) w)"

definition frame_table :: "WebSocketFrameEvent \<Rightarrow> string \<Rightarrow> lua" where
  "frame_table ev payload = LTable [(LString ''connection_id'', LNumber (int (wf_conn_id ev))),
     (LString ''direction'', LNumber (wf_direction ev)), (LString ''opcode'', LNumber (wf_opcode ev)),
     str_field ''payload'' payload]"

fun frame_loop :: "('v, 'w) vm \<Rightarrow> WebSocketFrameEvent \<Rightarrow> 'v plugin list \<Rightarrow> string option \<Rightarrow> string \<Rightarrow> 'w
    \<Rightarrow> string option \<times> 'v plugin list \<times> 'w" where
  "frame_loop m ev [] payload snap w = (payload, [], w)"
| "frame_loop m ev (p # ps) payload snap w =
     (if \<not> p_enabled p \<or> \<not> has_hook m ''on_websocket_frame'' p then
        (let (r, ps, w) = frame_loop m ev ps payload snap w in (r, p # ps, w))
      else let (ret, p, w) = call_hook m ''on_websocket_frame'' (frame_table ev snap) p w;
               (payload, snap) = (case ret of
                   Some (Some t) \<Rightarrow> (case lua_field t ''payload'' of LString b \<Rightarrow> (Some b, b) | _ \<Rightarrow> (payload, snap))
                 | _ \<Rightarrow> (payload, snap));
               (r, ps, w) = frame_loop m ev ps payload snap w
        in (r, p # ps, w))"

definition Engine_ObserveWebSocketFrame :: "('v, 'w) vm \<Rightarrow> ('v, 'w) ew WebSocketFrameObserver" where
  "Engine_ObserveWebSocketFrame m ev = (\<lambda>(ps, w).
     let (r, ps, w) = frame_loop m ev ps (wf_payload ev) (case wf_payload ev of None \<Rightarrow> [] | Some b \<Rightarrow> b) w
     in (\<lparr>fr_payload = r\<rparr>, ps, w))"

section \<open>Switching and loading\<close>

text \<open>Only the first plugin of that name is switched.\<close>

fun set_enabled :: "string \<Rightarrow> bool \<Rightarrow> 'v plugin list \<Rightarrow> 'v plugin list" where
  "set_enabled name v [] = []"
| "set_enabled name v (p # ps) = (if p_name p = name then p\<lparr>p_enabled := v\<rparr> # ps else p # set_enabled name v ps)"

definition Engine_ObservePluginEnabled :: "('v, 'w) ew PluginEnabledObserver" where
  "Engine_ObservePluginEnabled ev = (\<lambda>(ps, w). (set_enabled (pe_name ev) (pe_enabled ev) ps, w))"

text \<open>
  The world of a program with a store: \<open>reg\<close> is \<open>RegisterPlugin\<close> on it, whose error is only logged;
  \<open>copied\<close> says whether the file could be copied into the plugin directory.
\<close>

definition Engine_ObserveLoadPlugin :: "('v, 'w) vm \<Rightarrow> (string \<Rightarrow> string \<Rightarrow> 'w \<Rightarrow> 'w) \<Rightarrow> string \<Rightarrow> bool
    \<Rightarrow> ('v, 'w) ew LoadPluginObserver" where
  "Engine_ObserveLoadPlugin m reg dir copied ev = (\<lambda>(ps, w).
     if \<not> copied then (ps, w)
     else case load_plugin m (dir @ ''/'' @ base_name (lp_source_path ev)) w of
       (None, w) \<Rightarrow> (ps, w)
     | (Some p, w) \<Rightarrow> (let w = reg (p_name p) (p_path p) w; (p, w) = emitLogs m p w in (ps @ [p], w)))"

text \<open>\<open>NewEngine\<close>, with the store operations on the world as arguments.\<close>

fun restore_plugins :: "('v, 'w) vm \<Rightarrow> (string \<Rightarrow> string \<Rightarrow> 'w \<Rightarrow> 'w) \<Rightarrow> (string \<Rightarrow> 'w \<Rightarrow> bool option \<times> 'w)
    \<Rightarrow> 'v plugin list \<Rightarrow> 'w \<Rightarrow> 'v plugin list \<times> 'w" where
  "restore_plugins m reg en [] w = ([], w)"
| "restore_plugins m reg en (p # ps) w = (let w = reg (p_name p) (p_path p) w; (b, w) = en (p_name p) w;
       p = (case b of None \<Rightarrow> p | Some v \<Rightarrow> p\<lparr>p_enabled := v\<rparr>);
       (p, w) = emitLogs m p w; (ps, w) = restore_plugins m reg en ps w in (p # ps, w))"

definition NewEngine :: "('v, 'w) vm \<Rightarrow> (string \<Rightarrow> string \<Rightarrow> 'w \<Rightarrow> 'w) \<Rightarrow> (string \<Rightarrow> 'w \<Rightarrow> bool option \<times> 'w)
    \<Rightarrow> (string list \<Rightarrow> 'w \<Rightarrow> 'w) \<Rightarrow> string \<Rightarrow> dir_listing \<Rightarrow> 'w \<Rightarrow> 'v plugin list option \<times> 'w" where
  "NewEngine m reg en scan dir ls w = (case loadDir m dir ls w of
     (None, w) \<Rightarrow> (None, w)
   | (Some ps, w) \<Rightarrow> (let (ps, w) = restore_plugins m reg en ps w in (Some ps, scan (map p_name ps) w)))"

section \<open>An engine with nothing to run\<close>

definition hook_off :: "('v, 'w) vm \<Rightarrow> string \<Rightarrow> ('v, 'w) ew \<Rightarrow> bool" where
  "hook_off m fn s = (\<forall>p \<in> set (fst s). \<not> (p_enabled p \<and> has_hook m fn p))"

lemma request_loop_off:
  "hook_off m ''on_request'' (ps, w) \<Longrightarrow> request_loop m ps req u body w
     = (\<lparr>rr_drop = False, rr_request = Some req, rr_reqbody = body\<rparr>, ps, w)"
  by (induction ps) (auto simp: hook_off_def)

interpretation engine_off: transparent_middleware "Engine_HandleRequest m" "hook_off m ''on_request''" for m
proof
  fix s e assume "hook_off m ''on_request'' s"
  then have "Engine_HandleRequest m e s = (pass_result e, s)"
    by (cases s) (auto simp: Engine_HandleRequest_def pass_result_def request_loop_off split: option.split)
  then show "fst (Engine_HandleRequest m e s) = pass_result e"
    and "hook_off m ''on_request'' (snd (Engine_HandleRequest m e s))"
    using \<open>hook_off m ''on_request'' s\<close> by simp_all
qed

lemma frame_loop_off:
  "hook_off m ''on_websocket_frame'' (ps, w) \<Longrightarrow> frame_loop m ev ps payload snap w = (payload, ps, w)"
  by (induction ps) (auto simp: hook_off_def)

interpretation engine_tap: frame_tap "Engine_ObserveWebSocketFrame m" "hook_off m ''on_websocket_frame''" for m
proof
  fix s e assume h: "hook_off m ''on_websocket_frame'' s"
  then have "Engine_ObserveWebSocketFrame m e s = (\<lparr>fr_payload = wf_payload e\<rparr>, s)"
    by (cases s) (simp add: Engine_ObserveWebSocketFrame_def frame_loop_off)
  with h show "fr_payload (fst (Engine_ObserveWebSocketFrame m e s)) = wf_payload e"
    and "hook_off m ''on_websocket_frame'' (snd (Engine_ObserveWebSocketFrame m e s))" by simp_all
qed

lemma response_loop_off:
  "hook_off m ''on_response'' (ps, w) \<Longrightarrow> response_loop m ps arg w = (ps, w)"
  by (induction ps) (auto simp: hook_off_def)

section \<open>Drops\<close>

text \<open>The plugins after one that was called were left alone.\<close>

definition stopped_at :: "('v, 'w) vm \<Rightarrow> string \<Rightarrow> 'v plugin list \<Rightarrow> 'v plugin list \<Rightarrow> bool" where
  "stopped_at m fn ps ps' = (\<exists>i < length ps. p_enabled (ps ! i) \<and> has_hook m fn (ps ! i)
     \<and> drop (Suc i) ps' = drop (Suc i) ps)"

lemma stopped_here: "p_enabled p \<Longrightarrow> has_hook m fn p \<Longrightarrow> stopped_at m fn (p # ps) (q # ps)"
  unfolding stopped_at_def by (intro exI [of _ 0]) simp

lemma stopped_later: "stopped_at m fn ps ps' \<Longrightarrow> stopped_at m fn (p # ps) (q # ps')"
  unfolding stopped_at_def by (metis Suc_less_eq drop_Suc_Cons length_Cons nth_Cons_Suc)

lemma request_loop_drop:
  "rr_drop (fst (request_loop m ps req u body w)) \<Longrightarrow>
     stopped_at m ''on_request'' ps (fst (snd (request_loop m ps req u body w)))"
proof (induction ps arbitrary: req u body w)
  case (Cons p ps)
  show ?case
  proof (cases "p_enabled p \<and> has_hook m ''on_request'' p")
    case True
    obtain ret q w1 where h: "call_hook m ''on_request'' (request_table req u body) p w = (ret, q, w1)"
      by (metis prod_cases3)
    show ?thesis
    proof (cases ret)
      case None
      with True h Cons show ?thesis by (auto simp: case_prod_beta intro: stopped_later)
    next
      case (Some t)
      with True h Cons show ?thesis
        by (cases t) (auto simp: case_prod_beta intro: stopped_later stopped_here)
    qed
  next
    case False
    with Cons show ?thesis by (auto simp: case_prod_beta intro: stopped_later)
  qed
qed simp

text \<open>A plugin that drops a request has the last word: the request was dropped by an enabled plugin
  with the hook, and the plugins after it were not called at all. No plugin is ever lost.\<close>

theorem plugin_drop_short_circuits:
  assumes "Engine_HandleRequest m e (ps, w) = (r, ps', w')" "rr_drop r"
  shows "\<exists>i < length ps. p_enabled (ps ! i) \<and> has_hook m ''on_request'' (ps ! i) \<and> drop (Suc i) ps' = drop (Suc i) ps"
  using assms request_loop_drop [of m ps]
  by (auto simp: Engine_HandleRequest_def stopped_at_def split: option.splits) (metis fst_conv snd_conv)

section \<open>Log lines\<close>

text \<open>Nothing waits in a log buffer between two calls of the engine.\<close>

definition drained :: "'v plugin list \<Rightarrow> bool" where
  "drained ps = (\<forall>p \<in> set ps. p_logBuf p = [])"

lemma drained_simps [simp]: "drained []" "drained (p # ps) = (p_logBuf p = [] \<and> drained ps)"
  "drained (ps @ qs) = (drained ps \<and> drained qs)"
  by (auto simp: drained_def)

lemma emitLogs_drained [simp]: "p_logBuf (fst (emitLogs m p w)) = []"
  by (simp add: emitLogs_def drainLogs_def)

lemma call_hook_drained [simp]: "p_logBuf (fst (snd (call_hook m fn arg p w))) = []"
  by (simp add: call_hook_def case_prod_beta Let_def)

lemma request_loop_drained: "drained ps \<Longrightarrow> drained (fst (snd (request_loop m ps req u body w)))"
proof (induction ps arbitrary: req u body w)
  case (Cons p ps)
  obtain ret q w1 where h: "call_hook m ''on_request'' (request_table req u body) p w = (ret, q, w1)"
    by (metis prod_cases3)
  then have q: "p_logBuf q = []" using call_hook_drained [of m "''on_request''" "request_table req u body" p w] by simp
  show ?case
  proof (cases ret)
    case None
    with h q Cons show ?thesis by (auto simp: case_prod_beta)
  next
    case (Some t)
    with h q Cons show ?thesis by (cases t) (auto simp: case_prod_beta)
  qed
qed simp

lemma response_loop_drained: "drained ps \<Longrightarrow> drained (fst (response_loop m ps arg w))"
  by (induction ps arbitrary: w) (auto simp: case_prod_beta Let_def)

lemma frame_loop_drained: "drained ps \<Longrightarrow> drained (fst (snd (frame_loop m ev ps payload snap w)))"
  by (induction ps arbitrary: payload snap w) (auto simp: case_prod_beta Let_def)

lemma set_enabled_drained: "drained ps \<Longrightarrow> drained (set_enabled n v ps)"
  by (induction ps) auto

lemma restore_plugins_drained: "drained (fst (restore_plugins m reg en ps w))"
  by (induction ps arbitrary: w) (auto simp: case_prod_beta Let_def)

datatype engine_event = ERequest RequestEvent | EResponse ResponseEvent | EFrame WebSocketFrameEvent
  | EEnabled SetPluginEnabledEvent | ELoad bool LoadPluginEvent

definition engine_step :: "('v, 'w) vm \<Rightarrow> (string \<Rightarrow> string \<Rightarrow> 'w \<Rightarrow> 'w) \<Rightarrow> string \<Rightarrow> engine_event \<Rightarrow> ('v, 'w) ew \<Rightarrow> ('v, 'w) ew" where
  "engine_step m reg dir x s = (case x of
     ERequest e \<Rightarrow> snd (Engine_HandleRequest m e s) | EResponse e \<Rightarrow> Engine_ObserveResponse m e s
   | EFrame e \<Rightarrow> snd (Engine_ObserveWebSocketFrame m e s) | EEnabled e \<Rightarrow> Engine_ObservePluginEnabled e s
   | ELoad copied e \<Rightarrow> Engine_ObserveLoadPlugin m reg dir copied e s)"

lemma engine_step_drained: "drained (fst s) \<Longrightarrow> drained (fst (engine_step m reg dir x s))"
proof (cases x)
  case (ELoad copied e)
  assume "drained (fst s)"
  with ELoad show ?thesis
    by (cases s) (auto simp: engine_step_def Engine_ObserveLoadPlugin_def case_prod_beta Let_def split: option.split)
qed (auto simp: engine_step_def Engine_HandleRequest_def Engine_ObserveResponse_def Engine_ObserveWebSocketFrame_def
    Engine_ObservePluginEnabled_def case_prod_beta Let_def request_loop_drained response_loop_drained
    frame_loop_drained set_enabled_drained split: option.split)

text \<open>No \<open>log\<close> line of a plugin is left behind: from the moment the engine is built, and after every
  request, response, frame, switch or import it handles, whatever the scripts do (errors and
  timeouts included), every plugin's log buffer has been emptied onto the bus.\<close>

theorem plugin_logs_drained:
  assumes "NewEngine m reg en scan dir ls w = (Some ps, w')"
  shows "drained (fst (fold (engine_step m reg dir) xs (ps, w')))"
proof -
  have "drained ps" using assms restore_plugins_drained [of m reg en]
    by (auto simp: NewEngine_def case_prod_beta Let_def split: option.splits prod.splits)
  moreover have "drained (fst s) \<Longrightarrow> drained (fst (fold (engine_step m reg dir) xs s))" for s
    by (induction xs arbitrary: s) (simp_all add: engine_step_drained)
  ultimately show ?thesis by simp
qed

section \<open>The engine and the store agree\<close>

definition store_register :: "string \<Rightarrow> string \<Rightarrow> store \<Rightarrow> store" where
  "store_register name path s = snd (RegisterPlugin name path s)"

definition store_enabled :: "string \<Rightarrow> store \<Rightarrow> bool option \<times> store" where
  "store_enabled name s = (case PluginEnabled name s of ((b, e), s) \<Rightarrow> (if e = None then Some b else None, s))"

definition store_scan :: "string list \<Rightarrow> store \<Rightarrow> store" where
  "store_scan active s = snd (ScanPlugins active s)"

text \<open>Scripts reach the plugin table neither while loading nor by logging.\<close>

definition vm_quiet :: "('v, store) vm \<Rightarrow> bool" where
  "vm_quiet m = (\<forall>s. healthy s \<longrightarrow>
     (\<forall>e. healthy (vm_emit m e s) \<and> plugin_flags (vm_emit m e s) = plugin_flags s)
   \<and> (\<forall>p. healthy (snd (vm_load m p s)) \<and> plugin_flags (snd (vm_load m p s)) = plugin_flags s))"

definition agree :: "'v plugin list \<Rightarrow> store \<Rightarrow> bool" where
  "agree ps s = (\<forall>p \<in> set ps. plugin_flags s (p_name p) = Some (p_enabled p))"

lemma emitLogs_quiet:
  assumes "vm_quiet m" "healthy s"
  shows "healthy (snd (emitLogs m p s)) \<and> plugin_flags (snd (emitLogs m p s)) = plugin_flags s
    \<and> fst (emitLogs m p s) = p\<lparr>p_logBuf := []\<rparr>"
proof -
  have "healthy s \<Longrightarrow> healthy (fold (\<lambda>line. vm_emit m \<lparr>pl_name = p_name p, pl_message = line\<rparr>) ls s)
     \<and> plugin_flags (fold (\<lambda>line. vm_emit m \<lparr>pl_name = p_name p, pl_message = line\<rparr>) ls s) = plugin_flags s" for ls s
    by (induction ls arbitrary: s) (use assms(1) in \<open>auto simp: vm_quiet_def\<close>)
  with assms(2) show ?thesis by (simp add: emitLogs_def drainLogs_def)
qed

lemma store_register_flags:
  "healthy s \<Longrightarrow> healthy (store_register n path s) \<and> plugin_flags (store_register n path s)
     = flags_step (PRegister n path) (plugin_flags s)"
  using plugin_step_flags [of s "PRegister n path"] by (simp add: store_register_def)

lemma store_enabled_flags:
  "healthy s \<Longrightarrow> store_enabled n s = (plugin_flags s n, tick s)"
  by (simp add: store_enabled_def PluginEnabled_def healthy_sql plugin_flags_def split: option.split)

lemma plugin_flags_tick [simp]: "plugin_flags (tick s) = plugin_flags s"
  by (simp add: plugin_flags_def fun_eq_iff)

lemma restore_plugins_agree:
  "vm_quiet m \<Longrightarrow> healthy s \<Longrightarrow> restore_plugins m store_register store_enabled ps s = (qs, t) \<Longrightarrow>
     healthy t \<and> map p_name qs = map p_name ps \<and> agree qs t
   \<and> (\<forall>n. plugin_flags t n = (if n \<in> p_name ` set ps \<and> plugin_flags s n = None then Some True else plugin_flags s n))"
proof (induction ps arbitrary: s qs t)
  case Nil
  then show ?case by (auto simp: agree_def)
next
  case (Cons p ps)
  let ?s = "store_register (p_name p) (p_path p) s"
  have r: "healthy ?s" "plugin_flags ?s = flags_step (PRegister (p_name p) (p_path p)) (plugin_flags s)"
    using store_register_flags [OF Cons.prems(2)] by auto
  then obtain b where b: "plugin_flags ?s (p_name p) = Some b" by (cases "plugin_flags s (p_name p)") auto
  let ?p = "p\<lparr>p_enabled := b\<rparr>"
  have e: "healthy (snd (emitLogs m ?p (tick ?s)))" "plugin_flags (snd (emitLogs m ?p (tick ?s))) = plugin_flags ?s"
    "fst (emitLogs m ?p (tick ?s)) = ?p\<lparr>p_logBuf := []\<rparr>"
    using emitLogs_quiet [OF Cons.prems(1), of "tick ?s" ?p] r(1) by auto
  obtain rs t' where rs: "restore_plugins m store_register store_enabled ps (snd (emitLogs m ?p (tick ?s))) = (rs, t')"
    by fastforce
  have IH: "healthy t'" "map p_name rs = map p_name ps" "agree rs t'"
    "\<And>n. plugin_flags t' n = (if n \<in> p_name ` set ps \<and> plugin_flags ?s n = None then Some True else plugin_flags ?s n)"
    using Cons.IH [OF Cons.prems(1) e(1) rs] unfolding e(2) by auto
  have qs: "qs = ?p\<lparr>p_logBuf := []\<rparr> # rs" "t = t'"
    using Cons.prems(3) r(1) b rs e(3) by (auto simp: store_enabled_flags case_prod_beta Let_def)
  have "plugin_flags t (p_name p) = Some b" unfolding qs IH(4) using b by simp
  then have "agree qs t" using IH(3) qs by (auto simp: agree_def)
  moreover have "plugin_flags t n = (if n \<in> p_name ` set (p # ps) \<and> plugin_flags s n = None then Some True
      else plugin_flags s n)" for n
    unfolding qs IH(4) r(2) by auto
  ultimately show ?case using IH qs by auto
qed

lemma load_entries_quiet:
  "vm_quiet m \<Longrightarrow> healthy s \<Longrightarrow> healthy (snd (load_entries m dir es s))
     \<and> plugin_flags (snd (load_entries m dir es s)) = plugin_flags s"
proof (induction m dir es s rule: load_entries.induct)
  case (2 m dir name is_dir es w)
  have l: "healthy (snd (load_plugin m p w)) \<and> plugin_flags (snd (load_plugin m p w)) = plugin_flags w" for p
    using 2(3,4) by (auto simp: load_plugin_def vm_quiet_def split: prod.splits option.splits) (metis snd_conv)+
  show ?case
  proof (cases "is_dir \<or> \<not> has_suffix name ''.lua''")
    case True
    with 2 show ?thesis by simp
  next
    case False
    obtain p w1 where p: "load_plugin m (dir @ ''/'' @ name) w = (p, w1)" by fastforce
    with l [of "dir @ ''/'' @ name"] have w1: "healthy w1" "plugin_flags w1 = plugin_flags w" by auto
    from False p 2(2) [OF False p [symmetric] refl 2(3) w1(1)] w1(2) show ?thesis
      by (auto simp: case_prod_beta)
  qed
qed simp

text \<open>The switches survive a restart. A new engine runs every plugin exactly as the store says: switched
  as it was left in an earlier session, on if the store did not know it; afterwards the store
  knows the plugins of the engine and no others.\<close>

theorem engine_restores_switches:
  assumes "vm_quiet m" "healthy s"
    and "NewEngine m store_register store_enabled store_scan dir (Entries es) s = (Some ps, t)"
  shows "agree ps t
    \<and> (\<forall>p \<in> set ps. p_enabled p = (case plugin_flags s (p_name p) of None \<Rightarrow> True | Some b \<Rightarrow> b))
    \<and> (\<forall>n. plugin_flags t n \<noteq> None \<longleftrightarrow> n \<in> p_name ` set ps)"
proof -
  obtain ps0 s1 where l: "load_entries m dir es s = (ps0, s1)" by fastforce
  obtain qs s2 where r: "restore_plugins m store_register store_enabled ps0 s1 = (qs, s2)" by fastforce
  have ps: "ps = qs" "t = store_scan (map p_name qs) s2"
    using assms(3) by (auto simp: NewEngine_def loadDir_def l r case_prod_beta Let_def)
  have s1: "healthy s1" "plugin_flags s1 = plugin_flags s"
    using load_entries_quiet [OF assms(1,2), of dir es] l by auto
  have s2: "healthy s2" "map p_name qs = map p_name ps0" "agree qs s2"
    "\<And>n. plugin_flags s2 n = (if n \<in> p_name ` set ps0 \<and> plugin_flags s1 n = None then Some True else plugin_flags s1 n)"
    using restore_plugins_agree [OF assms(1) s1(1) r] by auto
  have t: "plugin_flags t = (\<lambda>n. if n \<in> p_name ` set ps then plugin_flags s2 n else None)"
    using plugin_step_flags [OF s2(1), of "PScan (map p_name qs)"] by (simp add: store_scan_def ps)
  have names: "p_name ` set ps0 = p_name ` set ps" using s2(2) ps(1) by (metis list.set_map)
  have f: "p \<in> set ps \<Longrightarrow> plugin_flags s2 (p_name p) = Some (p_enabled p)" for p
    using s2(3) ps(1) by (simp add: agree_def)
  have "p \<in> set ps \<Longrightarrow> p_enabled p = (case plugin_flags s (p_name p) of None \<Rightarrow> True | Some b \<Rightarrow> b)" for p
    using f [of p] s2(4) [of "p_name p"] names s1(2) by (auto split: if_splits option.splits)
  moreover have "agree ps t" using f by (auto simp: agree_def t)
  moreover have "plugin_flags t n \<noteq> None \<longleftrightarrow> n \<in> p_name ` set ps" for n
    using f by (auto simp: t image_iff)
  ultimately show ?thesis by blast
qed

lemma set_enabled_agree:
  assumes "distinct (map p_name ps)" "agree ps s" "\<And>n. plugin_flags t n
     = (if n = name \<and> plugin_flags s n \<noteq> None then Some v else plugin_flags s n)"
  shows "agree (set_enabled name v ps) t"
  using assms(1,2)
proof (induction ps)
  case (Cons p ps)
  have "p_name p \<noteq> name \<Longrightarrow> plugin_flags t (p_name p) = Some (p_enabled p)"
    using Cons.prems(2) assms(3) by (simp add: agree_def)
  moreover have "q \<in> set ps \<Longrightarrow> p_name p = name \<Longrightarrow> plugin_flags t (p_name q) = Some (p_enabled q)" for q
    using Cons.prems assms(3) [of "p_name q"] by (auto simp: agree_def image_iff)
  moreover have "p_name p = name \<Longrightarrow> plugin_flags t name = Some v"
    using Cons.prems(2) assms(3) by (auto simp: agree_def)
  ultimately show ?case using Cons by (auto simp: agree_def)
qed (simp add: agree_def)


text \<open>Importing a script under the name of a loaded plugin breaks that: both copies run from then on,
  and switching the plugin off switches off only the older one. The imported copy also starts
  switched on when the store says that the plugin is off.\<close>

theorem reimport_stays_enabled:
  assumes "n = base_name (lp_source_path e)" "n \<in> p_name ` set ps"
    and "vm_load m (dir @ ''/'' @ n) w = (Some (v, logs), w1)" "CHR ''/'' \<notin> set n"
    and "Engine_ObserveLoadPlugin m reg dir True e (ps, w) = (qs, w')"
  shows "\<exists>p \<in> set (fst (Engine_ObservePluginEnabled \<lparr>pe_name = n, pe_enabled = False\<rparr> (qs, w'))).
    p_name p = n \<and> p_vm p = v \<and> p_enabled p"
proof -
  have "base_name (dir @ ''/'' @ n) = n"
  proof -
    have "dir @ ''/'' @ n = join (split dir ''/'' @ [n]) ''/''" by (simp add: join_snoc join_split)
    moreover have "\<forall>x \<in> set (split dir ''/'' @ [n]). CHR ''/'' \<notin> set x"
      using assms(4) split_pieces_free [of "''/''" _ dir] by (auto simp: contains_single)
    ultimately have "split (dir @ ''/'' @ n) ''/'' = split dir ''/'' @ [n]" using split_join_single by simp
    then show ?thesis by (simp add: base_name_def)
  qed
  then obtain p where qs: "qs = ps @ [p]" "p_name p = n" "p_vm p = v" "p_enabled p"
    using assms by (auto simp: Engine_ObserveLoadPlugin_def load_plugin_def emitLogs_def drainLogs_def Let_def)
  have "set_enabled n False (ps @ [p]) = set_enabled n False ps @ [p]"
    using assms(2) by (induction ps) auto
  with qs show ?thesis by (auto simp: Engine_ObservePluginEnabled_def)
qed

section \<open>Witnesses\<close>

text \<open>A machine whose scripts are lists of replies: what each hook returns, and its log line.\<close>

type_synonym script = "(string \<times> (lua option \<times> string)) list"

definition demo_vm :: "(script, store) vm" where
  "demo_vm = \<lparr>vm_has = (\<lambda>fn v. map_of v fn \<noteq> None),
     vm_call = (\<lambda>fn arg v w. case map_of v fn of None \<Rightarrow> (None, [], v, w) | Some (r, l) \<Rightarrow> (r, [l], v, w)),
     vm_load = (\<lambda>path w. (Some ([], [''loaded'']), w)), vm_url_parse = (\<lambda>u s. None), vm_text = (\<lambda>t. []),
     vm_emit = ObservePluginLog\<rparr>"

definition demo_plugin :: "string \<Rightarrow> script \<Rightarrow> script plugin" where
  "demo_plugin n v = \<lparr>p_name = n, p_path = [], p_vm = v, p_enabled = True, p_logBuf = []\<rparr>"

lemma demo_vm_quiet: "vm_quiet demo_vm"
  using plugin_step_flags [of _ "PLog e" for e] by (simp add: vm_quiet_def demo_vm_def)

definition demo_hook_request :: RequestEvent where
  "demo_hook_request = \<lparr>re_request = Some \<lparr>rq_method = ''GET'', rq_url = Some \<lparr>u_scheme = ''http'', u_host = ''h'',
     u_path = ''/'', u_query = []\<rparr>, rq_host = ''h'', rq_header = []\<rparr>, re_body = []\<rparr>"

definition demo_dropper :: script where
  "demo_dropper = [(''on_request'', Some (LTable [(LString ''drop'', LBool True)]), ''no'')]"

theorem plugin_drop_short_circuits_witness:
  "case Engine_HandleRequest demo_vm demo_hook_request ([demo_plugin ''a'' demo_dropper], demo_store) of
     (r, ps', w') \<Rightarrow> rr_drop r \<and> drop 1 ps' = []"
proof -
  obtain r ps' w' where h: "Engine_HandleRequest demo_vm demo_hook_request
      ([demo_plugin ''a'' demo_dropper], demo_store) = (r, ps', w')"
    by (metis prod_cases3)
  have d: "rr_drop r" using h
    by (auto simp: Engine_HandleRequest_def demo_hook_request_def demo_plugin_def demo_dropper_def demo_vm_def
      has_hook_def call_hook_def callWithBuilder_def emitLogs_def drainLogs_def lua_field_def)
  from plugin_drop_short_circuits [OF h d] d h show ?thesis by auto
qed

definition demo_dir :: dir_listing where
  "demo_dir = Entries [(''a.lua'', False), (''notes.txt'', False), (''b.lua'', False)]"

text \<open>The store after a session in which \<open>a.lua\<close> was switched off.\<close>

definition demo_switched :: store where
  "demo_switched = fold plugin_step [PRegister ''a.lua'' [], PSet \<lparr>pe_name = ''a.lua'', pe_enabled = False\<rparr>] demo_store"

lemma demo_switched_flags: "healthy demo_switched" "plugin_flags demo_switched = [''a.lua'' \<mapsto> False]"
proof -
  have e: "plugin_flags demo_store = Map.empty"
    by (simp add: fun_eq_iff plugin_flags_def demo_store_def fresh_store_def new_file_def)
  let ?a = "plugin_step (PRegister ''a.lua'' []) demo_store"
  let ?e = "PSet \<lparr>pe_name = ''a.lua'', pe_enabled = False\<rparr>"
  have a: "healthy ?a" "plugin_flags ?a = [''a.lua'' \<mapsto> True]"
    using plugin_step_flags [OF demo_store_healthy(1), of "PRegister ''a.lua'' []"] e by auto
  have "healthy (plugin_step ?e ?a) \<and> plugin_flags (plugin_step ?e ?a) = flags_step ?e (plugin_flags ?a)"
    by (rule plugin_step_flags [OF a(1)])
  moreover have "demo_switched = plugin_step ?e ?a" by (simp add: demo_switched_def)
  moreover have "flags_step ?e [''a.lua'' \<mapsto> True] = [''a.lua'' \<mapsto> False]" by (rule ext) (simp add: all_bool_eq ex_bool_eq)
  ultimately show "healthy demo_switched" "plugin_flags demo_switched = [''a.lua'' \<mapsto> False]"
    unfolding a(2) by simp_all
qed

lemma demo_new_engine:
  "\<exists>ps t. NewEngine demo_vm store_register store_enabled store_scan ''p'' demo_dir demo_switched = (Some ps, t)
    \<and> map p_name ps = [''a.lua'', ''b.lua'']"
proof -
  have bn: "base_name ''p/a.lua'' = ''a.lua''" "base_name ''p/b.lua'' = ''b.lua''"
    "has_suffix ''a.lua'' ''.lua''" "has_suffix ''b.lua'' ''.lua''" "\<not> has_suffix ''notes.txt'' ''.lua''"
    by code_simp+
  obtain ps0 s1 where l: "load_entries demo_vm ''p'' [(''a.lua'', False), (''notes.txt'', False), (''b.lua'', False)]
      demo_switched = (ps0, s1)" by fastforce
  then have n: "map p_name ps0 = [''a.lua'', ''b.lua'']"
    by (auto simp: load_plugin_def bn, simp_all add: demo_vm_def, auto simp: bn)
  obtain qs s2 where r: "restore_plugins demo_vm store_register store_enabled ps0 s1 = (qs, s2)" by fastforce
  have "healthy s1" using load_entries_quiet [OF demo_vm_quiet demo_switched_flags(1)] l by (metis snd_conv)
  from restore_plugins_agree [OF demo_vm_quiet this r] n l r show ?thesis
    by (auto simp: NewEngine_def demo_dir_def loadDir_def case_prod_beta Let_def)
qed

theorem plugin_logs_drained_witness:
  "\<exists>ps t. NewEngine demo_vm store_register store_enabled store_scan ''p'' demo_dir demo_switched = (Some ps, t)
    \<and> drained (fst (fold (engine_step demo_vm store_register ''p'') [ERequest demo_hook_request] (ps, t)))"
  using demo_new_engine plugin_logs_drained by metis

theorem engine_restores_switches_witness:
  "\<exists>p q t. NewEngine demo_vm store_register store_enabled store_scan ''p'' demo_dir demo_switched = (Some [p, q], t)
    \<and> \<not> p_enabled p \<and> p_enabled q"
proof -
  obtain ps t where ps: "NewEngine demo_vm store_register store_enabled store_scan ''p'' demo_dir demo_switched = (Some ps, t)"
    "map p_name ps = [''a.lua'', ''b.lua'']"
    using demo_new_engine by (elim exE conjE)
  then obtain p q where pq: "ps = [p, q]" "p_name p = ''a.lua''" "p_name q = ''b.lua''" by auto
  show ?thesis
    using engine_restores_switches [OF demo_vm_quiet demo_switched_flags(1) ps(1) [unfolded demo_dir_def]] ps(1) pq
    by (simp add: demo_switched_flags(2))
qed


theorem reimport_stays_enabled_witness:
  "\<exists>p \<in> set (fst (Engine_ObservePluginEnabled \<lparr>pe_name = ''a.lua'', pe_enabled = False\<rparr>
      (Engine_ObserveLoadPlugin demo_vm store_register ''p'' True \<lparr>lp_source_path = ''/tmp/a.lua''\<rparr>
        ([demo_plugin ''a.lua'' []], demo_store)))). p_name p = ''a.lua'' \<and> p_enabled p"
proof -
  have b: "''a.lua'' = base_name (lp_source_path \<lparr>lp_source_path = ''/tmp/a.lua''\<rparr>)" by code_simp
  have v: "vm_load demo_vm (''p'' @ ''/'' @ ''a.lua'') demo_store = (Some ([], [''loaded'']), demo_store)"
    by (simp add: demo_vm_def)
  obtain qs w' where q: "Engine_ObserveLoadPlugin demo_vm store_register ''p'' True \<lparr>lp_source_path = ''/tmp/a.lua''\<rparr>
        ([demo_plugin ''a.lua'' []], demo_store) = (qs, w')" by fastforce
  have "''a.lua'' \<in> p_name ` set [demo_plugin ''a.lua'' []]" "CHR ''/'' \<notin> set ''a.lua''"
    by (simp_all add: demo_plugin_def)
  from reimport_stays_enabled [OF b this(1) v this(2) q] show ?thesis unfolding q by blast
qed

end
