(* ===== verification/GoCodec.thy ===== *)
theory GoCodec
  imports Prelude
begin

text \<open>
  The text encodings of Go's standard library that the program calls: percent escapes of
  \<open>net/url\<close>, \<open>encoding/base64\<close>, \<open>encoding/hex\<close> and \<open>html.EscapeString\<close>. A byte is a character; a
  decoder that fails is \<open>None\<close>.
\<close>

section \<open>Hexadecimal\<close>

definition hex_digit :: "nat \<Rightarrow> char" where
  "hex_digit n = (if n < 10 then char_of (48 + n) else char_of (87 + n))"

definition hex_upper :: "nat \<Rightarrow> char" where
  "hex_upper n = (if n < 10 then char_of (48 + n) else char_of (55 + n))"

definition hex_val :: "char \<Rightarrow> nat option" where
  "hex_val c = (let n = of_char c :: nat in
     if 48 \<le> n \<and> n \<le> 57 then Some (n - 48)
     else if 97 \<le> n \<and> n \<le> 102 then Some (n - 87)
     else if 65 \<le> n \<and> n \<le> 70 then Some (n - 55) else None)"

definition byte :: "char \<Rightarrow> nat" where
  "byte c = of_char c"

definition hex_pair :: "char \<Rightarrow> char \<Rightarrow> char option" where
  "hex_pair a b = (case (hex_val a, hex_val b) of
     (Some x, Some y) \<Rightarrow> Some (char_of (16 * x + y)) | _ \<Rightarrow> None)"

definition hex_encode :: "string \<Rightarrow> string" where
  "hex_encode s = concat (map (\<lambda>c. [hex_digit (byte c div 16), hex_digit (byte c mod 16)]) s)"

fun hex_decode :: "string \<Rightarrow> string option" where
  "hex_decode [] = Some []"
| "hex_decode [a] = None"
| "hex_decode (a # b # s) = (case hex_pair a b of None \<Rightarrow> None
     | Some c \<Rightarrow> map_option ((#) c) (hex_decode s))"

lemma byte_less [simp]: "byte c < 256"
  unfolding byte_def using of_char_mod_256 [of c, where 'a = nat] by (metis mod_less_divisor zero_less_numeral)

lemma char_of_byte [simp]: "char_of (byte c) = c"
  by (simp add: byte_def)

lemma byte_char_of: "n < 256 \<Longrightarrow> byte (char_of n) = n"
  by (simp add: byte_def)

lemma hex_val_digit: "n < 16 \<Longrightarrow> hex_val (hex_digit n) = Some n" "n < 16 \<Longrightarrow> hex_val (hex_upper n) = Some n"
  by (auto simp: hex_val_def hex_digit_def hex_upper_def Let_def)

lemma hex_pair_digits:
  "hex_pair (hex_digit (byte c div 16)) (hex_digit (byte c mod 16)) = Some c"
  "hex_pair (hex_upper (byte c div 16)) (hex_upper (byte c mod 16)) = Some c"
proof -
  have "byte c div 16 < 16" using byte_less [of c] by (simp add: div_less_iff_less_mult)
  then show "hex_pair (hex_digit (byte c div 16)) (hex_digit (byte c mod 16)) = Some c"
    "hex_pair (hex_upper (byte c div 16)) (hex_upper (byte c mod 16)) = Some c"
    by (simp_all add: hex_pair_def hex_val_digit)
qed

lemma hex_decode_encode: "hex_decode (hex_encode s) = Some s"
  by (induction s) (simp_all add: hex_encode_def hex_pair_digits)

section \<open>Percent escapes\<close>

definition alnum :: "char \<Rightarrow> bool" where
  "alnum c = (let n = byte c in 48 \<le> n \<and> n \<le> 57 \<or> 65 \<le> n \<and> n \<le> 90 \<or> 97 \<le> n \<and> n \<le> 122)"

text \<open>The flag chooses \<open>QueryEscape\<close> over \<open>PathEscape\<close>.\<close>

definition unescaped :: "bool \<Rightarrow> char \<Rightarrow> bool" where
  "unescaped query c = (alnum c \<or> c \<in> set ''-_.~'' \<or> \<not> query \<and> c \<in> set ''$&+:=@'')"

definition escape_char :: "bool \<Rightarrow> char \<Rightarrow> string" where
  "escape_char query c = (if unescaped query c then [c]
     else if query \<and> c = CHR '' '' then ''+''
     else [CHR ''%'', hex_upper (byte c div 16), hex_upper (byte c mod 16)])"

definition url_escape :: "bool \<Rightarrow> string \<Rightarrow> string" where
  "url_escape query s = concat (map (escape_char query) s)"

fun url_unescape :: "bool \<Rightarrow> string \<Rightarrow> string option" where
  "url_unescape query [] = Some []"
| "url_unescape query (c # s) =
     (if c = CHR ''%'' then (case s of
          a # b # r \<Rightarrow> (case hex_pair a b of None \<Rightarrow> None
            | Some d \<Rightarrow> map_option ((#) d) (url_unescape query r))
        | _ \<Rightarrow> None)
      else map_option ((#) (if query \<and> c = CHR ''+'' then CHR '' '' else c)) (url_unescape query s))"

definition QueryEscape :: "string \<Rightarrow> string" where "QueryEscape = url_escape True"
definition PathEscape :: "string \<Rightarrow> string" where "PathEscape = url_escape False"
definition QueryUnescape :: "string \<Rightarrow> string option" where "QueryUnescape = url_unescape True"
definition PathUnescape :: "string \<Rightarrow> string option" where "PathUnescape = url_unescape False"

lemma unescaped_plain: "unescaped q c \<Longrightarrow> c \<noteq> CHR ''%'' \<and> (q \<longrightarrow> c \<noteq> CHR ''+'')"
  by (auto simp: unescaped_def alnum_def byte_def Let_def)

lemma url_unescape_escape: "url_unescape q (url_escape q s) = Some s"
proof (induction s)
  case (Cons c s)
  have "url_unescape q (escape_char q c @ t) = map_option ((#) c) (url_unescape q t)" for t
    using unescaped_plain [of q c] by (auto simp: escape_char_def hex_pair_digits)
  then show ?case using Cons by (simp add: url_escape_def)
qed (simp add: url_escape_def)

section \<open>Base64\<close>

text \<open>The flags choose the URL-safe alphabet and the padding.\<close>

definition b64_char :: "bool \<Rightarrow> nat \<Rightarrow> char" where
  "b64_char url n = (if n < 26 then char_of (65 + n) else if n < 52 then char_of (71 + n)
     else if n < 62 then char_of (n - 4)
     else if n = 62 then (if url then CHR ''-'' else CHR ''+'')
     else if url then CHR ''_'' else CHR ''/'')"

definition b64_val :: "bool \<Rightarrow> char \<Rightarrow> nat option" where
  "b64_val url c = (let n = byte c in
     if 65 \<le> n \<and> n \<le> 90 then Some (n - 65) else if 97 \<le> n \<and> n \<le> 122 then Some (n - 71)
     else if 48 \<le> n \<and> n \<le> 57 then Some (n + 4)
     else if c = (if url then CHR ''-'' else CHR ''+'') then Some 62
     else if c = (if url then CHR ''_'' else CHR ''/'') then Some 63 else None)"

fun b64_encode :: "bool \<Rightarrow> bool \<Rightarrow> string \<Rightarrow> string" where
  "b64_encode url pad [] = []"
| "b64_encode url pad [a] = b64_char url (byte a div 4) # b64_char url (byte a mod 4 * 16)
     # (if pad then ''=='' else [])"
| "b64_encode url pad [a, b] = b64_char url (byte a div 4)
     # b64_char url (byte a mod 4 * 16 + byte b div 16) # b64_char url (byte b mod 16 * 4)
     # (if pad then ''='' else [])"
| "b64_encode url pad (a # b # c # s) = b64_char url (byte a div 4)
     # b64_char url (byte a mod 4 * 16 + byte b div 16)
     # b64_char url (byte b mod 16 * 4 + byte c div 64)
     # b64_char url (byte c mod 64) # b64_encode url pad s"

text \<open>The bytes of the first two, three and four characters of a group.\<close>

definition b64_1 :: "bool \<Rightarrow> char \<Rightarrow> char \<Rightarrow> string option" where
  "b64_1 url a b = (case (b64_val url a, b64_val url b) of
     (Some x, Some y) \<Rightarrow> Some [char_of (x * 4 + y div 16)] | _ \<Rightarrow> None)"

definition b64_2 :: "bool \<Rightarrow> char \<Rightarrow> char \<Rightarrow> char \<Rightarrow> string option" where
  "b64_2 url a b c = (case (b64_1 url a b, b64_val url b, b64_val url c) of
     (Some s, Some y, Some z) \<Rightarrow> Some (s @ [char_of (y mod 16 * 16 + z div 4)]) | _ \<Rightarrow> None)"

definition b64_3 :: "bool \<Rightarrow> char \<Rightarrow> char \<Rightarrow> char \<Rightarrow> char \<Rightarrow> string option" where
  "b64_3 url a b c d = (case (b64_2 url a b c, b64_val url c, b64_val url d) of
     (Some s, Some z, Some w) \<Rightarrow> Some (s @ [char_of (z mod 4 * 64 + w)]) | _ \<Rightarrow> None)"

text \<open>After the newlines are dropped; surplus bits of the last group are ignored.\<close>

fun b64_groups :: "bool \<Rightarrow> bool \<Rightarrow> string \<Rightarrow> string option" where
  "b64_groups url pad [] = Some []"
| "b64_groups url pad [a] = None"
| "b64_groups url pad [a, b] = (if pad then None else b64_1 url a b)"
| "b64_groups url pad [a, b, c] = (if pad then None else b64_2 url a b c)"
| "b64_groups url pad (a # b # c # d # s) =
     (if pad \<and> c = CHR ''='' \<and> d = CHR ''='' \<and> s = [] then b64_1 url a b
      else if pad \<and> d = CHR ''='' \<and> s = [] then b64_2 url a b c
      else (case b64_3 url a b c d of None \<Rightarrow> None
        | Some x \<Rightarrow> map_option ((@) x) (b64_groups url pad s)))"

definition b64_decode :: "bool \<Rightarrow> bool \<Rightarrow> string \<Rightarrow> string option" where
  "b64_decode url pad s = b64_groups url pad (filter (\<lambda>c. c \<noteq> CHR 0x0A \<and> c \<noteq> CHR 0x0D) s)"

lemma b64_val_char: "n < 64 \<Longrightarrow> b64_val url (b64_char url n) = Some n"
  by (auto simp: b64_val_def b64_char_def byte_char_of Let_def) (auto simp: byte_def)

lemma b64_char_plain:
  "n < 64 \<Longrightarrow> b64_char url n \<noteq> CHR 0x0A \<and> b64_char url n \<noteq> CHR 0x0D \<and> b64_char url n \<noteq> CHR ''=''"
  using b64_val_char [of n url] by (auto simp: b64_val_def byte_def Let_def split: if_splits)

definition b64_clean :: "string \<Rightarrow> bool" where
  "b64_clean s = (\<forall>c \<in> set s. c \<noteq> CHR 0x0A \<and> c \<noteq> CHR 0x0D)"

lemma b64_bits:
  "byte a div 4 < 64" "byte a mod 4 * 16 < 64" "byte a mod 4 * 16 + byte b div 16 < 64"
  "byte b mod 16 * 4 < 64" "byte b mod 16 * 4 + byte c div 64 < 64" "byte c mod 64 < 64"
proof -
  have "byte a mod 4 < 4" "byte b mod 16 < 16" "byte c mod 64 < 64" by simp_all
  moreover have "byte b div 16 < 16" "byte c div 64 < 4" "byte a div 4 < 64"
    using byte_less [of a] byte_less [of b] byte_less [of c] by (simp_all add: div_less_iff_less_mult)
  ultimately show "byte a div 4 < 64" "byte a mod 4 * 16 < 64" "byte a mod 4 * 16 + byte b div 16 < 64"
    "byte b mod 16 * 4 < 64" "byte b mod 16 * 4 + byte c div 64 < 64" "byte c mod 64 < 64" by simp_all
qed

lemma b64_joins:
  "byte a div 4 * 4 + (byte a mod 4 * 16 + byte b div 16) div 16 = byte a"
  "byte a div 4 * 4 + byte a mod 4 * 16 div 16 = byte a"
  "(byte a mod 4 * 16 + byte b div 16) mod 16 * 16 + (byte b mod 16 * 4 + byte c div 64) div 4 = byte b"
  "(byte a mod 4 * 16 + byte b div 16) mod 16 * 16 + byte b mod 16 * 4 div 4 = byte b"
  "(byte b mod 16 * 4 + byte c div 64) mod 4 * 64 + byte c mod 64 = byte c"
proof -
  have v: "byte b div 16 < 16" "byte c div 64 < 4"
    using byte_less [of b] byte_less [of c] by (simp_all add: div_less_iff_less_mult)
  have dm: "(u * 16 + v) div 16 = u" "(u * 16 + v) mod 16 = v" if "v < 16" for u v :: nat
    using that by simp_all
  have dn: "(u * 4 + v) div 4 = u" "(u * 4 + v) mod 4 = v" if "v < 4" for u v :: nat
    using that by simp_all
  show "byte a div 4 * 4 + (byte a mod 4 * 16 + byte b div 16) div 16 = byte a"
    using dm [OF v(1)] div_mult_mod_eq [of "byte a" 4] by simp
  show "byte a div 4 * 4 + byte a mod 4 * 16 div 16 = byte a"
    using div_mult_mod_eq [of "byte a" 4] by simp
  show "(byte a mod 4 * 16 + byte b div 16) mod 16 * 16 + (byte b mod 16 * 4 + byte c div 64) div 4 = byte b"
    using dm [OF v(1)] dn [OF v(2)] div_mult_mod_eq [of "byte b" 16] by simp
  show "(byte a mod 4 * 16 + byte b div 16) mod 16 * 16 + byte b mod 16 * 4 div 4 = byte b"
    using dm [OF v(1)] div_mult_mod_eq [of "byte b" 16] by simp
  show "(byte b mod 16 * 4 + byte c div 64) mod 4 * 64 + byte c mod 64 = byte c"
    using dn [OF v(2)] div_mult_mod_eq [of "byte c" 64] by simp
qed

lemma b64_encode_clean: "b64_clean (b64_encode url pad s)"
proof (induction url pad s rule: b64_encode.induct)
qed (simp_all add: b64_clean_def b64_char_plain b64_bits)

lemma b64_val_bytes:
  "b64_val url (b64_char url (byte a div 4)) = Some (byte a div 4)"
  "b64_val url (b64_char url (byte a mod 4 * 16)) = Some (byte a mod 4 * 16)"
  "b64_val url (b64_char url (byte a mod 4 * 16 + byte b div 16)) = Some (byte a mod 4 * 16 + byte b div 16)"
  "b64_val url (b64_char url (byte b mod 16 * 4)) = Some (byte b mod 16 * 4)"
  "b64_val url (b64_char url (byte b mod 16 * 4 + byte c div 64)) = Some (byte b mod 16 * 4 + byte c div 64)"
  "b64_val url (b64_char url (byte c mod 64)) = Some (byte c mod 64)"
  by (rule b64_val_char, rule b64_bits)+

lemma b64_1_bytes:
  "b64_1 url (b64_char url (byte a div 4)) (b64_char url (byte a mod 4 * 16)) = Some [a]"
  "b64_1 url (b64_char url (byte a div 4)) (b64_char url (byte a mod 4 * 16 + byte b div 16)) = Some [a]"
  unfolding b64_1_def b64_val_bytes prod.case option.case b64_joins char_of_byte by (rule refl)+

lemma b64_2_bytes:
  "b64_2 url (b64_char url (byte a div 4)) (b64_char url (byte a mod 4 * 16 + byte b div 16))
     (b64_char url (byte b mod 16 * 4)) = Some [a, b]"
  "b64_2 url (b64_char url (byte a div 4)) (b64_char url (byte a mod 4 * 16 + byte b div 16))
     (b64_char url (byte b mod 16 * 4 + byte c div 64)) = Some [a, b]"
  unfolding b64_2_def b64_1_bytes b64_val_bytes prod.case option.case b64_joins char_of_byte append.simps
  by (rule refl)+

lemma b64_3_bytes:
  "b64_3 url (b64_char url (byte a div 4)) (b64_char url (byte a mod 4 * 16 + byte b div 16))
     (b64_char url (byte b mod 16 * 4 + byte c div 64)) (b64_char url (byte c mod 64)) = Some [a, b, c]"
  unfolding b64_3_def b64_2_bytes b64_val_bytes prod.case option.case b64_joins char_of_byte append.simps
  by (rule refl)

lemma b64_not_pad: "n < 64 \<Longrightarrow> (b64_char url n = CHR ''='') = False"
  using b64_char_plain by simp

lemma b64_groups_encode: "b64_groups url pad (b64_encode url pad s) = Some s"
proof (induction url pad s rule: b64_encode.induct)
  case (4 url pad a b c s)
  have "b64_char url (byte c mod 64) \<noteq> CHR ''=''" by (simp add: b64_not_pad b64_bits)
  with 4 show ?case by (simp only: b64_encode.simps b64_groups.simps b64_3_bytes) simp
qed (simp_all add: b64_1_bytes b64_2_bytes b64_not_pad b64_bits)

lemma b64_decode_encode: "b64_decode url pad (b64_encode url pad s) = Some s"
proof -
  have "filter (\<lambda>c. c \<noteq> CHR 0x0A \<and> c \<noteq> CHR 0x0D) (b64_encode url pad s) = b64_encode url pad s"
    using b64_encode_clean [of url pad s] by (simp add: b64_clean_def)
  then show ?thesis by (simp add: b64_decode_def b64_groups_encode)
qed

section \<open>HTML\<close>

text \<open>\<open>html.EscapeString\<close>.\<close>

definition html_escape_char :: "char \<Rightarrow> string" where
  "html_escape_char c = (if c = CHR ''&'' then ''&amp;'' else if c = CHR ''<'' then ''&lt;''
     else if c = CHR ''>'' then ''&gt;'' else if c = CHR 0x22 then ''&#34;''
     else if c = CHR 0x27 then ''&#39;'' else [c])"

definition EscapeString :: "string \<Rightarrow> string" where
  "EscapeString s = concat (map html_escape_char s)"

end
