(* ===== verification/WsProxy.thy ===== *)
theory WsProxy
  imports GoCodec HttpUtil Events
begin

text \<open>
  The WebSocket half of the proxy (\<open>internal/proxy/websocket.go\<close>): the handshake with the upstream
  server and with the browser, and the relay of messages between the two, each of which passes
  through the event bus.

  The state \<open>px\<close> is what the proxy changes: the world of the bus handlers, the requests sent
  upstream, what was written to the browser, and the WebSocket messages written in each direction.
  The library gorilla/websocket is a parameter: \<open>ws_dial\<close> answers the upstream handshake with the
  response header or fails, \<open>ws_upgraded\<close> says whether the browser handshake succeeds. The two
  goroutines of the relay run one message at a time; a schedule is a list of events.
\<close>

record out_request =
  oq_method :: string
  oq_url :: string
  oq_host :: string
  oq_header :: header
  oq_body :: string

datatype browser_msg = Response int header string | Raw string

record 'w px =
  px_bus :: 'w
  px_sent :: "out_request list"
  px_written :: "browser_msg list"
  px_up :: "(int \<times> string) list"
  px_down :: "(int \<times> string) list"

section \<open>The handshakes\<close>

text \<open>\<open>req.URL.Path\<close> is the decoded path; printing it escapes it again, in \<open>net/url\<close>'s path mode.\<close>

definition path_escape_char :: "char \<Rightarrow> string" where
  "path_escape_char c = (if alnum c \<or> c \<in> set ''-_.~$&+,/:;=@'' then [c]
     else [CHR ''%'', hex_upper (byte c div 16), hex_upper (byte c mod 16)])"

definition reescape_path :: "string \<Rightarrow> string" where
  "reescape_path p = (case PathUnescape p of None \<Rightarrow> p | Some d \<Rightarrow> concat (map path_escape_char d))"

definition ws_upstream_url :: "url \<Rightarrow> string \<Rightarrow> string" where
  "ws_upstream_url u hostWithPort = url_string \<lparr>u_scheme = ''wss'', u_host = hostWithPort,
     u_path = reescape_path (u_path u), u_query = u_query u\<rparr>"

definition ws_handshake_keys :: "string list" where
  "ws_handshake_keys = [''Upgrade'', ''Connection'', ''Sec-Websocket-Key'', ''Sec-Websocket-Version'',
     ''Sec-Websocket-Extensions'', ''Sec-Websocket-Protocol'']"

definition ws_upstream_headers :: "header \<Rightarrow> header" where
  "ws_upstream_headers h = filter (\<lambda>(k, _). k \<notin> set ws_handshake_keys) h"

definition ws_response_header :: "header \<Rightarrow> header" where
  "ws_response_header up = (let proto = h_get up ''Sec-Websocket-Protocol'' in
     if proto \<noteq> [] then h_set [] ''Sec-WebSocket-Protocol'' proto else [])"

definition crlf :: string where "crlf = [CHR 0x0D, CHR 0x0A]"

definition writeWSError :: "int \<Rightarrow> 'w px \<Rightarrow> 'w px" where
  "writeWSError code s = s\<lparr>px_written := px_written s @ [Raw (''HTTP/1.1 '' @ itoa code @ '' '' @ status_text code
     @ crlf @ ''Content-Length: 0'' @ crlf @ ''Connection: close'' @ crlf @ crlf)]\<rparr>"

section \<open>The relay\<close>

definition wsMaxMessageSize :: nat where
  "wsMaxMessageSize = 16777216"

record 'w relay =
  rl_px :: "'w px"
  rl_conn :: nat
  rl_up_done :: bool
  rl_down_done :: bool
  rl_browser_closed :: bool
  rl_upstream_closed :: bool

text \<open>
  A message read from one side, with its type, payload and time and whether writing it to the other
  side succeeds; or a read error.
\<close>

datatype relay_event = FromBrowser int string int bool | BrowserError
  | FromUpstream int string int bool | UpstreamError

definition frame_event :: "nat \<Rightarrow> int \<Rightarrow> WebSocketDirection \<Rightarrow> int \<Rightarrow> string \<Rightarrow> WebSocketFrameEvent" where
  "frame_event conn now dir t p = \<lparr>wf_conn_id = conn, wf_timestamp = now, wf_direction = dir, wf_opcode = t,
     wf_payload = Some p\<rparr>"

definition payload_bytes :: "string option \<Rightarrow> string" where
  "payload_bytes p = (case p of None \<Rightarrow> [] | Some b \<Rightarrow> b)"

definition browser_error :: "'w relay \<Rightarrow> 'w relay" where
  "browser_error s = s\<lparr>rl_upstream_closed := True, rl_up_done := True\<rparr>"

definition upstream_error :: "'w relay \<Rightarrow> 'w relay" where
  "upstream_error s = s\<lparr>rl_browser_closed := True, rl_down_done := True\<rparr>"

definition relay_up :: "'w bus \<Rightarrow> int \<Rightarrow> string \<Rightarrow> int \<Rightarrow> bool \<Rightarrow> 'w relay \<Rightarrow> 'w relay" where
  "relay_up b t p now ok s =
     (if rl_up_done s then s
      else if rl_browser_closed s \<or> length p > wsMaxMessageSize then browser_error s
      else let (r, w) = EmitWebSocketFrame b (frame_event (rl_conn s) now WebSocketClient t p) (px_bus (rl_px s));
               s = s\<lparr>rl_px := (rl_px s)\<lparr>px_bus := w\<rparr>\<rparr>
        in if ok \<and> \<not> rl_upstream_closed s
           then s\<lparr>rl_px := (rl_px s)\<lparr>px_up := px_up (rl_px s) @ [(t, payload_bytes (fr_payload r))]\<rparr>\<rparr>
           else s\<lparr>rl_up_done := True\<rparr>)"

definition relay_down :: "'w bus \<Rightarrow> int \<Rightarrow> string \<Rightarrow> int \<Rightarrow> bool \<Rightarrow> 'w relay \<Rightarrow> 'w relay" where
  "relay_down b t p now ok s =
     (if rl_down_done s then s
      else if rl_upstream_closed s \<or> length p > wsMaxMessageSize then upstream_error s
      else let (r, w) = EmitWebSocketFrame b (frame_event (rl_conn s) now WebSocketServer t p) (px_bus (rl_px s));
               s = s\<lparr>rl_px := (rl_px s)\<lparr>px_bus := w\<rparr>\<rparr>
        in if ok \<and> \<not> rl_browser_closed s
           then s\<lparr>rl_px := (rl_px s)\<lparr>px_down := px_down (rl_px s) @ [(t, payload_bytes (fr_payload r))]\<rparr>\<rparr>
           else s\<lparr>rl_down_done := True\<rparr>)"

fun relay_step :: "'w bus \<Rightarrow> relay_event \<Rightarrow> 'w relay \<Rightarrow> 'w relay" where
  "relay_step b (FromBrowser t p now ok) s = relay_up b t p now ok s"
| "relay_step b BrowserError s = (if rl_up_done s then s else browser_error s)"
| "relay_step b (FromUpstream t p now ok) s = relay_down b t p now ok s"
| "relay_step b UpstreamError s = (if rl_down_done s then s else upstream_error s)"

definition relay_run :: "'w bus \<Rightarrow> relay_event list \<Rightarrow> 'w relay \<Rightarrow> 'w relay" where
  "relay_run b es s = fold (relay_step b) es s"

definition relay_start :: "nat \<Rightarrow> 'w px \<Rightarrow> 'w relay" where
  "relay_start conn s = \<lparr>rl_px = s, rl_conn = conn, rl_up_done = False, rl_down_done = False,
     rl_browser_closed = False, rl_upstream_closed = False\<rparr>"

text \<open>What the outside world does in one session.\<close>

record ws_session =
  ws_dial :: "string \<Rightarrow> header \<Rightarrow> header option"
  ws_upgraded :: "header \<Rightarrow> bool"
  ws_now :: int
  ws_events :: "relay_event list"

definition handleWebSocketTLS :: "'w bus \<Rightarrow> ws_session \<Rightarrow> url \<Rightarrow> header \<Rightarrow> string \<Rightarrow> 'w px \<Rightarrow> 'w px" where
  "handleWebSocketTLS b ws u h hostWithPort s = (let up = ws_upstream_url u hostWithPort in
     case ws_dial ws up (ws_upstream_headers h) of
       None \<Rightarrow> writeWSError 502 s
     | Some respH \<Rightarrow>
         if \<not> ws_upgraded ws (ws_response_header respH) then s
         else let (conn, w) = EmitWebSocketConnection b
                \<lparr>wc_host = hostWithPort, wc_url = up, wc_tls = True, wc_timestamp = ws_now ws\<rparr> (px_bus s)
           in rl_px (relay_run b (ws_events ws) (relay_start conn (s\<lparr>px_bus := w\<rparr>))))"

section \<open>The relay is faithful\<close>

definition browser_messages :: "relay_event list \<Rightarrow> (int \<times> string) list" where
  "browser_messages es = concat (map (\<lambda>e. case e of FromBrowser t p now ok \<Rightarrow> [(t, p)] | _ \<Rightarrow> []) es)"

definition upstream_messages :: "relay_event list \<Rightarrow> (int \<times> string) list" where
  "upstream_messages es = concat (map (\<lambda>e. case e of FromUpstream t p now ok \<Rightarrow> [(t, p)] | _ \<Rightarrow> []) es)"

lemma messages_simps [simp]:
  "browser_messages [] = []" "upstream_messages [] = []"
  "browser_messages (FromBrowser t p n ok # es) = (t, p) # browser_messages es"
  "browser_messages (FromUpstream t p n ok # es) = browser_messages es"
  "browser_messages (BrowserError # es) = browser_messages es"
  "browser_messages (UpstreamError # es) = browser_messages es"
  "upstream_messages (FromUpstream t p n ok # es) = (t, p) # upstream_messages es"
  "upstream_messages (FromBrowser t p n ok # es) = upstream_messages es"
  "upstream_messages (BrowserError # es) = upstream_messages es"
  "upstream_messages (UpstreamError # es) = upstream_messages es"
  by (simp_all add: browser_messages_def upstream_messages_def)

text \<open>An event in which nothing fails.\<close>

definition clean :: "relay_event \<Rightarrow> bool" where
  "clean e = (case e of FromBrowser t p now ok \<Rightarrow> ok \<and> length p \<le> wsMaxMessageSize
     | FromUpstream t p now ok \<Rightarrow> ok \<and> length p \<le> wsMaxMessageSize | _ \<Rightarrow> False)"

definition relay_open :: "'w relay \<Rightarrow> bool" where
  "relay_open s = (\<not> rl_up_done s \<and> \<not> rl_down_done s \<and> \<not> rl_browser_closed s \<and> \<not> rl_upstream_closed s)"

text \<open>How one event moves the two directions, when the observers only look.\<close>

lemma relay_step_tap:
  assumes "\<forall>h \<in> set (wsFrameObservers b). frame_tap h I" "I (px_bus (rl_px s))"
  shows "I (px_bus (rl_px (relay_step b e s)))"
    and "(rl_up_done s \<longrightarrow> rl_up_done (relay_step b e s) \<and> px_up (rl_px (relay_step b e s)) = px_up (rl_px s))"
    and "(rl_down_done s \<longrightarrow> rl_down_done (relay_step b e s) \<and> px_down (rl_px (relay_step b e s)) = px_down (rl_px s))"
    and "px_up (rl_px (relay_step b e s)) = px_up (rl_px s) @ browser_messages [e]
      \<or> px_up (rl_px (relay_step b e s)) = px_up (rl_px s) \<and> (browser_messages [e] = [] \<or> rl_up_done (relay_step b e s))"
    and "px_down (rl_px (relay_step b e s)) = px_down (rl_px s) @ upstream_messages [e]
      \<or> px_down (rl_px (relay_step b e s)) = px_down (rl_px s) \<and> (upstream_messages [e] = [] \<or> rl_down_done (relay_step b e s))"
    and "relay_open s \<and> clean e \<longrightarrow> relay_open (relay_step b e s)
      \<and> px_up (rl_px (relay_step b e s)) = px_up (rl_px s) @ browser_messages [e]
      \<and> px_down (rl_px (relay_step b e s)) = px_down (rl_px s) @ upstream_messages [e]"
  using emit_ws_frame_taps [OF assms, of "frame_event (rl_conn s) (case e of FromBrowser t p n ok \<Rightarrow> n | FromUpstream t p n ok \<Rightarrow> n)
      (case e of FromBrowser t p n ok \<Rightarrow> WebSocketClient | _ \<Rightarrow> WebSocketServer)
      (case e of FromBrowser t p n ok \<Rightarrow> t | FromUpstream t p n ok \<Rightarrow> t)
      (case e of FromBrowser t p n ok \<Rightarrow> p | FromUpstream t p n ok \<Rightarrow> p)"] assms(2)
  by (cases e; simp add: relay_up_def relay_down_def browser_error_def upstream_error_def case_prod_beta Let_def
      relay_open_def clean_def payload_bytes_def frame_event_def)+

lemma relay_run_Cons: "relay_run b (e # es) s = relay_run b es (relay_step b e s)"
  by (simp add: relay_run_def)

lemma messages_Cons:
  "browser_messages (e # es) = browser_messages [e] @ browser_messages es"
  "upstream_messages (e # es) = upstream_messages [e] @ upstream_messages es"
  by (simp_all add: browser_messages_def upstream_messages_def)

lemma relay_frozen:
  assumes "\<forall>h \<in> set (wsFrameObservers b). frame_tap h I" "I (px_bus (rl_px s))"
  shows "(rl_up_done s \<longrightarrow> px_up (rl_px (relay_run b es s)) = px_up (rl_px s))
    \<and> (rl_down_done s \<longrightarrow> px_down (rl_px (relay_run b es s)) = px_down (rl_px s))"
  using assms(2)
proof (induction es arbitrary: s)
  case (Cons e es)
  from relay_step_tap [OF assms(1) Cons.prems, of e] Cons.IH [of "relay_step b e s"] show ?case
    by (auto simp: relay_run_Cons)
qed (simp add: relay_run_def)

lemma relay_prefix:
  assumes "\<forall>h \<in> set (wsFrameObservers b). frame_tap h I" "I (px_bus (rl_px s))"
  shows "(\<exists>ms. px_up (rl_px (relay_run b es s)) = px_up (rl_px s) @ ms \<and> prefix ms (browser_messages es))
    \<and> (\<exists>ms. px_down (rl_px (relay_run b es s)) = px_down (rl_px s) @ ms \<and> prefix ms (upstream_messages es))"
  using assms(2)
proof (induction es arbitrary: s)
  case Nil
  then show ?case by (simp add: relay_run_def)
next
  case (Cons e es)
  let ?t = "relay_step b e s"
  note st = relay_step_tap [OF assms(1) Cons.prems, of e]
  obtain ms where up: "px_up (rl_px (relay_run b es ?t)) = px_up (rl_px ?t) @ ms" "prefix ms (browser_messages es)"
    using Cons.IH [OF st(1)] by blast
  obtain ns where dn: "px_down (rl_px (relay_run b es ?t)) = px_down (rl_px ?t) @ ns" "prefix ns (upstream_messages es)"
    using Cons.IH [OF st(1)] by blast
  note fr = relay_frozen [OF assms(1) st(1), of es]
  have "\<exists>ms. px_up (rl_px (relay_run b es ?t)) = px_up (rl_px s) @ ms \<and> prefix ms (browser_messages (e # es))"
  proof (cases "px_up (rl_px ?t) = px_up (rl_px s) @ browser_messages [e]")
    case True
    with up show ?thesis
      by (intro exI [of _ "browser_messages [e] @ ms"]) (simp add: messages_Cons(1) [of e es])
  next
    case False
    with st(4) have "px_up (rl_px ?t) = px_up (rl_px s)" "rl_up_done ?t" by auto
    with fr show ?thesis by (intro exI [of _ "[]"]) simp
  qed
  moreover have "\<exists>ms. px_down (rl_px (relay_run b es ?t)) = px_down (rl_px s) @ ms \<and> prefix ms (upstream_messages (e # es))"
  proof (cases "px_down (rl_px ?t) = px_down (rl_px s) @ upstream_messages [e]")
    case True
    with dn show ?thesis
      by (intro exI [of _ "upstream_messages [e] @ ns"]) (simp add: messages_Cons(2) [of e es])
  next
    case False
    with st(5) have "px_down (rl_px ?t) = px_down (rl_px s)" "rl_down_done ?t" by auto
    with fr show ?thesis by (intro exI [of _ "[]"]) simp
  qed
  ultimately show ?case by (simp only: relay_run_Cons)
qed

lemma relay_clean:
  assumes "\<forall>h \<in> set (wsFrameObservers b). frame_tap h I" "I (px_bus (rl_px s))"
  shows "relay_open s \<Longrightarrow> \<forall>e \<in> set es. clean e \<Longrightarrow>
      px_up (rl_px (relay_run b es s)) = px_up (rl_px s) @ browser_messages es
    \<and> px_down (rl_px (relay_run b es s)) = px_down (rl_px s) @ upstream_messages es
    \<and> relay_open (relay_run b es s)"
  using assms(2)
proof (induction es arbitrary: s)
  case (Cons e es)
  from relay_step_tap [OF assms(1) Cons.prems(3), of e] Cons.IH [of "relay_step b e s"] Cons.prems(1,2)
  show ?case by (simp add: relay_run_Cons messages_Cons [of e es])
qed (simp add: relay_run_def)


text \<open>A bus with one observer that counts the frames it sees.\<close>

definition counting_tap :: "nat WebSocketFrameObserver" where
  "counting_tap e n = (\<lparr>fr_payload = wf_payload e\<rparr>, Suc n)"

interpretation counting: frame_tap counting_tap "\<lambda>_. True"
  by unfold_locales (simp_all add: counting_tap_def)


end
