(* ===== verification/Proxy.thy ===== *)
theory Proxy
  imports WsProxy Project
begin

text \<open>
  The intercepting proxy (\<open>internal/proxy\<close>: \<open>proxy.go\<close>, \<open>forward.go\<close>, \<open>mitm.go\<close>, \<open>mitm2.go\<close>):
  one plain HTTP exchange, a CONNECT tunnel with its HTTP/1.1 loop, and one HTTP/2 stream.

  The record \<open>env\<close> holds what is outside: parsing a URL, the upstream server (a function of the
  requests sent to it so far), how much of a response body could be copied before the browser stopped
  reading, the clock. An \<open>http.Request\<close> that a middleware returns without a URL, and a result
  without a request, make the handler panic, which its caller recovers.
\<close>

definition maxBodySize :: nat where
  "maxBodySize = 10485760"

record env =
  en_codecs :: codecs
  en_url_host :: "string \<Rightarrow> string option"
  en_upstream :: "out_request list \<Rightarrow> (int \<times> header \<times> string) option"
  en_copied :: "out_request list \<Rightarrow> nat option"
  en_start :: "out_request list \<Rightarrow> int"
  en_elapsed :: "out_request list \<Rightarrow> int"

text \<open>How a handler ends: it goes on, the connection is given up, or it panicked.\<close>

datatype outcome = Served | Ended | Panicked

definition limited :: "string \<Rightarrow> string" where
  "limited b = take maxBodySize b"

definition respond :: "int \<Rightarrow> header \<Rightarrow> string \<Rightarrow> 'w px \<Rightarrow> 'w px" where
  "respond code h b s = s\<lparr>px_written := px_written s @ [Response code h b]\<rparr>"

text \<open>\<open>http.Error\<close>.\<close>

definition http_error :: "string \<Rightarrow> int \<Rightarrow> 'w px \<Rightarrow> 'w px" where
  "http_error msg code = respond code [(''Content-Type'', [''text/plain; charset=utf-8'']),
     (''X-Content-Type-Options'', [''nosniff''])] (msg @ [CHR 0x0A])"

text \<open>\<open>http.NewRequest\<close>: \<open>None\<close> for its error.\<close>

definition new_request :: "env \<Rightarrow> string \<Rightarrow> string \<Rightarrow> string \<Rightarrow> out_request option" where
  "new_request en method u body = (let method = (if method = [] then ''GET'' else method) in
     if \<not> list_all token_char method then None
     else case en_url_host en u of None \<Rightarrow> None
       | Some host \<Rightarrow> Some \<lparr>oq_method = method, oq_url = u, oq_host = host, oq_header = [], oq_body = body\<rparr>)"

text \<open>\<open>client.Do\<close>: the request counts as sent whether or not an answer comes.\<close>

definition send_upstream :: "env \<Rightarrow> out_request \<Rightarrow> 'w px \<Rightarrow> (int \<times> header \<times> string) option \<times> 'w px" where
  "send_upstream en q s = (let s = s\<lparr>px_sent := px_sent s @ [q]\<rparr> in (en_upstream en (px_sent s), s))"

definition emit_request :: "'w bus \<Rightarrow> http_request \<Rightarrow> string \<Rightarrow> 'w px \<Rightarrow> RequestResult \<times> 'w px" where
  "emit_request b r body s = (let (res, w) = EmitRequest b \<lparr>re_request = Some r, re_body = body\<rparr> (px_bus s)
     in (res, s\<lparr>px_bus := w\<rparr>))"

definition emit_response :: "'w bus \<Rightarrow> ResponseEvent \<Rightarrow> 'w px \<Rightarrow> 'w px" where
  "emit_response b e s = s\<lparr>px_bus := EmitResponse b e (px_bus s)\<rparr>"

definition log_body :: "env \<Rightarrow> header \<Rightarrow> string \<Rightarrow> string" where
  "log_body en h body = (if IsBinary h then [] else Decompress (en_codecs en) h body)"

definition response_event :: "env \<Rightarrow> 'w px \<Rightarrow> string \<Rightarrow> string \<Rightarrow> bool \<Rightarrow> http_request \<Rightarrow> url \<Rightarrow> string
    \<Rightarrow> int \<Rightarrow> header \<Rightarrow> string \<Rightarrow> ResponseEvent" where
  "response_event en s host proto tls req u body code h respBody = \<lparr>ev_timestamp = en_start en (px_sent s),
     ev_host = host, ev_proto = proto, ev_method = rq_method req, ev_url = url_string u,
     ev_req_headers = rq_header req, ev_req_body = body, ev_status = code, ev_resp_headers = h,
     ev_resp_body = log_body en h respBody, ev_duration_ms = en_elapsed en (px_sent s), ev_tls = tls\<rparr>"

section \<open>Plain HTTP\<close>

definition forward_request :: "env \<Rightarrow> http_request \<Rightarrow> url \<Rightarrow> string \<Rightarrow> out_request option" where
  "forward_request en req u body = (case new_request en (rq_method req) (url_string u) body of None \<Rightarrow> None
     | Some q \<Rightarrow> Some (q\<lparr>oq_header := StripRequestCacheHeaders
         (filter (\<lambda>(k, _). k \<notin> set HopByHop) (rq_header req))\<rparr>))"

definition forward :: "env \<Rightarrow> http_request \<Rightarrow> url \<Rightarrow> string \<Rightarrow> 'w px \<Rightarrow> (int \<times> header \<times> string) option \<times> 'w px" where
  "forward en req u body s = (case forward_request en req u body of None \<Rightarrow> (None, s)
     | Some q \<Rightarrow> (case send_upstream en q s of (None, s) \<Rightarrow> (None, s)
         | (Some (code, h, b), s) \<Rightarrow> (Some (code, StripResponseCacheHeaders h, b), s)))"

text \<open>The branch of \<open>ServeHTTP\<close> for any method but CONNECT; \<open>stream\<close> is what reading the body yields.\<close>

definition serve_plain :: "env \<Rightarrow> 'w bus \<Rightarrow> http_request \<Rightarrow> string option \<Rightarrow> 'w px \<Rightarrow> outcome \<times> 'w px" where
  "serve_plain en b r stream s = (case stream of
     None \<Rightarrow> (Served, http_error ''failed to read request body'' 400 s)
   | Some all \<Rightarrow> (let (res, s) = emit_request b r (limited all) s in
       if rr_drop res then (Served, http_error ''request dropped'' 403 s)
       else case rr_request res of None \<Rightarrow> (Panicked, s)
         | Some req \<Rightarrow> (case rq_url req of None \<Rightarrow> (Panicked, s)
           | Some u \<Rightarrow> (case forward en req u (rr_reqbody res) s of
               (None, s) \<Rightarrow> (Served, http_error ''bad gateway'' 502 s)
             | (Some (code, h, body), s) \<Rightarrow>
                 (let got = (case en_copied en (px_sent s) of None \<Rightarrow> limited body | Some n \<Rightarrow> take n (limited body));
                      s = respond code (h_add_all [] h) got s
                  in (Served, emit_response b (response_event en s (rq_host req) ''HTTP/1.1'' False req u
                       (rr_reqbody res) code h got) s))))))"

section \<open>CONNECT tunnels\<close>

definition bare_host :: "string \<Rightarrow> string" where
  "bare_host host = (case split_host_port host of Some (h, _) \<Rightarrow> h | None \<Rightarrow> host)"

definition mitm_target :: "string \<Rightarrow> http_request \<Rightarrow> url \<Rightarrow> http_request" where
  "mitm_target host req u = req\<lparr>rq_url := Some (u\<lparr>u_scheme := ''https'', u_host := host\<rparr>)\<rparr>"

text \<open>The upstream request of the tunnel; an HTTP/2 stream also loses \<open>Transfer-Encoding\<close>.\<close>

definition mitm_request :: "env \<Rightarrow> bool \<Rightarrow> string \<Rightarrow> http_request \<Rightarrow> url \<Rightarrow> string \<Rightarrow> out_request option" where
  "mitm_request en h2 host req u body = (case new_request en (rq_method req) (url_string u) body of None \<Rightarrow> None
     | Some q \<Rightarrow> Some (q\<lparr>oq_host := NormalizeHost (bare_host host) True,
         oq_header := StripRequestCacheHeaders
           (if h2 then h_del (rq_header req) ''Transfer-Encoding'' else rq_header req)\<rparr>))"

text \<open>
  One turn of the HTTP/1.1 loop. A request is what \<open>http.ReadRequest\<close> made of the bytes, with its URL
  and its body, \<open>None\<close> when reading it failed. \<open>resp.Write\<close> to the browser succeeds or fails; the body is
  drained either way.
\<close>

record browser_request =
  br_request :: http_request
  br_url :: url
  br_stream :: "string option"
  br_websocket :: "ws_session option"

definition mitm_exchange :: "env \<Rightarrow> 'w bus \<Rightarrow> string \<Rightarrow> browser_request \<Rightarrow> 'w px \<Rightarrow> outcome \<times> 'w px" where
  "mitm_exchange en b host r s = (case br_stream r of
     None \<Rightarrow> (Ended, s)
   | Some all \<Rightarrow> (let req = mitm_target host (br_request r) (br_url r) in
       case br_websocket r of
         Some ws \<Rightarrow> (Ended, handleWebSocketTLS b ws (br_url r) (rq_header req) host s)
       | None \<Rightarrow> (let (res, s) = emit_request b req (limited all) s in
           if rr_drop res then (Served, respond 403 [] [] s)
           else case rr_request res of None \<Rightarrow> (Panicked, s)
             | Some req \<Rightarrow> (case rq_url req of None \<Rightarrow> (Panicked, s)
               | Some u \<Rightarrow> (case mitm_request en False host req u (rr_reqbody res) of None \<Rightarrow> (Ended, s)
                 | Some q \<Rightarrow> (case send_upstream en q s of
                     (None, s) \<Rightarrow> (Ended, s)
                   | (Some (code, h, body), s) \<Rightarrow>
                       (let h = StripResponseCacheHeaders h; got = limited body in
                        case en_copied en (px_sent s) of
                          Some n \<Rightarrow> (Ended, respond code h (take n got) s)
                        | None \<Rightarrow> (let s = respond code h got s in
                            (Served, emit_response b (response_event en s host ''HTTP/1.1'' True req u
                               (rr_reqbody res) code h got) s)))))))))"

fun mitm_loop :: "env \<Rightarrow> 'w bus \<Rightarrow> string \<Rightarrow> browser_request list \<Rightarrow> 'w px \<Rightarrow> outcome \<times> 'w px" where
  "mitm_loop en b host [] s = (Ended, s)"
| "mitm_loop en b host (r # rs) s = (case mitm_exchange en b host r s of
     (Served, s) \<Rightarrow> mitm_loop en b host rs s
   | (o1, s) \<Rightarrow> (o1, s))"

text \<open>
  One stream of an HTTP/2 connection (\<open>handleConnectH2\<close>'s handler). When the browser stops reading,
  the rest of the upstream body is still read for the log, past the limit.
\<close>

definition h2_stream :: "env \<Rightarrow> 'w bus \<Rightarrow> string \<Rightarrow> browser_request \<Rightarrow> 'w px \<Rightarrow> outcome \<times> 'w px" where
  "h2_stream en b host r s = (case br_stream r of
     None \<Rightarrow> (Served, http_error ''bad request'' 400 s)
   | Some all \<Rightarrow> (let (res, s) = emit_request b (mitm_target host (br_request r) (br_url r)) (limited all) s in
       if rr_drop res then (Served, http_error ''request dropped'' 403 s)
       else case rr_request res of None \<Rightarrow> (Panicked, s)
         | Some req \<Rightarrow> (case rq_url req of None \<Rightarrow> (Panicked, s)
           | Some u \<Rightarrow> (case mitm_request en True host req u (rr_reqbody res) of
               None \<Rightarrow> (Served, http_error ''internal error'' 500 s)
             | Some q \<Rightarrow> (case send_upstream en q s of
                 (None, s) \<Rightarrow> (Served, http_error ''bad gateway'' 502 s)
               | (Some (code, h, body), s) \<Rightarrow>
                   (let h = StripResponseCacheHeaders (h_del h ''Transfer-Encoding'');
                        (shown, logged) = (case en_copied en (px_sent s) of None \<Rightarrow> (limited body, limited body)
                           | Some n \<Rightarrow> (take n (limited body), body));
                        s = respond code (h_add_all [] h) shown s
                    in (Served, emit_response b (response_event en s host ''HTTP/2'' True req u
                         (rr_reqbody res) code h logged) s)))))))"

text \<open>
  The tunnel: hijacking the connection, the certificate for the host and the TLS handshake with the
  browser are outside; the negotiated protocol decides. Streams of HTTP/2 are handled one by one here.
\<close>

record tunnel =
  tn_hijacked :: bool
  tn_cert :: "string \<Rightarrow> bool"
  tn_handshake :: bool
  tn_h2 :: bool
  tn_requests :: "browser_request list"

definition handleConnect :: "env \<Rightarrow> 'w bus \<Rightarrow> string \<Rightarrow> tunnel \<Rightarrow> 'w px \<Rightarrow> 'w px" where
  "handleConnect en b host tn s = (let s = respond 200 [] [] s in
     if \<not> tn_hijacked tn then s
     else if \<not> tn_cert tn (bare_host host) then s
     else if \<not> tn_handshake tn then s
     else if tn_h2 tn then fold (\<lambda>r s. snd (h2_stream en b host r s)) (tn_requests tn) s
     else snd (mitm_loop en b host (tn_requests tn) s))"

definition ServeHTTP :: "env \<Rightarrow> 'w bus \<Rightarrow> http_request \<Rightarrow> string option \<Rightarrow> tunnel \<Rightarrow> 'w px \<Rightarrow> 'w px" where
  "ServeHTTP en b r stream tn s = (if rq_method r = ''CONNECT'' then handleConnect en b (rq_host r) tn s
     else snd (serve_plain en b r stream s))"

section \<open>Dropped requests\<close>

lemma respond_simps [simp]:
  "px_sent (respond c h b s) = px_sent s" "px_bus (respond c h b s) = px_bus s"
  "px_written (respond c h b s) = px_written s @ [Response c h b]"
  by (simp_all add: respond_def)

lemma http_error_simps [simp]:
  "px_sent (http_error m c s) = px_sent s" "px_bus (http_error m c s) = px_bus s"
  "\<exists>h b. px_written (http_error m c s) = px_written s @ [Response c h b]"
  by (simp_all add: http_error_def)

lemma emit_response_simps [simp]:
  "px_sent (emit_response b e s) = px_sent s" "px_written (emit_response b e s) = px_written s"
  "px_bus (emit_response b e s) = EmitResponse b e (px_bus s)"
  by (simp_all add: emit_response_def)

lemma emit_request_simps [simp]:
  "px_sent (snd (emit_request b r body s)) = px_sent s"
  "px_written (snd (emit_request b r body s)) = px_written s"
  "px_bus (snd (emit_request b r body s)) = snd (EmitRequest b \<lparr>re_request = Some r, re_body = body\<rparr> (px_bus s))"
  "fst (emit_request b r body s) = fst (EmitRequest b \<lparr>re_request = Some r, re_body = body\<rparr> (px_bus s))"
  by (simp_all add: emit_request_def case_prod_beta)

text \<open>What a refusal leaves behind: one 403 to the browser and the middlewares' own changes.\<close>

definition refused :: "'w px \<Rightarrow> 'w px \<Rightarrow> 'w \<Rightarrow> bool" where
  "refused s t w = (px_sent t = px_sent s \<and> px_bus t = w
     \<and> (\<exists>h b. px_written t = px_written s @ [Response 403 h b]))"


section \<open>What is sent\<close>

lemma h_vals_filter: "h_vals (filter (\<lambda>(k, _). P k) h) k = (if P k then h_vals h k else [])"
  by (induction h) auto

lemma canonical_te [simp]: "canonical_key ''Transfer-Encoding'' = ''Transfer-Encoding''"
  by code_simp

text \<open>What the proxy sends upstream is the request the middlewares returned. On the plain path the
  method, URL and body are theirs and so is every header except the hop-by-hop and the conditional
  ones, which are all removed. In a tunnel only the conditional ones are removed: hop-by-hop headers
  go upstream although \<open>headers.go\<close> says they must not.\<close>

theorem sent_headers:
  assumes "forward_request en req u body = Some q" "mitm_request en h2 host req u body = Some q'"
  shows "oq_body q = body \<and> oq_url q = url_string u \<and> oq_body q' = body \<and> oq_url q' = url_string u
    \<and> (rq_method req \<noteq> [] \<longrightarrow> oq_method q = rq_method req \<and> oq_method q' = rq_method req)
    \<and> h_vals (oq_header q) k = (if k \<in> set HopByHop \<or> k \<in> set stripped_request_keys then [] else h_vals (rq_header req) k)
    \<and> h_vals (oq_header q') k = (if k \<in> set stripped_request_keys \<or> h2 \<and> k = ''Transfer-Encoding'' then []
         else h_vals (rq_header req) k)"
proof -
  have "oq_header q = StripRequestCacheHeaders (filter (\<lambda>(k, _). k \<notin> set HopByHop) (rq_header req))"
    "oq_header q' = StripRequestCacheHeaders (if h2 then h_del (rq_header req) ''Transfer-Encoding'' else rq_header req)"
    using assms by (auto simp: forward_request_def mitm_request_def split: option.splits)
  moreover have "oq_body q = body \<and> oq_url q = url_string u \<and> oq_body q' = body \<and> oq_url q' = url_string u
      \<and> (rq_method req \<noteq> [] \<longrightarrow> oq_method q = rq_method req \<and> oq_method q' = rq_method req)"
    using assms by (auto simp: forward_request_def mitm_request_def new_request_def Let_def split: option.splits if_splits)
  ultimately show ?thesis
    by (auto simp: h_vals_StripRequestCacheHeaders h_vals_filter h_vals_del)
qed

text \<open>The Host header of a tunnelled request is the CONNECT host without its port, whatever the port:
  a server on another port than 443 is named wrongly, although the URL keeps the port.\<close>

theorem mitm_host_loses_port:
  assumes "set h \<inter> {CHR ''['', CHR '']'', CHR '':''} = {}" "set port \<inter> {CHR ''['', CHR '']'', CHR '':''} = {}"
    and "mitm_request en h2 (h @ '':'' @ port) req u body = Some q"
  shows "oq_host q = h"
proof -
  have b: "bare_host (h @ '':'' @ port) = h"
    using split_host_port_plain [OF assms(1,2)] by (simp add: bare_host_def)
  have "split_host_port h = None" using assms(1) by (intro split_host_port_no_colon) auto
  then have "NormalizeHost h True = h" by (simp add: NormalizeHost_def)
  with b assms(3) show ?thesis by (auto simp: mitm_request_def split: option.splits)
qed

section \<open>One answer to each request\<close>

definition one_answer :: "'w px \<Rightarrow> 'w px \<Rightarrow> bool" where
  "one_answer s t = ((\<exists>c h b. px_written t = px_written s @ [Response c h b])
     \<and> (px_sent t = px_sent s \<or> (\<exists>q. px_sent t = px_sent s @ [q])))"

lemma send_upstream_simps [simp]:
  "px_written (snd (send_upstream en q s)) = px_written s" "px_sent (snd (send_upstream en q s)) = px_sent s @ [q]"
  by (simp_all add: send_upstream_def Let_def)

lemma one_answer_respond: "px_written t = px_written s \<Longrightarrow> px_sent t = px_sent s \<or> px_sent t = px_sent s @ [q]
    \<Longrightarrow> one_answer s (respond c h b t)"
  by (auto simp: one_answer_def)

lemma one_answer_error: "px_written t = px_written s \<Longrightarrow> px_sent t = px_sent s \<or> px_sent t = px_sent s @ [q]
    \<Longrightarrow> one_answer s (http_error m c t)"
  unfolding http_error_def by (rule one_answer_respond)

lemma one_answer_emit [simp]: "one_answer s (emit_response b e t) = one_answer s t"
  by (simp add: one_answer_def)

lemma serve_plain_answers:
  assumes "serve_plain en b r stream s = (Served, t)"
  shows "one_answer s t"
proof (cases stream)
  case None
  with assms show ?thesis by (auto simp: serve_plain_def intro: one_answer_error)
next
  case (Some all)
  obtain res s1 where e: "emit_request b r (limited all) s = (res, s1)" by fastforce
  then have s1: "px_written s1 = px_written s" "px_sent s1 = px_sent s"
    using emit_request_simps [of b r "limited all" s] by auto
  show ?thesis
  proof (cases "rr_drop res")
    case True
    with assms Some e s1 show ?thesis by (auto simp: serve_plain_def intro: one_answer_error)
  next
    case False
    then obtain req u where req: "rr_request res = Some req" "rq_url req = Some u"
      using assms Some e by (auto simp: serve_plain_def split: option.splits)
    obtain x s2 where f: "forward en req u (rr_reqbody res) s1 = (x, s2)" by fastforce
    then have s2: "px_written s2 = px_written s" "px_sent s2 = px_sent s \<or> (\<exists>q. px_sent s2 = px_sent s @ [q])"
      using s1 by (auto simp: forward_def send_upstream_def Let_def split: option.splits prod.splits)
    show ?thesis
    proof (cases x)
      case None
      with assms Some e False req f s2 show ?thesis
        by (auto simp: serve_plain_def intro: one_answer_error)
    next
      case (Some y)
      obtain code h body where "y = (code, h, body)" by (metis prod_cases3)
      with Some assms \<open>stream = Some all\<close> e False req f s2 show ?thesis
        by (auto simp: serve_plain_def Let_def intro: one_answer_respond)
    qed
  qed
qed

lemma h2_stream_answers:
  assumes "h2_stream en b host r s = (Served, t)"
  shows "one_answer s t"
proof (cases "br_stream r")
  case None
  with assms show ?thesis by (auto simp: h2_stream_def intro: one_answer_error)
next
  case (Some all)
  obtain res s1 where e: "emit_request b (mitm_target host (br_request r) (br_url r)) (limited all) s = (res, s1)" by fastforce
  then have s1: "px_written s1 = px_written s" "px_sent s1 = px_sent s"
    using emit_request_simps [of b _ "limited all" s] by (metis snd_conv)+
  show ?thesis
  proof (cases "rr_drop res")
    case True
    with assms Some e s1 show ?thesis by (auto simp: h2_stream_def intro: one_answer_error)
  next
    case False
    then obtain req u where req: "rr_request res = Some req" "rq_url req = Some u"
      using assms Some e by (auto simp: h2_stream_def split: option.splits)
    show ?thesis
    proof (cases "mitm_request en True host req u (rr_reqbody res)")
      case None
      with assms Some e False req s1 show ?thesis by (auto simp: h2_stream_def intro: one_answer_error)
    next
      case (Some q)
      obtain x s2 where f: "send_upstream en q s1 = (x, s2)" by fastforce
      then have s2: "px_written s2 = px_written s" "px_sent s2 = px_sent s @ [q]"
        using s1 send_upstream_simps [of en q s1] by auto
      show ?thesis
      proof (cases x)
        case None
        with Some assms \<open>br_stream r = Some all\<close> e False req f s2 show ?thesis
          by (auto simp: h2_stream_def intro: one_answer_error)
      next
        case (Some y)
        obtain code h body where "y = (code, h, body)" by (metis prod_cases3)
        with Some \<open>mitm_request en True host req u (rr_reqbody res) = Some q\<close> assms \<open>br_stream r = Some all\<close>
          e False req f s2 show ?thesis
          by (auto simp: h2_stream_def Let_def case_prod_beta intro: one_answer_respond)
      qed
    qed
  qed
qed

lemma mitm_exchange_answers:
  assumes "mitm_exchange en b host r s = (Served, t)"
  shows "one_answer s t"
proof -
  obtain all where all: "br_stream r = Some all" "br_websocket r = None"
    using assms by (auto simp: mitm_exchange_def Let_def split: option.splits)
  obtain res s1 where e: "emit_request b (mitm_target host (br_request r) (br_url r)) (limited all) s = (res, s1)" by fastforce
  then have s1: "px_written s1 = px_written s" "px_sent s1 = px_sent s"
    using emit_request_simps [of b _ "limited all" s] by (metis snd_conv)+
  show ?thesis
  proof (cases "rr_drop res")
    case True
    with assms all e s1 show ?thesis by (auto simp: mitm_exchange_def intro: one_answer_respond)
  next
    case False
    then obtain req u q where req: "rr_request res = Some req" "rq_url req = Some u"
      "mitm_request en False host req u (rr_reqbody res) = Some q"
      using assms all e by (auto simp: mitm_exchange_def split: option.splits)
    obtain x s2 where f: "send_upstream en q s1 = (x, s2)" by fastforce
    then have s2: "px_written s2 = px_written s" "px_sent s2 = px_sent s @ [q]"
      using s1 send_upstream_simps [of en q s1] by auto
    obtain code h body where "x = Some (code, h, body)"
      using assms all e False req f by (cases x) (auto simp: mitm_exchange_def)
    with assms all e False req f s2 show ?thesis
      by (auto simp: mitm_exchange_def Let_def split: option.splits intro: one_answer_respond)
  qed
qed

text \<open>The state after the first \<open>k\<close> requests of a tunnel.\<close>

definition after_requests :: "env \<Rightarrow> 'w bus \<Rightarrow> string \<Rightarrow> browser_request list \<Rightarrow> 'w px \<Rightarrow> 'w px" where
  "after_requests en b host rs s = fold (\<lambda>r s. snd (mitm_exchange en b host r s)) rs s"

definition all_served :: "env \<Rightarrow> 'w bus \<Rightarrow> string \<Rightarrow> browser_request list \<Rightarrow> 'w px \<Rightarrow> bool" where
  "all_served en b host rs s = (\<forall>i < length rs.
     fst (mitm_exchange en b host (rs ! i) (after_requests en b host (take i rs) s)) = Served)"

lemma all_served_Cons:
  "all_served en b host (r # rs) s \<longleftrightarrow> fst (mitm_exchange en b host r s) = Served
     \<and> all_served en b host rs (snd (mitm_exchange en b host r s))"
proof
  assume a: "all_served en b host (r # rs) s"
  have "fst (mitm_exchange en b host r s) = Served"
    using a [unfolded all_served_def, rule_format, of 0] by (simp add: after_requests_def)
  moreover have "all_served en b host rs (snd (mitm_exchange en b host r s))"
    unfolding all_served_def
  proof (intro allI impI)
    fix i assume "i < length rs"
    then show "fst (mitm_exchange en b host (rs ! i)
        (after_requests en b host (take i rs) (snd (mitm_exchange en b host r s)))) = Served"
      using a [unfolded all_served_def, rule_format, of "Suc i"] by (simp add: after_requests_def)
  qed
  ultimately show "fst (mitm_exchange en b host r s) = Served
     \<and> all_served en b host rs (snd (mitm_exchange en b host r s))" ..
next
  assume a: "fst (mitm_exchange en b host r s) = Served \<and> all_served en b host rs (snd (mitm_exchange en b host r s))"
  show "all_served en b host (r # rs) s"
    unfolding all_served_def
  proof (intro allI impI)
    fix i assume "i < length (r # rs)"
    then show "fst (mitm_exchange en b host ((r # rs) ! i) (after_requests en b host (take i (r # rs)) s)) = Served"
      using a by (cases i) (simp_all add: after_requests_def all_served_def)
  qed
qed

lemma all_served_answers:
  "all_served en b host rs s \<Longrightarrow> length (px_written (after_requests en b host rs s)) = length (px_written s) + length rs
     \<and> length (px_sent (after_requests en b host rs s)) \<le> length (px_sent s) + length rs"
proof (induction rs arbitrary: s)
  case (Cons r rs)
  then have "one_answer s (snd (mitm_exchange en b host r s))"
    by (intro mitm_exchange_answers) (auto simp: all_served_Cons prod_eq_iff)
  moreover from Cons.prems have "all_served en b host rs (snd (mitm_exchange en b host r s))"
    by (simp add: all_served_Cons)
  ultimately show ?case using Cons.IH [of "snd (mitm_exchange en b host r s)"]
    by (auto simp: after_requests_def one_answer_def)
qed (simp add: after_requests_def)

text \<open>A tunnel answers its requests in order: some number of requests are served one after the other,
  each with exactly one response to the browser and at most one request upstream; then either the
  browser has no more requests, or the next request ends the tunnel (a body that cannot be read, a
  WebSocket upgrade, an upstream failure, a browser that stopped reading, a panic), and the requests
  after it are not looked at.\<close>

theorem tunnel_answers_in_order:
  assumes "mitm_loop en b host rs s = (out, t)"
  shows "out \<noteq> Served \<and> (\<exists>k \<le> length rs. all_served en b host (take k rs) s
    \<and> length (px_written (after_requests en b host (take k rs) s)) = length (px_written s) + k
    \<and> length (px_sent (after_requests en b host (take k rs) s)) \<le> length (px_sent s) + k
    \<and> (if k = length rs then out = Ended \<and> t = after_requests en b host rs s
       else mitm_exchange en b host (rs ! k) (after_requests en b host (take k rs) s) = (out, t)))"
proof -
  have "out \<noteq> Served \<and> (\<exists>k \<le> length rs. all_served en b host (take k rs) s
    \<and> (if k = length rs then out = Ended \<and> t = after_requests en b host rs s
       else mitm_exchange en b host (rs ! k) (after_requests en b host (take k rs) s) = (out, t)))"
    using assms
  proof (induction rs arbitrary: s)
    case Nil
    then show ?case by (simp add: all_served_def after_requests_def)
  next
    case (Cons r rs)
    obtain o1 s1 where x: "mitm_exchange en b host r s = (o1, s1)" by fastforce
    show ?case
    proof (cases "o1 = Served")
      case True
      with Cons.prems x have "mitm_loop en b host rs s1 = (out, t)" by simp
      from Cons.IH [OF this] obtain k where k: "out \<noteq> Served" "k \<le> length rs" "all_served en b host (take k rs) s1"
        "if k = length rs then out = Ended \<and> t = after_requests en b host rs s1
         else mitm_exchange en b host (rs ! k) (after_requests en b host (take k rs) s1) = (out, t)" by blast
      then show ?thesis using True x
        by (intro conjI exI [of _ "Suc k"]) (auto simp: all_served_Cons after_requests_def split: if_splits)
    next
      case False
      with Cons.prems x have "o1 = out" "s1 = t" by (cases o1; simp)+
      with False x show ?thesis
        by (intro conjI exI [of _ 0]) (auto simp: all_served_def after_requests_def)
    qed
  qed
  then obtain k where k: "out \<noteq> Served" "k \<le> length rs" "all_served en b host (take k rs) s"
    "if k = length rs then out = Ended \<and> t = after_requests en b host rs s
     else mitm_exchange en b host (rs ! k) (after_requests en b host (take k rs) s) = (out, t)" by blast
  then have "length (take k rs) = k" by simp
  with all_served_answers [OF k(3)] k show ?thesis by metis
qed

section \<open>Witnesses\<close>

text \<open>A bus whose one middleware drops requests to \<open>/admin\<close>, and an upstream that always answers.\<close>

definition demo_bus :: "nat bus" where
  "demo_bus = NewBus\<lparr>requestMiddlewares := [\<lambda>e n. (\<lparr>rr_drop = (case re_request e of None \<Rightarrow> False
       | Some r \<Rightarrow> (case rq_url r of None \<Rightarrow> False | Some u \<Rightarrow> u_path u = ''/admin'')),
     rr_request = re_request e, rr_reqbody = re_body e\<rparr>, Suc n)]\<rparr>"

definition demo_env :: env where
  "demo_env = \<lparr>en_codecs = \<lparr>gunzip = \<lambda>_. None, unzlib = \<lambda>_. None, inflate = \<lambda>_. None, unbrotli = \<lambda>_. None,
       unzstd = \<lambda>_. None\<rparr>, en_url_host = (\<lambda>u. Some ''up''), en_upstream = (\<lambda>qs. Some (200, [], ''ok'')),
     en_copied = (\<lambda>_. None), en_start = (\<lambda>_. 0), en_elapsed = (\<lambda>_. 1)\<rparr>"

definition demo_browser :: "string \<Rightarrow> browser_request" where
  "demo_browser path = \<lparr>br_request = \<lparr>rq_method = ''GET'',
        rq_url = Some \<lparr>u_scheme = ''http'', u_host = ''h'', u_path = path, u_query = []\<rparr>, rq_host = ''h'',
        rq_header = [(''Connection'', [''close'']), (''If-Match'', [''x'']), (''Accept'', [''y''])]\<rparr>,
      br_url = \<lparr>u_scheme = ''http'', u_host = ''h'', u_path = path, u_query = []\<rparr>,
      br_stream = Some [], br_websocket = None\<rparr>"

definition demo_px :: "nat px" where
  "demo_px = \<lparr>px_bus = 0, px_sent = [], px_written = [], px_up = [], px_down = []\<rparr>"

lemmas demo_simps = demo_bus_def demo_env_def demo_browser_def demo_px_def NewBus_def EmitRequest_def limited_def
  mitm_target_def


theorem sent_headers_witness:
  "\<exists>q q'. forward_request demo_env (br_request (demo_browser ''/'')) (br_url (demo_browser ''/'')) [] = Some q
    \<and> mitm_request demo_env False ''h:443'' (br_request (demo_browser ''/'')) (br_url (demo_browser ''/'')) [] = Some q'
    \<and> h_vals (oq_header q) ''Connection'' = [] \<and> h_vals (oq_header q') ''Connection'' = [''close'']"
proof -
  have g: "list_all token_char ''GET''" by code_simp
  obtain q where q: "forward_request demo_env (br_request (demo_browser ''/'')) (br_url (demo_browser ''/'')) [] = Some q"
    using g by (simp add: forward_request_def new_request_def demo_simps Let_def)
  obtain q' where q': "mitm_request demo_env False ''h:443'' (br_request (demo_browser ''/'')) (br_url (demo_browser ''/'')) [] = Some q'"
    using g by (simp add: mitm_request_def new_request_def demo_simps Let_def)
  show ?thesis
    using sent_headers [OF q q', of "''Connection''"] q q'
    by (simp add: HopByHop_def stripped_request_keys_def) (simp add: demo_browser_def Let_def)
qed

theorem mitm_host_loses_port_witness:
  "\<exists>q. mitm_request demo_env False ''h:8443'' (br_request (demo_browser ''/'')) (br_url (demo_browser ''/'')) [] = Some q
    \<and> oq_host q = ''h''"
proof -
  have "list_all token_char ''GET''" by code_simp
  then obtain q where "mitm_request demo_env False (''h'' @ '':'' @ ''8443'') (br_request (demo_browser ''/''))
      (br_url (demo_browser ''/'')) [] = Some q"
    by (simp add: mitm_request_def new_request_def demo_simps Let_def)
  with mitm_host_loses_port [OF _ _ this] show ?thesis by simp
qed

theorem tunnel_answers_in_order_witness:
  "fst (mitm_loop demo_env demo_bus ''h:443'' [demo_browser ''/admin'', demo_browser ''/''] demo_px) \<noteq> Served"
  using tunnel_answers_in_order [OF prod.collapse [symmetric],
    of demo_env demo_bus "''h:443''" "[demo_browser ''/admin'', demo_browser ''/'']" demo_px] by blast

section \<open>Starting and stopping\<close>

text \<open>
  Servers and connections are numbers. \<open>pr_running\<close> are the servers that accept connections, each
  with its address; \<open>pr_expired\<close> the tracked connections whose deadline has passed. Listening fails
  when the address is taken by a running server or, says \<open>taken\<close>, by another program.
\<close>

record proxy =
  px_addr :: string
  pr_srv :: "nat option"
  pr_next :: nat
  pr_running :: "(nat \<times> string) list"
  pr_conns :: "nat set"
  pr_expired :: "nat set"

definition new_proxy :: "string \<Rightarrow> proxy" where
  "new_proxy addr = \<lparr>px_addr = addr, pr_srv = None, pr_next = 0, pr_running = [], pr_conns = {}, pr_expired = {}\<rparr>"

definition trackConn :: "nat \<Rightarrow> proxy \<Rightarrow> proxy" where
  "trackConn i p = p\<lparr>pr_conns := insert i (pr_conns p), pr_expired := pr_expired p - {i}\<rparr>"

definition untrackConn :: "nat \<Rightarrow> proxy \<Rightarrow> proxy" where
  "untrackConn i p = p\<lparr>pr_conns := pr_conns p - {i}\<rparr>"

definition closeAllConns :: "proxy \<Rightarrow> proxy" where
  "closeAllConns p = p\<lparr>pr_expired := pr_expired p \<union> pr_conns p\<rparr>"

definition shutdown :: "nat option \<Rightarrow> proxy \<Rightarrow> proxy" where
  "shutdown srv p = (case srv of None \<Rightarrow> p
     | Some i \<Rightarrow> p\<lparr>pr_running := filter (\<lambda>(j, _). j \<noteq> i) (pr_running p)\<rparr>)"

definition Start :: "bool \<Rightarrow> string \<Rightarrow> proxy \<Rightarrow> bool \<times> proxy" where
  "Start taken newAddr p = (if taken \<or> newAddr \<in> snd ` set (pr_running p) then (False, p)
     else let old = pr_srv p; i = pr_next p;
              p = p\<lparr>px_addr := newAddr, pr_srv := Some i, pr_next := Suc i\<rparr>;
              p = closeAllConns (shutdown old p)
       in (True, p\<lparr>pr_running := pr_running p @ [(i, newAddr)]\<rparr>))"

definition Stop :: "proxy \<Rightarrow> proxy" where
  "Stop p = (let p = (case pr_srv p of None \<Rightarrow> p | Some i \<Rightarrow> (shutdown (Some i) p)\<lparr>pr_srv := None\<rparr>) in closeAllConns p)"

definition ObserveProxyRestart :: "bool \<Rightarrow> ProxyRestartEvent \<Rightarrow> proxy \<Rightarrow> proxy" where
  "ObserveProxyRestart taken e p = snd (Start taken (pr_addr e) p)"

definition ObserveProxyStop :: "proxy \<Rightarrow> proxy" where
  "ObserveProxyStop p = Stop p"

datatype proxy_op = PStart bool string | PStop | PTrack nat | PUntrack nat

fun proxy_step :: "proxy_op \<Rightarrow> proxy \<Rightarrow> proxy" where
  "proxy_step (PStart taken a) p = snd (Start taken a p)"
| "proxy_step PStop p = Stop p"
| "proxy_step (PTrack i) p = trackConn i p"
| "proxy_step (PUntrack i) p = untrackConn i p"

text \<open>The server of record is the one server that runs, under the address of record.\<close>

definition proxy_ok :: "proxy \<Rightarrow> bool" where
  "proxy_ok p = ((case pr_srv p of None \<Rightarrow> pr_running p = []
     | Some i \<Rightarrow> i < pr_next p \<and> pr_running p = [(i, px_addr p)]))"

lemma proxy_ok_step: "proxy_ok p \<Longrightarrow> proxy_ok (proxy_step x p)"
  by (cases x) (auto simp: proxy_ok_def Start_def Stop_def shutdown_def closeAllConns_def trackConn_def
      untrackConn_def Let_def split: option.splits)

text \<open>At most one proxy server runs at a time. After any sequence of starts, stops and connections the
  running servers are exactly the server of record, at the address of record; a start that fails
  (the address is taken, also by the running proxy itself) leaves the old server running with its
  connections, a start that succeeds or a stop expires every tracked connection.\<close>

theorem one_server_runs:
  assumes "p = fold proxy_step xs (new_proxy a)"
  shows "proxy_ok p
    \<and> (\<not> fst (Start taken b p) \<longrightarrow> snd (Start taken b p) = p)
    \<and> (pr_srv p \<noteq> None \<longrightarrow> \<not> fst (Start taken (px_addr p) p))
    \<and> (fst (Start taken b p) \<longrightarrow> pr_running (snd (Start taken b p)) = [(pr_next p, b)]
         \<and> pr_conns p \<subseteq> pr_expired (snd (Start taken b p)))
    \<and> pr_running (Stop p) = [] \<and> pr_conns p \<subseteq> pr_expired (Stop p)"
proof -
  have "proxy_ok q \<Longrightarrow> proxy_ok (fold proxy_step xs q)" for q
    by (induction xs arbitrary: q) (simp_all add: proxy_ok_step)
  moreover have "proxy_ok (new_proxy a)" by (simp add: proxy_ok_def new_proxy_def)
  ultimately have ok: "proxy_ok p" using assms by simp
  then show ?thesis
    by (auto simp: proxy_ok_def Start_def Stop_def shutdown_def closeAllConns_def Let_def split: option.splits)
qed

theorem one_server_runs_witness:
  "pr_running (fold proxy_step [PStart False ''127.0.0.1:9090'', PTrack 4, PStart True ''0.0.0.0:80'', PStop] (new_proxy ''''))
    = []"
  using one_server_runs [of _ "[PStart False ''127.0.0.1:9090'', PTrack 4, PStart True ''0.0.0.0:80'']" "''''", OF refl]
  by simp

end
