(* ===== verification/App.thy ===== *)
theory App
  imports HistoryTab PluginEngine Proxy
begin

text \<open>
  The program put together, as \<open>openProject\<close> in \<open>main.go\<close> does: one event bus with the intercept gate,
  the store, the plugin engine and the proxy registered in that order, over a world that holds the
  state of all four. A handler of a component acts on its part of the world.
\<close>

record 'v world =
  wd_gate :: gate
  wd_store :: store
  wd_plugins :: "'v plugin list"
  wd_proxy :: proxy

section \<open>The handlers\<close>

definition on_store :: "(store \<Rightarrow> store) \<Rightarrow> 'v world \<Rightarrow> 'v world" where
  "on_store f w = w\<lparr>wd_store := f (wd_store w)\<rparr>"

definition on_store_result :: "(store \<Rightarrow> 'a \<times> store) \<Rightarrow> 'v world \<Rightarrow> 'a \<times> 'v world" where
  "on_store_result f w = (let (r, s) = f (wd_store w) in (r, w\<lparr>wd_store := s\<rparr>))"

definition gate_middleware :: "nat \<Rightarrow> 'v world RequestMiddleware" where
  "gate_middleware g e w = (let (r, s) = HandleRequest g e (wd_gate w) in (r, w\<lparr>wd_gate := s\<rparr>))"

definition gate_handler :: "nat \<Rightarrow> 'v world handler" where
  "gate_handler g = RequestMiddlewareFunc (gate_middleware g)"

definition store_handler :: "codec \<Rightarrow> 'v world handler" where
  "store_handler c = no_handler\<lparr>
     hd_response := Some (\<lambda>e. on_store (ObserveResponse c e)),
     hd_ws_conn := Some (\<lambda>e. on_store_result (ObserveWebSocketConnection c e)),
     hd_ws_frame := Some (\<lambda>e. on_store_result (ObserveWebSocketFrame c e)),
     hd_plugin_log := Some (\<lambda>e. on_store (ObservePluginLog e)),
     hd_plugin_enabled := Some (\<lambda>e. on_store (ObservePluginEnabled e))\<rparr>"

definition on_engine :: "('v, store) ew \<Rightarrow> 'v world \<Rightarrow> 'v world" where
  "on_engine x w = w\<lparr>wd_plugins := fst x, wd_store := snd x\<rparr>"

definition engine_of :: "'v world \<Rightarrow> ('v, store) ew" where
  "engine_of w = (wd_plugins w, wd_store w)"

definition engine_middleware :: "('v, store) vm \<Rightarrow> 'v world RequestMiddleware" where
  "engine_middleware m e w = (let (r, x) = Engine_HandleRequest m e (engine_of w) in (r, on_engine x w))"

definition engine_observer :: "('v, store) vm \<Rightarrow> 'v world ResponseObserver" where
  "engine_observer m e w = on_engine (Engine_ObserveResponse m e (engine_of w)) w"

definition engine_frames :: "('v, store) vm \<Rightarrow> 'v world WebSocketFrameObserver" where
  "engine_frames m e w = (let (r, x) = Engine_ObserveWebSocketFrame m e (engine_of w) in (r, on_engine x w))"

definition engine_handler :: "('v, store) vm \<Rightarrow> string \<Rightarrow> bool \<Rightarrow> 'v world handler" where
  "engine_handler m dir copied = no_handler\<lparr>
     hd_request := Some (engine_middleware m), hd_response := Some (engine_observer m),
     hd_ws_frame := Some (engine_frames m),
     hd_plugin_enabled := Some (\<lambda>e w. on_engine (Engine_ObservePluginEnabled e (engine_of w)) w),
     hd_plugin_load := Some (\<lambda>e w. on_engine (Engine_ObserveLoadPlugin m store_register dir copied e (engine_of w)) w)\<rparr>"

definition proxy_handler :: "bool \<Rightarrow> 'v world handler" where
  "proxy_handler taken = no_handler\<lparr>hd_proxy_command := Some
     (\<lambda>e w. w\<lparr>wd_proxy := ObserveProxyRestart taken e (wd_proxy w)\<rparr>,
      \<lambda>w. w\<lparr>wd_proxy := ObserveProxyStop (wd_proxy w)\<rparr>)\<rparr>"

text \<open>
  \<open>openProject\<close>: the store and the gate it owns are registered, then the engine if its directory could
  be read, then the proxy; the proxy starts if the preferences say so. \<open>None\<close> stands for a project that
  cannot be opened, or whose certificate authority cannot be loaded.
\<close>

record 'v project_env =
  pj_codec :: codec
  pj_vm :: "('v, store) vm"
  pj_goroutine :: nat
  pj_plugins_dir :: string
  pj_listing :: dir_listing
  pj_copied :: bool
  pj_ca :: bool
  pj_addr :: string
  pj_enabled :: bool
  pj_taken :: bool

definition app_handlers :: "'v project_env \<Rightarrow> bool \<Rightarrow> 'v world handler list" where
  "app_handlers pj with_engine = [gate_handler (pj_goroutine pj), store_handler (pj_codec pj)]
     @ (if with_engine then [engine_handler (pj_vm pj) (pj_plugins_dir pj) (pj_copied pj)] else [])
     @ [proxy_handler (pj_taken pj)]"

definition openProject :: "'v project_env \<Rightarrow> store_error + store \<Rightarrow> ('v world bus \<times> 'v world) option" where
  "openProject pj opened = (case opened of Inl _ \<Rightarrow> None
   | Inr s \<Rightarrow> (let (ps, s) = NewEngine (pj_vm pj) store_register store_enabled store_scan
           (pj_plugins_dir pj) (pj_listing pj) s
       in if \<not> pj_ca pj then None
          else case register_all (app_handlers pj (ps \<noteq> None)) NewBus of Inl _ \<Rightarrow> None
          | Inr b \<Rightarrow> (let w = \<lparr>wd_gate = NewInterceptGate, wd_store = s,
                 wd_plugins = (case ps of None \<Rightarrow> [] | Some ps \<Rightarrow> ps), wd_proxy = new_proxy (pj_addr pj)\<rparr>
               in Some (b, if pj_enabled pj then EmitProxyRestart b \<lparr>pr_addr = pj_addr pj\<rparr> w else w))))"

lemma app_bus:
  assumes "register_all (app_handlers pj True) NewBus = Inr b"
  shows "requestMiddlewares b = [gate_middleware (pj_goroutine pj), engine_middleware (pj_vm pj)]"
    and "responseObservers b = [\<lambda>e. on_store (ObserveResponse (pj_codec pj) e), engine_observer (pj_vm pj)]"
    and "wsFrameObservers b = [\<lambda>e. on_store_result (ObserveWebSocketFrame (pj_codec pj) e), engine_frames (pj_vm pj)]"
    and "wsConnObservers b = [\<lambda>e. on_store_result (ObserveWebSocketConnection (pj_codec pj) e)]"
  using register_all_lists [OF assms]
  by (simp_all add: NewBus_def app_handlers_def gate_handler_def store_handler_def engine_handler_def
      proxy_handler_def RequestMiddlewareFunc_def no_handler_def opt_list_def)

lemma app_registers: "\<exists>b. register_all (app_handlers pj e) NewBus = Inr b"
  by (simp add: app_handlers_def Register_def gate_handler_def store_handler_def engine_handler_def
      proxy_handler_def RequestMiddlewareFunc_def no_handler_def)

section \<open>Nothing in the way\<close>

text \<open>Intercept is off and no plugin wants requests, responses or frames.\<close>

definition app_idle :: "'v project_env \<Rightarrow> 'v world \<Rightarrow> bool" where
  "app_idle pj w = (gate_off (pj_goroutine pj) (wd_gate w) \<and> hook_off (pj_vm pj) ''on_request'' (engine_of w)
     \<and> hook_off (pj_vm pj) ''on_response'' (engine_of w) \<and> hook_off (pj_vm pj) ''on_websocket_frame'' (engine_of w))"

text \<open>The same, with the store as it was.\<close>

definition idle_with :: "'v project_env \<Rightarrow> store \<Rightarrow> 'v world \<Rightarrow> bool" where
  "idle_with pj s w = (app_idle pj w \<and> wd_store w = s)"

interpretation idle_gate: transparent_middleware "gate_middleware (pj_goroutine pj)" "idle_with pj s" for pj s
proof
  fix w e assume i: "idle_with pj s w"
  then have off: "gate_off (pj_goroutine pj) (wd_gate w)" by (simp add: idle_with_def app_idle_def)
  show "fst (gate_middleware (pj_goroutine pj) e w) = pass_result e"
    using intercept_off.passes [OF off] by (simp add: gate_middleware_def case_prod_beta)
  show "idle_with pj s (snd (gate_middleware (pj_goroutine pj) e w))"
    using intercept_off.keeps [OF off, of e] i
    by (auto simp: gate_middleware_def case_prod_beta idle_with_def app_idle_def engine_of_def)
qed

interpretation idle_engine: transparent_middleware "engine_middleware (pj_vm pj)" "idle_with pj s" for pj s
proof
  fix w e assume i: "idle_with pj s w"
  then have off: "hook_off (pj_vm pj) ''on_request'' (engine_of w)" by (simp add: idle_with_def app_idle_def)
  have "snd (Engine_HandleRequest (pj_vm pj) e (engine_of w)) = engine_of w"
    using off by (auto simp: Engine_HandleRequest_def engine_of_def request_loop_off split: option.split)
  then have "snd (engine_middleware (pj_vm pj) e w) = w"
    by (simp add: engine_middleware_def case_prod_beta on_engine_def engine_of_def)
  with i show "idle_with pj s (snd (engine_middleware (pj_vm pj) e w))" by simp
  show "fst (engine_middleware (pj_vm pj) e w) = pass_result e"
    using engine_off.passes [OF off] by (simp add: engine_middleware_def case_prod_beta)
qed

lemma app_request_idle:
  assumes b: "register_all (app_handlers pj True) NewBus = Inr b" and i: "app_idle pj w"
  shows "fst (EmitRequest b e w) = pass_result e \<and> idle_with pj (wd_store w) (snd (EmitRequest b e w))"
proof (rule emit_request_transparent)
  show "\<forall>m \<in> set (requestMiddlewares b). transparent_middleware m (idle_with pj (wd_store w))"
    by (simp add: app_bus [OF b] idle_gate.transparent_middleware_axioms idle_engine.transparent_middleware_axioms)
qed (simp add: i idle_with_def)

lemma app_response_idle:
  assumes b: "register_all (app_handlers pj True) NewBus = Inr b" and i: "app_idle pj w"
  shows "EmitResponse b e w = on_store (ObserveResponse (pj_codec pj) e) w"
proof -
  have "hook_off (pj_vm pj) ''on_response'' (wd_plugins w, t)" for t
    using i by (simp add: app_idle_def engine_of_def hook_off_def)
  then show ?thesis
    by (simp add: EmitResponse_def app_bus [OF b] engine_observer_def Engine_ObserveResponse_def engine_of_def
        on_engine_def on_store_def response_loop_off)
qed

section \<open>Capture, end to end\<close>

lemma healthyD: "healthy s \<Longrightarrow> \<not> s_done s \<and> (\<forall>n. \<not> s_fault s n)"
  by (simp add: healthy_def)


text \<open>A project with one header the codec knows besides the empty one.\<close>

definition app_codec :: codec where
  "app_codec = demo_codec\<lparr>
     marshal := (\<lambda>h. if h = [] then Some ''{}'' else if h = [(''Cache-Control'', [no_store])] then Some ''{c}'' else None),
     unmarshal := (\<lambda>t. if t = ''{}'' then Some [] else if t = ''{c}'' then Some [(''Cache-Control'', [no_store])] else None)\<rparr>"

definition demo_project :: "script project_env" where
  "demo_project = \<lparr>pj_codec = app_codec, pj_vm = demo_vm, pj_goroutine = 0, pj_plugins_dir = ''p'', pj_listing = NoDir,
     pj_copied = False, pj_ca = True, pj_addr = ''a'', pj_enabled = False, pj_taken = False\<rparr>"

definition demo_world :: "script world px" where
  "demo_world = \<lparr>px_bus = \<lparr>wd_gate = NewInterceptGate, wd_store = demo_store, wd_plugins = [], wd_proxy = new_proxy ''a''\<rparr>,
     px_sent = [], px_written = [], px_up = [], px_down = []\<rparr>"

lemma app_codec_laws: "time_law app_codec" "header_law app_codec []"
    "header_law app_codec (StripResponseCacheHeaders [])"
proof -
  show "time_law app_codec" using demo_time_law by (simp add: time_law_def app_codec_def)
  have "StripResponseCacheHeaders [] = [(''Cache-Control'', [no_store])]" by code_simp
  then show "header_law app_codec []" "header_law app_codec (StripResponseCacheHeaders [])"
    by (simp_all add: header_law_def app_codec_def)
qed

lemma demo_world_ok:
  "app_idle demo_project (px_bus demo_world)" "healthy (wd_store (px_bus demo_world))"
  "t_ok (t_history (wd_store (px_bus demo_world)))" "t_ok (t_ws_frames (wd_store (px_bus demo_world)))"
  "cache_ok (wd_store (px_bus demo_world))"
  by (simp_all add: demo_world_def app_idle_def engine_of_def hook_off_def gate_off_def NewInterceptGate_def)
     (simp_all add: demo_store_def fresh_store_def new_file_def cache_ok_def)

definition plain_request :: http_request where
  "plain_request = \<lparr>rq_method = ''GET'', rq_url = Some \<lparr>u_scheme = ''http'', u_host = ''h'', u_path = ''/a'', u_query = []\<rparr>,
     rq_host = ''h'', rq_header = []\<rparr>"


section \<open>WebSocket capture, end to end\<close>

text \<open>The frames of a session as the store should see them.\<close>

definition relay_frame :: "nat \<Rightarrow> relay_event \<Rightarrow> WebSocketFrameEvent list" where
  "relay_frame c e = (case e of FromBrowser t p now ok \<Rightarrow> [frame_event c now WebSocketClient t p]
     | FromUpstream t p now ok \<Rightarrow> [frame_event c now WebSocketServer t p] | _ \<Rightarrow> [])"

lemma app_frame_idle:
  assumes b: "register_all (app_handlers pj True) NewBus = Inr b" and i: "app_idle pj w"
  shows "EmitWebSocketFrame b e w = (\<lparr>fr_payload = wf_payload e\<rparr>,
    on_store (\<lambda>s. snd (ObserveWebSocketFrame (pj_codec pj) e s)) w)"
proof -
  have off: "hook_off (pj_vm pj) ''on_websocket_frame'' (wd_plugins w, t)" for t
    using i by (simp add: app_idle_def engine_of_def hook_off_def)
  have o: "fr_payload (fst (ObserveWebSocketFrame c e s)) = wf_payload e" for c s
    by (rule store_tap.same_payload) simp
  have "e\<lparr>wf_payload := wf_payload e\<rparr> = e" by simp
  then show ?thesis
    by (simp add: EmitWebSocketFrame_def app_bus [OF b] on_store_result_def on_store_def case_prod_beta o
        engine_frames_def Engine_ObserveWebSocketFrame_def engine_of_def frame_loop_off [OF off] on_engine_def)
qed

lemma app_idle_store [simp]: "app_idle pj (w\<lparr>wd_store := x\<rparr>) = app_idle pj w"
  by (simp add: app_idle_def engine_of_def hook_off_def)

lemma relay_step_app:
  assumes b: "register_all (app_handlers pj True) NewBus = Inr b" and i: "app_idle pj (px_bus (rl_px s))"
    and c: "relay_open s" "clean e"
  shows "relay_open (relay_step b e s) \<and> rl_conn (relay_step b e s) = rl_conn s
    \<and> app_idle pj (px_bus (rl_px (relay_step b e s)))
    \<and> wd_store (px_bus (rl_px (relay_step b e s)))
        = observe_frames (pj_codec pj) (relay_frame (rl_conn s) e) (wd_store (px_bus (rl_px s)))
    \<and> px_up (rl_px (relay_step b e s)) = px_up (rl_px s) @ browser_messages [e]
    \<and> px_down (rl_px (relay_step b e s)) = px_down (rl_px s) @ upstream_messages [e]"
  using c i
  by (cases e) (auto simp: relay_open_def clean_def relay_up_def relay_down_def app_frame_idle [OF b i] relay_frame_def
      observe_frames_def on_store_def payload_bytes_def frame_event_def Let_def)

lemma relay_run_app:
  assumes b: "register_all (app_handlers pj True) NewBus = Inr b"
  shows "app_idle pj (px_bus (rl_px s)) \<Longrightarrow> relay_open s \<Longrightarrow> \<forall>e \<in> set es. clean e \<Longrightarrow>
      wd_store (px_bus (rl_px (relay_run b es s)))
        = observe_frames (pj_codec pj) (concat (map (relay_frame (rl_conn s)) es)) (wd_store (px_bus (rl_px s)))
    \<and> px_up (rl_px (relay_run b es s)) = px_up (rl_px s) @ browser_messages es
    \<and> px_down (rl_px (relay_run b es s)) = px_down (rl_px s) @ upstream_messages es"
proof (induction es arbitrary: s)
  case (Cons e es)
  have "clean e" using Cons.prems(3) by simp
  from relay_step_app [OF b Cons.prems(1,2) this] Cons.IH [of "relay_step b e s"] Cons.prems(3)
  show ?case by (simp add: relay_run_Cons messages_Cons [of e es] observe_frames_def)
qed (simp add: relay_run_def observe_frames_def)

lemma relay_frames_of:
  "c \<noteq> 0 \<Longrightarrow> filter (\<lambda>e. wf_conn_id e = c) (concat (map (relay_frame c) es)) = concat (map (relay_frame c) es)"
  by (induction es) (auto simp: relay_frame_def frame_event_def split: relay_event.splits)



end
