(* ===== verification/Decoder.thy ===== *)
theory Decoder
  imports GoCodec Format
begin

text \<open>
  The Decoder tab (\<open>internal/ui/decoder.go\<close>): the table of operations and the state behind the
  two text boxes, the operation selector and the buttons. \<open>encoding/json\<close> on whole documents, the
  entity table of \<open>html.UnescapeString\<close>, the hash functions and the texts of the decoding errors
  are the fields of the record \<open>lib\<close>, which every definition takes as an argument.
\<close>

datatype decode_error = EscapeError string | CorruptBase64 bool string | CorruptHex string | SyntaxError string

record 'v lib =
  lib_unmarshal :: "string \<Rightarrow> 'v option"
  lib_encode :: "'v \<Rightarrow> string option"
  lib_marshal :: "'v \<Rightarrow> string option"
  lib_indent :: "string \<Rightarrow> string option"
  lib_unescape :: "string \<Rightarrow> string"
  lib_md5 :: "string \<Rightarrow> string"
  lib_sha1 :: "string \<Rightarrow> string"
  lib_sha256 :: "string \<Rightarrow> string"
  lib_error :: "decode_error \<Rightarrow> string"

record decoderOperation =
  op_name :: string
  fwdLabel :: string
  bwdLabel :: string
  forward :: "string \<Rightarrow> string"
  backward :: "(string \<Rightarrow> decode_error + string) option"

definition right_arrow :: string where "right_arrow = [CHR 0xE2, CHR 0x86, CHR 0x92]"
definition left_arrow :: string where "left_arrow = [CHR 0xE2, CHR 0x86, CHR 0x90]"

definition or_error :: "decode_error \<Rightarrow> string option \<Rightarrow> decode_error + string" where
  "or_error e r = (case r of None \<Rightarrow> Inl e | Some b \<Rightarrow> Inr b)"

definition base64_backward :: "string \<Rightarrow> decode_error + string" where
  "base64_backward s = (let t = trim_space s in case b64_decode False True t of
     Some b \<Rightarrow> Inr b
   | None \<Rightarrow> or_error (CorruptBase64 True t) (b64_decode True True t))"

definition base64url_backward :: "string \<Rightarrow> decode_error + string" where
  "base64url_backward s = (let t = trim_space s in or_error (CorruptBase64 True t) (b64_decode True True t))"

definition hex_backward :: "string \<Rightarrow> decode_error + string" where
  "hex_backward s = (let t = replace_all (trim_space s) '' '' '''' in or_error (CorruptHex t) (hex_decode t))"

definition trim_newlines :: "string \<Rightarrow> string" where
  "trim_newlines s = rev (dropWhile (\<lambda>c. c = CHR 0x0A) (rev s))"

definition json_pretty :: "'v lib \<Rightarrow> string \<Rightarrow> string" where
  "json_pretty l s = (case lib_unmarshal l s of
     None \<Rightarrow> ''Error: '' @ lib_error l (SyntaxError s)
   | Some v \<Rightarrow> (case lib_encode l v of
       None \<Rightarrow> ''Error: '' @ lib_error l (SyntaxError s)
     | Some b \<Rightarrow> trim_newlines b))"

definition json_minify :: "'v lib \<Rightarrow> string \<Rightarrow> decode_error + string" where
  "json_minify l s = (case lib_unmarshal l s of
     None \<Rightarrow> Inl (SyntaxError s)
   | Some v \<Rightarrow> or_error (SyntaxError s) (lib_marshal l v))"


definition jwt_part :: "'v lib \<Rightarrow> string \<Rightarrow> string \<Rightarrow> string" where
  "jwt_part l label part = (case b64_decode True False part of
     None \<Rightarrow> ''=== '' @ label @ '' ==='' @ LF @ ''Error: '' @ lib_error l (CorruptBase64 True part) @ LF @ LF
   | Some b \<Rightarrow> ''=== '' @ label @ '' ==='' @ LF @ PrettyJSON (lib_indent l) b @ LF @ LF)"

definition jwt_decode :: "'v lib \<Rightarrow> string \<Rightarrow> string" where
  "jwt_decode l s = (let parts = split (trim_space s) ''.'' in
     if length parts < 2 then ''Error: not a JWT (expected header.payload.signature)''
     else concat (map (\<lambda>(label, part). jwt_part l label part) (zip [''Header'', ''Payload''] (take 2 parts)))
       @ (if 3 \<le> length parts then ''=== Signature ==='' @ LF @ parts ! 2 else []))"

definition two_way :: "string \<Rightarrow> string \<Rightarrow> string \<Rightarrow> (string \<Rightarrow> string) \<Rightarrow> (string \<Rightarrow> decode_error + string) \<Rightarrow> decoderOperation" where
  "two_way name fl bl f b = \<lparr>op_name = name, fwdLabel = fl @ '' '' @ right_arrow, bwdLabel = left_arrow @ '' '' @ bl,
     forward = f, backward = Some b\<rparr>"

definition one_way :: "string \<Rightarrow> string \<Rightarrow> (string \<Rightarrow> string) \<Rightarrow> decoderOperation" where
  "one_way name fl f = \<lparr>op_name = name, fwdLabel = fl @ '' '' @ right_arrow, bwdLabel = [],
     forward = f, backward = None\<rparr>"

definition decoderOps :: "'v lib \<Rightarrow> decoderOperation list" where
  "decoderOps l =
    [two_way ''URL Encode / Decode'' ''Encode'' ''Decode'' QueryEscape
       (\<lambda>s. or_error (EscapeError s) (QueryUnescape s)),
     two_way ''URL Path Encode / Decode'' ''Encode'' ''Decode'' PathEscape
       (\<lambda>s. or_error (EscapeError s) (PathUnescape s)),
     two_way ''Base64 Encode / Decode'' ''Encode'' ''Decode'' (b64_encode False True) base64_backward,
     two_way ''Base64 URL-safe Encode / Decode'' ''Encode'' ''Decode'' (b64_encode True True) base64url_backward,
     two_way ''Hex Encode / Decode'' ''Encode'' ''Decode'' hex_encode hex_backward,
     two_way ''HTML Entity Encode / Decode'' ''Encode'' ''Decode'' EscapeString (\<lambda>s. Inr (lib_unescape l s)),
     two_way ''JSON Pretty / Minify'' ''Pretty'' ''Minify'' (json_pretty l) (json_minify l),
     one_way ''JWT Decode (no verify)'' ''Decode'' (jwt_decode l),
     one_way ''MD5 Hash'' ''Hash'' (\<lambda>s. hex_encode (lib_md5 l s)),
     one_way ''SHA1 Hash'' ''Hash'' (\<lambda>s. hex_encode (lib_sha1 l s)),
     one_way ''SHA256 Hash'' ''Hash'' (\<lambda>s. hex_encode (lib_sha256 l s))]"

section \<open>The tab\<close>

record decoder =
  dec_input :: string
  dec_output :: string
  selectedIdx :: nat
  fwd_text :: string
  bwd_text :: string
  bwd_shown :: bool

definition cur_op :: "'v lib \<Rightarrow> decoder \<Rightarrow> decoderOperation" where
  "cur_op l d = decoderOps l ! selectedIdx d"

definition tap_forward :: "'v lib \<Rightarrow> decoder \<Rightarrow> decoder" where
  "tap_forward l d = d\<lparr>dec_output := forward (cur_op l d) (dec_input d)\<rparr>"

definition tap_backward :: "'v lib \<Rightarrow> decoder \<Rightarrow> decoder" where
  "tap_backward l d = (case backward (cur_op l d) of None \<Rightarrow> d
     | Some b \<Rightarrow> (case b (dec_input d) of
         Inl e \<Rightarrow> d\<lparr>dec_output := ''Error: '' @ lib_error l e\<rparr>
       | Inr r \<Rightarrow> d\<lparr>dec_output := r\<rparr>))"

text \<open>The first operation with the selected name.\<close>

definition select_op :: "'v lib \<Rightarrow> string \<Rightarrow> decoder \<Rightarrow> decoder" where
  "select_op l s d = (case filter (\<lambda>(i, op). op_name op = s) (enumerate 0 (decoderOps l)) of
     [] \<Rightarrow> d
   | (i, op) # _ \<Rightarrow> (case backward op of
       None \<Rightarrow> d\<lparr>selectedIdx := i, fwd_text := fwdLabel op, bwd_shown := False\<rparr>
     | Some _ \<Rightarrow> d\<lparr>selectedIdx := i, fwd_text := fwdLabel op, bwd_text := bwdLabel op, bwd_shown := True\<rparr>))"

definition swap_texts :: "decoder \<Rightarrow> decoder" where
  "swap_texts d = d\<lparr>dec_input := dec_output d, dec_output := dec_input d\<rparr>"

definition newDecoderTab :: "'v lib \<Rightarrow> decoder" where
  "newDecoderTab l = select_op l (op_name (decoderOps l ! 0))
     \<lparr>dec_input = [], dec_output = [], selectedIdx = 0, fwd_text = fwdLabel (decoderOps l ! 0),
      bwd_text = left_arrow @ '' Decode'', bwd_shown = True\<rparr>"

datatype decoder_event = TypeInput string | TypeOutput string | TapForward | TapBackward | Select nat | Swap

definition decoder_step :: "'v lib \<Rightarrow> decoder \<Rightarrow> decoder_event \<Rightarrow> decoder" where
  "decoder_step l d e = (case e of
     TypeInput s \<Rightarrow> d\<lparr>dec_input := s\<rparr> | TypeOutput s \<Rightarrow> d\<lparr>dec_output := s\<rparr>
   | TapForward \<Rightarrow> tap_forward l d | TapBackward \<Rightarrow> tap_backward l d
   | Select i \<Rightarrow> (if i < length (decoderOps l) then select_op l (op_name (decoderOps l ! i)) d else d)
   | Swap \<Rightarrow> swap_texts d)"

definition decoder_run :: "'v lib \<Rightarrow> decoder_event list \<Rightarrow> decoder" where
  "decoder_run l es = foldl (decoder_step l) (newDecoderTab l) es"

lemma decoderOps_names: "map op_name (decoderOps l) =
    [''URL Encode / Decode'', ''URL Path Encode / Decode'', ''Base64 Encode / Decode'',
     ''Base64 URL-safe Encode / Decode'', ''Hex Encode / Decode'', ''HTML Entity Encode / Decode'',
     ''JSON Pretty / Minify'', ''JWT Decode (no verify)'', ''MD5 Hash'', ''SHA1 Hash'', ''SHA256 Hash'']"
  by (simp add: decoderOps_def two_way_def one_way_def)

lemma decoderOps_length [simp]: "length (decoderOps l) = 11"
  by (simp add: decoderOps_def)

section \<open>What decoding gives back\<close>

lemma set_singleton_distinct: "distinct xs \<Longrightarrow> set xs = {a} \<Longrightarrow> xs = [a]"
proof (cases xs)
  case (Cons b ys)
  moreover assume "distinct xs" "set xs = {a}"
  ultimately show ?thesis by (cases ys) auto
qed simp

lemma select_op_nth:
  assumes "i < length (decoderOps l)"
  shows "select_op l (op_name (decoderOps l ! i)) d = (case backward (decoderOps l ! i) of
       None \<Rightarrow> d\<lparr>selectedIdx := i, fwd_text := fwdLabel (decoderOps l ! i), bwd_shown := False\<rparr>
     | Some _ \<Rightarrow> d\<lparr>selectedIdx := i, fwd_text := fwdLabel (decoderOps l ! i),
         bwd_text := bwdLabel (decoderOps l ! i), bwd_shown := True\<rparr>)"
proof -
  let ?ops = "decoderOps l"
  have d: "distinct (map op_name ?ops)" unfolding decoderOps_names by simp
  have "filter (\<lambda>(j, op). op_name op = op_name (?ops ! i)) (enumerate 0 ?ops) = [(i, ?ops ! i)]"
  proof -
    have "(j, op) \<in> set (enumerate 0 ?ops) \<and> op_name op = op_name (?ops ! i) \<longleftrightarrow> j = i \<and> op = ?ops ! i" for j op
      using d assms by (auto simp: in_set_enumerate_eq distinct_conv_nth)
    then have s: "set (filter (\<lambda>(j, op). op_name op = op_name (?ops ! i)) (enumerate 0 ?ops)) = {(i, ?ops ! i)}"
      by auto
    have "distinct (filter (\<lambda>(j, op). op_name op = op_name (?ops ! i)) (enumerate 0 ?ops))"
      by (rule distinct_filter) (simp add: distinct_enumerate)
    with s show ?thesis by (intro set_singleton_distinct)
  qed
  then show ?thesis by (simp add: select_op_def)
qed

lemma no_space_alpha: "n < 64 \<Longrightarrow> \<not> is_space (b64_char url n)"
  by (auto simp: is_space_def b64_char_def Let_def)

lemma b64_encode_no_space: "\<forall>c \<in> set (b64_encode url pad s). \<not> is_space c"
proof (induction url pad s rule: b64_encode.induct)
qed (simp_all add: no_space_alpha b64_bits, simp_all add: is_space_def)

lemma hex_digit_no_space: "n < 16 \<Longrightarrow> \<not> is_space (hex_digit n)"
  by (auto simp: hex_digit_def is_space_def Let_def)

lemma byte_div_16: "byte c div 16 < 16"
  using byte_less [of c] by (simp add: div_less_iff_less_mult)

lemma hex_encode_no_space: "\<forall>c \<in> set (hex_encode s). \<not> is_space c"
  by (auto simp: hex_encode_def hex_digit_no_space byte_div_16)

text \<open>What an operation's backward function makes of its forward function's result.\<close>

definition undoes :: "decoderOperation \<Rightarrow> bool" where
  "undoes op = (\<exists>b. backward op = Some b \<and> (\<forall>s. b (forward op s) = Inr s))"

lemma undoes_two_way: "(\<And>s. b (f s) = Inr s) \<Longrightarrow> undoes (two_way n fl bl f b)"
  by (simp add: undoes_def two_way_def)

lemma base64_backward_encode: "base64_backward (b64_encode False True s) = Inr s"
  by (simp add: base64_backward_def trim_space_no_space b64_encode_no_space b64_decode_encode)

lemma base64url_backward_encode: "base64url_backward (b64_encode True True s) = Inr s"
  by (simp add: base64url_backward_def trim_space_no_space b64_encode_no_space b64_decode_encode or_error_def)

lemma hex_backward_encode: "hex_backward (hex_encode s) = Inr s"
proof -
  have "CHR '' '' \<notin> set (hex_encode s)" using hex_encode_no_space by fastforce
  then show ?thesis
    by (simp add: hex_backward_def trim_space_no_space hex_encode_no_space replace_all_absent hex_decode_encode or_error_def)
qed

lemma decoderOps_undo: "i < 5 \<Longrightarrow> undoes (decoderOps l ! i)"
proof -
  assume "i < 5"
  then have "i = 0 \<or> i = 1 \<or> i = 2 \<or> i = 3 \<or> i = 4" by arith
  then show ?thesis
    by (elim disjE)
       (simp_all add: decoderOps_def undoes_two_way QueryEscape_def QueryUnescape_def PathEscape_def PathUnescape_def
         url_unescape_escape or_error_def base64_backward_encode base64url_backward_encode hex_backward_encode)
qed

section \<open>Reachable states\<close>

text \<open>The selected operation exists, and the buttons show it: \<open>Decode\<close> only where it can be undone.\<close>

definition decoder_ok :: "'v lib \<Rightarrow> decoder \<Rightarrow> bool" where
  "decoder_ok l d = (selectedIdx d < length (decoderOps l) \<and> fwd_text d = fwdLabel (cur_op l d)
     \<and> (bwd_shown d \<longleftrightarrow> backward (cur_op l d) \<noteq> None)
     \<and> (bwd_shown d \<longrightarrow> bwd_text d = bwdLabel (cur_op l d)))"

lemma select_op_ok: "i < length (decoderOps l) \<Longrightarrow> decoder_ok l (select_op l (op_name (decoderOps l ! i)) d)"
  by (simp only: select_op_nth) (auto simp: decoder_ok_def cur_op_def split: option.splits)

lemma decoder_ok_texts [simp]:
  "decoder_ok l (d\<lparr>dec_input := s\<rparr>) = decoder_ok l d" "decoder_ok l (d\<lparr>dec_output := s\<rparr>) = decoder_ok l d"
  by (simp_all add: decoder_ok_def cur_op_def)

lemma decoder_step_ok: "decoder_ok l d \<Longrightarrow> decoder_ok l (decoder_step l d e)"
  by (cases e) (auto simp: decoder_step_def tap_forward_def tap_backward_def swap_texts_def select_op_ok
      split: option.splits sum.splits)

text \<open>After any sequence of clicks, selections and edits in the Decoder tab the selected
  operation is in the table, the forward button carries its label, and the backward button is
  shown, with its label, exactly when the operation has a backward direction.\<close>

theorem decoder_buttons: "decoder_ok l (decoder_run l es)"
proof (induction es rule: rev_induct)
  case Nil
  show ?case using select_op_ok [of 0 l] by (simp add: decoder_run_def newDecoderTab_def)
next
  case (snoc e es)
  then show ?case by (simp add: decoder_run_def decoder_step_ok)
qed


definition demo_lib :: "unit lib" where
  "demo_lib = \<lparr>lib_unmarshal = (\<lambda>s. None), lib_encode = (\<lambda>v. None), lib_marshal = (\<lambda>v. None),
     lib_indent = (\<lambda>s. None), lib_unescape = id, lib_md5 = id, lib_sha1 = id, lib_sha256 = id,
     lib_error = (\<lambda>e. ''bad'')\<rparr>"


end
