(* ===== verification/Har.thy ===== *)
theory Har
  imports GoCodec Project "HOL-Library.Multiset"
begin

text \<open>
  HAR export (\<open>internal/store/har.go\<close>): the HAR 1.2 document built from a list of transactions.
  The document is the Go value before \<open>json.MarshalIndent\<close>, which is the argument \<open>encode\<close>
  together with the time format \<open>rfc3339\<close>. The order in which \<open>range\<close> visits a header or a query
  map is the order of its association list.
\<close>

record HARNameValue =
  nv_name :: string
  nv_value :: string

record HARPostData =
  pd_mimeType :: string
  pd_text :: string

record HARRequest =
  hq_method :: string
  hq_url :: string
  hq_httpVersion :: string
  hq_headers :: "HARNameValue list"
  hq_queryString :: "HARNameValue list"
  hq_postData :: "HARPostData option"
  hq_headersSize :: int
  hq_bodySize :: int

record HARContent =
  hc_size :: int
  hc_mimeType :: string
  hc_text :: string

record HARResponse =
  hp_status :: int
  hp_statusText :: string
  hp_httpVersion :: string
  hp_headers :: "HARNameValue list"
  hp_content :: HARContent
  hp_redirectURL :: string
  hp_headersSize :: int
  hp_bodySize :: int

record HARTimings =
  ht_send :: int
  ht_wait :: int
  ht_receive :: int

record HAREntry =
  he_startedDateTime :: string
  he_time :: int
  he_request :: HARRequest
  he_response :: HARResponse
  he_timings :: HARTimings

record HARCreator =
  cr_name :: string
  cr_version :: string

record HARLog =
  hl_version :: string
  hl_creator :: HARCreator
  hl_entries :: "HAREntry list"

record HAR =
  har_log :: HARLog

section \<open>The parts of an entry\<close>

text \<open>The case of one prefix of the loop; \<open>None\<close> goes on to the next.\<close>

definition strip_port_of :: "string \<Rightarrow> string \<Rightarrow> string \<Rightarrow> string option" where
  "strip_port_of pre dflt rawURL = (if \<not> has_prefix rawURL pre then None else
     let rest = drop (length pre) rawURL;
         slash = (case index_of rest ''/'' of None \<Rightarrow> length rest | Some i \<Rightarrow> i);
         host = take slash rest; path = drop slash rest
     in Some (case split_host_port host of None \<Rightarrow> rawURL
        | Some (h, port) \<Rightarrow> if port = dflt then pre @ h @ path else rawURL))"

definition stripDefaultPort :: "string \<Rightarrow> string" where
  "stripDefaultPort rawURL = (case strip_port_of ''https://'' ''443'' rawURL of
     Some u \<Rightarrow> u
   | None \<Rightarrow> (case strip_port_of ''http://'' ''80'' rawURL of Some u \<Rightarrow> u | None \<Rightarrow> rawURL))"

definition name_values :: "header \<Rightarrow> HARNameValue list" where
  "name_values h = map (\<lambda>(k, v). \<lparr>nv_name = k, nv_value = v\<rparr>) (h_lines h)"

text \<open>\<open>url.ParseQuery\<close>: the values read and whether every part was well formed.\<close>

definition query_part :: "string \<Rightarrow> (string \<times> string) option" where
  "query_part s = (let (k, v) = (case cut s ''='' of None \<Rightarrow> (s, '''') | Some p \<Rightarrow> p) in
     case (QueryUnescape k, QueryUnescape v) of (Some k', Some v') \<Rightarrow> Some (k', v') | _ \<Rightarrow> None)"

definition map_append :: "header \<Rightarrow> string \<Rightarrow> string \<Rightarrow> header" where
  "map_append m k v = h_put m k (h_vals m k @ [v])"

definition parse_query_step :: "header \<times> bool \<Rightarrow> string \<Rightarrow> header \<times> bool" where
  "parse_query_step st s = (let (m, ok) = st in
     if contains s '';'' then (m, False)
     else if s = [] then (m, ok)
     else case query_part s of None \<Rightarrow> (m, False) | Some (k, v) \<Rightarrow> (map_append m k v, ok))"

definition ParseQuery :: "string \<Rightarrow> header \<times> bool" where
  "ParseQuery q = foldl parse_query_step ([], True) (split q ''&'')"

definition extractQueryString :: "string \<Rightarrow> HARNameValue list" where
  "extractQueryString rawURL = (case index_of rawURL ''?'' of None \<Rightarrow> []
     | Some idx \<Rightarrow> (let (parsed, ok) = ParseQuery (drop (idx + 1) rawURL) in
         if \<not> ok \<or> parsed = [] then [] else name_values parsed))"

definition statusText :: "int \<Rightarrow> string" where
  "statusText code = (if status_text code \<noteq> [] then status_text code else itoa code)"

definition default_to :: "string \<Rightarrow> string \<Rightarrow> string" where
  "default_to d s = (if s = [] then d else s)"

definition buildHARRequest :: "Transaction \<Rightarrow> HARRequest" where
  "buildHARRequest tx = \<lparr>hq_method = tx_method tx, hq_url = stripDefaultPort (tx_url tx),
     hq_httpVersion = default_to ''HTTP/1.1'' (tx_proto tx), hq_headers = name_values (tx_req_headers tx),
     hq_queryString = extractQueryString (tx_url tx),
     hq_postData = (if tx_req_body tx = [] then None else Some
       \<lparr>pd_mimeType = default_to ''application/octet-stream'' (h_get (tx_req_headers tx) ''Content-Type''),
        pd_text = tx_req_body tx\<rparr>),
     hq_headersSize = -1, hq_bodySize = int (length (tx_req_body tx))\<rparr>"

definition buildHARResponse :: "Transaction \<Rightarrow> HARResponse" where
  "buildHARResponse tx = \<lparr>hp_status = tx_status tx, hp_statusText = statusText (tx_status tx),
     hp_httpVersion = default_to ''HTTP/1.1'' (tx_proto tx), hp_headers = name_values (tx_resp_headers tx),
     hp_content = \<lparr>hc_size = int (length (tx_resp_body tx)),
       hc_mimeType = default_to ''application/octet-stream'' (h_get (tx_resp_headers tx) ''Content-Type''),
       hc_text = tx_resp_body tx\<rparr>,
     hp_redirectURL = h_get (tx_resp_headers tx) ''Location'',
     hp_headersSize = -1, hp_bodySize = int (length (tx_resp_body tx))\<rparr>"

definition har_entry :: "(int \<Rightarrow> string) \<Rightarrow> Transaction \<Rightarrow> HAREntry" where
  "har_entry rfc3339 tx = \<lparr>he_startedDateTime = rfc3339 (tx_timestamp tx), he_time = tx_duration_ms tx,
     he_request = buildHARRequest tx, he_response = buildHARResponse tx,
     he_timings = \<lparr>ht_send = 0, ht_wait = tx_duration_ms tx, ht_receive = 0\<rparr>\<rparr>"

definition har_document :: "(int \<Rightarrow> string) \<Rightarrow> Transaction list \<Rightarrow> HAR" where
  "har_document rfc3339 txs = \<lparr>har_log = \<lparr>hl_version = ''1.2'',
     hl_creator = \<lparr>cr_name = ''Shiv'', cr_version = ''1.0''\<rparr>,
     hl_entries = foldl (\<lambda>es tx. es @ [har_entry rfc3339 tx]) [] txs\<rparr>\<rparr>"

definition ExportHAR :: "(int \<Rightarrow> string) \<Rightarrow> (HAR \<Rightarrow> string option) \<Rightarrow> Transaction list \<Rightarrow> string option" where
  "ExportHAR rfc3339 encode txs = encode (har_document rfc3339 txs)"

section \<open>Query strings\<close>

text \<open>A query written by \<open>url.QueryEscape\<close>.\<close>

definition encode_pair :: "string \<times> string \<Rightarrow> string" where
  "encode_pair p = QueryEscape (fst p) @ ''='' @ QueryEscape (snd p)"

definition encode_query :: "(string \<times> string) list \<Rightarrow> string" where
  "encode_query ps = join (map encode_pair ps) ''&''"

lemma escaped_chars: "c \<in> set (QueryEscape s) \<Longrightarrow> alnum c \<or> c \<in> set ''-_.~+%''"
proof -
  have hu: "n < 16 \<Longrightarrow> alnum (hex_upper n)" for n
    by (auto simp: hex_upper_def alnum_def Let_def byte_def)
  have "byte d div 16 < 16" for d using byte_less [of d] by (simp add: div_less_iff_less_mult)
  with hu show "c \<in> set (QueryEscape s) \<Longrightarrow> alnum c \<or> c \<in> set ''-_.~+%''"
    by (auto simp: QueryEscape_def url_escape_def escape_char_def unescaped_def split: if_splits)
qed

lemma escaped_free: "{CHR ''&'', CHR ''='', CHR '';'', CHR ''?''} \<inter> set (QueryEscape s) = {}"
  using escaped_chars [of _ s] by (fastforce simp: alnum_def byte_def)

lemma encode_pair_free: "CHR ''&'' \<notin> set (encode_pair p)" "CHR '';'' \<notin> set (encode_pair p)" "encode_pair p \<noteq> []"
  using escaped_free by (auto simp: encode_pair_def)

lemma query_part_encode: "query_part (encode_pair p) = Some p"
proof -
  have "CHR ''='' \<notin> set (QueryEscape (fst p))" using escaped_free by blast
  then have "cut (encode_pair p) ''='' = Some (QueryEscape (fst p), QueryEscape (snd p))"
    unfolding encode_pair_def using cut_single_append by simp
  then show ?thesis
    by (cases p) (simp add: query_part_def QueryEscape_def QueryUnescape_def url_unescape_escape)
qed

lemma parse_query_step_encode: "parse_query_step (m, ok) (encode_pair p) = (map_append m (fst p) (snd p), ok)"
  by (cases p) (simp add: parse_query_step_def encode_pair_free contains_single query_part_encode)

lemma parse_query_encode:
  "foldl parse_query_step (m, ok) (map encode_pair ps) = (foldl (\<lambda>m p. map_append m (fst p) (snd p)) m ps, ok)"
  by (induction ps arbitrary: m) (simp_all add: parse_query_step_encode)

lemma ParseQuery_encode:
  "ps \<noteq> [] \<Longrightarrow> ParseQuery (encode_query ps) = (foldl (\<lambda>m p. map_append m (fst p) (snd p)) [] ps, True)"
  unfolding ParseQuery_def encode_query_def
  by (subst split_join_single) (auto simp: encode_pair_free parse_query_encode)

lemma h_lines_update:
  "wf_header m \<Longrightarrow> mset (h_lines (map_append m k v)) = mset (h_lines m) + {#(k, v)#}"
proof (induction m)
  case Nil
  then show ?case by (simp add: map_append_def h_put_def)
next
  case (Cons e m)
  obtain k' vs where e: "e = (k', vs)" by (cases e)
  show ?case
  proof (cases "k' = k")
    case True
    then show ?thesis using e by (simp add: map_append_def h_put_def)
  next
    case False
    with Cons e show ?thesis by (auto simp: map_append_def h_put_def wf_header_def)
  qed
qed

lemma wf_header_append: "wf_header m \<Longrightarrow> wf_header (map_append m k v)"
  by (simp add: map_append_def wf_header_put)

lemma h_lines_fold:
  "wf_header m \<Longrightarrow> mset (h_lines (foldl (\<lambda>m p. map_append m (fst p) (snd p)) m ps)) = mset (h_lines m) + mset ps"
  by (induction ps arbitrary: m) (simp_all add: wf_header_append h_lines_update)

lemma extractQueryString_append:
  assumes "CHR ''?'' \<notin> set base"
  shows "extractQueryString (base @ ''?'' @ q) = (let (parsed, ok) = ParseQuery q in
         if \<not> ok \<or> parsed = [] then [] else name_values parsed)"
proof -
  have "index_of (base @ ''?'' @ q) ''?'' = Some (length base)"
    using index_of_skip_set [of "''?''" base "''?'' @ q"] assms by simp
  then show ?thesis by (simp add: extractQueryString_def)
qed

text \<open>The query list of a HAR request is the query of the URL: for a URL whose query was written by
  percent-escaping a list of names and values, it holds exactly those pairs, unescaped, each as
  often as it occurs (the order of different names is Go's map order).\<close>

theorem extractQueryString_pairs:
  assumes "CHR ''?'' \<notin> set base"
  shows "mset (extractQueryString (base @ ''?'' @ encode_query ps))
    = mset (map (\<lambda>(k, v). \<lparr>nv_name = k, nv_value = v\<rparr>) ps)"
proof (cases ps)
  case Nil
  then show ?thesis using extractQueryString_append [OF assms, of "[]"]
    by (simp add: encode_query_def ParseQuery_def parse_query_step_def contains_single)
next
  case (Cons p ps')
  let ?m = "foldl (\<lambda>m p. map_append m (fst p) (snd p)) [] ps"
  have "mset (h_lines ?m) = mset ps" by (simp add: h_lines_fold wf_header_def)
  then have "mset (name_values ?m) = mset (map (\<lambda>(k, v). \<lparr>nv_name = k, nv_value = v\<rparr>) ps)" and "?m \<noteq> []"
    using Cons by (simp_all only: name_values_def mset_map) auto
  moreover have "ParseQuery (encode_query ps) = (?m, True)" using Cons by (intro ParseQuery_encode) simp
  ultimately show ?thesis unfolding extractQueryString_append [OF assms] by simp
qed

theorem extractQueryString_pairs_witness:
  "mset (extractQueryString (''https://h/p'' @ ''?'' @ encode_query [(''a b'', ''1&2''), (''c'', '''')]))
    = {#\<lparr>nv_name = ''a b'', nv_value = ''1&2''\<rparr>, \<lparr>nv_name = ''c'', nv_value = ''''\<rparr>#}"
  using extractQueryString_pairs [of "''https://h/p''" "[(''a b'', ''1&2''), (''c'', '''')]"] by simp

section \<open>Default ports\<close>

lemma strip_port_of_join:
  assumes "set host \<inter> {CHR ''['', CHR '']'', CHR ''/''} = {}"
    and "set port \<inter> {CHR ''['', CHR '']'', CHR '':'', CHR ''/''} = {}"
    and "path = [] \<or> hd path = CHR ''/''"
  shows "strip_port_of pre dflt (pre @ join_host_port host port @ path)
    = Some (if port = dflt then pre @ host @ path else pre @ join_host_port host port @ path)"
proof -
  have sp: "split_host_port (join_host_port host port) = Some (host, port)"
    using assms by (intro split_join_host_port) auto
  let ?hp = "join_host_port host port"
  have "CHR ''/'' \<notin> set ?hp" using assms by (auto simp: join_host_port_def)
  then have ix: "index_of (?hp @ path) ''/'' = map_option (\<lambda>i. length ?hp + i) (index_of path ''/'')"
    by (intro index_of_skip_set) auto
  have sl: "(case index_of (?hp @ path) ''/'' of None \<Rightarrow> length (?hp @ path) | Some i \<Rightarrow> i) = length ?hp"
  proof (cases path)
    case (Cons c p)
    with assms(3) have "index_of path ''/'' = Some 0" by simp
    then show ?thesis using ix by simp
  qed (use ix in simp)
  have hp: "\<not> \<not> has_prefix (pre @ ?hp @ path) pre" by (simp add: has_prefix_def)
  have d: "drop (length pre) (pre @ ?hp @ path) = ?hp @ path"
    "take (length ?hp) (?hp @ path) = ?hp" "drop (length ?hp) (?hp @ path) = path" by simp_all
  show ?thesis
    unfolding strip_port_of_def Let_def d sl if_not_P [OF hp] sp option.case prod.case by (rule refl)
qed

text \<open>The URL of a HAR request loses its port exactly when that is the scheme's default; what is left
  is the host without the brackets an IPv6 literal needs, so such a URL is no longer valid.\<close>

theorem stripDefaultPort_host:
  assumes "set host \<inter> {CHR ''['', CHR '']'', CHR ''/''} = {}"
    and "set port \<inter> {CHR ''['', CHR '']'', CHR '':'', CHR ''/''} = {}"
    and "path = [] \<or> hd path = CHR ''/''"
  shows "stripDefaultPort (''https://'' @ join_host_port host port @ path)
      = (if port = ''443'' then ''https://'' @ host @ path else ''https://'' @ join_host_port host port @ path)
    \<and> stripDefaultPort (''http://'' @ join_host_port host port @ path)
      = (if port = ''80'' then ''http://'' @ host @ path else ''http://'' @ join_host_port host port @ path)"
proof -
  have "strip_port_of ''https://'' ''443'' (''http://'' @ s) = None" for s
    by (simp add: strip_port_of_def has_prefix_def prefix_def)
  then show ?thesis
    unfolding stripDefaultPort_def strip_port_of_join [OF assms] by simp
qed

theorem stripDefaultPort_host_witness:
  "stripDefaultPort ''https://[::1]:443/x'' = ''https://::1/x''
   \<and> stripDefaultPort ''http://a.b:8080'' = ''http://a.b:8080''"
  using stripDefaultPort_host [of "''::1''" "''443''" "''/x''"] stripDefaultPort_host [of "''a.b''" "''8080''" "''''"]
  by (simp add: join_host_port_def)

end
