(* ===== verification/Intruder.thy ===== *)
theory Intruder
  imports GoCodec Format StoreTables
begin

text \<open>
  The Intruder tab (\<open>internal/ui/intruder.go\<close>): markers and payloads, one request of an attack with
  its redirects, and the attack as a state machine.

  The goroutine of an attack makes one request per turn; the user acts between turns. What a turn
  posts to the user interface is done at its end. \<open>env k\<close> is the network as the \<open>k\<close>-th call of
  \<open>SendRaw\<close> finds it, \<open>took\<close> the time a request took, \<open>err_text\<close> the text of an error. The dash of the
  progress texts is three bytes of UTF-8.
\<close>

section \<open>Markers and payloads\<close>

text \<open>\<open>\$<[^>]+>\<close> at the start of the text: the marker and what follows.\<close>

definition marker_at :: "string \<Rightarrow> (string \<times> string) option" where
  "marker_at s = (if \<not> has_prefix s ''$<'' then None
     else let body = takeWhile (\<lambda>c. c \<noteq> CHR ''>'') (drop 2 s); rest = dropWhile (\<lambda>c. c \<noteq> CHR ''>'') (drop 2 s)
       in if body = [] \<or> rest = [] then None else Some (''$<'' @ body @ ''>'', tl rest))"

lemma marker_at_length: "marker_at s = Some (m, rest) \<Longrightarrow> length rest < length s"
proof -
  assume a: "marker_at s = Some (m, rest)"
  then have "rest = tl (dropWhile (\<lambda>c. c \<noteq> CHR ''>'') (drop 2 s))" "dropWhile (\<lambda>c. c \<noteq> CHR ''>'') (drop 2 s) \<noteq> []"
    by (auto simp: marker_at_def Let_def split: if_splits)
  moreover have "length (dropWhile (\<lambda>c. c \<noteq> CHR ''>'') (drop 2 s)) \<le> length s"
    by (rule order_trans [OF length_dropWhile_le]) simp
  ultimately show ?thesis by (cases "dropWhile (\<lambda>c. c \<noteq> CHR ''>'') (drop 2 s)") auto
qed

function find_markers :: "string \<Rightarrow> string list" where
  "find_markers s = (case marker_at s of
     Some (m, rest) \<Rightarrow> m # find_markers rest
   | None \<Rightarrow> (case s of [] \<Rightarrow> [] | c # t \<Rightarrow> find_markers t))"
  by pat_completeness auto
termination by (relation "measure length") (auto simp: marker_at_length)

declare find_markers.simps [simp del]

definition applyPayloadEncoding :: "string \<Rightarrow> string \<Rightarrow> string" where
  "applyPayloadEncoding payload encoding =
     (if encoding = ''URL encode'' then QueryEscape payload
      else if encoding = ''Double URL encode'' then QueryEscape (QueryEscape payload)
      else if encoding = ''Base64'' then b64_encode False True payload
      else if encoding = ''Hex'' then hex_encode payload
      else payload)"

definition clean_payloads :: "string \<Rightarrow> string list" where
  "clean_payloads text = filter (\<lambda>p. p \<noteq> []) (map trim_space (split text LF))"

section \<open>One request\<close>

record intruderResult =
  ir_payload :: string
  ir_status :: int
  ir_size :: int
  ir_duration :: int
  ir_err :: string
  ir_rawResp :: string
  ir_rawReq :: string

record net_env =
  ne_env :: "nat \<Rightarrow> raw_env"
  ne_codecs :: codecs
  ne_took :: "nat \<Rightarrow> int"
  ne_err_text :: "raw_error \<Rightarrow> string"

text \<open>What the requests of an attack change: the calls of \<open>SendRaw\<close> so far, and the store's scope cache.\<close>

record sender =
  sn_sent :: "RawRequestOptions list"
  sn_store :: store

definition send_raw :: "net_env \<Rightarrow> RawRequestOptions \<Rightarrow> sender \<Rightarrow> (raw_error + RawResponse) \<times> sender" where
  "send_raw ne opts sn = (SendRaw (ne_env ne (length (sn_sent sn))) (ne_codecs ne) opts,
     sn\<lparr>sn_sent := sn_sent sn @ [opts]\<rparr>)"

text \<open>\<open>fmt.Sscanf (s, "%d", &n)\<close>: \<open>n\<close> stays as it was on an error.\<close>

definition sscanf_d :: "string \<Rightarrow> int \<Rightarrow> int" where
  "sscanf_d s n = (let (neg, r) = atoi_sign s; ds = takeWhile is_digit r;
       v = (if neg then - int (digits_val ds) else int (digits_val ds))
     in if ds = [] \<or> v < min_int \<or> v > max_int then n else v)"

definition first_crlf_line :: "string \<Rightarrow> string" where
  "first_crlf_line s = hd (split_n2 s CRLF)"

definition status_of :: "string \<Rightarrow> int" where
  "status_of rawResp = (let parts = str_fields (first_crlf_line rawResp) in
     if length parts \<ge> 2 then sscanf_d (parts ! 1) 0 else 0)"

definition location_of :: "string \<Rightarrow> string" where
  "location_of rawResp = (case filter (\<lambda>l. has_prefix (to_lower l) ''location:'') (split rawResp CRLF) of
     [] \<Rightarrow> [] | l # _ \<Rightarrow> trim_space (drop 9 l))"

text \<open>An authority and what follows it, with a default.\<close>

definition split_slash :: "string \<Rightarrow> string \<Rightarrow> string \<times> string" where
  "split_slash rest dflt = (case index_of rest ''/'' of Some i \<Rightarrow> (take i rest, drop i rest) | None \<Rightarrow> (rest, dflt))"

definition redirect_scope_host :: "string \<Rightarrow> string" where
  "redirect_scope_host location = (if has_prefix location ''http://'' \<or> has_prefix location ''https://''
     then fst (split_slash (drop (the (index_of location ''//'') + 2) location) [])
     else location)"

definition redirect_target :: "string \<Rightarrow> string \<Rightarrow> string \<times> string \<times> bool" where
  "redirect_target location originalHost =
     (if has_prefix location ''https://'' then (let (h, p) = split_slash (drop 8 location) ''/'' in (h, p, True))
      else if has_prefix location ''http://'' then (let (h, p) = split_slash (drop 7 location) ''/'' in (h, p, False))
      else (originalHost, location, has_suffix originalHost '':443''))"

definition redirect_options :: "IntruderConfig \<Rightarrow> string \<Rightarrow> string \<Rightarrow> RawRequestOptions" where
  "redirect_options cfg location originalHost = (let (host, path, useTLS) = redirect_target location originalHost;
       port = (if useTLS then 443 else 80);
       (host, port) = (case split_host_port host of Some (h, p) \<Rightarrow> (h, sscanf_d p port) | None \<Rightarrow> (host, port))
     in \<lparr>ro_host = host, ro_port = port, ro_tls = useTLS,
         ro_raw = ''GET '' @ path @ '' HTTP/1.1'' @ CRLF @ ''Host: '' @ host @ CRLF @ CRLF,
         ro_jar = [], ro_timeout = ic_timeout_ms cfg\<rparr>)"

definition followRedirect :: "net_env \<Rightarrow> IntruderConfig \<Rightarrow> string \<Rightarrow> string \<Rightarrow> sender \<Rightarrow> string option \<times> sender" where
  "followRedirect ne cfg rawResp originalHost sn =
     (if length (str_fields (first_crlf_line rawResp)) < 2 \<or> status_of rawResp < 300 \<or> status_of rawResp \<ge> 400 then (None, sn)
      else let location = location_of rawResp in
        if location = [] then (None, sn)
        else if ic_follow_redirects cfg = ''never'' then (None, sn)
        else let (ok, st) = (if ic_follow_redirects cfg = ''in-scope''
                   then InScope (redirect_scope_host location) (sn_store sn) else (True, sn_store sn));
                 sn = sn\<lparr>sn_store := st\<rparr>
          in if \<not> ok then (None, sn)
             else case send_raw ne (redirect_options cfg location originalHost) sn of
               (Inl _, sn) \<Rightarrow> (None, sn)
             | (Inr r, sn) \<Rightarrow> (Some (rr_raw r), sn))"

text \<open>The redirect loop, at most \<open>n\<close> times.\<close>

fun follow_redirects :: "net_env \<Rightarrow> IntruderConfig \<Rightarrow> nat \<Rightarrow> string \<Rightarrow> string \<Rightarrow> sender \<Rightarrow> string \<times> sender" where
  "follow_redirects ne cfg 0 rawResp host sn = (rawResp, sn)"
| "follow_redirects ne cfg (Suc n) rawResp host sn = (case followRedirect ne cfg rawResp host sn of
     (None, sn) \<Rightarrow> (rawResp, sn)
   | (Some r, sn) \<Rightarrow> follow_redirects ne cfg n r host sn)"

text \<open>\<open>cfg\<close> is the copy the attack was started with, \<open>live\<close> the tab's configuration now, which \<open>followRedirect\<close> reads.\<close>

definition attack_request :: "net_env \<Rightarrow> IntruderConfig \<Rightarrow> IntruderConfig \<Rightarrow> string \<Rightarrow> string \<Rightarrow> string \<Rightarrow> string \<Rightarrow> sender
    \<Rightarrow> intruderResult \<times> sender" where
  "attack_request ne cfg live encoding rawReq marker payload sn =
     (let injected = replace_all rawReq marker (applyPayloadEncoding payload encoding);
          (host, port, useTLS) = ParseHostFromRaw injected;
          result = \<lparr>ir_payload = payload, ir_status = 0, ir_size = 0, ir_duration = 0, ir_err = [], ir_rawResp = [],
             ir_rawReq = injected\<rparr>
      in if host = [] then (result\<lparr>ir_err := ''no Host header found''\<rparr>, sn)
         else let k = length (sn_sent sn) in
         (case send_raw ne \<lparr>ro_host = host, ro_port = port, ro_tls = useTLS, ro_raw = injected, ro_jar = [],
                ro_timeout = ic_timeout_ms cfg\<rparr> sn of
             (Inl e, sn) \<Rightarrow> (result\<lparr>ir_err := ne_err_text ne e\<rparr>, sn)
           | (Inr resp, sn) \<Rightarrow>
               (let (rawResp, sn) = (if ic_follow_redirects cfg \<noteq> ''never'' \<and> ic_max_redirects cfg > 0
                      then follow_redirects ne live (nat (ic_max_redirects cfg)) (rr_raw resp) host sn
                      else (rr_raw resp, sn))
                in (result\<lparr>ir_duration := ne_took ne k, ir_size := int (length rawResp), ir_rawResp := rawResp,
                      ir_status := status_of rawResp\<rparr>, sn))))"

section \<open>The attack\<close>

text \<open>The goroutine of the attack: what is left to do, with the configuration it was started with.\<close>

record attack =
  at_jobs :: "(string \<times> string) list"
  at_config :: IntruderConfig
  at_encoding :: string
  at_rawReq :: string
  at_total :: nat
  at_done :: nat

datatype stop_chan = NoChan | OpenChan | ClosedChan

record intruder =
  it_config :: IntruderConfig
  it_encoding :: string
  it_request :: string
  it_payloads :: string
  it_filter :: string
  it_results :: "intruderResult list"
  it_filtered :: "intruderResult list"
  it_selected :: "intruderResult option"
  it_label :: string
  it_start_on :: bool
  it_stop_on :: bool
  it_running :: bool
  it_stop :: stop_chan
  it_attack :: "attack option"
  it_sender :: sender
  it_dialog :: string
  it_panic :: bool

definition newIntruderTab :: "store \<Rightarrow> intruder" where
  "newIntruderTab s = (let (c, s) = LoadIntruderConfig s in
     \<lparr>it_config = c, it_encoding = [], it_request = ic_raw_request c, it_payloads = ic_payloads c, it_filter = [],
      it_results = [], it_filtered = [], it_selected = None, it_label = [], it_start_on = True, it_stop_on = False,
      it_running = False, it_stop = NoChan, it_attack = None, it_sender = \<lparr>sn_sent = [], sn_store = s\<rparr>,
      it_dialog = [], it_panic = False\<rparr>)"

definition result_text :: "intruderResult \<Rightarrow> string" where
  "result_text r = to_lower (ir_payload r @ '' '' @ itoa (ir_status r) @ '' '' @ ir_err r)"

definition shown :: "string \<Rightarrow> intruderResult \<Rightarrow> bool" where
  "shown query r = (query = [] \<or> contains (result_text r) query)"

definition applyFilter :: "intruder \<Rightarrow> intruder" where
  "applyFilter t = t\<lparr>it_filtered := filter (shown (to_lower (it_filter t))) (it_results t)\<rparr>"

definition clearResults :: "intruder \<Rightarrow> intruder" where
  "clearResults t = t\<lparr>it_results := [], it_filtered := [], it_label := [], it_selected := None\<rparr>"

definition tableOnSelect :: "nat \<Rightarrow> intruder \<Rightarrow> intruder" where
  "tableOnSelect row t = (if row \<ge> length (it_filtered t) then t else t\<lparr>it_selected := Some (it_filtered t ! row)\<rparr>)"

definition attack_jobs :: "string list \<Rightarrow> string list \<Rightarrow> (string \<times> string) list" where
  "attack_jobs markers payloads = concat (map (\<lambda>m. map (\<lambda>p. (m, p)) payloads) markers)"

definition refuse :: "string \<Rightarrow> intruder \<Rightarrow> intruder" where
  "refuse msg t = t\<lparr>it_dialog := msg\<rparr>"

definition startAttack :: "intruder \<Rightarrow> intruder" where
  "startAttack t = (let rawReq = it_request t; markers = find_markers rawReq; payloads = clean_payloads (trim_space (it_payloads t)) in
     if rawReq = [] then refuse ''Please enter a request.'' t
     else if markers = [] then refuse ''No injection points found. Mark them with $<n>.'' t
     else if trim_space (it_payloads t) = [] then refuse ''Please enter at least one payload.'' t
     else if payloads = [] then refuse ''No valid payloads found.'' t
     else let cfg = (it_config t)\<lparr>ic_raw_request := rawReq, ic_payloads := it_payloads t\<rparr>;
              sn = (it_sender t)\<lparr>sn_store := snd (SaveIntruderConfig cfg (sn_store (it_sender t)))\<rparr>;
              jobs = attack_jobs markers payloads
       in t\<lparr>it_config := cfg, it_sender := sn, it_results := [], it_filtered := [], it_selected := None,
            it_running := True, it_stop := OpenChan, it_start_on := False, it_stop_on := True,
            it_attack := Some \<lparr>at_jobs = jobs, at_config = cfg, at_encoding = it_encoding t, at_rawReq = rawReq,
              at_total = length jobs, at_done = 0\<rparr>\<rparr>)"

text \<open>Closing a closed channel panics.\<close>

definition stopAttack :: "intruder \<Rightarrow> intruder" where
  "stopAttack t = (case it_stop t of
     ClosedChan \<Rightarrow> t\<lparr>it_panic := True\<rparr>
   | OpenChan \<Rightarrow> t\<lparr>it_stop := ClosedChan, it_running := False\<rparr>
   | NoChan \<Rightarrow> t\<lparr>it_running := False\<rparr>)"

definition dash :: string where "dash = [CHR 0xE2, CHR 0x80, CHR 0x94]"

definition buttons_back :: "string \<Rightarrow> intruder \<Rightarrow> intruder" where
  "buttons_back label t = t\<lparr>it_label := label, it_start_on := True, it_stop_on := False, it_attack := None\<rparr>"

text \<open>One turn of the goroutine.\<close>

definition attack_turn :: "net_env \<Rightarrow> intruder \<Rightarrow> intruder" where
  "attack_turn ne t = (case it_attack t of None \<Rightarrow> t | Some a \<Rightarrow>
     (case at_jobs a of
        [] \<Rightarrow> (buttons_back (''Done '' @ dash @ '' '' @ nat_digits (at_done a) @ '' requests'') t)\<lparr>it_running := False\<rparr>
      | (marker, payload) # jobs \<Rightarrow>
          if it_stop t = ClosedChan then buttons_back (''Stopped after '' @ nat_digits (at_done a) @ ''/''
             @ nat_digits (at_total a) @ '' requests'') t
          else let (r, sn) = attack_request ne (at_config a) (it_config t) (at_encoding a) (at_rawReq a) marker payload (it_sender t);
                   a = a\<lparr>at_jobs := jobs, at_done := Suc (at_done a)\<rparr>;
                   t = (applyFilter (t\<lparr>it_results := it_results t @ [r]\<rparr>))\<lparr>it_sender := sn, it_attack := Some a,
                     it_label := nat_digits (at_done a) @ ''/'' @ nat_digits (at_total a)\<rparr>
            in if ic_stop_on_status (at_config a) \<noteq> 0 \<and> ir_status r = ic_stop_on_status (at_config a)
               then buttons_back (''Stopped '' @ dash @ '' status '' @ itoa (ic_stop_on_status (at_config a))
                 @ '' matched after '' @ nat_digits (at_done a) @ '' requests'') t
               else t))"

text \<open>The results table.\<close>

definition tableCellValue :: "nat \<Rightarrow> nat \<Rightarrow> intruder \<Rightarrow> string" where
  "tableCellValue row col t = (if row \<ge> length (it_filtered t) then [] else let result = it_filtered t ! row in
     if col = 0 then ir_payload result
     else if col = 1 then (if ir_err result \<noteq> [] then ''ERR'' else itoa (ir_status result))
     else if col = 2 then (if ir_err result \<noteq> [] then ''-'' else itoa (ir_size result) @ ''b'')
     else if col = 3 then (if ir_err result \<noteq> [] then ''-'' else itoa (ir_duration result) @ ''ms'')
     else [])"

definition tableCellStyle :: "nat \<Rightarrow> nat \<Rightarrow> intruder \<Rightarrow> importance" where
  "tableCellStyle row col t = (if col \<noteq> 1 then MediumImportance else if row \<ge> length (it_filtered t) then MediumImportance
     else let result = it_filtered t ! row in
       if ir_err result \<noteq> [] then DangerImportance
       else if ir_status result \<ge> 500 then DangerImportance
       else if ir_status result \<ge> 400 then WarningImportance
       else if ir_status result \<ge> 200 \<and> ir_status result < 300 then SuccessImportance
       else MediumImportance)"

text \<open>The texts of the configuration dialog, and what its Save button does with them.\<close>

record config_form =
  cf_delay :: string
  cf_stop :: string
  cf_max :: string
  cf_follow :: string
  cf_timeout :: string
  cf_encoding :: string

definition followOptions :: "string list" where
  "followOptions = [''never'', ''always'', ''in-scope'']"

definition encodingOptions :: "string list" where
  "encodingOptions = [''None'', ''URL encode'', ''Double URL encode'', ''Base64'', ''Hex'']"

definition atoi_if :: "(int \<Rightarrow> bool) \<Rightarrow> string \<Rightarrow> int \<Rightarrow> int" where
  "atoi_if ok text old = (case atoi (trim_space text) of (n, valid) \<Rightarrow> if valid \<and> ok n then n else old)"

definition saveConfig :: "config_form \<Rightarrow> intruder \<Rightarrow> intruder" where
  "saveConfig f t = (let c = it_config t;
       stop = (if trim_space (cf_stop f) = [] \<or> trim_space (cf_stop f) = ''0'' then 0
          else atoi_if (\<lambda>n. n > 0) (cf_stop f) (ic_stop_on_status c));
       c = c\<lparr>ic_delay_ms := atoi_if (\<lambda>n. n \<ge> 0) (cf_delay f) (ic_delay_ms c),
          ic_stop_on_status := stop,
          ic_max_redirects := atoi_if (\<lambda>n. n \<ge> 0) (cf_max f) (ic_max_redirects c),
          ic_follow_redirects := cf_follow f,
          ic_timeout_ms := atoi_if (\<lambda>n. n > 0) (cf_timeout f) (ic_timeout_ms c),
          ic_raw_request := it_request t, ic_payloads := it_payloads t\<rparr>
     in t\<lparr>it_config := c, it_encoding := cf_encoding f,
         it_sender := (it_sender t)\<lparr>sn_store := snd (SaveIntruderConfig c (sn_store (it_sender t)))\<rparr>\<rparr>)"

datatype intruder_event = Turn | PressStart | PressStop | PressClear | EditFilter string | EditRequest string
  | EditPayloads string | SelectRow nat | SaveConfig config_form

text \<open>A disabled button cannot be pressed, and a selection offers nothing but its options.\<close>

definition intruder_step :: "net_env \<Rightarrow> intruder_event \<Rightarrow> intruder \<Rightarrow> intruder" where
  "intruder_step ne e t = (case e of
     Turn \<Rightarrow> attack_turn ne t
   | PressStart \<Rightarrow> (if it_start_on t then startAttack t else t)
   | PressStop \<Rightarrow> (if it_stop_on t then stopAttack t else t)
   | PressClear \<Rightarrow> clearResults t
   | EditFilter s \<Rightarrow> applyFilter (t\<lparr>it_filter := s\<rparr>)
   | EditRequest s \<Rightarrow> t\<lparr>it_request := s\<rparr>
   | EditPayloads s \<Rightarrow> t\<lparr>it_payloads := s\<rparr>
   | SelectRow n \<Rightarrow> tableOnSelect n t
   | SaveConfig f \<Rightarrow> (if cf_follow f \<in> set followOptions \<and> cf_encoding f \<in> set encodingOptions
       then saveConfig f t else t))"

definition intruder_run :: "net_env \<Rightarrow> intruder_event list \<Rightarrow> intruder \<Rightarrow> intruder" where
  "intruder_run ne es t = fold (intruder_step ne) es t"

section \<open>Invariants\<close>

text \<open>
  The table shows the results that pass the filter; an attack is under way exactly while the start
  button is off; and the channel of a running attack is there.
\<close>

definition intruder_ok :: "intruder \<Rightarrow> bool" where
  "intruder_ok t = (it_filtered t = filter (shown (to_lower (it_filter t))) (it_results t)
     \<and> it_start_on t = (it_attack t = None) \<and> it_stop_on t = (it_attack t \<noteq> None)
     \<and> (it_attack t \<noteq> None \<longrightarrow> it_stop t \<noteq> NoChan)
     \<and> (\<forall>a. it_attack t = Some a \<longrightarrow> at_done a + length (at_jobs a) = at_total a))"

lemma intruder_ok_new: "intruder_ok (newIntruderTab s)"
  by (simp add: intruder_ok_def newIntruderTab_def case_prod_beta)

lemma attack_turn_ok:
  assumes "intruder_ok t"
  shows "intruder_ok (attack_turn ne t)"
proof (cases "it_attack t")
  case None
  with assms show ?thesis by (simp add: attack_turn_def)
next
  case (Some a)
  show ?thesis
  proof (cases "at_jobs a")
    case Nil
    with Some assms show ?thesis by (simp add: attack_turn_def buttons_back_def intruder_ok_def)
  next
    case (Cons j jobs)
    obtain marker payload where j: "j = (marker, payload)" by fastforce
    obtain r sn where r: "attack_request ne (at_config a) (it_config t) (at_encoding a) (at_rawReq a) marker payload (it_sender t) = (r, sn)"
      by fastforce
    show ?thesis
    proof (cases "it_stop t = ClosedChan")
      case True
      with Some Cons j assms show ?thesis by (simp add: attack_turn_def buttons_back_def intruder_ok_def)
    next
      case False
      with Some Cons j r assms show ?thesis
        by (simp add: attack_turn_def buttons_back_def intruder_ok_def applyFilter_def Let_def)
    qed
  qed
qed

lemma startAttack_ok: "intruder_ok t \<Longrightarrow> intruder_ok (startAttack t)"
  by (simp add: startAttack_def refuse_def intruder_ok_def Let_def)

lemma intruder_step_ok: "intruder_ok t \<Longrightarrow> intruder_ok (intruder_step ne e t)"
proof (cases e)
  case Turn
  then show "intruder_ok t \<Longrightarrow> ?thesis" by (simp add: intruder_step_def attack_turn_ok)
next
  case PressStart
  then show "intruder_ok t \<Longrightarrow> ?thesis" by (simp add: intruder_step_def startAttack_ok)
next
  case PressStop
  then show "intruder_ok t \<Longrightarrow> ?thesis"
    by (cases "it_stop t") (simp_all add: intruder_step_def stopAttack_def intruder_ok_def)
qed (simp_all add: intruder_step_def saveConfig_def Let_def clearResults_def applyFilter_def tableOnSelect_def intruder_ok_def)

text \<open>In every state the Intruder tab can reach, whatever the user does during attacks, the results
  table shows exactly the collected results that match the filter, in order; the start and stop
  buttons are never both on, and the progress counts add up.\<close>

theorem intruder_consistent: "intruder_ok (intruder_run ne es (newIntruderTab s))"
proof -
  have "intruder_ok t \<Longrightarrow> intruder_ok (intruder_run ne es t)" for t
    unfolding intruder_run_def by (induction es arbitrary: t) (simp_all add: intruder_step_ok)
  then show ?thesis using intruder_ok_new by blast
qed

section \<open>A whole attack\<close>

lemma attack_request_fields:
  "ir_payload (fst (attack_request ne cfg live enc raw m p sn)) = p
   \<and> ir_rawReq (fst (attack_request ne cfg live enc raw m p sn)) = replace_all raw m (applyPayloadEncoding p enc)"
  by (simp add: attack_request_def Let_def case_prod_beta split: sum.split)

lemma attack_turn_request:
  assumes "it_attack t = Some a" "at_jobs a = (m, p) # jobs" "it_stop t = OpenChan" "ic_stop_on_status (at_config a) = 0"
  shows "attack_turn ne t = (applyFilter (t\<lparr>it_results := it_results t
        @ [fst (attack_request ne (at_config a) (it_config t) (at_encoding a) (at_rawReq a) m p (it_sender t))]\<rparr>))
      \<lparr>it_sender := snd (attack_request ne (at_config a) (it_config t) (at_encoding a) (at_rawReq a) m p (it_sender t)),
       it_attack := Some (a\<lparr>at_jobs := jobs, at_done := Suc (at_done a)\<rparr>),
       it_label := nat_digits (Suc (at_done a)) @ ''/'' @ nat_digits (at_total a)\<rparr>"
  using assms by (simp add: attack_turn_def Let_def case_prod_beta)

lemma attack_runs:
  assumes "it_stop t = OpenChan" "it_attack t = Some a" "ic_stop_on_status (at_config a) = 0" "at_jobs a = jobs"
  shows "\<exists>rs. it_results ((attack_turn ne ^^ Suc (length jobs)) t) = it_results t @ rs
    \<and> map ir_payload rs = map snd jobs
    \<and> map ir_rawReq rs = map (\<lambda>(m, p). replace_all (at_rawReq a) m (applyPayloadEncoding p (at_encoding a))) jobs
    \<and> it_attack ((attack_turn ne ^^ Suc (length jobs)) t) = None
    \<and> it_label ((attack_turn ne ^^ Suc (length jobs)) t)
        = ''Done '' @ dash @ '' '' @ nat_digits (at_done a + length jobs) @ '' requests''
    \<and> \<not> it_running ((attack_turn ne ^^ Suc (length jobs)) t)"
  using assms
proof (induction jobs arbitrary: t a)
  case Nil
  then show ?case by (simp add: attack_turn_def buttons_back_def)
next
  case (Cons j jobs)
  obtain m p where j: "j = (m, p)" by fastforce
  let ?r = "fst (attack_request ne (at_config a) (it_config t) (at_encoding a) (at_rawReq a) m p (it_sender t))"
  let ?t = "attack_turn ne t" and ?a = "a\<lparr>at_jobs := jobs, at_done := Suc (at_done a)\<rparr>"
  note tt = attack_turn_request [OF Cons.prems(2) Cons.prems(4) [unfolded j] Cons.prems(1,3), of ne]
  have t: "it_stop ?t = OpenChan" "it_attack ?t = Some ?a" "it_results ?t = it_results t @ [?r]"
    unfolding tt using Cons.prems(1) by (simp_all add: applyFilter_def)
  have a: "ic_stop_on_status (at_config ?a) = 0" "at_jobs ?a = jobs" using Cons.prems(3) by simp_all
  obtain rs where rs: "it_results ((attack_turn ne ^^ Suc (length jobs)) ?t) = it_results ?t @ rs"
    "map ir_payload rs = map snd jobs"
    "map ir_rawReq rs = map (\<lambda>(m, p). replace_all (at_rawReq a) m (applyPayloadEncoding p (at_encoding a))) jobs"
    "it_attack ((attack_turn ne ^^ Suc (length jobs)) ?t) = None"
    "it_label ((attack_turn ne ^^ Suc (length jobs)) ?t)
      = ''Done '' @ dash @ '' '' @ nat_digits (Suc (at_done a) + length jobs) @ '' requests''"
    "\<not> it_running ((attack_turn ne ^^ Suc (length jobs)) ?t)"
    using Cons.IH [OF t(1,2) a] by auto
  have n: "(attack_turn ne ^^ Suc (length (j # jobs))) t = (attack_turn ne ^^ Suc (length jobs)) ?t"
    by (simp add: funpow_swap1)
  show ?case
    unfolding n using rs t(3) attack_request_fields [of ne "at_config a" "it_config t" "at_encoding a" "at_rawReq a" m p "it_sender t"]
    by (intro exI [of _ "?r # rs"]) (simp add: j)
qed


definition demo_net :: net_env where
  "demo_net = \<lparr>ne_env = \<lambda>_. demo_env, ne_codecs = demo_codecs, ne_took = \<lambda>_. 1, ne_err_text = \<lambda>_. ''error''\<rparr>"

definition demo_intruder :: intruder where
  "demo_intruder = (newIntruderTab (fresh_store (\<lambda>_. False) new_file))\<lparr>it_request := ''GET /$<a> HTTP/1.1'',
     it_payloads := ''x''\<rparr>"

lemma demo_intruder_facts: "intruder_ok demo_intruder" "it_attack demo_intruder = None"
    "ic_stop_on_status (it_config demo_intruder) = 0"
    "it_attack (startAttack demo_intruder) \<noteq> None" "it_stop (startAttack demo_intruder) = OpenChan"
  subgoal using intruder_ok_new by (simp add: demo_intruder_def intruder_ok_def)
  subgoal by (simp add: demo_intruder_def newIntruderTab_def case_prod_beta)
  subgoal by code_simp
  subgoal by code_simp
  subgoal by code_simp
  done

lemma demo_jobs_intruder: "map at_jobs (case_option [] (\<lambda>a. [a]) (it_attack (startAttack demo_intruder))) = [[(''$<a>'', ''x'')]]"
    "attack_jobs (find_markers (it_request demo_intruder)) (clean_payloads (trim_space (it_payloads demo_intruder))) = [(''$<a>'', ''x'')]"
  by code_simp+


text \<open>Stop takes effect before the next request: after the button the goroutine makes no further request
  and records no further result, and its next turn gives the buttons back.\<close>

theorem stop_before_next_request:
  assumes "intruder_ok t" "it_attack t = Some a" "it_stop t = OpenChan" "at_jobs a \<noteq> []"
  shows "it_attack (intruder_run ne [PressStop, Turn] t) = None
    \<and> it_start_on (intruder_run ne [PressStop, Turn] t)
    \<and> it_results (intruder_run ne [PressStop, Turn] t) = it_results t
    \<and> it_sender (intruder_run ne [PressStop, Turn] t) = it_sender t"
proof -
  obtain m p js where "at_jobs a = (m, p) # js" using assms(4) by (cases "at_jobs a") auto
  with assms show ?thesis
    by (simp add: intruder_run_def intruder_step_def intruder_ok_def stopAttack_def attack_turn_def buttons_back_def)
qed

theorem stop_before_next_request_witness:
  "it_results (intruder_run demo_net [PressStop, Turn] (startAttack demo_intruder)) = []"
proof -
  obtain a where a: "it_attack (startAttack demo_intruder) = Some a" using demo_intruder_facts(4) by blast
  have j: "at_jobs a \<noteq> []" using demo_jobs_intruder(1) a by simp
  have e: "it_results (startAttack demo_intruder) = []" by code_simp
  show ?thesis
    using stop_before_next_request [OF startAttack_ok [OF demo_intruder_facts(1)] a demo_intruder_facts(5) j, of demo_net] e
    by simp
qed

text \<open>Pressing Stop twice while a request is under way closes the stop channel twice: the button stays on
  until the goroutine's next turn, and the second press panics.\<close>

theorem stop_twice_panics:
  assumes "intruder_ok t" "it_attack t = Some a" "it_stop t = OpenChan"
  shows "it_panic (intruder_run ne [PressStop, PressStop] t)"
  using assms by (simp add: intruder_run_def intruder_step_def intruder_ok_def stopAttack_def)

theorem stop_twice_panics_witness:
  "it_panic (intruder_run demo_net [PressStop, PressStop] (startAttack demo_intruder))"
proof -
  obtain a where "it_attack (startAttack demo_intruder) = Some a" using demo_intruder_facts(4) by blast
  from stop_twice_panics [OF startAttack_ok [OF demo_intruder_facts(1)] this demo_intruder_facts(5)] show ?thesis .
qed

section \<open>Redirects\<close>

lemma follow_redirects_bound:
  "length (sn_sent (snd (follow_redirects ne cfg n raw host sn))) \<le> length (sn_sent sn) + n"
proof (induction n arbitrary: raw sn)
  case (Suc n)
  obtain q sn' where f: "followRedirect ne cfg raw host sn = (q, sn')" by (metis prod.collapse)
  have "length (sn_sent (snd (followRedirect ne cfg raw host sn))) \<le> Suc (length (sn_sent sn))"
    by (auto simp: followRedirect_def send_raw_def Let_def case_prod_beta split: sum.split)
  then have s: "length (sn_sent sn') \<le> Suc (length (sn_sent sn))" by (simp add: f)
  show ?case using s order_trans [OF Suc.IH [of _ sn']] by (cases q) (simp_all add: f)
qed simp

text \<open>One request of an attack costs at most one call of the network and then one per redirect, up to the
  configured maximum; with redirects off exactly the request itself, and none without a Host header.\<close>

theorem attack_request_bound:
  "length (sn_sent (snd (attack_request ne cfg live enc raw m p sn)))
     \<le> Suc (length (sn_sent sn)) + (if ic_follow_redirects cfg = ''never'' then 0 else nat (ic_max_redirects cfg))"
proof -
  have "length (sn_sent (snd (follow_redirects ne live n r h (sn\<lparr>sn_sent := sn_sent sn @ [q]\<rparr>))))
      \<le> Suc (length (sn_sent sn)) + n" for n r h q
    using follow_redirects_bound [of ne live n r h "sn\<lparr>sn_sent := sn_sent sn @ [q]\<rparr>"] by simp
  then show ?thesis
    by (auto simp: attack_request_def Let_def case_prod_beta send_raw_def split: sum.split)
qed

text \<open>A relative redirect is followed on the wrong port: the host an attack passes on carries no port, so
  a redirect to a path always goes to port 80 without TLS, wherever the answer came from; and with
  redirects limited to the scope, the scope is asked about the path instead of the host.\<close>

theorem relative_redirect_plain:
  assumes "CHR '':'' \<notin> set host" "\<not> has_prefix location ''https://''" "\<not> has_prefix location ''http://''"
  shows "ro_port (redirect_options cfg location host) = 80 \<and> \<not> ro_tls (redirect_options cfg location host)
    \<and> ro_host (redirect_options cfg location host) = host
    \<and> redirect_scope_host location = location"
proof -
  have "\<not> has_suffix host '':443''" using assms(1) by (auto simp: has_suffix_def suffix_def)
  moreover have "split_host_port host = None" by (rule split_host_port_no_colon [OF assms(1)])
  ultimately show ?thesis using assms(2,3)
    by (simp add: redirect_options_def redirect_target_def redirect_scope_host_def)
qed

theorem relative_redirect_plain_witness:
  "ro_port (redirect_options DefaultIntruderConfig ''/login'' ''shop.example'') = 80"
proof -
  have "\<not> has_prefix ''/login'' ''https://''" "\<not> has_prefix ''/login'' ''http://''" by code_simp+
  then show ?thesis using relative_redirect_plain [of "''shop.example''" "''/login''"] by simp
qed

section \<open>The type of a configuration\<close>

definition config_typed :: "IntruderConfig \<Rightarrow> bool" where
  "config_typed c = (ic_delay_ms c \<ge> 0 \<and> ic_stop_on_status c \<ge> 0 \<and> ic_max_redirects c \<ge> 0 \<and> ic_timeout_ms c > 0
     \<and> ic_follow_redirects c \<in> set followOptions)"

definition store_typed :: "store \<Rightarrow> bool" where
  "store_typed s = (\<forall>c. t_intruder s = Some c \<longrightarrow> config_typed c)"

definition intruder_typed :: "intruder \<Rightarrow> bool" where
  "intruder_typed t = (config_typed (it_config t) \<and> store_typed (sn_store (it_sender t))
     \<and> (\<forall>a. it_attack t = Some a \<longrightarrow> config_typed (at_config a)))"

lemma config_typed_default: "config_typed DefaultIntruderConfig"
  by (simp add: config_typed_def DefaultIntruderConfig_def followOptions_def)

lemma atoi_if_range: "ok old \<Longrightarrow> ok (atoi_if ok text old)"
  by (simp add: atoi_if_def split: prod.split)

lemma LoadIntruderConfig_typed:
  "store_typed s \<Longrightarrow> config_typed (fst (LoadIntruderConfig s)) \<and> store_typed (snd (LoadIntruderConfig s))"
  by (auto simp: LoadIntruderConfig_def sql_def store_typed_def config_typed_default split: option.split)

lemma SaveIntruderConfig_typed: "config_typed c \<Longrightarrow> store_typed s \<Longrightarrow> store_typed (snd (SaveIntruderConfig c s))"
  by (auto simp: SaveIntruderConfig_def store_write_def sql_def store_typed_def)

lemma InScope_typed: "store_typed (snd (InScope h s)) = store_typed s"
  by (simp add: InScope_def Let_def AllScopeEntries_eq store_typed_def)

lemma followRedirect_typed:
  "store_typed (sn_store (snd (followRedirect ne cfg raw host sn))) = store_typed (sn_store sn)"
  using InScope_typed [of "redirect_scope_host (location_of raw)" "sn_store sn"]
  by (auto simp: followRedirect_def send_raw_def Let_def case_prod_beta split: sum.split)

lemma follow_redirects_typed:
  "store_typed (sn_store (snd (follow_redirects ne cfg n raw host sn))) = store_typed (sn_store sn)"
proof (induction n arbitrary: raw sn)
  case (Suc n)
  obtain q sn' where f: "followRedirect ne cfg raw host sn = (q, sn')" by (metis prod.collapse)
  then show ?case using Suc.IH followRedirect_typed [of ne cfg raw host sn] by (cases q) simp_all
qed simp

lemma attack_request_typed:
  "store_typed (sn_store (snd (attack_request ne cfg live enc raw m p sn))) = store_typed (sn_store sn)"
  using follow_redirects_typed
  by (auto simp: attack_request_def send_raw_def Let_def case_prod_beta split: sum.split)

lemma attack_turn_typed:
  assumes "intruder_typed t"
  shows "intruder_typed (attack_turn ne t)"
proof (cases "it_attack t")
  case (Some a)
  show ?thesis
  proof (cases "at_jobs a")
    case (Cons j jobs)
    obtain m p where j: "j = (m, p)" by fastforce
    show ?thesis
      using assms Some Cons j attack_request_typed [of ne "at_config a" "it_config t" "at_encoding a" "at_rawReq a" m p "it_sender t"]
      by (simp add: attack_turn_def intruder_typed_def buttons_back_def applyFilter_def Let_def case_prod_beta)
  qed (use assms Some in \<open>simp add: attack_turn_def intruder_typed_def buttons_back_def\<close>)
qed (use assms in \<open>simp add: attack_turn_def\<close>)

lemma saveConfig_typed:
  assumes "intruder_typed t" "cf_follow f \<in> set followOptions"
  shows "intruder_typed (saveConfig f t)"
proof -
  let ?c = "it_config (saveConfig f t)"
  have c: "config_typed ?c"
    using assms atoi_if_range [of "\<lambda>n. n \<ge> 0" "ic_delay_ms (it_config t)" "cf_delay f"]
      atoi_if_range [of "\<lambda>n. n \<ge> 0" "ic_max_redirects (it_config t)" "cf_max f"]
      atoi_if_range [of "\<lambda>n. n > 0" "ic_timeout_ms (it_config t)" "cf_timeout f"]
    by (auto simp: saveConfig_def Let_def intruder_typed_def config_typed_def atoi_if_def split: prod.split)
  have "sn_store (it_sender (saveConfig f t)) = snd (SaveIntruderConfig ?c (sn_store (it_sender t)))"
    "it_attack (saveConfig f t) = it_attack t"
    by (simp_all add: saveConfig_def Let_def)
  with c assms(1) SaveIntruderConfig_typed [OF c] show ?thesis by (simp add: intruder_typed_def)
qed

lemma startAttack_typed: "intruder_typed t \<Longrightarrow> intruder_typed (startAttack t)"
  by (auto simp: startAttack_def refuse_def Let_def intruder_typed_def config_typed_def intro!: SaveIntruderConfig_typed)

lemma intruder_step_typed: "intruder_typed t \<Longrightarrow> intruder_typed (intruder_step ne e t)"
proof (cases e)
  case PressStop
  then show "intruder_typed t \<Longrightarrow> ?thesis"
    by (cases "it_stop t") (simp_all add: intruder_step_def stopAttack_def intruder_typed_def)
qed (simp_all add: intruder_step_def attack_turn_typed startAttack_typed saveConfig_typed,
  simp_all add: clearResults_def applyFilter_def tableOnSelect_def intruder_typed_def)

text \<open>C23: The configuration keeps its type: whatever is written into the configuration dialog and whenever, the
  delay, the status to stop on and the number of redirects stay non-negative, the timeout positive and
  the redirect mode one of its three words, in the tab, in a running attack's copy and in the store.\<close>

theorem intruder_config_typed:
  assumes "store_typed s"
  shows "intruder_typed (intruder_run ne es (newIntruderTab s))"
proof -
  have "intruder_typed (newIntruderTab s)"
    using LoadIntruderConfig_typed [OF assms] by (simp add: newIntruderTab_def intruder_typed_def case_prod_beta)
  moreover have "intruder_typed t \<Longrightarrow> intruder_typed (intruder_run ne es t)" for t
    unfolding intruder_run_def by (induction es arbitrary: t) (simp_all add: intruder_step_typed)
  ultimately show ?thesis by blast
qed

theorem intruder_config_typed_witness:
  "config_typed (it_config (intruder_run demo_net [SaveConfig \<lparr>cf_delay = ''-5'', cf_stop = ''x'', cf_max = '' 3 '',
     cf_follow = ''always'', cf_timeout = ''0'', cf_encoding = ''None''\<rparr>] (newIntruderTab (fresh_store (\<lambda>_. False) new_file))))"
proof -
  have "store_typed (fresh_store (\<lambda>_. False) new_file)"
    by (simp add: store_typed_def fresh_store_def new_file_def)
  from intruder_config_typed [OF this] show ?thesis by (simp only: intruder_typed_def)
qed

end
