(* ===== verification/Runes.thy ===== *)
theory Runes
  imports Prelude
begin

text \<open>
  Runes: how Go reads a string as Unicode code points (\<open>[]rune (s)\<close>) and writes them back
  (\<open>string (rs)\<close>). A string is its bytes, a rune is a number. A byte that does not start a well-formed
  sequence is read alone as U+FFFD, as the language prescribes.
\<close>

type_synonym rune = nat

abbreviation code :: "char \<Rightarrow> nat" where "code c \<equiv> of_char c"

definition rune_error :: rune where "rune_error = 65533"

text \<open>A continuation byte in the given range (table 3-7 of the Unicode standard), and its payload.\<close>

definition cont :: "nat \<Rightarrow> nat \<Rightarrow> char \<Rightarrow> bool" where
  "cont lo hi c = (lo \<le> code c \<and> code c \<le> hi)"

definition low6 :: "char \<Rightarrow> nat" where
  "low6 c = code c mod 64"

text \<open>The rune at the start of a text that is not empty, and how many bytes it takes.\<close>

definition decode2 :: "nat \<Rightarrow> string \<Rightarrow> nat \<times> nat" where
  "decode2 a s = (case s of b # _ \<Rightarrow> if cont 128 191 b then ((a - 192) * 64 + low6 b, 2) else (rune_error, 1)
     | [] \<Rightarrow> (rune_error, 1))"

text \<open>The second byte after a given first one.\<close>

definition second3 :: "nat \<Rightarrow> char \<Rightarrow> bool" where
  "second3 a b = cont (if a = 224 then 160 else 128) (if a = 237 then 159 else 191) b"

definition second4 :: "nat \<Rightarrow> char \<Rightarrow> bool" where
  "second4 a b = cont (if a = 240 then 144 else 128) (if a = 244 then 143 else 191) b"

definition decode3 :: "nat \<Rightarrow> string \<Rightarrow> nat \<times> nat" where
  "decode3 a s = (case s of b # c # _ \<Rightarrow>
       if second3 a b \<and> cont 128 191 c
       then ((a - 224) * 4096 + low6 b * 64 + low6 c, 3) else (rune_error, 1)
     | _ \<Rightarrow> (rune_error, 1))"

definition decode4 :: "nat \<Rightarrow> string \<Rightarrow> nat \<times> nat" where
  "decode4 a s = (case s of b # c # d # _ \<Rightarrow>
       if second4 a b \<and> cont 128 191 c \<and> cont 128 191 d
       then ((a - 240) * 262144 + low6 b * 4096 + low6 c * 64 + low6 d, 4) else (rune_error, 1)
     | _ \<Rightarrow> (rune_error, 1))"

definition decode_rune :: "char \<Rightarrow> string \<Rightarrow> nat \<times> nat" where
  "decode_rune c s = (let a = code c in
     if a < 128 then (a, 1)
     else if 194 \<le> a \<and> a \<le> 223 then decode2 a s
     else if 224 \<le> a \<and> a \<le> 239 then decode3 a s
     else if 240 \<le> a \<and> a \<le> 244 then decode4 a s
     else (rune_error, 1))"

function runes :: "string \<Rightarrow> rune list" where
  "runes [] = []"
| "runes (c # s) = (case decode_rune c s of (r, n) \<Rightarrow> r # runes (drop (n - 1) s))"
  by pat_completeness auto
termination by (relation "measure length") auto

definition valid_rune :: "rune \<Rightarrow> bool" where
  "valid_rune r = (r < 55296 \<or> 57344 \<le> r \<and> r < 1114112)"

definition encode_valid :: "rune \<Rightarrow> string" where
  "encode_valid r = (if r < 128 then [char_of r]
     else if r < 2048 then [char_of (192 + r div 64), char_of (128 + r mod 64)]
     else if r < 65536 then [char_of (224 + r div 4096), char_of (128 + r div 64 mod 64), char_of (128 + r mod 64)]
     else [char_of (240 + r div 262144), char_of (128 + r div 4096 mod 64), char_of (128 + r div 64 mod 64),
       char_of (128 + r mod 64)])"

definition encode_rune :: "rune \<Rightarrow> string" where
  "encode_rune r = encode_valid (if valid_rune r then r else rune_error)"

definition of_runes :: "rune list \<Rightarrow> string" where
  "of_runes rs = concat (map encode_rune rs)"

lemma of_runes_simps [simp]: "of_runes [] = []" "of_runes (r # rs) = encode_rune r @ of_runes rs"
    "of_runes (rs @ qs) = of_runes rs @ of_runes qs"
  by (simp_all add: of_runes_def)

text \<open>\<open>xs[i:j]\<close>.\<close>

definition slice :: "'a list \<Rightarrow> nat \<Rightarrow> nat \<Rightarrow> 'a list" where
  "slice xs i j = take (j - i) (drop i xs)"

lemma slice_append: "i \<le> j \<Longrightarrow> j \<le> k \<Longrightarrow> slice rs i j @ slice rs j k = slice rs i k"
proof -
  assume a: "i \<le> j" "j \<le> k"
  then have "k - i = (j - i) + (k - j)" "drop j rs = drop (j - i) (drop i rs)" by simp_all
  then show ?thesis unfolding slice_def by (metis take_add)
qed

lemma slice_Suc: "i < length rs \<Longrightarrow> slice rs i (Suc i) = [rs ! i]"
  by (simp add: slice_def Suc_diff_le take_Suc_conv_app_nth)

lemma slice_all [simp]: "slice xs 0 (length xs) = xs"
  by (simp add: slice_def)

lemma take_slice: "i \<le> j \<Longrightarrow> take i xs @ slice xs i j = take j xs"
  unfolding slice_def by (metis le_add_diff_inverse take_add)

lemma slice_map: "slice (map f xs) i j = map f (slice xs i j)"
  by (simp add: slice_def take_map drop_map)

lemma slice_nth: "j \<le> length xs \<Longrightarrow> slice xs i j = map ((!) xs) [i..<j]"
  by (rule nth_equalityI) (auto simp: slice_def)

text \<open>Line breaks made uniform, as the text widgets do before they split.\<close>

definition unix_breaks :: "string \<Rightarrow> string" where
  "unix_breaks s = replace_all (replace_all s CRLF LF) [CHR 0x0D] LF"

section \<open>Round trip\<close>

lemma code_char_of: "n < 256 \<Longrightarrow> code (char_of n) = n"
  by (simp add: of_char_of)

lemma valid_rune_error: "valid_rune rune_error"
  by (simp add: valid_rune_def rune_error_def)

lemma follow_byte:
  assumes "b < 64"
  shows "code (char_of (128 + b)) = 128 + b" "low6 (char_of (128 + b)) = b"
    "cont lo hi (char_of (128 + b)) = (lo \<le> 128 + b \<and> 128 + b \<le> hi)"
proof -
  show c: "code (char_of (128 + b)) = 128 + b" using assms by (intro code_char_of) simp
  have "(128 + b) mod 64 = b" using assms mod_mult_self3 [of 2 64 b] by simp
  with c show "low6 (char_of (128 + b)) = b" by (simp add: low6_def)
  from c show "cont lo hi (char_of (128 + b)) = (lo \<le> 128 + b \<and> 128 + b \<le> hi)" by (simp add: cont_def)
qed

lemma decode_two:
  assumes "2 \<le> a" "a < 32" "b < 64"
  shows "decode_rune (char_of (192 + a)) (char_of (128 + b) # s) = (a * 64 + b, 2)"
proof -
  have "code (char_of (192 + a)) = 192 + a" using assms by (intro code_char_of) simp
  with assms show ?thesis by (simp add: decode_rune_def decode2_def follow_byte)
qed

lemma decode_three:
  assumes "a < 16" "b < 64" "c < 64" and r: "r = a * 4096 + b * 64 + c" "2048 \<le> r" "valid_rune r"
  shows "decode_rune (char_of (224 + a)) (char_of (128 + b) # char_of (128 + c) # s) = (r, 3)"
proof -
  have "code (char_of (224 + a)) = 224 + a" using assms by (intro code_char_of) simp
  moreover have "a = 0 \<Longrightarrow> 32 \<le> b" using assms by simp
  moreover have "a = 13 \<Longrightarrow> b \<le> 31" using assms by (simp add: valid_rune_def)
  ultimately show ?thesis using assms(1-3) by (simp add: decode_rune_def decode3_def second3_def follow_byte r(1))
qed

lemma decode_four:
  assumes "a < 5" "b < 64" "c < 64" "d < 64"
    and r: "r = a * 262144 + b * 4096 + c * 64 + d" "65536 \<le> r" "valid_rune r"
  shows "decode_rune (char_of (240 + a)) (char_of (128 + b) # char_of (128 + c) # char_of (128 + d) # s) = (r, 4)"
proof -
  have "code (char_of (240 + a)) = 240 + a" using assms by (intro code_char_of) simp
  moreover have "a = 0 \<Longrightarrow> 16 \<le> b" using assms by simp
  moreover have "a = 4 \<Longrightarrow> b \<le> 15" using assms by (simp add: valid_rune_def)
  ultimately show ?thesis using assms(1-4) by (simp add: decode_rune_def decode4_def second4_def follow_byte r(1))
qed

lemma encode_rune_Cons: "\<exists>c t. encode_rune r = c # t"
  by (simp add: encode_rune_def encode_valid_def)

text \<open>What is written is read back, whatever follows.\<close>

lemma runes_encode:
  assumes "valid_rune r"
  shows "runes (encode_rune r @ s) = r # runes s"
proof -
  consider "r < 128" | "128 \<le> r" "r < 2048" | "2048 \<le> r" "r < 65536" | "65536 \<le> r" by linarith
  then show ?thesis
  proof cases
    case 1
    then have "code (char_of r) = r" by (intro code_char_of) simp
    with 1 assms show ?thesis by (simp add: encode_rune_def encode_valid_def decode_rune_def)
  next
    case 2
    then have "2 \<le> r div 64" "r div 64 < 32" "r mod 64 < 64" by auto
    from decode_two [OF this, of s] 2 assms show ?thesis
      by (simp add: encode_rune_def encode_valid_def)
  next
    case 3
    have b: "r div 4096 < 16" "r div 64 mod 64 < 64" "r mod 64 < 64" using 3 by auto
    have "r div 64 = r div 4096 * 64 + r div 64 mod 64" "r = r div 64 * 64 + r mod 64"
      using div_mult_mod_eq [of "r div 64" 64] by (simp_all add: div_mult2_eq [symmetric])
    then have "r = r div 4096 * 4096 + r div 64 mod 64 * 64 + r mod 64" by linarith
    from decode_three [OF b this 3(1) assms, of s] 3 assms show ?thesis
      by (simp add: encode_rune_def encode_valid_def)
  next
    case 4
    have r: "r < 1114112" using assms 4 by (simp add: valid_rune_def)
    then have b: "r div 262144 < 5" "r div 4096 mod 64 < 64" "r div 64 mod 64 < 64" "r mod 64 < 64" by auto
    have "r div 64 = r div 4096 * 64 + r div 64 mod 64" "r = r div 64 * 64 + r mod 64"
      "r div 4096 = r div 262144 * 64 + r div 4096 mod 64"
      using div_mult_mod_eq [of "r div 64" 64] div_mult_mod_eq [of "r div 4096" 64]
      by (simp_all add: div_mult2_eq [symmetric])
    then have "r = r div 262144 * 262144 + r div 4096 mod 64 * 4096 + r div 64 mod 64 * 64 + r mod 64" by linarith
    from decode_four [OF b this 4 assms, of s] 4 assms show ?thesis
      by (simp add: encode_rune_def encode_valid_def)
  qed
qed

lemma runes_of_runes: "\<forall>r \<in> set rs. valid_rune r \<Longrightarrow> runes (of_runes rs) = rs"
  by (induction rs) (simp_all add: runes_encode)

text \<open>Decoding gives valid runes only.\<close>

lemma low6_less [simp]: "low6 c < 64"
  by (simp add: low6_def)

lemma cont_low6: "cont lo hi c \<Longrightarrow> 128 \<le> lo \<Longrightarrow> hi \<le> 191 \<Longrightarrow> lo - 128 \<le> low6 c \<and> low6 c \<le> hi - 128"
proof -
  assume c: "cont lo hi c" "128 \<le> lo" "hi \<le> 191"
  then have "code c = 2 * 64 + (code c - 128)" "code c - 128 < 64" by (auto simp: cont_def)
  then have "low6 c = code c - 128" unfolding low6_def using mod_mult_self3 [of 2 64 "code c - 128"] by simp
  with c show ?thesis by (auto simp: cont_def)
qed

lemma decode_valid: "valid_rune (fst (decode_rune c s))"
proof -
  let ?a = "code c"
  have e: "valid_rune rune_error" by (rule valid_rune_error)
  consider "?a < 128" | "194 \<le> ?a" "?a \<le> 223" | "224 \<le> ?a" "?a \<le> 239" | "240 \<le> ?a" "?a \<le> 244"
    | "?a \<ge> 128" "\<not> (194 \<le> ?a \<and> ?a \<le> 223)" "\<not> (224 \<le> ?a \<and> ?a \<le> 239)" "\<not> (240 \<le> ?a \<and> ?a \<le> 244)" by linarith
  then show ?thesis
  proof cases
    case 1
    then show ?thesis by (simp add: decode_rune_def valid_rune_def)
  next
    case 2
    have "(?a - 192) * 64 + low6 b < 55296" for b using 2 low6_less [of b] by linarith
    with 2 e show ?thesis by (simp add: decode_rune_def decode2_def valid_rune_def split: list.split)
  next
    case 3
    have "valid_rune ((?a - 224) * 4096 + low6 b * 64 + low6 d)"
      if "second3 ?a b" for b d
    proof (cases "?a < 237")
      case True
      with 3 have "?a - 224 \<le> 12" by linarith
      then have "(?a - 224) * 4096 + low6 b * 64 + low6 d < 55296"
        using low6_less [of b] low6_less [of d] by linarith
      then show ?thesis by (simp add: valid_rune_def)
    next
      case False
      have l: "low6 b < 64" "low6 d < 64" by simp_all
      show ?thesis
      proof (cases "?a = 237")
        case True
        then have "low6 b \<le> 31" using that cont_low6 [of 128 159 b] by (simp add: second3_def)
        then have "13 * 4096 + low6 b * 64 + low6 d < 55296" using l by linarith
        with True show ?thesis by (simp add: valid_rune_def)
      next
        case ne: False
        with False 3 have "14 \<le> ?a - 224" "?a - 224 \<le> 15" by linarith+
        then have "57344 \<le> (?a - 224) * 4096 + low6 b * 64 + low6 d"
          "(?a - 224) * 4096 + low6 b * 64 + low6 d < 1114112" using l by linarith+
        then show ?thesis by (simp add: valid_rune_def)
      qed
    qed
    with 3 e show ?thesis by (simp add: decode_rune_def decode3_def Let_def split: list.split)
  next
    case 4
    have "valid_rune ((?a - 240) * 262144 + low6 b * 4096 + low6 d * 64 + low6 f)"
      if "second4 ?a b" for b d f
    proof -
      let ?v = "(?a - 240) * 262144 + low6 b * 4096 + low6 d * 64 + low6 f"
      have l: "low6 b < 64" "low6 d < 64" "low6 f < 64" by simp_all
      have b: "?a = 240 \<Longrightarrow> 16 \<le> low6 b" "?a = 244 \<Longrightarrow> low6 b \<le> 15"
        using that cont_low6 [of 144 191 b] cont_low6 [of 128 143 b] by (simp_all add: second4_def)
      consider "?a = 240" | "1 \<le> ?a - 240" "?a - 240 \<le> 3" | "?a = 244" using 4 by linarith
      then have "57344 \<le> ?v \<and> ?v < 1114112"
      proof cases
        case 1
        then have "?a - 240 = 0" by simp
        with b(1) [OF 1] l show ?thesis by linarith
      next
        case 2
        with l show ?thesis by linarith
      next
        case 3
        then have "?a - 240 = 4" by simp
        with b(2) [OF 3] l show ?thesis by linarith
      qed
      then show ?thesis by (simp add: valid_rune_def)
    qed
    with 4 e show ?thesis by (simp add: decode_rune_def decode4_def Let_def split: list.split)
  next
    case 5
    with e show ?thesis by (auto simp add: decode_rune_def Let_def)
  qed
qed

lemma runes_valid: "r \<in> set (runes s) \<Longrightarrow> valid_rune r"
proof (induction s rule: runes.induct)
  case (2 c s)
  obtain q n where d: "decode_rune c s = (q, n)" by fastforce
  with 2 decode_valid [of c s] show ?case by auto
qed simp

text \<open>Slices of a text's runes are read back as they are.\<close>

definition all_valid :: "rune list \<Rightarrow> bool" where
  "all_valid rs = (\<forall>r \<in> set rs. valid_rune r)"

lemma all_valid_simps [simp]: "all_valid []" "all_valid (r # rs) = (valid_rune r \<and> all_valid rs)"
    "all_valid (rs @ qs) = (all_valid rs \<and> all_valid qs)"
  by (auto simp: all_valid_def)

lemma all_valid_runes [simp]: "all_valid (runes s)"
  by (simp add: all_valid_def runes_valid)

lemma all_valid_take [simp]: "all_valid rs \<Longrightarrow> all_valid (take n rs)"
  by (auto simp: all_valid_def dest: in_set_takeD)

lemma all_valid_drop [simp]: "all_valid rs \<Longrightarrow> all_valid (drop n rs)"
  by (auto simp: all_valid_def dest: in_set_dropD)

lemma all_valid_slice [simp]: "all_valid rs \<Longrightarrow> all_valid (slice rs i j)"
  by (simp add: slice_def)

lemma runes_of [simp]: "all_valid rs \<Longrightarrow> runes (of_runes rs) = rs"
  by (simp add: all_valid_def runes_of_runes)

text \<open>Line breaks are bytes of their own.\<close>

lemma char_of_eq: "n < 256 \<Longrightarrow> (c = char_of n) = (code c = n)" for c :: char
  by (metis code_char_of char_of_char)

lemma encode_high: "c \<in> set (encode_rune r) \<Longrightarrow> 128 \<le> r \<Longrightarrow> 128 \<le> code c"
proof -
  have m: "x mod 64 < 64" for x :: nat by simp
  have v: "128 \<le> code c" if "c \<in> set (encode_valid q)" "128 \<le> q" "q < 1114112" for q
  proof -
    have "q div 64 mod 64 < 64" "q div 4096 mod 64 < 64" "q mod 64 < 64" "q div 262144 < 5" using that(3) by auto
    moreover have "q < 65536 \<Longrightarrow> q div 4096 < 16" "q < 2048 \<Longrightarrow> q div 64 < 32" by auto
    ultimately show ?thesis using that
      by (auto simp: encode_valid_def of_char_of split: if_splits)
  qed
  assume "c \<in> set (encode_rune r)" "128 \<le> r"
  then show ?thesis using v [of r] v [of rune_error]
    by (auto simp: encode_rune_def valid_rune_def rune_error_def split: if_splits)
qed

lemma encode_low: "r < 128 \<Longrightarrow> encode_rune r = [char_of r]"
  by (simp add: encode_rune_def encode_valid_def valid_rune_def)

lemma encode_LF: "encode_rune 10 = LF"
proof -
  have "(CHR 0x0A :: char) = char_of (10 :: nat)" by (simp add: char_of_eq)
  then show ?thesis by (simp add: encode_low)
qed

lemma byte_of_runes:
  assumes "code c < 128"
  shows "c \<in> set (of_runes rs) \<longleftrightarrow> code c \<in> set rs"
proof -
  have "c \<in> set (encode_rune r) \<longleftrightarrow> code c = r" for r
  proof (cases "r < 128")
    case True
    then show ?thesis by (simp add: encode_low char_of_eq)
  next
    case False
    with encode_high [of c r] assms show ?thesis by auto
  qed
  then show ?thesis by (auto simp: of_runes_def)
qed


lemma decode_low:
  assumes "fst (decode_rune c s) < 128"
  shows "code c = fst (decode_rune c s)"
proof (rule ccontr)
  let ?a = "code c"
  assume ne: "code c \<noteq> fst (decode_rune c s)"
  then have a: "\<not> ?a < 128" by (auto simp: decode_rune_def)
  have e: "\<not> rune_error < 128" by (simp add: rune_error_def)
  consider "194 \<le> ?a" "?a \<le> 223" | "224 \<le> ?a" "?a \<le> 239" | "240 \<le> ?a" "?a \<le> 244"
    | "\<not> (194 \<le> ?a \<and> ?a \<le> 223)" "\<not> (224 \<le> ?a \<and> ?a \<le> 239)" "\<not> (240 \<le> ?a \<and> ?a \<le> 244)" by linarith
  then show False
  proof cases
    case 1
    then have "2 * 64 \<le> (?a - 192) * 64" by linarith
    with 1 e assms show False by (auto simp: decode_rune_def decode2_def Let_def split: list.splits if_splits)
  next
    case 2
    have "second3 ?a b \<Longrightarrow> \<not> (?a - 224) * 4096 + low6 b * 64 + low6 d < 128" for b d
    proof (cases "?a = 224")
      case True
      assume "second3 ?a b"
      then have "32 \<le> low6 b" using True cont_low6 [of 160 191 b] by (simp add: second3_def)
      then show ?thesis by linarith
    next
      case False
      with 2 have "1 \<le> ?a - 224" by linarith
      then show ?thesis by linarith
    qed
    with 2 e assms show False by (auto simp: decode_rune_def decode3_def Let_def split: list.splits if_splits)
  next
    case 3
    have "second4 ?a b \<Longrightarrow> \<not> (?a - 240) * 262144 + low6 b * 4096 + low6 d * 64 + low6 f < 128" for b d f
    proof (cases "?a = 240")
      case True
      assume "second4 ?a b"
      then have "16 \<le> low6 b" using True cont_low6 [of 144 191 b] by (simp add: second4_def)
      then show ?thesis by linarith
    next
      case False
      with 3 have "1 \<le> ?a - 240" by linarith
      then show ?thesis by linarith
    qed
    with 3 e assms show False by (auto simp: decode_rune_def decode4_def Let_def split: list.splits if_splits)
  next
    case 4
    with a e assms show False by (auto simp: decode_rune_def Let_def)
  qed
qed

lemma low_rune_byte: "r \<in> set (runes s) \<Longrightarrow> r < 128 \<Longrightarrow> char_of r \<in> set s"
proof (induction s rule: runes.induct)
  case (2 c s)
  obtain q n where d: "decode_rune c s = (q, n)" by fastforce
  from "2.prems"(1) d consider "r = q" | "r \<in> set (runes (drop (n - 1) s))" by auto
  then show ?case
  proof cases
    case 1
    then have "code c = r" using decode_low [of c s] d "2.prems"(2) by simp
    then show ?thesis by (metis char_of_char list.set_intros(1))
  next
    case 2
    with "2.IH" [OF d [symmetric]] "2.prems"(2) show ?thesis by (auto dest: in_set_dropD)
  qed
qed simp

text \<open>A line without line breaks, as bytes and as runes.\<close>

definition one_line :: "string \<Rightarrow> bool" where
  "one_line s = (CHR 0x0A \<notin> set s \<and> CHR 0x0D \<notin> set s)"

definition no_break :: "rune list \<Rightarrow> bool" where
  "no_break rs = (10 \<notin> set rs \<and> 13 \<notin> set rs)"

lemma no_break_simps [simp]: "no_break []" "no_break (r # rs) = (r \<noteq> 10 \<and> r \<noteq> 13 \<and> no_break rs)"
    "no_break (rs @ qs) = (no_break rs \<and> no_break qs)"
  by (auto simp: no_break_def)

lemma no_break_take_drop [simp]: "no_break rs \<Longrightarrow> no_break (take n rs)" "no_break rs \<Longrightarrow> no_break (drop n rs)"
  by (auto simp: no_break_def dest: in_set_takeD in_set_dropD)

lemma one_line_of_runes [simp]: "one_line (of_runes rs) = no_break rs"
  using byte_of_runes [of "CHR 0x0A" rs] byte_of_runes [of "CHR 0x0D" rs] by (simp add: one_line_def no_break_def)

lemma one_line_runes: "one_line s \<Longrightarrow> no_break (runes s)"
proof -
  have "(char_of (10 :: nat) :: char) = CHR 0x0A" "(char_of (13 :: nat) :: char) = CHR 0x0D"
    by (simp_all add: char_of_eq eq_commute [of _ "CHR 0x0A"] eq_commute [of _ "CHR 0x0D"])
  then show "one_line s \<Longrightarrow> no_break (runes s)"
    using low_rune_byte [of 10 s] low_rune_byte [of 13 s] by (auto simp: one_line_def no_break_def)
qed

lemma one_line_append [simp]: "one_line (s @ t) = (one_line s \<and> one_line t)"
  by (auto simp: one_line_def)


lemma runes_ascii: "\<forall>c \<in> set s. code c < 128 \<Longrightarrow> runes s = map of_char s"
  by (induction s) (simp_all add: decode_rune_def)


declare runes.simps(2) [simp del]


text \<open>Two texts read one after the other, when the second does not start in the middle of a sequence.\<close>

definition starts_rune :: "string \<Rightarrow> bool" where
  "starts_rune s = (case s of [] \<Rightarrow> True | c # _ \<Rightarrow> \<not> (128 \<le> code c \<and> code c \<le> 191))"

lemma second_cont: "second3 a b \<Longrightarrow> 128 \<le> code b \<and> code b \<le> 191" "second4 a b \<Longrightarrow> 128 \<le> code b \<and> code b \<le> 191"
  by (auto simp: second3_def second4_def cont_def split: if_splits)

lemma decode_append:
  assumes "starts_rune t"
  shows "decode_rune c (s @ t) = decode_rune c s"
proof -
  have n: "\<not> cont 128 191 d" "\<not> second3 a d" "\<not> second4 a d" if "t = d # u" for a d u
    using assms that second_cont by (auto simp: starts_rune_def cont_def)
  have "decode2 a (s @ t) = decode2 a s" for a
    using n by (cases s; cases t) (auto simp: decode2_def)
  moreover have "decode3 a (s @ t) = decode3 a s" for a
    using n by (cases s; cases "tl s"; cases t) (auto simp: decode3_def split: list.split)
  moreover have "decode4 a (s @ t) = decode4 a s" for a
    using n by (cases s; cases "tl s"; cases "tl (tl s)"; cases t) (auto simp: decode4_def split: list.split)
  ultimately show ?thesis by (simp add: decode_rune_def Let_def)
qed

lemma decode_size: "snd (decode_rune c s) - 1 \<le> length s"
  by (auto simp: decode_rune_def decode2_def decode3_def decode4_def Let_def split: list.split)

lemma runes_append: "starts_rune t \<Longrightarrow> runes (s @ t) = runes s @ runes t"
proof (induction s rule: runes.induct)
  case (2 c s)
  obtain q n where d: "decode_rune c s = (q, n)" by fastforce
  then have "n - 1 \<le> length s" using decode_size [of c s] by simp
  then have "drop (n - 1) (s @ t) = drop (n - 1) s @ t" by simp
  with 2 d show ?case by (simp add: runes.simps(2) decode_append)
qed simp

lemma starts_of_runes:
  assumes "rs \<noteq> []"
  shows "starts_rune (of_runes rs @ s)"
proof -
  obtain r qs where rs: "rs = r # qs" using assms by (cases rs) auto
  have h: "starts_rune (encode_valid q @ u)" if "q < 1114112" for q u
  proof -
    have "q div 262144 < 5" "q < 65536 \<Longrightarrow> q div 4096 < 16" "q < 2048 \<Longrightarrow> q div 64 < 32" using that by auto
    then show ?thesis by (auto simp: starts_rune_def encode_valid_def of_char_of)
  qed
  have "starts_rune (encode_rune r @ u)" for u
    using h [of r u] h [of rune_error u] by (auto simp: encode_rune_def valid_rune_def rune_error_def)
  with rs show ?thesis by simp
qed

lemma runes_append_runes: "all_valid rs \<Longrightarrow> runes (s @ of_runes rs) = runes s @ rs"
  using starts_of_runes [of rs "[]"] by (cases "rs = []") (simp_all add: runes_append)

lemma runes_of_append: "all_valid rs \<Longrightarrow> runes (of_runes rs @ s) = rs @ runes s"
  by (induction rs) (simp_all add: runes_encode)

end
