(* ===== verification/Tokeniser.thy ===== *)
theory Tokeniser
  imports Runes
begin

text \<open>
  The syntax colours of raw HTTP text (\<open>internal/ui/widgets/tokeniser.go\<close>): the tokeniser of
  header lines and of JSON lines, and the wrapping of a token list into lines of limited width.

  A text is its bytes, widths and positions count runes. The width of a line in pixels divided by that
  of a character is the parameter \<open>fit\<close>.
\<close>

datatype tvTokenKind = KPlain | KMethod | KPath | KVersion | KStatus2xx | KStatus3xx | KStatus4xx | KStatus5xx
  | KHdrName | KHdrColon | KHdrValue | KJSONKey | KJSONStr | KJSONNum | KJSONBool | KJSONPunct | KLow

datatype theme_color = Foreground | Primary | PlaceHolder | SuccessColor | WarningColor | ErrorColor

fun tvColor :: "tvTokenKind \<Rightarrow> theme_color" where
  "tvColor KMethod = ErrorColor"
| "tvColor KPath = Primary"
| "tvColor KVersion = PlaceHolder"
| "tvColor KLow = PlaceHolder"
| "tvColor KStatus2xx = SuccessColor"
| "tvColor KStatus3xx = Primary"
| "tvColor KStatus4xx = ErrorColor"
| "tvColor KStatus5xx = ErrorColor"
| "tvColor KHdrName = Primary"
| "tvColor KHdrColon = PlaceHolder"
| "tvColor KJSONPunct = PlaceHolder"
| "tvColor KHdrValue = Foreground"
| "tvColor KJSONKey = Primary"
| "tvColor KJSONStr = SuccessColor"
| "tvColor KJSONNum = WarningColor"
| "tvColor KJSONBool = ErrorColor"
| "tvColor KPlain = Foreground"

record tvToken =
  tk_text :: string
  tk_kind :: tvTokenKind

record tvLine =
  tl_tokens :: "tvToken list"
  tl_raw :: string

abbreviation tok :: "tvTokenKind \<Rightarrow> string \<Rightarrow> tvToken" where
  "tok k s \<equiv> \<lparr>tk_text = s, tk_kind = k\<rparr>"

definition texts :: "tvToken list \<Rightarrow> string" where
  "texts ts = concat (map tk_text ts)"

lemma texts_simps [simp]: "texts [] = []" "texts (t # ts) = tk_text t @ texts ts"
    "texts (ts @ us) = texts ts @ texts us"
  by (simp_all add: texts_def)

section \<open>Header lines\<close>

fun detectContentType :: "string list \<Rightarrow> string" where
  "detectContentType [] = ''text''"
| "detectContentType (line # ls) = (let lower = to_lower line in
     if has_prefix lower ''content-type:'' then
       (if contains lower ''json'' then ''json'' else if contains lower ''html'' then ''html'' else ''text'')
     else if line = [] then ''text''
     else detectContentType ls)"

definition tokeniseFirstLine :: "string \<Rightarrow> tvToken list" where
  "tokeniseFirstLine line =
     (if trim_space line = [] then [tok KPlain line]
      else case str_fields line of [] \<Rightarrow> [tok KPlain line]
      | p0 # ps \<Rightarrow>
        if has_prefix p0 ''HTTP/'' then
          (case ps of [] \<Rightarrow> [tok KPlain line]
           | p1 # rest \<Rightarrow>
             (let statusKind = (if hd p1 = CHR ''3'' then KStatus3xx else if hd p1 = CHR ''4'' then KStatus4xx
                    else if hd p1 = CHR ''5'' then KStatus5xx else KStatus2xx)
              in [tok KVersion (p0 @ '' ''), tok statusKind p1]
                 @ (if rest = [] then [] else [tok KLow ('' '' @ join rest '' '')])))
        else (case ps of p1 # rest \<Rightarrow> if rest \<noteq> []
             then [tok KMethod (p0 @ '' ''), tok KPath p1, tok KVersion ('' '' @ join rest '' '')]
             else [tok KPlain line]
           | [] \<Rightarrow> [tok KPlain line]))"

definition tokeniseHTTPMeta :: "string \<Rightarrow> bool \<Rightarrow> tvToken list" where
  "tokeniseHTTPMeta line isFirstLine =
     (if line = [] then [tok KPlain []]
      else if isFirstLine then tokeniseFirstLine line
      else case cut line '':'' of None \<Rightarrow> [tok KPlain line]
      | Some (before, after) \<Rightarrow> [tok KHdrName before, tok KHdrColon '':'', tok KHdrValue after])"

section \<open>JSON lines\<close>

text \<open>Positions are in the runes of the line. \<open>scan P\<close> goes on while \<open>P\<close> holds.\<close>

definition scan :: "(rune \<Rightarrow> bool) \<Rightarrow> rune list \<Rightarrow> nat \<Rightarrow> nat" where
  "scan P rs i = i + length (takeWhile P (drop i rs))"

definition backslashes :: "rune list \<Rightarrow> nat \<Rightarrow> nat \<Rightarrow> nat" where
  "backslashes rs pos end1 = length (takeWhile (\<lambda>r. r = 92) (rev (slice rs pos end1)))"

function string_end :: "rune list \<Rightarrow> nat \<Rightarrow> nat \<Rightarrow> nat" where
  "string_end rs pos i = (if i < length rs
     then (if rs ! i = 34 \<and> even (backslashes rs pos i) then i else string_end rs pos (Suc i))
     else i)"
  by pat_completeness auto
termination by (relation "measure (\<lambda>(rs, pos, i). length rs - i)") auto

declare string_end.simps [simp del]

definition digit_rune :: "rune \<Rightarrow> bool" where
  "digit_rune r = (48 \<le> r \<and> r \<le> 57)"

definition number_rune :: "rune \<Rightarrow> bool" where
  "number_rune r = (digit_rune r \<or> r \<in> {46, 101, 69, 43, 45})"

definition blank_rune :: "rune \<Rightarrow> bool" where
  "blank_rune r = (r = 32 \<or> r = 9)"

definition keyword_at :: "rune list \<Rightarrow> string option" where
  "keyword_at rs = (case filter (\<lambda>k. has_prefix (of_runes rs) k) [''true'', ''false'', ''null''] of
     [] \<Rightarrow> None | k # _ \<Rightarrow> Some k)"

text \<open>One turn of the loop of \<open>tokeniseJSON\<close>: the token at a position, and the next position.\<close>

definition json_token :: "rune list \<Rightarrow> nat \<Rightarrow> tvToken \<times> nat" where
  "json_token rs pos = (let ch = rs ! pos in
     if ch = 34 then
       (let e = string_end rs pos (Suc pos);
            e = (if e < length rs then Suc e else e);
            peek = scan (\<lambda>r. r = 32) rs e
        in (tok (if peek < length rs \<and> rs ! peek = 58 then KJSONKey else KJSONStr) (of_runes (slice rs pos e)), e))
     else if ch \<in> {123, 125, 91, 93, 44, 58} then (tok KJSONPunct (of_runes [ch]), Suc pos)
     else if ch = 45 \<or> digit_rune ch then
       (let e = scan number_rune rs (Suc pos) in (tok KJSONNum (of_runes (slice rs pos e)), e))
     else if ch \<in> {116, 102, 110} then
       (case keyword_at (drop pos rs) of
          Some k \<Rightarrow> (tok KJSONBool k, pos + length k)
        | None \<Rightarrow> (tok KPlain (of_runes [ch]), Suc pos))
     else if blank_rune ch then
       (let e = scan blank_rune rs (Suc pos) in (tok KPlain (of_runes (slice rs pos e)), e))
     else (tok KPlain (of_runes [ch]), Suc pos))"

lemma scan_ge: "i \<le> scan P rs i"
  by (simp add: scan_def)

lemma scan_le: "i \<le> length rs \<Longrightarrow> scan P rs i \<le> length rs"
  using length_takeWhile_le [of P "drop i rs"] by (simp add: scan_def)

lemma string_end_ge: "i \<le> string_end rs pos i"
proof (induction rs pos i rule: string_end.induct)
  case (1 rs pos i)
  then show ?case by (subst string_end.simps) auto
qed

lemma string_end_le: "i \<le> length rs \<Longrightarrow> string_end rs pos i \<le> length rs"
proof (induction rs pos i rule: string_end.induct)
  case (1 rs pos i)
  then show ?case by (subst string_end.simps) auto
qed

lemma keyword_not_Nil [simp]: "keyword_at rs \<noteq> Some []"
  by (auto simp: keyword_at_def split: list.splits if_splits)

lemma json_token_ge: "pos < snd (json_token rs pos)"
  using string_end_ge [of "Suc pos" rs pos] scan_ge [of "Suc pos" number_rune rs] scan_ge [of "Suc pos" blank_rune rs]
  by (auto simp: json_token_def Let_def Suc_le_eq split: option.split)

function json_tokens :: "rune list \<Rightarrow> nat \<Rightarrow> tvToken list" where
  "json_tokens rs pos = (if pos < length rs
     then (case json_token rs pos of (t, p) \<Rightarrow> t # json_tokens rs p) else [])"
  by pat_completeness auto
termination
  apply (relation "measure (\<lambda>(rs, pos). length rs - pos)")
   apply simp
  apply (metis (no_types, lifting) case_prod_conv diff_less_mono2 in_measure json_token_ge snd_conv)
  done

declare json_tokens.simps [simp del]

definition tokeniseJSON :: "string \<Rightarrow> tvToken list" where
  "tokeniseJSON line = (if line = [] then [tok KPlain []] else json_tokens (runes line) 0)"

definition tokeniseBody :: "string \<Rightarrow> string \<Rightarrow> tvToken list" where
  "tokeniseBody line contentType = (if contentType = ''json'' then tokeniseJSON line else [tok KPlain line])"

section \<open>Wrapping\<close>

record wrap =
  wr_result :: "tvLine list"
  wr_current :: "tvToken list"
  wr_len :: nat

definition flush :: "wrap \<Rightarrow> wrap" where
  "flush w = (if wr_current w = [] then w
     else \<lparr>wr_result = wr_result w @ [\<lparr>tl_tokens = wr_current w, tl_raw = texts (wr_current w)\<rparr>],
           wr_current = [], wr_len = 0\<rparr>)"

definition put :: "nat \<Rightarrow> tvToken \<Rightarrow> wrap \<Rightarrow> wrap" where
  "put n t w = w\<lparr>wr_current := wr_current w @ [t], wr_len := wr_len w + n\<rparr>"

text \<open>The loop that splits a token. With \<open>cpl = 0\<close> it would not end; \<open>wrapTokens\<close> never uses that.\<close>

function split_token :: "nat \<Rightarrow> tvTokenKind \<Rightarrow> rune list \<Rightarrow> wrap \<Rightarrow> wrap" where
  "split_token cpl k rs w = (if rs = [] \<or> cpl = 0 then w
     else let full = cpl \<le> wr_len w;
              spaceLeft = (if full then cpl else cpl - wr_len w);
              n = min (length rs) spaceLeft
       in split_token cpl k (drop n rs) (put n (tok k (of_runes (take n rs))) (if full then flush w else w)))"
  by pat_completeness auto
termination by (relation "measure (\<lambda>(cpl, k, rs, w). length rs)") auto

declare split_token.simps [simp del]

definition wrap_token :: "nat \<Rightarrow> tvToken \<Rightarrow> wrap \<Rightarrow> wrap" where
  "wrap_token cpl t w = (let tokenLen = length (runes (tk_text t)) in
     if tk_kind t = KJSONStr \<or> tk_kind t = KJSONKey
     then put tokenLen t (if wr_len w + tokenLen > cpl then flush w else w)
     else split_token cpl (tk_kind t) (runes (tk_text t)) w)"

definition wrapTokens :: "tvToken list \<Rightarrow> nat \<Rightarrow> tvLine list" where
  "wrapTokens tokens charsPerLine = (let cpl = (if charsPerLine = 0 then 80 else charsPerLine) in
     wr_result (flush (fold (wrap_token cpl) tokens \<lparr>wr_result = [], wr_current = [], wr_len = 0\<rparr>)))"

section \<open>A whole text\<close>

definition parse_line :: "nat \<Rightarrow> string \<Rightarrow> nat \<times> string \<Rightarrow> tvLine list \<times> bool \<Rightarrow> tvLine list \<times> bool" where
  "parse_line cpl bodyContentType = (\<lambda>(i, rawLine) (result, inBody).
     if \<not> inBody \<and> trim_space rawLine = [] \<and> i > 0
     then (result @ [\<lparr>tl_tokens = [tok KPlain []], tl_raw = []\<rparr>], True)
     else (result @ wrapTokens (if \<not> inBody then tokeniseHTTPMeta rawLine (i = 0)
             else tokeniseBody rawLine bodyContentType) cpl, inBody))"

definition parseAndWrap :: "nat \<Rightarrow> string \<Rightarrow> tvLine list" where
  "parseAndWrap fit s = (if s = [] then []
     else let logicalLines = split (unix_breaks s) LF
       in fst (fold (parse_line (max fit 10) (detectContentType logicalLines)) (enumerate 0 logicalLines) ([], False)))"


section \<open>Nothing is lost\<close>

lemma encode_ascii:
  assumes "code c < 128" "encode_rune r = c # t"
  shows "r = code c \<and> t = []"
proof (cases "r < 128")
  case True
  with assms(2) show ?thesis by (auto simp: encode_low of_char_of)
next
  case False
  with encode_high [of c r] assms show ?thesis by simp
qed

lemma ascii_prefix:
  assumes "\<forall>c \<in> set k. code c < 128"
  shows "prefix k (of_runes rs) \<Longrightarrow> length k \<le> length rs \<and> of_runes (take (length k) rs) = k"
  using assms
proof (induction k arbitrary: rs)
  case (Cons c k)
  show ?case
  proof (cases rs)
    case Nil
    with Cons.prems show ?thesis by simp
  next
    case (Cons r rs')
    obtain d t where e: "encode_rune r = d # t" using encode_rune_Cons by blast
    then have "d = c" using Cons.prems(1) \<open>rs = r # rs'\<close> by simp
    with encode_ascii [of c r t] e Cons.prems(2) have "t = []" by simp
    with Cons.prems \<open>rs = r # rs'\<close> e \<open>d = c\<close> Cons.IH [of rs'] show ?thesis by simp
  qed
qed simp

lemma keyword_text:
  assumes "keyword_at rs = Some k"
  shows "length k \<le> length rs \<and> of_runes (take (length k) rs) = k"
proof -
  have "has_prefix (of_runes rs) k" "k = ''true'' \<or> k = ''false'' \<or> k = ''null''"
    using assms by (auto simp: keyword_at_def split: list.splits if_splits)
  then show ?thesis using ascii_prefix [of k rs] by (auto simp: has_prefix_def)
qed

lemma json_token_slice:
  assumes "pos < length rs"
  shows "snd (json_token rs pos) \<le> length rs
    \<and> tk_text (fst (json_token rs pos)) = of_runes (slice rs pos (snd (json_token rs pos)))"
proof -
  have s: "slice rs pos (Suc pos) = [rs ! pos]" by (rule slice_Suc [OF assms])
  have b: "scan P rs (Suc pos) \<le> length rs" "string_end rs pos (Suc pos) \<le> length rs" for P
    using scan_le [of "Suc pos" rs P] string_end_le [of "Suc pos" rs pos] assms by simp_all
  have k: "pos + length k \<le> length rs \<and> k = of_runes (slice rs pos (pos + length k))"
    if "keyword_at (drop pos rs) = Some k" for k
    using keyword_text [OF that] assms by (auto simp: slice_def)
  show ?thesis
  proof (cases "rs ! pos \<in> {116, 102, 110}")
    case True
    then show ?thesis
      using assms k s by (cases "keyword_at (drop pos rs)") (auto simp: json_token_def digit_rune_def)
  next
    case False
    with assms s b show ?thesis by (simp add: json_token_def Let_def)
  qed
qed

lemma json_tokens_texts: "pos \<le> length rs \<Longrightarrow> texts (json_tokens rs pos) = of_runes (slice rs pos (length rs))"
proof (induction rs pos rule: json_tokens.induct)
  case (1 rs pos)
  show ?case
  proof (cases "pos < length rs")
    case True
    obtain t p where j: "json_token rs pos = (t, p)" by fastforce
    with json_token_slice [OF True] json_token_ge [of pos rs]
    have p: "p \<le> length rs" "pos < p" "tk_text t = of_runes (slice rs pos p)" by simp_all
    have "texts (json_tokens rs p) = of_runes (slice rs p (length rs))" using 1 True j p(1) by simp
    moreover have "slice rs pos p @ slice rs p (length rs) = slice rs pos (length rs)"
      using p by (intro slice_append) simp_all
    ultimately show ?thesis using True j p(3)
      by (subst json_tokens.simps) (simp flip: of_runes_simps(3))
  next
    case False
    with 1 show ?thesis by (subst json_tokens.simps) (simp add: slice_def)
  qed
qed

lemma tokeniseJSON_texts: "texts (tokeniseJSON line) = of_runes (runes line)"
  using json_tokens_texts [of 0 "runes line"] by (simp add: tokeniseJSON_def slice_def)


section \<open>Wrapped lines\<close>

definition width :: "tvToken \<Rightarrow> nat" where
  "width t = length (runes (tk_text t))"

definition canonical :: "tvToken \<Rightarrow> bool" where
  "canonical t = (of_runes (runes (tk_text t)) = tk_text t)"

definition string_token :: "tvToken \<Rightarrow> bool" where
  "string_token t = (tk_kind t = KJSONStr \<or> tk_kind t = KJSONKey)"

text \<open>A line fits, or is one JSON string.\<close>

definition fits :: "nat \<Rightarrow> tvToken list \<Rightarrow> bool" where
  "fits cpl ts = (sum_list (map width ts) \<le> cpl \<or> (\<exists>t. ts = [t] \<and> string_token t))"

definition line_ok :: "nat \<Rightarrow> tvLine \<Rightarrow> bool" where
  "line_ok cpl l = (tl_tokens l \<noteq> [] \<and> tl_raw l = texts (tl_tokens l) \<and> fits cpl (tl_tokens l))"

definition wrap_ok :: "nat \<Rightarrow> wrap \<Rightarrow> bool" where
  "wrap_ok cpl w = ((\<forall>l \<in> set (wr_result w). line_ok cpl l) \<and> wr_len w = sum_list (map width (wr_current w))
     \<and> fits cpl (wr_current w))"

definition content :: "wrap \<Rightarrow> string" where
  "content w = concat (map tl_raw (wr_result w)) @ texts (wr_current w)"

lemma flush_ok:
  assumes "wrap_ok cpl w"
  shows "wrap_ok cpl (flush w) \<and> wr_current (flush w) = [] \<and> wr_len (flush w) = 0 \<and> content (flush w) = content w"
  using assms by (auto simp: flush_def wrap_ok_def content_def line_ok_def fits_def)

lemma put_content [simp]: "content (put n t w) = content w @ tk_text t"
  by (simp add: content_def put_def)

lemma put_ok:
  assumes "wrap_ok cpl w" "n = width t" "wr_len w + n \<le> cpl \<or> wr_current w = [] \<and> string_token t"
  shows "wrap_ok cpl (put n t w)"
  using assms by (auto simp: wrap_ok_def put_def fits_def)

lemma split_token_ok:
  assumes "0 < cpl"
  shows "wrap_ok cpl w \<Longrightarrow> all_valid rs \<Longrightarrow>
    wrap_ok cpl (split_token cpl k rs w) \<and> content (split_token cpl k rs w) = content w @ of_runes rs"
  using assms
proof (induction cpl k rs w rule: split_token.induct)
  case (1 cpl k rs w)
  show ?case
  proof (cases "rs = []")
    case True
    with 1 show ?thesis by (subst (1 2) split_token.simps) simp
  next
    case False
    let ?full = "cpl \<le> wr_len w"
    let ?s = "if ?full then cpl else cpl - wr_len w"
    let ?n = "min (length rs) ?s"
    let ?w = "if ?full then flush w else w"
    let ?t = "tok k (of_runes (take ?n rs))"
    have f: "wrap_ok cpl ?w" "content ?w = content w" "wr_len ?w + ?n \<le> cpl"
      using flush_ok [OF "1.prems"(1)] "1.prems"(1) by auto
    have "width ?t = ?n" using "1.prems"(2) by (simp add: width_def)
    then have p: "wrap_ok cpl (put ?n ?t ?w)" using f(1,3) by (intro put_ok) simp_all
    have "split_token cpl k rs w = split_token cpl k (drop ?n rs) (put ?n ?t ?w)"
      using False "1.prems"(3) by (subst split_token.simps) (simp add: Let_def)
    moreover have "of_runes (take ?n rs) @ of_runes (drop ?n rs) = of_runes rs"
      by (simp flip: of_runes_simps(3))
    ultimately show ?thesis
      using "1.IH" [OF _ refl refl refl, of ] False "1.prems"(2,3) p f(2) by simp
  qed
qed

lemma wrap_token_ok:
  assumes "0 < cpl" "wrap_ok cpl w" "canonical t"
  shows "wrap_ok cpl (wrap_token cpl t w) \<and> content (wrap_token cpl t w) = content w @ tk_text t"
proof (cases "string_token t")
  case True
  let ?w = "if wr_len w + width t > cpl then flush w else w"
  have w: "wrap_ok cpl ?w" "content ?w = content w" "wr_len ?w + width t \<le> cpl \<or> wr_current ?w = []"
    using flush_ok [OF assms(2)] assms(2) by auto
  have "wrap_token cpl t w = put (width t) t ?w"
    using True by (simp add: wrap_token_def string_token_def width_def Let_def)
  moreover have "wrap_ok cpl (put (width t) t ?w)" using w(1,3) True by (intro put_ok) auto
  ultimately show ?thesis using w(2) by simp
next
  case False
  then have "wrap_token cpl t w = split_token cpl (tk_kind t) (runes (tk_text t)) w"
    by (auto simp: wrap_token_def string_token_def Let_def)
  with split_token_ok [OF assms(1,2) all_valid_runes] assms(3) show ?thesis by (simp add: canonical_def)
qed

lemma wrap_tokens_ok:
  assumes "0 < cpl"
  shows "wrap_ok cpl w \<Longrightarrow> \<forall>t \<in> set ts. canonical t \<Longrightarrow>
    wrap_ok cpl (fold (wrap_token cpl) ts w) \<and> content (fold (wrap_token cpl) ts w) = content w @ texts ts"
proof (induction ts arbitrary: w)
  case (Cons t ts)
  with wrap_token_ok [OF assms, of w t] show ?case by simp
qed simp

lemma wrapTokens_ok:
  assumes "\<forall>t \<in> set ts. canonical t"
  shows "concat (map tl_raw (wrapTokens ts n)) = texts ts
    \<and> (\<forall>l \<in> set (wrapTokens ts n). line_ok (if n = 0 then 80 else n) l)"
proof -
  define c where "c = (if n = 0 then 80 else n)"
  let ?init = "\<lparr>wr_result = [], wr_current = [], wr_len = 0\<rparr>"
  let ?w = "fold (wrap_token c) ts ?init"
  have c: "0 < c" by (simp add: c_def)
  have w0: "wrap_ok c ?init" "content ?init = []" by (simp_all add: wrap_ok_def fits_def content_def)
  from wrap_tokens_ok [OF c w0(1) assms] have w: "wrap_ok c ?w" "content ?w = texts ts"
    unfolding w0(2) by simp_all
  from flush_ok [OF w(1)] have f: "wrap_ok c (flush ?w)" "wr_current (flush ?w) = []" "content (flush ?w) = texts ts"
    using w(2) by simp_all
  have "wrapTokens ts n = wr_result (flush ?w)" by (simp add: wrapTokens_def Let_def c_def)
  with f show ?thesis unfolding c_def [symmetric] by (simp add: wrap_ok_def content_def)
qed

lemma canonical_of_runes [simp]: "all_valid rs \<Longrightarrow> canonical (tok k (of_runes rs))"
  by (simp add: canonical_def)

lemma json_tokens_canonical: "all_valid rs \<Longrightarrow> t \<in> set (json_tokens rs pos) \<Longrightarrow> canonical t"
proof (induction rs pos rule: json_tokens.induct)
  case (1 rs pos)
  obtain u p where j: "json_token rs pos = (u, p)" by fastforce
  show ?case
  proof (cases "pos < length rs")
    case True
    have "tk_text u = of_runes (slice rs pos p)" using json_token_slice [OF True] j by simp
    then have "canonical u" using "1.prems"(1) by (simp add: canonical_def)
    moreover have "t = u \<or> t \<in> set (json_tokens rs p)"
      using "1.prems"(2) True j by (subst (asm) json_tokens.simps) simp
    ultimately show ?thesis using 1 True j by auto
  next
    case False
    with "1.prems"(2) show ?thesis by (subst (asm) json_tokens.simps) simp
  qed
qed

text \<open>C26: A coloured and wrapped JSON line is the line: the visual lines put together again give its runes,
  nothing lost, doubled or moved; each visual line is the text of its tokens and no wider than asked
  for, unless it is one JSON string, which is never split.\<close>

theorem json_line_wrapped:
  "concat (map tl_raw (wrapTokens (tokeniseJSON line) (Suc n))) = of_runes (runes line)
   \<and> (\<forall>l \<in> set (wrapTokens (tokeniseJSON line) (Suc n)). tl_raw l = texts (tl_tokens l)
        \<and> (sum_list (map width (tl_tokens l)) \<le> Suc n
           \<or> (\<exists>t. tl_tokens l = [t] \<and> (tk_kind t = KJSONStr \<or> tk_kind t = KJSONKey))))"
proof -
  have "\<forall>t \<in> set (tokeniseJSON line). canonical t"
    using json_tokens_canonical [OF all_valid_runes] by (auto simp: tokeniseJSON_def canonical_def)
  from wrapTokens_ok [OF this, of "Suc n"] show ?thesis
    unfolding tokeniseJSON_texts by (simp add: line_ok_def fits_def string_token_def)
qed

theorem json_line_wrapped_witness:
  "concat (map tl_raw (wrapTokens (tokeniseJSON ''{}'') (Suc 9))) = of_runes (runes ''{}'')"
  using json_line_wrapped [of "''{}''" 9] by blast

end
