(* ===== verification/Selection.thy ===== *)
theory Selection
  imports Runes
begin

text \<open>
  Text selection, as the two text widgets share it (\<open>internal/ui/widgets/textview.go\<close> and
  \<open>textviewentry.go\<close>): a span of a list of lines between two positions, what it copies and what is
  left when it is cut. A position is a line and a column, counted in runes.

  \<open>flat\<close> is the whole text as one list of runes with a line feed between the lines; \<open>before\<close> and
  \<open>after\<close> are its two halves at a position.
\<close>

type_synonym pos = "nat \<times> nat"

section \<open>The code\<close>

definition normaliseSelection :: "pos \<Rightarrow> pos \<Rightarrow> pos \<times> pos" where
  "normaliseSelection a c = (if fst a > fst c \<or> (fst a = fst c \<and> snd a > snd c) then (c, a) else (a, c))"

text \<open>What one line contributes to a selection of several lines.\<close>

definition sel_piece :: "string list \<Rightarrow> pos \<Rightarrow> pos \<Rightarrow> nat \<Rightarrow> string" where
  "sel_piece lines s e i = (let rs = runes (lines ! i);
       lo = (if i = fst s then snd s else 0);
       hi = (if i = fst e then min (snd e) (length rs) else length rs)
     in of_runes (slice rs (min lo (length rs)) hi) @ (if i < fst e then LF else []))"

text \<open>\<open>None\<close> is the panic of an index out of range: a selection within one line does not test the line.\<close>

definition span_text :: "string list \<Rightarrow> pos \<Rightarrow> pos \<Rightarrow> string option" where
  "span_text lines s e = (if fst s = fst e
     then (if fst s < length lines
           then (let rs = runes (lines ! fst s)
                 in Some (of_runes (slice rs (min (snd s) (length rs)) (min (snd e) (length rs)))))
           else None)
     else Some (concat (map (sel_piece lines s e) [fst s ..< min (Suc (fst e)) (length lines)])))"

text \<open>The lines without the span, and where it was. \<open>deleteSelection\<close> clamps both lines.\<close>

definition delete_span :: "string list \<Rightarrow> pos \<Rightarrow> pos \<Rightarrow> string list \<times> pos" where
  "delete_span lines s e = (let sl = min (fst s) (length lines - 1); el = min (fst e) (length lines - 1);
       srs = runes (lines ! sl); ers = runes (lines ! el);
       a = min (snd s) (length srs); b = min (snd e) (length ers)
     in (if sl = el then lines[sl := of_runes (take a srs @ drop b srs)]
         else take sl lines @ [of_runes (take a srs) @ of_runes (drop b ers)] @ drop (Suc el) lines,
         (sl, a)))"

text \<open>A word around a column: the double click.\<close>

definition word_span :: "(rune \<Rightarrow> bool) \<Rightarrow> rune list \<Rightarrow> nat \<Rightarrow> nat \<times> nat" where
  "word_span w rs col = (let c = (if col \<ge> length rs then length rs - 1 else col) in
     (c - length (takeWhile w (rev (take c rs))), c + length (takeWhile w (drop c rs))))"

section \<open>The text as one list\<close>

definition flat :: "rune list list \<Rightarrow> rune list" where
  "flat ls = (case ls of [] \<Rightarrow> [] | x # xs \<Rightarrow> x @ concat (map (\<lambda>y. 10 # y) xs))"

definition before :: "rune list list \<Rightarrow> pos \<Rightarrow> rune list" where
  "before ls p = concat (map (\<lambda>x. x @ [10]) (take (fst p) ls)) @ take (snd p) (ls ! fst p)"

definition after :: "rune list list \<Rightarrow> pos \<Rightarrow> rune list" where
  "after ls p = drop (snd p) (ls ! fst p) @ concat (map (\<lambda>y. 10 # y) (drop (Suc (fst p)) ls))"

definition in_text :: "rune list list \<Rightarrow> pos \<Rightarrow> bool" where
  "in_text ls p = (fst p < length ls \<and> snd p \<le> length (ls ! fst p))"

definition pos_le :: "pos \<Rightarrow> pos \<Rightarrow> bool" where
  "pos_le p q = (fst p < fst q \<or> fst p = fst q \<and> snd p \<le> snd q)"

lemma normalise_le: "normaliseSelection a c = (s, e) \<Longrightarrow> pos_le s e"
  by (auto simp: normaliseSelection_def pos_le_def split: if_splits)

lemma normalise_cases: "normaliseSelection a c = (s, e) \<Longrightarrow> s = a \<and> e = c \<or> s = c \<and> e = a"
  by (auto simp: normaliseSelection_def split: if_splits)

lemma newline_shift: "n # concat (map (\<lambda>x. x @ [n]) xs) @ y = concat (map (\<lambda>x. n # x) (xs @ [y]))"
  by (induction xs) simp_all

lemma before_after:
  assumes "fst p < length ls"
  shows "before ls p @ after ls p = flat ls"
proof -
  obtain l c where p: "p = (l, c)" by fastforce
  have "ls = take l ls @ ls ! l # drop (Suc l) ls" using assms p by (simp add: id_take_nth_drop)
  then obtain xs y zs where ls: "ls = xs @ y # zs" "xs = take l ls" "y = ls ! l" "zs = drop (Suc l) ls" by blast
  have "before ls p @ after ls p = (concat (map (\<lambda>x. x @ [10]) xs) @ y) @ concat (map (\<lambda>x. 10 # x) zs)"
    using p ls(2-4) by (simp add: before_def after_def)
  also have "\<dots> = flat (xs @ y # zs)"
    using newline_shift [of 10 "tl xs" y] by (cases xs) (simp_all add: flat_def)
  finally show ?thesis using ls(1) by simp
qed

text \<open>The runes between two positions.\<close>

definition between :: "rune list list \<Rightarrow> pos \<Rightarrow> pos \<Rightarrow> rune list" where
  "between ls s e = (if fst s = fst e then slice (ls ! fst s) (snd s) (snd e)
     else drop (snd s) (ls ! fst s) @ 10 # concat (map (\<lambda>x. x @ [10]) (slice ls (Suc (fst s)) (fst e))) @ take (snd e) (ls ! fst e))"

lemma before_between:
  assumes "pos_le s e" "fst e < length ls"
  shows "before ls s @ between ls s e = before ls e"
proof (cases "fst s = fst e")
  case True
  then have "snd s \<le> snd e" using assms(1) by (simp add: pos_le_def)
  with True show ?thesis by (simp add: before_def between_def take_slice)
next
  case False
  then have l: "fst s < fst e" using assms(1) by (simp add: pos_le_def)
  have t: "take (fst e) ls = take (fst s) ls @ ls ! fst s # slice ls (Suc (fst s)) (fst e)"
    using take_slice [of "Suc (fst s)" "fst e" ls] l assms(2) by (simp add: take_Suc_conv_app_nth)
  have "take n x @ drop n x @ z = x @ z" for n and x z :: "rune list"
    by (metis append.assoc append_take_drop_id)
  with False show ?thesis by (simp add: before_def between_def t)
qed

section \<open>What a selection copies and what is left\<close>

lemma span_text_eq:
  assumes "pos_le s e" "in_text (map runes lines) s" "in_text (map runes lines) e"
  shows "span_text lines s e = Some (of_runes (between (map runes lines) s e))"
proof (cases "fst s = fst e")
  case True
  then show ?thesis using assms by (auto simp: span_text_def between_def in_text_def pos_le_def min_def Let_def)
next
  case False
  let ?R = "map runes lines"
  have l: "fst s < fst e" "fst e < length lines" "snd s \<le> length (runes (lines ! fst s))"
    "snd e \<le> length (runes (lines ! fst e))"
    using assms False by (auto simp: pos_le_def in_text_def)
  have i: "[fst s ..< min (Suc (fst e)) (length lines)] = fst s # [Suc (fst s)..<fst e] @ [fst e]"
    using l(1,2) by (simp add: min_def upt_conv_Cons)
  have first: "sel_piece lines s e (fst s) = of_runes (drop (snd s) (?R ! fst s) @ [10])"
    using l by (simp add: sel_piece_def Let_def slice_def encode_LF)
  have last: "sel_piece lines s e (fst e) = of_runes (take (snd e) (?R ! fst e))"
    using l by (simp add: sel_piece_def Let_def slice_def)
  have mid: "map (sel_piece lines s e) [Suc (fst s)..<fst e] = map (\<lambda>x. of_runes (x @ [10])) (slice ?R (Suc (fst s)) (fst e))"
  proof -
    have "sel_piece lines s e i = of_runes (runes (lines ! i) @ [10])" if "i \<in> set [Suc (fst s)..<fst e]" for i
      using that l by (simp add: sel_piece_def Let_def encode_LF)
    then show ?thesis using l(2) by (simp add: slice_nth)
  qed
  have cc: "concat (map (\<lambda>x. of_runes x @ encode_rune 10) xs) = of_runes (concat (map (\<lambda>x. x @ [10]) xs))" for xs
    by (induction xs) simp_all
  have "concat (map (sel_piece lines s e) (fst s # [Suc (fst s)..<fst e] @ [fst e])) = of_runes (between ?R s e)"
    using False by (simp add: first last mid between_def cc)
  then show ?thesis using False i by (simp add: span_text_def)
qed

lemma delete_span_eq:
  assumes "pos_le s e" "in_text (map runes lines) s" "in_text (map runes lines) e"
    and "delete_span lines s e = (ls, p)"
  shows "p = s \<and> in_text (map runes ls) s \<and> ls \<noteq> []
    \<and> before (map runes ls) s = before (map runes lines) s \<and> after (map runes ls) s = after (map runes lines) e"
proof -
  obtain sl sc el ec where se: "s = (sl, sc)" "e = (el, ec)" by fastforce
  have l: "sl \<le> el" "el < length lines" "sc \<le> length (runes (lines ! sl))" "ec \<le> length (runes (lines ! el))"
    using assms(1-3) se by (auto simp: pos_le_def in_text_def)
  then have m: "min sl (length lines - 1) = sl" "min el (length lines - 1) = el" by simp_all
  show ?thesis
  proof (cases "sl = el")
    case True
    then have "ls = lines[sl := of_runes (take sc (runes (lines ! sl)) @ drop ec (runes (lines ! sl)))]" "p = s"
      using assms(4) l m se by (auto simp: delete_span_def Let_def min_def)
    with l True se show ?thesis
      by (auto simp: in_text_def before_def after_def map_update take_map drop_map min_def simp del: of_runes_simps(3))
  next
    case False
    then have "sl < el" using l(1) by simp
    have ls: "ls = take sl lines @ [of_runes (take sc (runes (lines ! sl)) @ drop ec (runes (lines ! el)))] @ drop (Suc el) lines"
      "p = s"
      using assms(4) l m se False by (auto simp: delete_span_def Let_def min_def)
    with l se \<open>sl < el\<close> show ?thesis
      by (auto simp: in_text_def before_def after_def take_map drop_map nth_append min_def simp del: of_runes_simps(3))
  qed
qed

end
