(* ===== verification/Scrollbar.thy ===== *)
theory Scrollbar
  imports Complex_Main
begin

text \<open>
  The geometry the two text widgets share (\<open>internal/ui/widgets/textview.go\<close> and \<open>textviewentry.go\<close>): the
  layout constants and the line a dragged scrollbar thumb goes to. Pixels are rational numbers where the
  code has \<open>float32\<close>.
\<close>

definition tvLineH :: rat where "tvLineH = 20"
definition tvPadX :: rat where "tvPadX = 8"
definition tvPadY :: rat where "tvPadY = 4"
definition tvScrollW :: rat where "tvScrollW = 8"
definition tvScrollMinThumb :: rat where "tvScrollMinThumb = 20"

text \<open>The conversion \<open>int(x)\<close>, towards zero.\<close>

definition trunc :: "rat \<Rightarrow> int" where
  "trunc x = (if x < 0 then - \<lfloor>- x\<rfloor> else \<lfloor>x\<rfloor>)"

text \<open>
  The line a scrollbar thumb dragged to \<open>y\<close> (below the top of the widget) goes to, for \<open>n\<close> lines in a
  widget of height \<open>h\<close>; \<open>None\<close> when the drag does nothing.
\<close>

definition thumb_target :: "rat \<Rightarrow> nat \<Rightarrow> rat \<Rightarrow> int option" where
  "thumb_target h n y = (let bodyHeight = h - tvPadY * 2; visibleLines = trunc (bodyHeight / tvLineH);
       scrollable = int n - visibleLines;
       thumb = max (bodyHeight * (of_int visibleLines / of_nat n)) tvScrollMinThumb;
       track = bodyHeight - thumb
     in if n = 0 \<or> scrollable \<le> 0 \<or> track \<le> 0 then None
        else let top = min (max (y - tvPadY - thumb / 2) 0) track
          in Some (trunc (top / track * of_int scrollable)))"

lemma trunc_mono: "0 \<le> x \<Longrightarrow> x \<le> of_int n \<Longrightarrow> 0 \<le> trunc x \<and> trunc x \<le> n"
  by (auto simp: trunc_def) linarith

lemma thumb_target_bounds:
  assumes that: "thumb_target h n y = Some i"
  shows "0 \<le> i \<and> i \<le> int n - trunc ((h - tvPadY * 2) / tvLineH)"
proof -
  define track where "track = h - tvPadY * 2 - max ((h - tvPadY * 2) * (of_int (trunc ((h - tvPadY * 2) / tvLineH)) / of_nat n)) tvScrollMinThumb"
  define sc where "sc = int n - trunc ((h - tvPadY * 2) / tvLineH)"
  define top where "top = min (max (y - tvPadY - (max ((h - tvPadY * 2) * (of_int (trunc ((h - tvPadY * 2) / tvLineH)) / of_nat n)) tvScrollMinThumb) / 2) 0) track"
  have a: "0 < sc" "0 < track" "i = trunc (top / track * of_int sc)"
    using that by (auto simp: thumb_target_def Let_def track_def sc_def top_def split: if_splits)
  then have "0 \<le> top" "top \<le> track" by (simp_all add: top_def)
  then have "0 \<le> top / track * of_int sc" "top / track * of_int sc \<le> of_int sc"
    using a(1,2) by (simp_all add: mult_le_cancel_right1 divide_le_eq)
  from trunc_mono [OF this] a(3) show ?thesis by (simp add: sc_def)
qed

end
