(* ===== verification/Editor.thy ===== *)
theory Editor
  imports Tokeniser Selection Scrollbar
begin

text \<open>
  The text editor of the Repeater and Intruder tabs (\<open>internal/ui/widgets/textviewentry.go\<close>): its
  text, cursor, selection, undo stack and cache of visual lines, and what a key, a rune, a shortcut or
  the mouse does to them.

  A result \<open>None\<close> is a panic (an index out of range). The geometry is a parameter: what fits in a line
  and in the window (\<open>ed_rend\<close>; \<open>None\<close> before there is a renderer), and the line and column under the
  pointer. The blinking of the cursor, which reads nothing of this state, is left out; so is drawing,
  but for the highlight of the selection.
\<close>

section \<open>Visual lines\<close>

definition splitRaw :: "string \<Rightarrow> string list" where
  "splitRaw raw = (if raw = [] then [[]] else split (unix_breaks raw) LF)"

record tveVisualLine =
  vl_tokens :: "tvToken list"
  vl_raw :: string
  vl_logical :: nat
  vl_offset :: nat

definition vl_width :: "tveVisualLine \<Rightarrow> nat" where
  "vl_width vl = length (runes (vl_raw vl))"

definition body_start :: "string list \<Rightarrow> nat option" where
  "body_start lines = (case filter (\<lambda>(i, l). l = [] \<and> i > 0) (enumerate 0 lines) of [] \<Rightarrow> None | (i, _) # _ \<Rightarrow> Some i)"

text \<open>The chunks of one logical line; the loop would not end with \<open>cpl = 0\<close>, and \<open>cpl\<close> is at least 10.\<close>

function visual_chunks :: "nat \<Rightarrow> (nat \<Rightarrow> string \<Rightarrow> tvToken list) \<Rightarrow> nat \<Rightarrow> rune list \<Rightarrow> nat \<Rightarrow> tveVisualLine list" where
  "visual_chunks cpl tokens logIdx rs off = (if off < length rs \<and> 0 < cpl
     then let e = min (off + cpl) (length rs); chunk = of_runes (slice rs off e)
       in \<lparr>vl_tokens = tokens off chunk, vl_raw = chunk, vl_logical = logIdx, vl_offset = off\<rparr>
          # visual_chunks cpl tokens logIdx rs e
     else [])"
  by pat_completeness auto
termination by (relation "measure (\<lambda>(cpl, t, l, rs, off). length rs - off)") auto

declare visual_chunks.simps [simp del]

definition line_tokens :: "nat option \<Rightarrow> string \<Rightarrow> nat \<Rightarrow> nat \<Rightarrow> string \<Rightarrow> tvToken list" where
  "line_tokens bodyStart contentType logIdx off chunk =
     (if (case bodyStart of None \<Rightarrow> False | Some b \<Rightarrow> logIdx > b) then tokeniseBody chunk contentType
      else tokeniseHTTPMeta chunk (logIdx = 0 \<and> off = 0))"

definition visual_line :: "nat \<Rightarrow> nat option \<Rightarrow> string \<Rightarrow> nat \<times> string \<Rightarrow> tveVisualLine list" where
  "visual_line cpl bodyStart contentType = (\<lambda>(logIdx, rawLine). let rs = runes rawLine in
     if rs = [] then [\<lparr>vl_tokens = line_tokens bodyStart contentType logIdx 0 rawLine, vl_raw = [],
          vl_logical = logIdx, vl_offset = 0\<rparr>]
     else visual_chunks cpl (line_tokens bodyStart contentType logIdx) logIdx rs 0)"

definition buildVisualLines :: "string list \<Rightarrow> nat \<Rightarrow> tveVisualLine list" where
  "buildVisualLines logicalLines charsPerLine =
     (let bodyStart = body_start logicalLines;
          contentType = (case bodyStart of None \<Rightarrow> ''text'' | Some _ \<Rightarrow> detectContentType logicalLines)
      in concat (map (visual_line (max 10 charsPerLine) bodyStart contentType) (enumerate 0 logicalLines)))"

text \<open>The loop of \<open>logicalToVisual\<close>, at index \<open>v\<close>, with the last line that matched.\<close>

fun to_visual :: "tveVisualLine list \<Rightarrow> pos \<Rightarrow> nat \<Rightarrow> (nat \<times> nat) option \<Rightarrow> nat \<times> nat" where
  "to_visual [] p v lastMatch = (case lastMatch of Some m \<Rightarrow> m | None \<Rightarrow> (0, 0))"
| "to_visual (vl # vls) p v lastMatch =
     (if vl_logical vl \<noteq> fst p then to_visual vls p (Suc v) lastMatch
      else let chunkLen = vl_width vl; chunkEnd = vl_offset vl + chunkLen;
               isLastChunk = (vls = [] \<or> vl_logical (hd vls) \<noteq> fst p)
        in if snd p \<ge> vl_offset vl \<and> snd p < chunkEnd then (v, snd p - vl_offset vl)
           else if isLastChunk \<and> snd p \<ge> chunkEnd then (v, chunkLen)
           else to_visual vls p (Suc v) (Some (v, chunkLen)))"

definition logicalToVisual :: "tveVisualLine list \<Rightarrow> pos \<Rightarrow> nat \<times> nat" where
  "logicalToVisual visual p = to_visual visual p 0 None"

section \<open>State\<close>

record editor =
  ed_raw :: string
  ed_scroll :: int
  ed_anchor :: pos
  ed_sel :: pos
  ed_has :: bool
  ed_cursor :: pos
  ed_undo :: "(string \<times> pos) list"
  ed_selecting :: bool
  ed_shift :: bool
  ed_dragging :: bool
  ed_cache :: "tveVisualLine list option"
  ed_cache_raw :: string
  ed_cache_width :: nat
  ed_cache_valid :: bool
  ed_rend :: "(nat \<times> nat) option"
  ed_win :: bool
  ed_clip :: string
  ed_sent :: "string list"

definition NewTextViewEntry :: "bool \<Rightarrow> editor" where
  "NewTextViewEntry win = \<lparr>ed_raw = [], ed_scroll = 0, ed_anchor = (0, 0), ed_sel = (0, 0), ed_has = False,
     ed_cursor = (0, 0), ed_undo = [], ed_selecting = False, ed_shift = False, ed_dragging = False,
     ed_cache = None, ed_cache_raw = [], ed_cache_width = 0, ed_cache_valid = False, ed_rend = None,
     ed_win = win, ed_clip = [], ed_sent = []\<rparr>"

definition SetText :: "string \<Rightarrow> editor \<Rightarrow> editor" where
  "SetText s e = e\<lparr>ed_raw := s, ed_scroll := 0, ed_has := False, ed_selecting := False, ed_shift := False,
     ed_cursor := (0, 0), ed_undo := [], ed_cache_valid := False\<rparr>"

definition logicalLines :: "editor \<Rightarrow> string list" where
  "logicalLines e = splitRaw (ed_raw e)"

definition charsPerLine :: "editor \<Rightarrow> nat" where
  "charsPerLine e = (case ed_rend e of None \<Rightarrow> 80 | Some (n, _) \<Rightarrow> max n 10)"

definition visibleLineCount :: "editor \<Rightarrow> nat" where
  "visibleLineCount e = (case ed_rend e of None \<Rightarrow> 0 | Some (_, n) \<Rightarrow> n)"

definition visual :: "editor \<Rightarrow> tveVisualLine list \<times> editor" where
  "visual e = (let cpl = charsPerLine e; built = buildVisualLines (splitRaw (ed_raw e)) cpl;
       fill = (built, e\<lparr>ed_cache := Some built, ed_cache_raw := ed_raw e, ed_cache_width := cpl, ed_cache_valid := True\<rparr>)
     in case ed_cache e of
       Some cached \<Rightarrow> if ed_cache_valid e \<and> ed_cache_raw e = ed_raw e \<and> ed_cache_width e = cpl then (cached, e) else fill
     | None \<Rightarrow> fill)"

definition commitLines :: "string list \<Rightarrow> editor \<Rightarrow> editor" where
  "commitLines ls e = e\<lparr>ed_raw := join ls LF, ed_cache_raw := [], ed_cache_valid := False\<rparr>"

definition pushUndo :: "string \<Rightarrow> pos \<Rightarrow> editor \<Rightarrow> editor" where
  "pushUndo prevRaw prevCursor e = e\<lparr>ed_undo :=
     (if length (ed_undo e) \<ge> 100 then tl (ed_undo e) else ed_undo e) @ [(prevRaw, prevCursor)]\<rparr>"

definition deleteSelection :: "string list \<Rightarrow> editor \<Rightarrow> string list \<times> editor" where
  "deleteSelection lines e = (if \<not> ed_has e then (lines, e)
     else let (s, t) = normaliseSelection (ed_anchor e) (ed_sel e); (ls, p) = delete_span lines s t
       in (ls, e\<lparr>ed_cursor := p, ed_has := False, ed_selecting := False\<rparr>))"

definition selectedText :: "editor \<Rightarrow> string option" where
  "selectedText e = (if \<not> ed_has e then Some []
     else let (s, t) = normaliseSelection (ed_anchor e) (ed_sel e) in span_text (logicalLines e) s t)"

definition ensureCursorVisible :: "editor \<Rightarrow> editor" where
  "ensureCursorVisible e = (let visible = visibleLineCount e in
     if visible = 0 then e
     else let (vs, e) = visual e; vLine = int (fst (logicalToVisual vs (ed_cursor e))) in
       if vLine < ed_scroll e then e\<lparr>ed_scroll := vLine\<rparr>
       else if vLine \<ge> ed_scroll e + int visible then e\<lparr>ed_scroll := vLine - int visible + 1\<rparr>
       else e)"

section \<open>Keys\<close>

datatype key = KeyBackspace | KeyDelete | KeyReturn | KeyTab | KeyLeft | KeyRight | KeyUp | KeyDown
  | KeyHome | KeyEnd | KeyPageUp | KeyPageDown | KeyOther

text \<open>The cursor clamped to the text, and the edit that every key makes: undo entry, then the new text.\<close>

definition clamped :: "string list \<Rightarrow> pos \<Rightarrow> pos" where
  "clamped lines p = (let cl = min (fst p) (length lines - 1) in (cl, min (snd p) (length (runes (lines ! cl)))))"

definition edit :: "string list \<Rightarrow> pos \<Rightarrow> string list \<Rightarrow> editor \<Rightarrow> editor" where
  "edit lines prevCursor newLines e = commitLines newLines (pushUndo (join lines LF) prevCursor e)"

definition insert_runes :: "string list \<Rightarrow> pos \<Rightarrow> rune list \<Rightarrow> string list" where
  "insert_runes lines p new = (let rs = runes (lines ! fst p)
     in lines[fst p := of_runes (take (snd p) rs @ new @ drop (snd p) rs)])"

definition TypedRune :: "rune \<Rightarrow> editor \<Rightarrow> editor" where
  "TypedRune r e = (let lines0 = logicalLines e; prev = ed_cursor e;
       (lines, e) = deleteSelection lines0 e; (cl, cc) = clamped lines (ed_cursor e)
     in ensureCursorVisible ((edit lines0 prev (insert_runes lines (cl, cc) [r]) e)\<lparr>ed_cursor := (cl, Suc cc)\<rparr>))"

definition beginShift :: "pos \<Rightarrow> editor \<Rightarrow> editor" where
  "beginShift p e = (if ed_selecting e then e else e\<lparr>ed_selecting := True, ed_anchor := p\<rparr>)"

definition updateShift :: "editor \<Rightarrow> editor" where
  "updateShift e = e\<lparr>ed_sel := ed_cursor e, ed_has := (ed_anchor e \<noteq> ed_cursor e)\<rparr>"

definition cancelShift :: "editor \<Rightarrow> editor" where
  "cancelShift e = e\<lparr>ed_selecting := False, ed_shift := False, ed_has := False\<rparr>"

text \<open>Up, down, home and end: begin or cancel a selection, move, update the selection.\<close>

definition with_shift :: "pos \<Rightarrow> (editor \<Rightarrow> editor option) \<Rightarrow> editor \<Rightarrow> editor option" where
  "with_shift p move e = (if ed_shift e then map_option updateShift (move (beginShift p e))
     else move (cancelShift e))"

definition key_backspace :: "string list \<Rightarrow> pos \<Rightarrow> editor \<Rightarrow> editor" where
  "key_backspace lines p e = (let prev = ed_cursor e; (cl, cc) = p; rs = runes (lines ! cl) in
     if ed_has e then (let (ls, e) = deleteSelection lines e in edit lines prev ls e)
     else if cc > 0 then (edit lines prev (lines[cl := of_runes (take (cc - 1) rs @ drop cc rs)]) e)
       \<lparr>ed_cursor := (fst (ed_cursor e), cc - 1)\<rparr>
     else if cl > 0 then (let prevRunes = runes (lines ! (cl - 1)) in
       (edit lines prev (take (cl - 1) lines @ [of_runes prevRunes @ of_runes rs] @ drop (Suc cl) lines) e)
         \<lparr>ed_cursor := (cl - 1, length prevRunes)\<rparr>)
     else e)"

definition key_delete :: "string list \<Rightarrow> pos \<Rightarrow> editor \<Rightarrow> editor" where
  "key_delete lines p e = (let prev = ed_cursor e; (cl, cc) = p; rs = runes (lines ! cl) in
     if ed_has e then (let (ls, e) = deleteSelection lines e in edit lines prev ls e)
     else if cc < length rs then edit lines prev (lines[cl := of_runes (take cc rs @ drop (Suc cc) rs)]) e
     else if cl < length lines - 1
     then edit lines prev (take cl lines @ [of_runes rs @ lines ! Suc cl] @ drop (cl + 2) lines) e
     else e)"

definition key_return :: "string list \<Rightarrow> pos \<Rightarrow> editor \<Rightarrow> editor" where
  "key_return lines0 p0 e0 = (let prev = ed_cursor e0; (lines, e) = deleteSelection lines0 e0;
       (cl, cc) = (if ed_has e0 then ed_cursor e else p0);
       rs = runes (lines ! cl)
     in (edit lines0 prev (take cl lines @ [of_runes (take cc rs), of_runes (drop cc rs)] @ drop (Suc cl) lines) e)
       \<lparr>ed_cursor := (Suc cl, 0)\<rparr>)"

definition tveTabWidth :: nat where "tveTabWidth = 4"

text \<open>Tab indents the selected lines, or the text at the cursor.\<close>

definition indent_lines :: "nat \<Rightarrow> nat \<Rightarrow> string list \<Rightarrow> string list" where
  "indent_lines a b lines = map (\<lambda>(i, l). if a \<le> i \<and> i \<le> b then replicate tveTabWidth (CHR '' '') @ l else l)
     (enumerate 0 lines)"

definition key_tab :: "string list \<Rightarrow> pos \<Rightarrow> editor \<Rightarrow> editor option" where
  "key_tab lines p e = (let prev = ed_cursor e in
     if ed_has e then (let ((startLine, startCol), (endLine, endCol)) = normaliseSelection (ed_anchor e) (ed_sel e) in
       if endLine \<ge> length lines then None
       else Some ((edit lines prev (indent_lines startLine endLine lines) e)
         \<lparr>ed_anchor := (startLine, if startCol > 0 then startCol + tveTabWidth else 0),
          ed_sel := (endLine, endCol + tveTabWidth),
          ed_cursor := (if fst prev = startLine then (startLine, snd prev + tveTabWidth)
             else (endLine, endCol + tveTabWidth))\<rparr>))
     else Some ((edit lines prev (insert_runes lines p (replicate tveTabWidth 32)) e)
       \<lparr>ed_cursor := (fst (ed_cursor e), snd p + tveTabWidth)\<rparr>))"

definition key_left :: "string list \<Rightarrow> pos \<Rightarrow> editor \<Rightarrow> editor option" where
  "key_left lines p e = (let shift = ed_shift e; (cl, cc) = p; e1 = (if shift then beginShift p e else e) in
     if \<not> shift \<and> ed_has e
     then Some (cancelShift (e\<lparr>ed_cursor := fst (normaliseSelection (ed_anchor e) (ed_sel e))\<rparr>))
     else map_option (\<lambda>e. if shift then updateShift e else e)
      (if cc > 0 then Some (e1\<lparr>ed_cursor := (fst (ed_cursor e1), snd (ed_cursor e1) - 1)\<rparr>)
       else if cl > 0 then (let l = fst (ed_cursor e1) - 1 in
         if l < length lines then Some (e1\<lparr>ed_cursor := (l, length (runes (lines ! l)))\<rparr>) else None)
       else Some e1))"

definition key_right :: "string list \<Rightarrow> pos \<Rightarrow> editor \<Rightarrow> editor" where
  "key_right lines p e = (let shift = ed_shift e; (cl, cc) = p; e1 = (if shift then beginShift p e else e) in
     if \<not> shift \<and> ed_has e
     then cancelShift (e\<lparr>ed_cursor := snd (normaliseSelection (ed_anchor e) (ed_sel e))\<rparr>)
     else (let e2 = (if cc < length (runes (lines ! cl)) then e1\<lparr>ed_cursor := (fst (ed_cursor e1), Suc (snd (ed_cursor e1)))\<rparr>
         else if cl < length lines - 1 then e1\<lparr>ed_cursor := (Suc (fst (ed_cursor e1)), 0)\<rparr>
         else e1)
       in if shift then updateShift e2 else e2))"

text \<open>The cursor goes to a line, and at most to its end.\<close>

definition to_line :: "string list \<Rightarrow> nat \<Rightarrow> editor \<Rightarrow> editor option" where
  "to_line lines l e = (if l < length lines
     then Some (e\<lparr>ed_cursor := (l, min (snd (ed_cursor e)) (length (runes (lines ! l))))\<rparr>) else None)"

definition key_up :: "string list \<Rightarrow> pos \<Rightarrow> editor \<Rightarrow> editor option" where
  "key_up lines p = with_shift p (\<lambda>e. if fst p > 0 then to_line lines (fst (ed_cursor e) - 1) e else Some e)"

definition key_down :: "string list \<Rightarrow> pos \<Rightarrow> editor \<Rightarrow> editor option" where
  "key_down lines p = with_shift p (\<lambda>e. if fst p < length lines - 1 then to_line lines (Suc (fst (ed_cursor e))) e else Some e)"

definition key_home :: "pos \<Rightarrow> editor \<Rightarrow> editor option" where
  "key_home p = with_shift p (\<lambda>e. Some (e\<lparr>ed_cursor := (fst (ed_cursor e), 0)\<rparr>))"

definition key_end :: "string list \<Rightarrow> pos \<Rightarrow> editor \<Rightarrow> editor option" where
  "key_end lines p = with_shift p (\<lambda>e. Some (e\<lparr>ed_cursor := (fst (ed_cursor e), length (runes (lines ! fst p)))\<rparr>))"

definition key_page :: "bool \<Rightarrow> editor \<Rightarrow> editor option" where
  "key_page up e = (let visible = visibleLineCount e; (vs, e) = visual e;
       cur = fst (logicalToVisual vs (ed_cursor e));
       target = (if up then cur - visible else min (cur + visible) (length vs - 1))
     in if target < length vs
        then Some (cancelShift (e\<lparr>ed_cursor := (vl_logical (vs ! target), vl_offset (vs ! target))\<rparr>))
        else None)"

definition TypedKey :: "key \<Rightarrow> editor \<Rightarrow> editor option" where
  "TypedKey k e = (let lines = logicalLines e; p = clamped lines (ed_cursor e) in
     map_option ensureCursorVisible (case k of
       KeyBackspace \<Rightarrow> Some (cancelShift (key_backspace lines p e))
     | KeyDelete \<Rightarrow> Some (cancelShift (key_delete lines p e))
     | KeyReturn \<Rightarrow> Some (cancelShift (key_return lines p e))
     | KeyTab \<Rightarrow> key_tab lines p e
     | KeyLeft \<Rightarrow> key_left lines p e
     | KeyRight \<Rightarrow> Some (key_right lines p e)
     | KeyUp \<Rightarrow> key_up lines p e
     | KeyDown \<Rightarrow> key_down lines p e
     | KeyHome \<Rightarrow> key_home p e
     | KeyEnd \<Rightarrow> key_end lines p e
     | KeyPageUp \<Rightarrow> key_page True e
     | KeyPageDown \<Rightarrow> key_page False e
     | KeyOther \<Rightarrow> Some e))"

section \<open>Shortcuts\<close>

datatype shortcut = ShortcutSend | ShortcutUndo | ShortcutSelectAll | ShortcutCopy | ShortcutCut | ShortcutPaste

definition undo :: "editor \<Rightarrow> editor" where
  "undo e = (if ed_undo e = [] then e
     else let (raw, p) = last (ed_undo e) in
       e\<lparr>ed_undo := butlast (ed_undo e), ed_raw := raw, ed_cache_valid := False, ed_cursor := p,
         ed_has := False, ed_selecting := False, ed_shift := False\<rparr>)"

definition select_all :: "editor \<Rightarrow> editor" where
  "select_all e = (let lines = logicalLines e; l = length lines - 1 in
     e\<lparr>ed_anchor := (0, 0), ed_sel := (l, length (runes (lines ! l))), ed_has := True\<rparr>)"

definition copy :: "editor \<Rightarrow> editor option" where
  "copy e = (if ed_win e \<and> ed_has e then map_option (\<lambda>t. e\<lparr>ed_clip := t\<rparr>) (selectedText e) else Some e)"

definition cut_text :: "editor \<Rightarrow> editor option" where
  "cut_text e = (if \<not> ed_win e \<or> \<not> ed_has e then Some e
     else map_option (\<lambda>t. let e = e\<lparr>ed_clip := t\<rparr>; lines = logicalLines e; (ls, e1) = deleteSelection lines e
       in ensureCursorVisible (edit lines (ed_cursor e) ls e1)) (selectedText e))"

definition paste :: "editor \<Rightarrow> editor" where
  "paste e0 = (if \<not> ed_win e0 \<or> ed_clip e0 = [] then e0
     else let text = unix_breaks (ed_clip e0); lines0 = logicalLines e0; prev = ed_cursor e0;
         (lines, e) = deleteSelection lines0 e0; (cl, cc) = clamped lines (ed_cursor e);
         rs = runes (lines ! cl); pasteLines = split text LF; n = length pasteLines
       in ensureCursorVisible (if n = 1
         then (edit lines0 prev (insert_runes lines (cl, cc) (runes text)) e)
           \<lparr>ed_cursor := (cl, cc + length (runes (hd pasteLines)))\<rparr>
         else (edit lines0 prev (take cl lines @ [of_runes (take cc rs) @ hd pasteLines]
               @ slice pasteLines 1 (n - 1) @ [last pasteLines @ of_runes (drop cc rs)] @ drop (Suc cl) lines) e)
           \<lparr>ed_cursor := (cl + n - 1, length (runes (last pasteLines)))\<rparr>))"

definition TypedShortcut :: "shortcut \<Rightarrow> editor \<Rightarrow> editor option" where
  "TypedShortcut s e = (case s of
     ShortcutSend \<Rightarrow> Some (e\<lparr>ed_sent := ed_sent e @ [ed_raw e]\<rparr>)
   | ShortcutUndo \<Rightarrow> Some (undo e)
   | ShortcutSelectAll \<Rightarrow> Some (select_all e)
   | ShortcutCopy \<Rightarrow> copy e
   | ShortcutCut \<Rightarrow> cut_text e
   | ShortcutPaste \<Rightarrow> Some (paste e))"

section \<open>Mouse, focus, size\<close>

text \<open>A point as the line below the top of the window and the column it is in.\<close>

definition posFromPoint :: "int \<times> int \<Rightarrow> editor \<Rightarrow> pos \<times> editor" where
  "posFromPoint pt e = (let (vs, e) = visual e; i = nat (min (max (ed_scroll e + fst pt) 0) (int (length vs) - 1)) in
     if vs = [] then ((0, 0), e)
     else let vl = vs ! i in ((vl_logical vl, vl_offset vl + nat (min (max (snd pt) 0) (int (vl_width vl)))), e))"

definition MouseDown :: "int \<times> int \<Rightarrow> editor \<Rightarrow> editor" where
  "MouseDown pt e = (let (p, e) = posFromPoint pt e in
     e\<lparr>ed_anchor := p, ed_sel := p, ed_cursor := p, ed_has := False, ed_selecting := False, ed_shift := False,
       ed_dragging := False\<rparr>)"

definition Dragged :: "int \<times> int \<Rightarrow> editor \<Rightarrow> editor" where
  "Dragged pt e = (let (p, e) = posFromPoint pt (e\<lparr>ed_dragging := True\<rparr>) in
     e\<lparr>ed_sel := p, ed_cursor := p, ed_has := (ed_anchor e \<noteq> p)\<rparr>)"

definition MouseUp :: "editor \<Rightarrow> editor" where
  "MouseUp e = e\<lparr>ed_dragging := False\<rparr>"

text \<open>\<open>word\<close> stands for \<open>tveIsWordRune\<close>: letters, digits, underscore and hyphen.\<close>

definition DoubleTapped :: "(rune \<Rightarrow> bool) \<Rightarrow> int \<times> int \<Rightarrow> editor \<Rightarrow> editor" where
  "DoubleTapped word pt e = (let ((line, col), e) = posFromPoint pt e; lines = logicalLines e;
       rs = (if line < length lines then runes (lines ! line) else [])
     in if rs = [] then e
        else let (a, b) = word_span word rs col in
          e\<lparr>ed_anchor := (line, a), ed_sel := (line, b), ed_cursor := (line, b), ed_has := (a \<noteq> b)\<rparr>)"

text \<open>The wheel moves \<open>rows\<close> whole rows.\<close>

definition Scrolled :: "int \<Rightarrow> editor \<Rightarrow> editor" where
  "Scrolled rows e = (let (vs, e) = visual e; maxOffset = max (int (length vs) - int (visibleLineCount e)) 0
     in e\<lparr>ed_scroll := min (max (ed_scroll e + rows) 0) maxOffset\<rparr>)"

definition ShiftKey :: "bool \<Rightarrow> editor \<Rightarrow> editor" where
  "ShiftKey down e = (if down then e\<lparr>ed_shift := True\<rparr> else e\<lparr>ed_shift := False, ed_selecting := False\<rparr>)"

definition FocusLost :: "editor \<Rightarrow> editor" where
  "FocusLost e = e\<lparr>ed_shift := False, ed_selecting := (if ed_dragging e then ed_selecting e else False)\<rparr>"

text \<open>A new size: \<open>checkWrapWidth\<close> resets the text the cache was built for.\<close>

definition resize :: "nat \<times> nat \<Rightarrow> editor \<Rightarrow> editor" where
  "resize sz e = e\<lparr>ed_rend := Some sz, ed_cache_raw := []\<rparr>"

text \<open>
  Which columns of visual line \<open>i\<close> are drawn as selected (\<open>layoutContent\<close>), first and last plus one; the
  switch on where the line is with respect to the selection.
\<close>

definition highlight :: "tveVisualLine list \<Rightarrow> pos \<Rightarrow> pos \<Rightarrow> nat \<Rightarrow> int \<times> int" where
  "highlight vs s e i = (let vl = vs ! i; l = vl_logical vl; n = int (vl_width vl);
       chunkStart = int (vl_offset vl); chunkEnd = chunkStart + n;
       isLastChunk = (Suc i \<ge> length vs \<or> vl_logical (vs ! Suc i) \<noteq> l);
       (a, b) = (if l > fst s \<and> l < fst e then (0, n)
         else if l = fst s \<and> l = fst e then
           (if int (snd s) < chunkEnd \<and> int (snd e) > chunkStart
            then (int (snd s) - chunkStart, int (snd e) - chunkStart) else (- 1, - 1))
         else if l = fst s then
           (if int (snd s) < chunkEnd then (int (snd s) - chunkStart, if isLastChunk then n else n + 1) else (- 1, - 1))
         else if l = fst e then
           (if int (snd e) > chunkStart then (0, int (snd e) - chunkStart) else (- 1, - 1))
         else (- 1, - 1));
       a = (if a < 0 then 0 else a); b = (if b > n then n else b)
     in if a \<ge> 0 \<and> b > a then (a, b) else (0, 0))"

section \<open>Lines of a text\<close>

definition good :: "string list \<Rightarrow> bool" where
  "good ls = (ls \<noteq> [] \<and> (\<forall>l \<in> set ls. one_line l))"

lemma set_join_piece: "x \<in> set xs \<Longrightarrow> set x \<subseteq> set (join xs sep)"
  by (induction xs rule: induct_list012) (auto simp: join_Cons)

lemma split_piece_set: "sep \<noteq> [] \<Longrightarrow> x \<in> set (split s sep) \<Longrightarrow> set x \<subseteq> set s"
  using set_join_piece [of x "split s sep" sep] join_split [of sep s] by simp

lemma unix_no_CR: "CHR 0x0D \<notin> set (unix_breaks s)"
proof -
  have "x \<in> set (split t [CHR 0x0D]) \<Longrightarrow> CHR 0x0D \<notin> set x" for x t
    using split_pieces_free [of "[CHR 0x0D]" x t] by (simp add: contains_single)
  then show ?thesis
    using set_join [of "split (replace_all s CRLF LF) [CHR 0x0D]" LF]
    by (auto simp: unix_breaks_def replace_all_def [of _ "[CHR 0x0D]"])
qed

lemma splitRaw_good: "good (splitRaw s)"
proof (cases "s = []")
  case False
  have "one_line x" if "x \<in> set (split (unix_breaks s) LF)" for x
    using that split_pieces_free [of LF x "unix_breaks s"] split_piece_set [of LF x "unix_breaks s"] unix_no_CR [of s]
    by (auto simp: one_line_def contains_single)
  with False show ?thesis by (simp add: splitRaw_def good_def)
qed (simp add: splitRaw_def good_def one_line_def)

lemma splitRaw_join:
  assumes "good ls"
  shows "splitRaw (join ls LF) = ls"
proof (cases "join ls LF = []")
  case True
  with assms show ?thesis by (cases ls; cases "tl ls = []") (auto simp: good_def splitRaw_def join_Cons)
next
  case False
  have l: "\<forall>x \<in> set ls. CHR 0x0A \<notin> set x" "\<forall>x \<in> set ls. CHR 0x0D \<notin> set x"
    using assms by (auto simp: good_def one_line_def)
  then have "CHR 0x0D \<notin> set (join ls LF)" using set_join [of ls LF] by auto
  then have "unix_breaks (join ls LF) = join ls LF" by (simp add: unix_breaks_def replace_all_absent)
  with False split_join_single [OF _ l(1)] assms show ?thesis by (simp add: splitRaw_def good_def)
qed

lemma good_simps [simp]: "good ls \<Longrightarrow> one_line l \<Longrightarrow> good (ls[i := l])"
    "good ls \<Longrightarrow> good ks \<Longrightarrow> good (ls @ ks)"
  by (auto simp: good_def dest: set_update_subset_insert [THEN subsetD])

lemma good_lines [simp]: "good (logicalLines e)"
  by (simp add: logicalLines_def splitRaw_good)

lemma good_nth: "good ls \<Longrightarrow> i < length ls \<Longrightarrow> one_line (ls ! i)"
  by (simp add: good_def)

lemma good_length: "good ls \<Longrightarrow> 0 < length ls"
  by (auto simp: good_def)

lemma good_parts: "good ls \<Longrightarrow> l \<in> set (take n ls) \<Longrightarrow> one_line l" "good ls \<Longrightarrow> l \<in> set (drop n ls) \<Longrightarrow> one_line l"
  by (auto simp: good_def dest: in_set_takeD in_set_dropD)

lemma lines_commit [simp]: "good ls \<Longrightarrow> logicalLines (commitLines ls e) = ls"
  by (simp add: commitLines_def logicalLines_def splitRaw_join)

section \<open>Visual lines show the text\<close>

lemma chunks_lines:
  assumes "0 < cpl" "all_valid rs"
  shows "vl \<in> set (visual_chunks cpl t l rs off) \<Longrightarrow> vl_logical vl = l \<and> off \<le> vl_offset vl
    \<and> vl_offset vl + vl_width vl \<le> length rs \<and> 0 < vl_width vl \<and> vl_width vl \<le> cpl
    \<and> runes (vl_raw vl) = slice rs (vl_offset vl) (vl_offset vl + vl_width vl)"
  using assms
proof (induction cpl t l rs off rule: visual_chunks.induct)
  case (1 cpl t l rs off)
  show ?case
  proof (cases "off < length rs")
    case True
    let ?e = "min (off + cpl) (length rs)"
    from "1.prems"(1) True "1.prems"(2)
    consider "vl = \<lparr>vl_tokens = t off (of_runes (slice rs off ?e)), vl_raw = of_runes (slice rs off ?e),
        vl_logical = l, vl_offset = off\<rparr>" | "vl \<in> set (visual_chunks cpl t l rs ?e)"
      by (subst (asm) visual_chunks.simps) (auto simp: Let_def)
    then show ?thesis
    proof cases
      case 1
      moreover have "length (slice rs off ?e) = ?e - off" by (simp add: slice_def)
      ultimately show ?thesis using "1.prems" True by (simp add: vl_width_def)
    next
      case 2
      have "off \<le> ?e" using True by simp
      with "1.IH" [OF _ refl refl 2 "1.prems"(2,3)] True "1.prems"(2) show ?thesis by auto
    qed
  qed (use "1.prems" in \<open>subst (asm) visual_chunks.simps, simp\<close>)
qed

lemma chunks_locate:
  assumes "0 < cpl" "all_valid rs"
  shows "off < length rs \<Longrightarrow> off \<le> c \<Longrightarrow> c \<le> length rs \<Longrightarrow> rest = [] \<or> vl_logical (hd rest) \<noteq> l \<Longrightarrow>
    \<exists>k < length (visual_chunks cpl t l rs off).
      to_visual (visual_chunks cpl t l rs off @ rest) (l, c) v m = (v + k, c - vl_offset (visual_chunks cpl t l rs off ! k))
      \<and> vl_offset (visual_chunks cpl t l rs off ! k) \<le> c
      \<and> c \<le> vl_offset (visual_chunks cpl t l rs off ! k) + vl_width (visual_chunks cpl t l rs off ! k)"
  using assms
proof (induction cpl t l rs off arbitrary: v m rule: visual_chunks.induct)
  case (1 cpl t l rs off)
  define e where "e = min (off + cpl) (length rs)"
  have he: "off < e" "e \<le> length rs" using "1.prems"(1,5) by (auto simp: e_def)
  let ?vl = "\<lparr>vl_tokens = t off (of_runes (slice rs off e)), vl_raw = of_runes (slice rs off e),
    vl_logical = l, vl_offset = off\<rparr>"
  let ?R = "visual_chunks cpl t l rs e"
  have u: "visual_chunks cpl t l rs off = ?vl # ?R"
    using "1.prems"(1,5) by (subst visual_chunks.simps) (simp add: Let_def e_def)
  have w: "vl_width ?vl = e - off" using "1.prems"(6) he by (simp add: vl_width_def slice_def)
  have n: "?R = [] \<longleftrightarrow> e \<ge> length rs" using "1.prems"(5) by (subst visual_chunks.simps) (auto simp: Let_def)
  show ?case
  proof (cases "c < e \<or> e \<ge> length rs")
    case True
    have last: "e \<ge> length rs \<Longrightarrow> ?R @ rest = [] \<or> vl_logical (hd (?R @ rest)) \<noteq> l" using n "1.prems"(4) by auto
    have "to_visual (?vl # ?R @ rest) (l, c) v m = (v, c - off)"
      using True w last "1.prems"(2,3) he by (auto simp: Let_def)
    with u w True "1.prems"(2,3) he show ?thesis by (intro exI [of _ 0]) auto
  next
    case False
    then have el: "e < length rs" "e \<le> c" by auto
    then have ne: "?R \<noteq> []" using n by simp
    have hd: "vl_logical (hd ?R) = l"
      using chunks_lines [OF "1.prems"(5,6), of "hd ?R" t l e] ne by simp
    have "to_visual (?vl # ?R @ rest) (l, c) v m = to_visual (?R @ rest) (l, c) (Suc v) (Some (v, vl_width ?vl))"
      using w ne hd el he by (auto simp: Let_def)
    moreover obtain k where "k < length ?R"
      "to_visual (?R @ rest) (l, c) (Suc v) (Some (v, vl_width ?vl)) = (Suc v + k, c - vl_offset (?R ! k))"
      "vl_offset (?R ! k) \<le> c" "c \<le> vl_offset (?R ! k) + vl_width (?R ! k)"
      using "1.IH" [OF _ e_def refl el "1.prems"(3,4,5,6)] "1.prems"(1,5) by blast
    ultimately show ?thesis using u by (intro exI [of _ "Suc k"]) simp
  qed
qed

lemma to_visual_skip:
  "\<forall>vl \<in> set vls. vl_logical vl \<noteq> fst p \<Longrightarrow> to_visual (vls @ rest) p v m = to_visual rest p (v + length vls) m"
  by (induction vls arbitrary: v) simp_all

lemma chunks_concat:
  assumes "0 < cpl" "all_valid rs"
  shows "concat (map (\<lambda>vl. runes (vl_raw vl)) (visual_chunks cpl t l rs off)) = drop off rs"
  using assms
proof (induction cpl t l rs off rule: visual_chunks.induct)
  case (1 cpl t l rs off)
  show ?case
  proof (cases "off < length rs")
    case True
    define e where "e = min (off + cpl) (length rs)"
    have "off \<le> e" using True by (simp add: e_def)
    then have "slice rs off e @ drop e rs = drop off rs"
      by (metis append_take_drop_id drop_drop le_add_diff_inverse2 slice_def)
    with "1.IH" [OF _ e_def refl "1.prems"] True "1.prems" show ?thesis
      by (subst visual_chunks.simps) (simp add: Let_def flip: e_def)
  qed (subst visual_chunks.simps, simp)
qed

lemma visual_line_lines:
  assumes "0 < cpl" "vl \<in> set (visual_line cpl bs ct (l, raw))"
  shows "vl_logical vl = l \<and> vl_offset vl + vl_width vl \<le> length (runes raw) \<and> vl_width vl \<le> cpl
    \<and> runes (vl_raw vl) = slice (runes raw) (vl_offset vl) (vl_offset vl + vl_width vl)"
  using assms chunks_lines [OF assms(1) all_valid_runes, of vl "line_tokens bs ct l" l raw 0]
  by (auto simp: visual_line_def vl_width_def slice_def Let_def split: if_splits)

lemma visual_line_locate:
  fixes bs :: "nat option" and ct :: string
  assumes "0 < cpl" "c \<le> length (runes raw)" "rest = [] \<or> vl_logical (hd rest) \<noteq> l"
  defines "vls \<equiv> visual_line cpl bs ct (l, raw)"
  shows "\<exists>k < length vls. to_visual (vls @ rest) (l, c) v m = (v + k, c - vl_offset (vls ! k))
    \<and> vl_offset (vls ! k) \<le> c \<and> c \<le> vl_offset (vls ! k) + vl_width (vls ! k)"
proof (cases "runes raw = []")
  case True
  let ?vl = "\<lparr>vl_tokens = line_tokens bs ct l 0 raw, vl_raw = [], vl_logical = l, vl_offset = 0\<rparr>"
  have v: "vls = [?vl]" "vl_width ?vl = 0" "c = 0" using True assms(2) by (simp_all add: vls_def visual_line_def vl_width_def)
  then have "to_visual (vls @ rest) (l, c) v m = (v, 0)" using assms(3) by (auto simp: Let_def)
  with v show ?thesis by (intro exI [of _ 0]) simp
next
  case False
  then have "vls = visual_chunks cpl (line_tokens bs ct l) l (runes raw) 0"
    by (simp add: vls_def visual_line_def)
  with False chunks_locate [OF assms(1) all_valid_runes _ _ assms(2,3), of 0] show ?thesis by simp
qed

lemma build_split:
  assumes "l < length lines"
  shows "\<exists>bs ct A C. buildVisualLines lines n = A @ visual_line (max 10 n) bs ct (l, lines ! l) @ C
    \<and> (\<forall>vl \<in> set A. vl_logical vl < l) \<and> (\<forall>vl \<in> set C. vl_logical vl > l)"
proof -
  define bs where "bs = body_start lines"
  define ct where "ct = (case bs of None \<Rightarrow> ''text'' | Some _ \<Rightarrow> detectContentType lines)"
  let ?f = "visual_line (max 10 n) bs ct"
  have p: "0 < max 10 n" by simp
  have b: "buildVisualLines lines n = concat (map ?f (enumerate 0 lines))"
    by (simp add: buildVisualLines_def bs_def ct_def Let_def)
  have "lines = take l lines @ lines ! l # drop (Suc l) lines" using assms by (simp add: id_take_nth_drop)
  then have "enumerate 0 lines = enumerate 0 (take l lines) @ (l, lines ! l) # enumerate (Suc l) (drop (Suc l) lines)"
    using assms by (metis (no_types, lifting) add_0 enumerate_append_eq enumerate_simps(2) length_take less_imp_le min.absorb2)
  then have "buildVisualLines lines n = concat (map ?f (enumerate 0 (take l lines))) @ ?f (l, lines ! l)
      @ concat (map ?f (enumerate (Suc l) (drop (Suc l) lines)))" by (simp add: b)
  moreover have "vl_logical vl < l" if "vl \<in> set (concat (map ?f (enumerate 0 (take l lines))))" for vl
    using that visual_line_lines [OF p, of vl bs ct] by (auto simp: in_set_enumerate_eq)
  moreover have "vl_logical vl > l" if "vl \<in> set (concat (map ?f (enumerate (Suc l) (drop (Suc l) lines))))" for vl
    using that visual_line_lines [OF p, of vl bs ct] by (auto simp: in_set_enumerate_eq)
  ultimately show ?thesis by blast
qed

lemma build_lines:
  assumes "vl \<in> set (buildVisualLines lines n)"
  shows "vl_logical vl < length lines \<and> vl_offset vl + vl_width vl \<le> length (runes (lines ! vl_logical vl))
    \<and> vl_width vl \<le> max 10 n
    \<and> runes (vl_raw vl) = slice (runes (lines ! vl_logical vl)) (vl_offset vl) (vl_offset vl + vl_width vl)"
proof -
  have p: "0 < max 10 n" by simp
  from assms obtain i l bs ct where "(i, l) \<in> set (enumerate 0 lines)" "vl \<in> set (visual_line (max 10 n) bs ct (i, l))"
    by (auto simp: buildVisualLines_def Let_def)
  moreover from this(1) have "i < length lines" "l = lines ! i" by (auto simp: in_set_enumerate_eq)
  ultimately show ?thesis using visual_line_lines [OF p, of vl bs ct i l] by simp
qed

lemma locate:
  assumes "in_text (map runes lines) p"
  shows "\<exists>v c. logicalToVisual (buildVisualLines lines n) p = (v, c) \<and> v < length (buildVisualLines lines n)
    \<and> vl_logical (buildVisualLines lines n ! v) = fst p \<and> vl_offset (buildVisualLines lines n ! v) + c = snd p
    \<and> c \<le> vl_width (buildVisualLines lines n ! v)"
proof -
  obtain l c where p: "p = (l, c)" by fastforce
  have l: "l < length lines" "c \<le> length (runes (lines ! l))" using assms p by (auto simp: in_text_def)
  obtain bs ct A C where b: "buildVisualLines lines n = A @ visual_line (max 10 n) bs ct (l, lines ! l) @ C"
    and A: "\<forall>vl \<in> set A. vl_logical vl < l" and C: "\<forall>vl \<in> set C. vl_logical vl > l"
    using build_split [OF l(1)] by blast
  let ?B = "visual_line (max 10 n) bs ct (l, lines ! l)"
  have p10: "0 < max 10 n" by simp
  have r: "C = [] \<or> vl_logical (hd C) \<noteq> l" using C by (cases C) auto
  obtain k where k: "k < length ?B" "to_visual (?B @ C) (l, c) (length A) None = (length A + k, c - vl_offset (?B ! k))"
    "vl_offset (?B ! k) \<le> c" "c \<le> vl_offset (?B ! k) + vl_width (?B ! k)"
    using visual_line_locate [OF p10 l(2) r] by blast
  have "logicalToVisual (buildVisualLines lines n) p = to_visual (?B @ C) (l, c) (length A) None"
    using A p unfolding b logicalToVisual_def by (subst to_visual_skip) auto
  moreover have "buildVisualLines lines n ! (length A + k) = ?B ! k" using k(1) by (simp add: b nth_append)
  moreover have "vl_logical (?B ! k) = l" using visual_line_lines [OF p10 nth_mem [OF k(1)]] by simp
  ultimately show ?thesis using k p b by (intro exI [of _ "length A + k"] exI [of _ "c - vl_offset (?B ! k)"]) simp
qed

lemma build_not_Nil: "lines \<noteq> [] \<Longrightarrow> buildVisualLines lines n \<noteq> []"
  using locate [of lines "(0, 0)" n] by (cases lines) (auto simp: in_text_def)

text \<open>The cursor is drawn where it is: for any text and any width, the visual line and column
  \<open>logicalToVisual\<close> computes for a position of the text show exactly that position, and each visual line
  is a stretch of its logical line, no longer than the width.\<close>

theorem visual_roundtrip:
  assumes "in_text (map runes lines) p"
  shows "case logicalToVisual (buildVisualLines lines n) p of (v, c) \<Rightarrow>
      v < length (buildVisualLines lines n)
    \<and> (case buildVisualLines lines n ! v of vl \<Rightarrow>
         (vl_logical vl, vl_offset vl + c) = p \<and> c \<le> vl_width vl \<and> vl_width vl \<le> max 10 n
       \<and> runes (vl_raw vl) = slice (runes (lines ! fst p)) (vl_offset vl) (vl_offset vl + vl_width vl))"
proof -
  obtain v c where l: "logicalToVisual (buildVisualLines lines n) p = (v, c)" "v < length (buildVisualLines lines n)"
    "vl_logical (buildVisualLines lines n ! v) = fst p" "vl_offset (buildVisualLines lines n ! v) + c = snd p"
    "c \<le> vl_width (buildVisualLines lines n ! v)" using locate [OF assms] by blast
  with build_lines [OF nth_mem [OF l(2)]] show ?thesis by simp
qed

theorem visual_roundtrip_witness:
  "case logicalToVisual (buildVisualLines [''GET / HTTP/1.1'', ''Host: h''] 10) (0, 12) of (v, c) \<Rightarrow>
      vl_offset (buildVisualLines [''GET / HTTP/1.1'', ''Host: h''] 10 ! v) + c = 12"
proof -
  have "in_text (map runes [''GET / HTTP/1.1'', ''Host: h'']) (0, 12)" by (simp add: in_text_def runes_ascii)
  from visual_roundtrip [OF this, of 10] show ?thesis by (auto split: prod.splits)
qed

section \<open>Frames\<close>

lemma visual_snd: "snd (visual e) = e\<lparr>ed_cache := Some (fst (visual e)), ed_cache_raw := ed_raw e,
    ed_cache_width := charsPerLine e, ed_cache_valid := True\<rparr>"
  by (cases e) (auto simp: visual_def charsPerLine_def Let_def split: option.split)

lemma visual_frame [simp]: "ed_raw (snd (visual e)) = ed_raw e" "ed_scroll (snd (visual e)) = ed_scroll e"
    "ed_anchor (snd (visual e)) = ed_anchor e" "ed_sel (snd (visual e)) = ed_sel e" "ed_has (snd (visual e)) = ed_has e"
    "ed_cursor (snd (visual e)) = ed_cursor e" "ed_undo (snd (visual e)) = ed_undo e"
    "ed_selecting (snd (visual e)) = ed_selecting e" "ed_shift (snd (visual e)) = ed_shift e"
    "ed_dragging (snd (visual e)) = ed_dragging e" "ed_rend (snd (visual e)) = ed_rend e" "ed_win (snd (visual e)) = ed_win e"
    "ed_clip (snd (visual e)) = ed_clip e" "ed_sent (snd (visual e)) = ed_sent e"
    "logicalLines (snd (visual e)) = logicalLines e"
  by (simp_all add: visual_snd logicalLines_def)

lemma ensure_frame [simp]: "ed_raw (ensureCursorVisible e) = ed_raw e"
    "ed_anchor (ensureCursorVisible e) = ed_anchor e" "ed_sel (ensureCursorVisible e) = ed_sel e"
    "ed_has (ensureCursorVisible e) = ed_has e" "ed_cursor (ensureCursorVisible e) = ed_cursor e"
    "ed_undo (ensureCursorVisible e) = ed_undo e" "ed_selecting (ensureCursorVisible e) = ed_selecting e"
    "ed_shift (ensureCursorVisible e) = ed_shift e" "ed_rend (ensureCursorVisible e) = ed_rend e"
    "ed_win (ensureCursorVisible e) = ed_win e" "ed_clip (ensureCursorVisible e) = ed_clip e"
    "ed_sent (ensureCursorVisible e) = ed_sent e" "ed_dragging (ensureCursorVisible e) = ed_dragging e"
    "logicalLines (ensureCursorVisible e) = logicalLines e"
  by (simp_all add: ensureCursorVisible_def logicalLines_def Let_def case_prod_beta)

lemma edit_frame [simp]: "ed_anchor (edit ls p new e) = ed_anchor e" "ed_sel (edit ls p new e) = ed_sel e"
    "ed_has (edit ls p new e) = ed_has e" "ed_cursor (edit ls p new e) = ed_cursor e"
    "ed_selecting (edit ls p new e) = ed_selecting e" "ed_shift (edit ls p new e) = ed_shift e"
    "ed_raw (edit ls p new e) = join new LF" "ed_clip (edit ls p new e) = ed_clip e" "ed_win (edit ls p new e) = ed_win e"
    "ed_rend (edit ls p new e) = ed_rend e" "ed_cache_valid (edit ls p new e) = False"
    "good new \<Longrightarrow> logicalLines (edit ls p new e) = new"
  by (simp_all add: edit_def commitLines_def pushUndo_def logicalLines_def splitRaw_join)

lemma lines_update [simp]: "logicalLines (e\<lparr>ed_cursor := x0\<rparr>) = logicalLines e"
    "logicalLines (e\<lparr>ed_anchor := x1\<rparr>) = logicalLines e"
    "logicalLines (e\<lparr>ed_sel := x2\<rparr>) = logicalLines e"
    "logicalLines (e\<lparr>ed_has := x3\<rparr>) = logicalLines e"
    "logicalLines (e\<lparr>ed_undo := x4\<rparr>) = logicalLines e"
    "logicalLines (e\<lparr>ed_selecting := x5\<rparr>) = logicalLines e"
    "logicalLines (e\<lparr>ed_shift := x6\<rparr>) = logicalLines e"
    "logicalLines (e\<lparr>ed_dragging := x7\<rparr>) = logicalLines e"
    "logicalLines (e\<lparr>ed_scroll := x8\<rparr>) = logicalLines e"
    "logicalLines (e\<lparr>ed_clip := x9\<rparr>) = logicalLines e"
    "logicalLines (e\<lparr>ed_sent := x10\<rparr>) = logicalLines e"
    "logicalLines (e\<lparr>ed_cache := x11\<rparr>) = logicalLines e"
    "logicalLines (e\<lparr>ed_cache_raw := x12\<rparr>) = logicalLines e"
    "logicalLines (e\<lparr>ed_cache_width := x13\<rparr>) = logicalLines e"
    "logicalLines (e\<lparr>ed_cache_valid := x14\<rparr>) = logicalLines e"
    "logicalLines (e\<lparr>ed_rend := x15\<rparr>) = logicalLines e"
  by (simp_all add: logicalLines_def)

section \<open>The invariant\<close>

definition doc_lines :: "editor \<Rightarrow> rune list list" where
  "doc_lines e = map runes (logicalLines e)"

definition undo_ok :: "(string \<times> pos) list \<Rightarrow> bool" where
  "undo_ok us = (length us \<le> 100 \<and> (\<forall>(raw, p) \<in> set us. in_text (map runes (splitRaw raw)) p))"

text \<open>A valid cache holds the visual lines of the text, for the width it was built for.\<close>

definition cache_ok :: "editor \<Rightarrow> bool" where
  "cache_ok e = (ed_cache_valid e \<longrightarrow>
     (\<forall>vs. ed_cache e = Some vs \<longrightarrow> vs = buildVisualLines (logicalLines e) (ed_cache_width e)))"

definition editor_ok :: "editor \<Rightarrow> bool" where
  "editor_ok e = (in_text (doc_lines e) (ed_cursor e)
     \<and> (ed_has e \<longrightarrow> in_text (doc_lines e) (ed_anchor e) \<and> in_text (doc_lines e) (ed_sel e))
     \<and> (ed_selecting e \<longrightarrow> in_text (doc_lines e) (ed_anchor e))
     \<and> undo_ok (ed_undo e) \<and> cache_ok e)"

lemma visual_fst: "cache_ok e \<Longrightarrow> fst (visual e) = buildVisualLines (logicalLines e) (charsPerLine e)"
  by (auto simp: visual_def cache_ok_def logicalLines_def Let_def split: option.split)

lemma cache_ok_visual: "cache_ok e \<Longrightarrow> cache_ok (snd (visual e))"
  using visual_fst [of e] by (simp add: cache_ok_def visual_snd logicalLines_def)

lemma cache_ok_ensure: "cache_ok e \<Longrightarrow> cache_ok (ensureCursorVisible e)"
  using cache_ok_visual [of e]
  by (auto simp: ensureCursorVisible_def Let_def case_prod_beta cache_ok_def logicalLines_def)

lemma ok_ensure: "editor_ok e \<Longrightarrow> editor_ok (ensureCursorVisible e)"
  using cache_ok_ensure [of e] by (simp add: editor_ok_def doc_lines_def)

lemma undo_ok_edit:
  assumes "good ls" "in_text (map runes ls) p" "undo_ok (ed_undo e)"
  shows "undo_ok (ed_undo (edit ls p new e))"
proof -
  have "set (tl (ed_undo e)) \<subseteq> set (ed_undo e)" by (cases "ed_undo e") auto
  then show ?thesis using assms by (auto simp: edit_def pushUndo_def commitLines_def undo_ok_def splitRaw_join)
qed

lemma cache_ok_invalid [simp]: "\<not> ed_cache_valid e \<Longrightarrow> cache_ok e"
  by (simp add: cache_ok_def)

section \<open>Positions around a line\<close>

lemma before_at [simp]: "before (A @ x # C) (length A, c) = concat (map (\<lambda>x. x @ [10]) A) @ take c x"
  by (simp add: before_def)

lemma after_at [simp]: "after (A @ x # C) (length A, c) = drop c x @ concat (map (\<lambda>y. 10 # y) C)"
  by (simp add: after_def)

lemma in_text_at [simp]: "in_text (A @ x # C) (length A, c) = (c \<le> length x)"
  by (simp add: in_text_def)

text \<open>A position splits the lines.\<close>

lemma at_position:
  assumes "in_text (map runes lines) p"
  obtains A x C c where "lines = A @ x # C" "p = (length A, c)" "c \<le> length (runes x)"
proof -
  obtain l c where p: "p = (l, c)" by fastforce
  then have l: "l < length lines" "c \<le> length (runes (lines ! l))" using assms by (auto simp: in_text_def)
  then have "lines = take l lines @ lines ! l # drop (Suc l) lines" "p = (length (take l lines), c)"
    using p by (simp_all add: id_take_nth_drop)
  with l(2) that show thesis by blast
qed

lemma clamped_id: "in_text (map runes lines) p \<Longrightarrow> clamped lines p = p"
  by (cases p) (auto simp: clamped_def in_text_def Let_def min_def)

lemma map_runes_at [simp]: "map runes (A @ x # C) = map runes A @ runes x # map runes C"
  by simp

lemma good_at: "good (A @ x # C) = ((\<forall>l \<in> set A. one_line l) \<and> one_line x \<and> (\<forall>l \<in> set C. one_line l))"
  by (auto simp: good_def)

lemmas at_simps = good_at nth_append list_update_append

text \<open>The two halves of the text at the cursor, and what is left of them when the selection goes.\<close>

definition halves :: "editor \<Rightarrow> rune list \<times> rune list" where
  "halves e = (before (doc_lines e) (ed_cursor e), after (doc_lines e) (ed_cursor e))"

definition base :: "editor \<Rightarrow> rune list \<times> rune list" where
  "base e = (if ed_has e then (let (s, t) = normaliseSelection (ed_anchor e) (ed_sel e)
       in (before (doc_lines e) s, after (doc_lines e) t)) else halves e)"

section \<open>Selections\<close>

lemma delete_span_good:
  assumes "good lines" "fst s < length lines" "fst t < length lines" "delete_span lines s t = (ls, p)"
  shows "good ls"
proof -
  have "one_line (lines ! fst s)" "one_line (lines ! fst t)" using assms(1-3) by (simp_all add: good_nth)
  then have n: "no_break (runes (lines ! fst s))" "no_break (runes (lines ! fst t))" by (simp_all add: one_line_runes)
  have m: "min (fst s) (length lines - Suc 0) = fst s" "min (fst t) (length lines - Suc 0) = fst t" using assms(2,3) by simp_all
  show ?thesis
  proof (cases "fst s = fst t")
    case True
    with assms(1,4) n show ?thesis by (auto simp: delete_span_def Let_def m)
  next
    case False
    with assms(4) n good_parts [OF assms(1)] show ?thesis
      by (auto simp: delete_span_def Let_def m good_def)
  qed
qed

lemma deleteSelection_ok:
  assumes "editor_ok e" "deleteSelection (logicalLines e) e = (ls, e')"
  shows "good ls" "in_text (map runes ls) (ed_cursor e')" "\<not> ed_has e'"
    "fst (base e) = before (map runes ls) (ed_cursor e') \<and> snd (base e) = after (map runes ls) (ed_cursor e')"
    "ed_undo e' = ed_undo e" "ed_selecting e' \<Longrightarrow> ls = logicalLines e \<and> ed_anchor e' = ed_anchor e \<and> ed_selecting e"
    "ed_win e' = ed_win e" "ed_clip e' = ed_clip e" "ed_rend e' = ed_rend e" "ed_shift e' = ed_shift e"
proof -
  obtain s t where n: "normaliseSelection (ed_anchor e) (ed_sel e) = (s, t)" by (metis surj_pair)
  have all: "good ls \<and> in_text (map runes ls) (ed_cursor e') \<and> \<not> ed_has e'
    \<and> fst (base e) = before (map runes ls) (ed_cursor e') \<and> snd (base e) = after (map runes ls) (ed_cursor e')
    \<and> ed_undo e' = ed_undo e \<and> (ed_selecting e' \<longrightarrow> ls = logicalLines e \<and> ed_anchor e' = ed_anchor e \<and> ed_selecting e)
    \<and> ed_win e' = ed_win e \<and> ed_clip e' = ed_clip e \<and> ed_rend e' = ed_rend e \<and> ed_shift e' = ed_shift e"
  proof (cases "ed_has e")
    case False
    with assms show ?thesis by (auto simp: deleteSelection_def editor_ok_def base_def halves_def doc_lines_def)
  next
    case True
    have i: "in_text (map runes (logicalLines e)) s" "in_text (map runes (logicalLines e)) t"
      using normalise_cases [OF n] True assms(1) by (auto simp: editor_ok_def doc_lines_def)
    obtain ks p where d: "delete_span (logicalLines e) s t = (ks, p)" by (metis surj_pair)
    with True n assms(2) have e': "ls = ks" "e' = e\<lparr>ed_cursor := p, ed_has := False, ed_selecting := False\<rparr>"
      by (auto simp: deleteSelection_def)
    have "good ks" using d i by (intro delete_span_good [OF good_lines _ _ d]) (auto simp: in_text_def)
    with delete_span_eq [OF normalise_le [OF n] i d] e' n True show ?thesis by (simp add: base_def doc_lines_def)
  qed
  then show "good ls" "in_text (map runes ls) (ed_cursor e')" "\<not> ed_has e'"
    "fst (base e) = before (map runes ls) (ed_cursor e') \<and> snd (base e) = after (map runes ls) (ed_cursor e')"
    "ed_undo e' = ed_undo e" "ed_selecting e' \<Longrightarrow> ls = logicalLines e \<and> ed_anchor e' = ed_anchor e \<and> ed_selecting e"
    "ed_win e' = ed_win e" "ed_clip e' = ed_clip e" "ed_rend e' = ed_rend e" "ed_shift e' = ed_shift e"
    by blast+
qed

lemma halves_simps [simp]: "halves (ensureCursorVisible e) = halves e" "halves (e\<lparr>ed_has := h\<rparr>) = halves e"
    "halves (e\<lparr>ed_anchor := q\<rparr>) = halves e" "halves (e\<lparr>ed_sel := q\<rparr>) = halves e" "halves (e\<lparr>ed_selecting := h\<rparr>) = halves e"
    "halves (e\<lparr>ed_shift := h\<rparr>) = halves e" "halves (cancelShift e) = halves e"
  by (simp_all add: halves_def doc_lines_def cancelShift_def)

section \<open>Editing\<close>

text \<open>What an edit leaves: new lines with the cursor in them, no selection.\<close>

lemma edit_result:
  assumes "editor_ok e0" "good new" "in_text (map runes new) p" "ed_undo e = ed_undo e0" "\<not> ed_has e"
    and "ed_selecting e \<Longrightarrow> in_text (map runes new) (ed_anchor e)"
  shows "editor_ok ((edit (logicalLines e0) (ed_cursor e0) new e)\<lparr>ed_cursor := p\<rparr>)"
    "halves ((edit (logicalLines e0) (ed_cursor e0) new e)\<lparr>ed_cursor := p\<rparr>) = (before (map runes new) p, after (map runes new) p)"
proof -
  have "undo_ok (ed_undo (edit (logicalLines e0) (ed_cursor e0) new e))"
    using assms(1,4) by (intro undo_ok_edit) (auto simp: editor_ok_def doc_lines_def)
  with assms show "editor_ok ((edit (logicalLines e0) (ed_cursor e0) new e)\<lparr>ed_cursor := p\<rparr>)"
    by (simp add: editor_ok_def doc_lines_def)
  show "halves ((edit (logicalLines e0) (ed_cursor e0) new e)\<lparr>ed_cursor := p\<rparr>) = (before (map runes new) p, after (map runes new) p)"
    using assms(2) by (simp add: halves_def doc_lines_def)
qed

lemma insert_runes_ok:
  assumes "good ls" "in_text (map runes ls) p" "all_valid new" "no_break new"
  shows "good (insert_runes ls p new)"
    "in_text (map runes (insert_runes ls p new)) (fst p, snd p + length new)"
    "before (map runes (insert_runes ls p new)) (fst p, snd p + length new) = before (map runes ls) p @ new"
    "after (map runes (insert_runes ls p new)) (fst p, snd p + length new) = after (map runes ls) p"
    "in_text (map runes ls) q \<Longrightarrow> in_text (map runes (insert_runes ls p new)) q"
proof -
  obtain A x C c where a: "ls = A @ x # C" "p = (length A, c)" "c \<le> length (runes x)"
    using at_position [OF assms(2)] .
  have i: "insert_runes ls p new = A @ of_runes (take c (runes x) @ new @ drop c (runes x)) # C"
    using a by (simp add: insert_runes_def Let_def del: of_runes_simps)
  have n: "no_break (runes x)" using assms(1) a(1) by (simp add: good_at one_line_runes)
  show "good (insert_runes ls p new)"
    using assms(1,4) n a(1) unfolding i by (simp add: good_at del: of_runes_simps)
  have r: "map runes (insert_runes ls p new) = map runes A @ (take c (runes x) @ new @ drop c (runes x)) # map runes C"
    using assms(3) unfolding i by (simp del: of_runes_simps)
  have l: "length A = length (map runes A)" by simp
  show "in_text (map runes (insert_runes ls p new)) (fst p, snd p + length new)"
    "before (map runes (insert_runes ls p new)) (fst p, snd p + length new) = before (map runes ls) p @ new"
    "after (map runes (insert_runes ls p new)) (fst p, snd p + length new) = after (map runes ls) p"
    unfolding r using a by (simp_all add: l before_at after_at in_text_at del: length_map)
  show "in_text (map runes ls) q \<Longrightarrow> in_text (map runes (insert_runes ls p new)) q"
    unfolding r using a by (auto simp: in_text_def nth_append nth_Cons split: nat.splits)
qed

lemma TypedRune_ok:
  assumes "editor_ok e" "valid_rune r" "r \<noteq> 10" "r \<noteq> 13"
  shows "editor_ok (TypedRune r e) \<and> halves (TypedRune r e) = (fst (base e) @ [r], snd (base e))"
proof -
  obtain ls e1 where d: "deleteSelection (logicalLines e) e = (ls, e1)" by (metis surj_pair)
  note D = deleteSelection_ok [OF assms(1) d]
  let ?p = "ed_cursor e1"
  have v: "all_valid [r]" "no_break [r]" using assms by simp_all
  note I = insert_runes_ok [OF D(1,2) v]
  let ?q = "(fst ?p, Suc (snd ?p))"
  let ?e = "(edit (logicalLines e) (ed_cursor e) (insert_runes ls ?p [r]) e1)\<lparr>ed_cursor := ?q\<rparr>"
  have t: "TypedRune r e = ensureCursorVisible ?e"
    using clamped_id [OF D(2)] by (simp add: TypedRune_def d Let_def case_prod_beta)
  have sel: "ed_selecting e1 \<Longrightarrow> in_text (map runes (insert_runes ls ?p [r])) (ed_anchor e1)"
    using D(6) I(5) assms(1) by (auto simp: editor_ok_def doc_lines_def)
  have "editor_ok ?e" "halves ?e = (before (map runes (insert_runes ls ?p [r])) ?q, after (map runes (insert_runes ls ?p [r])) ?q)"
    using edit_result [OF assms(1) I(1) _ D(5,3) sel, of ?q] I(2) by simp_all
  with t I(3,4) D(4) show ?thesis by (simp add: ok_ensure)
qed

lemma edit_same [simp]: "ed_cursor e = p \<Longrightarrow> (edit ls q new e)\<lparr>ed_cursor := p\<rparr> = edit ls q new e"
  by (cases e) (simp add: edit_def commitLines_def pushUndo_def)

lemma edit_cancel:
  assumes "editor_ok e0" "good new" "in_text (map runes new) p" "ed_undo e = ed_undo e0"
  shows "editor_ok (cancelShift ((edit (logicalLines e0) (ed_cursor e0) new e)\<lparr>ed_cursor := p\<rparr>))
    \<and> halves (cancelShift ((edit (logicalLines e0) (ed_cursor e0) new e)\<lparr>ed_cursor := p\<rparr>))
        = (before (map runes new) p, after (map runes new) p)"
proof -
  have "undo_ok (ed_undo (edit (logicalLines e0) (ed_cursor e0) new e))"
    using assms(1,4) by (intro undo_ok_edit) (auto simp: editor_ok_def doc_lines_def)
  with assms show ?thesis by (simp add: editor_ok_def doc_lines_def cancelShift_def halves_def)
qed

lemma cancel_ok: "editor_ok e \<Longrightarrow> editor_ok (cancelShift e)"
  by (simp add: editor_ok_def cancelShift_def doc_lines_def cache_ok_def)

text \<open>A selection that a key deletes.\<close>

lemma delete_edit:
  assumes "editor_ok e" "deleteSelection (logicalLines e) e = (ls, e1)"
  shows "editor_ok (cancelShift (edit (logicalLines e) (ed_cursor e) ls e1))
    \<and> halves (cancelShift (edit (logicalLines e) (ed_cursor e) ls e1)) = base e"
proof -
  note D = deleteSelection_ok [OF assms]
  from edit_cancel [OF assms(1) D(1,2,5)] D(4) show ?thesis
    by (simp add: prod_eq_iff)
qed

lemma halves_at:
  assumes "logicalLines e = A @ x # C" "ed_cursor e = (length A, c)"
  shows "halves e = (concat (map (\<lambda>x. x @ [10]) (map runes A)) @ take c (runes x),
    drop c (runes x) @ concat (map (\<lambda>y. 10 # y) (map runes C)))"
proof -
  have "length A = length (map runes A)" by simp
  then show ?thesis using assms before_at [of "map runes A"] after_at [of "map runes A"]
    by (simp add: halves_def doc_lines_def)
qed

text \<open>New lines around the cursor, when their runes are known.\<close>

lemma edit_at:
  assumes "editor_ok e0" "\<forall>l \<in> set B. one_line l" "no_break y" "all_valid y" "\<forall>l \<in> set D. one_line l"
    and "d \<le> length y" "ed_undo e = ed_undo e0"
  defines "e' \<equiv> cancelShift ((edit (logicalLines e0) (ed_cursor e0) (B @ of_runes y # D) e)\<lparr>ed_cursor := (length B, d)\<rparr>)"
  shows "editor_ok e' \<and> halves e' = (concat (map (\<lambda>x. x @ [10]) (map runes B)) @ take d y,
    drop d y @ concat (map (\<lambda>y. 10 # y) (map runes D)))"
proof -
  have g: "good (B @ of_runes y # D)" using assms(2,3,5) by (simp add: good_at)
  have l: "length B = length (map runes B)" by simp
  have "in_text (map runes (B @ of_runes y # D)) (length B, d)" using assms(4,6) by (simp add: in_text_def nth_append)
  from edit_cancel [OF assms(1) g this assms(7)] before_at [of "map runes B" y] after_at [of "map runes B" y] assms(4)
  show ?thesis by (simp add: e'_def)
qed

lemma key_backspace_ok:
  assumes "editor_ok e"
  defines "e' \<equiv> cancelShift (key_backspace (logicalLines e) (ed_cursor e) e)"
  shows "editor_ok e' \<and> halves e' = (if ed_has e then base e else (butlast (fst (base e)), snd (base e)))"
proof (cases "ed_has e")
  case True
  obtain ls e1 where "deleteSelection (logicalLines e) e = (ls, e1)" by (metis surj_pair)
  with delete_edit [OF assms(1) this] True show ?thesis by (simp add: e'_def key_backspace_def case_prod_beta Let_def)
next
  case False
  then have b: "base e = halves e" by (simp add: base_def)
  obtain A x C c where a: "logicalLines e = A @ x # C" "ed_cursor e = (length A, c)" "c \<le> length (runes x)"
    using at_position assms(1) by (metis doc_lines_def editor_ok_def)
  have g: "good (A @ x # C)" using good_lines [of e] a(1) by simp
  have n: "no_break (runes x)" using g by (simp add: good_at one_line_runes)
  show ?thesis
  proof (cases "c > 0")
    case True
    have e': "e' = cancelShift ((edit (logicalLines e) (ed_cursor e) (A @ of_runes (take (c - 1) (runes x) @ drop c (runes x)) # C) e)
        \<lparr>ed_cursor := (length A, c - 1)\<rparr>)"
      using True False a by (simp add: e'_def key_backspace_def Let_def del: of_runes_simps)
    have "editor_ok e' \<and> halves e' = (concat (map (\<lambda>x. x @ [10]) (map runes A)) @ take (c - 1) (runes x),
        drop c (runes x) @ concat (map (\<lambda>y. 10 # y) (map runes C)))"
      unfolding e' using edit_at [OF assms(1), of A "take (c - 1) (runes x) @ drop c (runes x)" C "c - 1" e] g n a(3)
      by (simp add: good_at del: of_runes_simps)
    moreover have "take c (runes x) \<noteq> []" using True a(3) by auto
    ultimately show ?thesis using False b halves_at [OF a(1,2)] a(3) by (simp add: butlast_append butlast_take)
  next
    case c: False
    show ?thesis
    proof (cases "A = []")
      case True
      with c False a have "e' = cancelShift e" by (simp add: e'_def key_backspace_def Let_def)
      with True c b halves_at [OF a(1,2)] assms(1) False show ?thesis by (simp add: cancel_ok)
    next
      case A: False
      then obtain B y where A: "A = B @ [y]" by (metis append_butlast_last_id)
      have e': "e' = cancelShift ((edit (logicalLines e) (ed_cursor e) (B @ of_runes (runes y @ runes x) # C) e)
          \<lparr>ed_cursor := (length B, length (runes y))\<rparr>)"
        using c False a A by (simp add: e'_def key_backspace_def Let_def nth_append)
      have "editor_ok e' \<and> halves e' = (concat (map (\<lambda>x. x @ [10]) (map runes B)) @ runes y,
          runes x @ concat (map (\<lambda>y. 10 # y) (map runes C)))"
        unfolding e' using edit_at [OF assms(1), of B "runes y @ runes x" C "length (runes y)" e] g n A
        by (simp add: good_at one_line_runes del: of_runes_simps)
      with c False b halves_at [OF a(1,2)] A show ?thesis by (simp add: butlast_append)
    qed
  qed
qed

lemma key_delete_ok:
  assumes "editor_ok e"
  defines "e' \<equiv> cancelShift (key_delete (logicalLines e) (ed_cursor e) e)"
  shows "editor_ok e' \<and> halves e' = (if ed_has e then base e else (fst (base e), tl (snd (base e))))"
proof (cases "ed_has e")
  case True
  obtain ls e1 where "deleteSelection (logicalLines e) e = (ls, e1)" by (metis surj_pair)
  with delete_edit [OF assms(1) this] True show ?thesis by (simp add: e'_def key_delete_def case_prod_beta Let_def)
next
  case False
  then have b: "base e = halves e" by (simp add: base_def)
  obtain A x C c where a: "logicalLines e = A @ x # C" "ed_cursor e = (length A, c)" "c \<le> length (runes x)"
    using at_position assms(1) by (metis doc_lines_def editor_ok_def)
  have g: "good (A @ x # C)" using good_lines [of e] a(1) by simp
  have n: "no_break (runes x)" using g by (simp add: good_at one_line_runes)
  show ?thesis
  proof (cases "c < length (runes x)")
    case True
    have e': "e' = cancelShift ((edit (logicalLines e) (ed_cursor e) (A @ of_runes (take c (runes x) @ drop (Suc c) (runes x)) # C) e)
        \<lparr>ed_cursor := (length A, c)\<rparr>)"
      using True False a
      by (simp add: e'_def key_delete_def Let_def del: of_runes_simps)
    have "editor_ok e' \<and> halves e' = (concat (map (\<lambda>x. x @ [10]) (map runes A)) @ take c (runes x),
        drop (Suc c) (runes x) @ concat (map (\<lambda>y. 10 # y) (map runes C)))"
      unfolding e' using edit_at [OF assms(1), of A "take c (runes x) @ drop (Suc c) (runes x)" C c e] g n a(3)
      by (simp add: good_at del: of_runes_simps)
    moreover have "tl (drop c (runes x) @ z) = drop (Suc c) (runes x) @ z" for z
      using True by (simp add: drop_Suc tl_drop)
    ultimately show ?thesis using False b halves_at [OF a(1,2)] by simp
  next
    case c: False
    then have cl: "c = length (runes x)" using a(3) by simp
    show ?thesis
    proof (cases C)
      case Nil
      with c False a have "e' = cancelShift e" by (simp add: e'_def key_delete_def Let_def)
      with Nil cl b halves_at [OF a(1,2)] assms(1) False show ?thesis by (simp add: cancel_ok)
    next
      case (Cons y D)
      have y: "one_line y" "no_break (runes y)" using g Cons by (simp_all add: good_at one_line_runes)
      have g': "good (A @ (of_runes (runes x) @ y) # D)" using g Cons n by (simp add: good_at)
      have r: "runes (of_runes (runes x) @ y) = runes x @ runes y"
        by (simp add: runes_of_append)
      let ?new = "A @ (of_runes (runes x) @ y) # D"
      have "in_text (map runes ?new) (ed_cursor e)" using a(2) cl r by (simp add: in_text_def nth_append)
      note E = edit_cancel [OF assms(1) g' this refl, of]
      have e': "e' = cancelShift ((edit (logicalLines e) (ed_cursor e) ?new e)\<lparr>ed_cursor := ed_cursor e\<rparr>)"
        using c False a Cons
        by (simp add: e'_def key_delete_def Let_def nth_append)
      have "before (map runes ?new) (ed_cursor e) = concat (map (\<lambda>x. x @ [10]) (map runes A)) @ runes x"
        "after (map runes ?new) (ed_cursor e) = runes y @ concat (map (\<lambda>y. 10 # y) (map runes D))"
        using a(2) cl r before_at [of "map runes A" "runes x @ runes y" "map runes D" c]
          after_at [of "map runes A" "runes x @ runes y" "map runes D" c] by simp_all
      with E c cl False b halves_at [OF a(1,2)] Cons show ?thesis unfolding e' by simp
    qed
  qed
qed


lemma key_return_ok:
  assumes "editor_ok e"
  defines "e' \<equiv> cancelShift (key_return (logicalLines e) (ed_cursor e) e)"
  shows "editor_ok e' \<and> halves e' = (fst (base e) @ [10], snd (base e))"
proof -
  obtain ls e1 where d: "deleteSelection (logicalLines e) e = (ls, e1)" by (metis surj_pair)
  note D = deleteSelection_ok [OF assms(1) d]
  have cur: "(if ed_has e then ed_cursor e1 else ed_cursor e) = ed_cursor e1"
    using d by (auto simp: deleteSelection_def)
  obtain A x C c where a: "ls = A @ x # C" "ed_cursor e1 = (length A, c)" "c \<le> length (runes x)"
    using at_position [OF D(2)] .
  have n: "no_break (runes x)" using D(1) a(1) by (simp add: good_at one_line_runes)
  let ?B = "A @ [of_runes (take c (runes x))]"
  have e': "e' = cancelShift ((edit (logicalLines e) (ed_cursor e) (?B @ of_runes (drop c (runes x)) # C) e1)
      \<lparr>ed_cursor := (length ?B, 0)\<rparr>)"
    using a cur by (simp add: e'_def key_return_def d Let_def case_prod_beta)
  have "editor_ok e' \<and> halves e' = (concat (map (\<lambda>x. x @ [10]) (map runes ?B)) @ take 0 (drop c (runes x)),
      drop 0 (drop c (runes x)) @ concat (map (\<lambda>y. 10 # y) (map runes C)))"
    unfolding e' using D(1,5) a(1) n
    by (intro edit_at [OF assms(1)]) (auto simp: good_at simp del: of_runes_simps)
  moreover have "before (map runes ls) (ed_cursor e1) = concat (map (\<lambda>x. x @ [10]) (map runes A)) @ take c (runes x)"
    "after (map runes ls) (ed_cursor e1) = drop c (runes x) @ concat (map (\<lambda>y. 10 # y) (map runes C))"
    using a before_at [of "map runes A"] after_at [of "map runes A"] by simp_all
  ultimately show ?thesis using D(4) by simp
qed

text \<open>Moving the cursor.\<close>

lemma cursor_ok: "editor_ok e \<Longrightarrow> in_text (doc_lines e) p \<Longrightarrow> editor_ok (e\<lparr>ed_cursor := p\<rparr>)"
  by (simp add: editor_ok_def doc_lines_def cache_ok_def)

lemma begin_ok: "editor_ok e \<Longrightarrow> in_text (doc_lines e) p \<Longrightarrow> editor_ok (beginShift p e)"
  by (simp add: editor_ok_def doc_lines_def cache_ok_def beginShift_def)

lemma begin_frame [simp]: "ed_selecting (beginShift p e)" "ed_cursor (beginShift p e) = ed_cursor e"
    "logicalLines (beginShift p e) = logicalLines e" "ed_undo (beginShift p e) = ed_undo e"
    "ed_raw (beginShift p e) = ed_raw e"
  by (simp_all add: beginShift_def)

lemma update_ok: "editor_ok e \<Longrightarrow> ed_selecting e \<Longrightarrow> editor_ok (updateShift e)"
  by (simp add: editor_ok_def doc_lines_def cache_ok_def updateShift_def)

lemma cancel_frame [simp]: "ed_cursor (cancelShift e) = ed_cursor e" "logicalLines (cancelShift e) = logicalLines e"
    "ed_undo (cancelShift e) = ed_undo e" "ed_raw (cancelShift e) = ed_raw e"
  by (simp_all add: cancelShift_def)

lemma with_shift_ok:
  assumes "editor_ok e" "in_text (doc_lines e) p"
    and "\<And>e1. logicalLines e1 = logicalLines e \<Longrightarrow> ed_cursor e1 = ed_cursor e \<Longrightarrow>
      \<exists>q. move e1 = Some (e1\<lparr>ed_cursor := q\<rparr>) \<and> in_text (doc_lines e1) q"
  shows "\<exists>e'. with_shift p move e = Some e' \<and> editor_ok e' \<and> ed_raw e' = ed_raw e \<and> ed_undo e' = ed_undo e"
proof (cases "ed_shift e")
  case True
  obtain q where q: "move (beginShift p e) = Some ((beginShift p e)\<lparr>ed_cursor := q\<rparr>)" "in_text (doc_lines (beginShift p e)) q"
    using assms(3) [of "beginShift p e"] by auto
  then have "editor_ok ((beginShift p e)\<lparr>ed_cursor := q\<rparr>)" by (intro cursor_ok begin_ok assms) simp_all
  then have "editor_ok (updateShift ((beginShift p e)\<lparr>ed_cursor := q\<rparr>))" by (rule update_ok) simp
  with True q show ?thesis by (simp add: with_shift_def updateShift_def)
next
  case False
  obtain q where q: "move (cancelShift e) = Some ((cancelShift e)\<lparr>ed_cursor := q\<rparr>)" "in_text (doc_lines (cancelShift e)) q"
    using assms(3) [of "cancelShift e"] by auto
  then have "editor_ok ((cancelShift e)\<lparr>ed_cursor := q\<rparr>)" by (intro cursor_ok cancel_ok assms(1))
  with False q show ?thesis by (simp add: with_shift_def)
qed

lemma doc_in_text: "in_text (doc_lines e) (l, c) = (l < length (logicalLines e) \<and> c \<le> length (runes (logicalLines e ! l)))"
  by (auto simp: in_text_def doc_lines_def)

lemma to_line_ok:
  "l < length (logicalLines e) \<Longrightarrow> \<exists>q. to_line (logicalLines e) l e = Some (e\<lparr>ed_cursor := q\<rparr>) \<and> in_text (doc_lines e) q"
  by (intro exI [of _ "(l, min (snd (ed_cursor e)) (length (runes (logicalLines e ! l))))"])
    (simp add: to_line_def doc_in_text)

lemma moves_ok:
  assumes "editor_ok e"
  defines "lines \<equiv> logicalLines e" and "p \<equiv> ed_cursor e"
  shows "\<exists>e'. key_up lines p e = Some e' \<and> editor_ok e' \<and> ed_raw e' = ed_raw e \<and> ed_undo e' = ed_undo e"
    "\<exists>e'. key_down lines p e = Some e' \<and> editor_ok e' \<and> ed_raw e' = ed_raw e \<and> ed_undo e' = ed_undo e"
    "\<exists>e'. key_home p e = Some e' \<and> editor_ok e' \<and> ed_raw e' = ed_raw e \<and> ed_undo e' = ed_undo e"
    "\<exists>e'. key_end lines p e = Some e' \<and> editor_ok e' \<and> ed_raw e' = ed_raw e \<and> ed_undo e' = ed_undo e"
proof -
  have p: "in_text (doc_lines e) p" using assms(1) by (simp add: editor_ok_def p_def)
  then have l: "fst p < length lines" "snd p \<le> length (runes (lines ! fst p))"
    by (auto simp: in_text_def doc_lines_def lines_def)
  have same: "e1\<lparr>ed_cursor := p\<rparr> = e1" if "ed_cursor e1 = p" for e1 :: editor
    using that by (cases e1) simp
  have i: "in_text (doc_lines e1) p" if "logicalLines e1 = lines" for e1 :: editor
    using p that by (simp add: doc_lines_def lines_def)
  have stay: "\<exists>q. Some e1 = Some (e1\<lparr>ed_cursor := q\<rparr>) \<and> in_text (doc_lines e1) q"
    if "logicalLines e1 = lines" "ed_cursor e1 = p" for e1 :: editor
    using same [OF that(2)] i [OF that(1)] by metis
  note W = with_shift_ok [OF assms(1) p, folded lines_def p_def]
  show "\<exists>e'. key_up lines p e = Some e' \<and> editor_ok e' \<and> ed_raw e' = ed_raw e \<and> ed_undo e' = ed_undo e"
    unfolding key_up_def
  proof (rule W)
    fix e1 :: editor assume h: "logicalLines e1 = lines" "ed_cursor e1 = p"
    show "\<exists>q. (if fst p > 0 then to_line lines (fst (ed_cursor e1) - 1) e1 else Some e1)
        = Some (e1\<lparr>ed_cursor := q\<rparr>) \<and> in_text (doc_lines e1) q"
    proof (cases "fst p > 0")
      case True
      with to_line_ok [of "fst p - 1" e1] h l show ?thesis by auto
    qed (use stay [OF h] in simp)
  qed
  show "\<exists>e'. key_down lines p e = Some e' \<and> editor_ok e' \<and> ed_raw e' = ed_raw e \<and> ed_undo e' = ed_undo e"
    unfolding key_down_def
  proof (rule W)
    fix e1 :: editor assume h: "logicalLines e1 = lines" "ed_cursor e1 = p"
    show "\<exists>q. (if fst p < length lines - 1 then to_line lines (Suc (fst (ed_cursor e1))) e1 else Some e1)
        = Some (e1\<lparr>ed_cursor := q\<rparr>) \<and> in_text (doc_lines e1) q"
    proof (cases "fst p < length lines - 1")
      case True
      with to_line_ok [of "Suc (fst p)" e1] h l show ?thesis by auto
    qed (use stay [OF h] in simp)
  qed
  show "\<exists>e'. key_home p e = Some e' \<and> editor_ok e' \<and> ed_raw e' = ed_raw e \<and> ed_undo e' = ed_undo e"
    unfolding key_home_def
    by (rule W) (use l in \<open>auto simp: doc_in_text intro!: exI [of _ "(fst p, 0)"]\<close>)
  show "\<exists>e'. key_end lines p e = Some e' \<and> editor_ok e' \<and> ed_raw e' = ed_raw e \<and> ed_undo e' = ed_undo e"
    unfolding key_end_def
    by (rule W) (use l in \<open>auto simp: doc_in_text intro!: exI [of _ "(fst p, length (runes (lines ! fst p)))"]\<close>)
qed

text \<open>Left and right.\<close>

lemma selection_ends:
  assumes "editor_ok e" "ed_has e" "normaliseSelection (ed_anchor e) (ed_sel e) = (s, t)"
  shows "in_text (doc_lines e) s" "in_text (doc_lines e) t" "pos_le s t"
  using normalise_cases [OF assms(3)] normalise_le [OF assms(3)] assms(1,2) by (auto simp: editor_ok_def)

lemma cursor_same [simp]: "ed_cursor e = p \<Longrightarrow> e\<lparr>ed_cursor := p\<rparr> = e" for e :: editor
  by (cases e) simp

lemma left_position:
  assumes "in_text (doc_lines e) p"
  defines "q \<equiv> (if snd p > 0 then (fst p, snd p - 1) else if fst p > 0
      then (fst p - 1, length (runes (logicalLines e ! (fst p - 1)))) else p)"
  shows "in_text (doc_lines e) q"
    "(before (doc_lines e) q, after (doc_lines e) q) = (case before (doc_lines e) p of [] \<Rightarrow> ([], after (doc_lines e) p)
       | b # bs \<Rightarrow> (butlast (b # bs), last (b # bs) # after (doc_lines e) p))"
proof -
  obtain l c where p: "p = (l, c)" by fastforce
  have l: "l < length (logicalLines e)" "c \<le> length (runes (logicalLines e ! l))" using assms(1) p by (simp_all add: doc_in_text)
  then show "in_text (doc_lines e) q" by (auto simp: q_def p doc_in_text)
  let ?D = "doc_lines e"
  have f: "before ?D p @ after ?D p = before ?D q @ after ?D q"
    using before_after [of p ?D] before_after [of q ?D] l \<open>in_text ?D q\<close> p by (simp add: in_text_def doc_lines_def)
  have b: "before ?D q = butlast (before ?D p)"
  proof (cases "c > 0")
    case True
    then have "take c (?D ! l) \<noteq> []" using l by (auto simp: doc_lines_def)
    with True l p show ?thesis by (simp add: q_def before_def butlast_append butlast_take doc_lines_def)
  next
    case False
    show ?thesis
    proof (cases l)
      case (Suc k)
      then have "take l ?D = take k ?D @ [?D ! k]" using l by (simp add: take_Suc_conv_app_nth doc_lines_def)
      with False Suc p l show ?thesis by (simp add: q_def before_def butlast_append doc_lines_def)
    qed (use False p in \<open>simp add: q_def before_def\<close>)
  qed
  show "(before ?D q, after ?D q) = (case before ?D p of [] \<Rightarrow> ([], after ?D p)
       | b # bs \<Rightarrow> (butlast (b # bs), last (b # bs) # after ?D p))"
  proof (cases "before ?D p")
    case Nil
    with f b show ?thesis by simp
  next
    case (Cons x xs)
    then have "butlast (before ?D p) @ [last (before ?D p)] = before ?D p" by simp
    with f b have "butlast (before ?D p) @ last (before ?D p) # after ?D p = butlast (before ?D p) @ after ?D q"
      by (metis append.assoc append_Cons append_Nil)
    with Cons b show ?thesis by simp
  qed
qed

lemma right_position:
  assumes "in_text (doc_lines e) p"
  defines "q \<equiv> (if snd p < length (runes (logicalLines e ! fst p)) then (fst p, Suc (snd p))
      else if fst p < length (logicalLines e) - 1 then (Suc (fst p), 0) else p)"
  shows "in_text (doc_lines e) q"
    "(before (doc_lines e) q, after (doc_lines e) q) = (case after (doc_lines e) p of [] \<Rightarrow> (before (doc_lines e) p, [])
       | a # as \<Rightarrow> (before (doc_lines e) p @ [a], as))"
proof -
  obtain l c where p: "p = (l, c)" by fastforce
  have l: "l < length (logicalLines e)" "c \<le> length (runes (logicalLines e ! l))" using assms(1) p by (simp_all add: doc_in_text)
  then show "in_text (doc_lines e) q" by (auto simp: q_def p doc_in_text)
  let ?D = "doc_lines e"
  have f: "before ?D p @ after ?D p = before ?D q @ after ?D q"
    using before_after [of p ?D] before_after [of q ?D] l \<open>in_text ?D q\<close> p by (simp add: in_text_def doc_lines_def)
  have a: "after ?D q = tl (after ?D p)"
  proof (cases "c < length (?D ! l)")
    case True
    then have "tl (drop c (?D ! l) @ z) = drop (Suc c) (?D ! l) @ z" for z by (simp add: drop_Suc tl_drop)
    with True l p show ?thesis by (simp add: q_def after_def doc_lines_def)
  next
    case False
    show ?thesis
    proof (cases "Suc l < length ?D")
      case True
      then have "drop (Suc l) ?D = ?D ! Suc l # drop (Suc (Suc l)) ?D" by (rule Cons_nth_drop_Suc [symmetric])
      with False True l p show ?thesis by (simp add: q_def after_def doc_lines_def)
    qed (use False l p in \<open>auto simp: q_def after_def doc_lines_def\<close>)
  qed
  show "(before ?D q, after ?D q) = (case after ?D p of [] \<Rightarrow> (before ?D p, []) | a # as \<Rightarrow> (before ?D p @ [a], as))"
  proof (cases "after ?D p")
    case Nil
    with f a show ?thesis by simp
  next
    case (Cons x xs)
    with f a have "(before ?D p @ [x]) @ xs = before ?D q @ xs" by simp
    with Cons a show ?thesis by (simp only: append_same_eq list.case) simp
  qed
qed

lemma key_left_ok:
  assumes "editor_ok e"
  shows "\<exists>e'. key_left (logicalLines e) (ed_cursor e) e = Some e' \<and> editor_ok e' \<and> ed_raw e' = ed_raw e \<and> ed_undo e' = ed_undo e
    \<and> (\<not> ed_has e \<or> ed_shift e \<longrightarrow> halves e' = (case fst (halves e) of [] \<Rightarrow> ([], snd (halves e))
         | b # bs \<Rightarrow> (butlast (b # bs), last (b # bs) # snd (halves e))))"
proof -
  obtain s t where n: "normaliseSelection (ed_anchor e) (ed_sel e) = (s, t)" by (metis surj_pair)
  have p: "in_text (doc_lines e) (ed_cursor e)" using assms by (simp add: editor_ok_def)
  define q where "q = (if snd (ed_cursor e) > 0 then (fst (ed_cursor e), snd (ed_cursor e) - 1)
    else if fst (ed_cursor e) > 0 then (fst (ed_cursor e) - 1, length (runes (logicalLines e ! (fst (ed_cursor e) - 1))))
    else ed_cursor e)"
  note L = left_position [OF p, folded q_def]
  have h: "halves (e1\<lparr>ed_cursor := q\<rparr>) = (before (doc_lines e) q, after (doc_lines e) q)" if "logicalLines e1 = logicalLines e" for e1
    using that by (simp add: halves_def doc_lines_def)
  have "fst (ed_cursor e) < length (logicalLines e)" using p by (simp add: in_text_def doc_lines_def)
  then have l: "fst (ed_cursor e) - Suc 0 < length (logicalLines e)" by simp
  show ?thesis
  proof (cases "ed_shift e")
    case True
    then have k: "key_left (logicalLines e) (ed_cursor e) e = Some (updateShift ((beginShift (ed_cursor e) e)\<lparr>ed_cursor := q\<rparr>))"
      using l by (simp add: key_left_def q_def Let_def case_prod_beta)
    have "editor_ok ((beginShift (ed_cursor e) e)\<lparr>ed_cursor := q\<rparr>)"
      using L(1) by (intro cursor_ok begin_ok assms p) (simp add: doc_lines_def)
    then have "editor_ok (updateShift ((beginShift (ed_cursor e) e)\<lparr>ed_cursor := q\<rparr>))" by (rule update_ok) simp
    with k h [of "beginShift (ed_cursor e) e"] L(2) show ?thesis by (simp add: updateShift_def halves_def [of e] split: list.split)
  next
    case s: False
    show ?thesis
    proof (cases "ed_has e")
      case True
      with s n have "key_left (logicalLines e) (ed_cursor e) e = Some (cancelShift (e\<lparr>ed_cursor := s\<rparr>))"
        by (simp add: key_left_def Let_def case_prod_beta)
      with selection_ends [OF assms True n] True s show ?thesis by (simp add: cancel_ok cursor_ok assms)
    next
      case False
      then have k: "key_left (logicalLines e) (ed_cursor e) e = Some (e\<lparr>ed_cursor := q\<rparr>)"
        using l s by (simp add: key_left_def q_def Let_def case_prod_beta)
      with h [of e] L cursor_ok [OF assms L(1)] show ?thesis by (simp add: halves_def [of e] split: list.split)
    qed
  qed
qed

lemma key_right_ok:
  assumes "editor_ok e"
  defines "e' \<equiv> key_right (logicalLines e) (ed_cursor e) e"
  shows "editor_ok e' \<and> ed_raw e' = ed_raw e \<and> ed_undo e' = ed_undo e
    \<and> (\<not> ed_has e \<or> ed_shift e \<longrightarrow> halves e' = (case snd (halves e) of [] \<Rightarrow> (fst (halves e), [])
         | a # as \<Rightarrow> (fst (halves e) @ [a], as)))"
proof -
  obtain s t where n: "normaliseSelection (ed_anchor e) (ed_sel e) = (s, t)" by (metis surj_pair)
  have p: "in_text (doc_lines e) (ed_cursor e)" using assms by (simp add: editor_ok_def)
  define q where "q = (if snd (ed_cursor e) < length (runes (logicalLines e ! fst (ed_cursor e)))
    then (fst (ed_cursor e), Suc (snd (ed_cursor e)))
    else if fst (ed_cursor e) < length (logicalLines e) - 1 then (Suc (fst (ed_cursor e)), 0) else ed_cursor e)"
  note L = right_position [OF p, folded q_def]
  have h: "halves (e1\<lparr>ed_cursor := q\<rparr>) = (before (doc_lines e) q, after (doc_lines e) q)" if "logicalLines e1 = logicalLines e" for e1
    using that by (simp add: halves_def doc_lines_def)
  show ?thesis
  proof (cases "ed_shift e")
    case True
    then have k: "e' = updateShift ((beginShift (ed_cursor e) e)\<lparr>ed_cursor := q\<rparr>)"
      by (simp add: e'_def key_right_def q_def Let_def case_prod_beta)
    have "editor_ok ((beginShift (ed_cursor e) e)\<lparr>ed_cursor := q\<rparr>)"
      using L(1) by (intro cursor_ok begin_ok assms p) (simp add: doc_lines_def)
    then have "editor_ok (updateShift ((beginShift (ed_cursor e) e)\<lparr>ed_cursor := q\<rparr>))" by (rule update_ok) simp
    with k h [of "beginShift (ed_cursor e) e"] L(2) show ?thesis by (simp add: updateShift_def halves_def [of e] split: list.split)
  next
    case s: False
    show ?thesis
    proof (cases "ed_has e")
      case True
      with s n have "e' = cancelShift (e\<lparr>ed_cursor := t\<rparr>)"
        by (simp add: e'_def key_right_def Let_def case_prod_beta)
      with selection_ends [OF assms(1) True n] True s show ?thesis by (simp add: cancel_ok cursor_ok assms)
    next
      case False
      then have k: "e' = e\<lparr>ed_cursor := q\<rparr>"
        using s by (simp add: e'_def key_right_def q_def Let_def case_prod_beta)
      with h [of e] L cursor_ok [OF assms(1) L(1)] show ?thesis by (simp add: halves_def [of e] split: list.split)
    qed
  qed
qed

end
