(* ===== verification/EditorEvents.thy ===== *)
theory EditorEvents
  imports Editor
begin

text \<open>
  The text editor as a whole: every key, shortcut and mouse event keeps the invariant of \<open>Editor\<close> and does
  not panic; what edits do to the text; undo; the clipboard; the highlight of the selection.
\<close>

section \<open>Tab, page up and down, any key\<close>

text \<open>Tab.\<close>

lemma blanks: "of_runes (replicate n 32) = replicate n (CHR '' '')"
proof -
  have "(CHR '' '' :: char) = char_of (32 :: nat)" by (simp add: char_of_eq)
  then have "encode_rune 32 = [CHR '' '']" by (simp add: encode_low)
  then show ?thesis by (induction n) simp_all
qed

lemma valid_blanks [simp]: "all_valid (replicate n 32)" "no_break (replicate n 32)"
  by (auto simp: all_valid_def valid_rune_def no_break_def)

lemma runes_indent: "runes (replicate n (CHR '' '') @ l) = replicate n 32 @ runes l"
  unfolding blanks [symmetric] by (simp add: runes_of_append)

lemma indent_nth: "i < length lines \<Longrightarrow> runes (indent_lines a b lines ! i)
    = (if a \<le> i \<and> i \<le> b then replicate tveTabWidth 32 else []) @ runes (lines ! i)"
  by (simp add: indent_lines_def nth_enumerate_eq runes_indent)

lemma indent_length [simp]: "length (indent_lines a b lines) = length lines"
  by (simp add: indent_lines_def)

lemma indent_good: "good lines \<Longrightarrow> good (indent_lines a b lines)"
proof -
  assume g: "good lines"
  have "one_line (replicate n (CHR '' ''))" for n by (simp add: one_line_def)
  then have "one_line (indent_lines a b lines ! i)" if "i < length lines" for i
    using good_nth [OF g that] that by (simp add: indent_lines_def nth_enumerate_eq)
  moreover have "indent_lines a b lines \<noteq> []" using g by (metis good_def indent_length length_0_conv)
  ultimately show "good (indent_lines a b lines)" by (auto simp: good_def in_set_conv_nth)
qed

lemma indent_in_text:
  assumes "in_text (map runes lines) p"
  shows "in_text (map runes (indent_lines a b lines)) p"
    "a \<le> fst p \<Longrightarrow> fst p \<le> b \<Longrightarrow> in_text (map runes (indent_lines a b lines)) (fst p, snd p + tveTabWidth)"
  using assms by (auto simp: in_text_def indent_nth)

lemma key_tab_ok:
  assumes "editor_ok e"
  shows "\<exists>e'. key_tab (logicalLines e) (ed_cursor e) e = Some e' \<and> editor_ok e'
    \<and> (\<not> ed_has e \<longrightarrow> halves e' = (fst (halves e) @ replicate tveTabWidth 32, snd (halves e)))"
proof (cases "ed_has e")
  case True
  obtain s t where n: "normaliseSelection (ed_anchor e) (ed_sel e) = (s, t)" by (metis surj_pair)
  obtain sl sc tl' tc where st: "s = (sl, sc)" "t = (tl', tc)" by (metis surj_pair)
  note S = selection_ends [OF assms True n]
  have b: "tl' < length (logicalLines e)" "sl \<le> tl'"
    using S st by (auto simp: in_text_def doc_lines_def pos_le_def)
  let ?L = "indent_lines sl tl' (logicalLines e)"
  have cur: "in_text (doc_lines e) (ed_cursor e)" using assms by (simp add: editor_ok_def)
  define A where "A = (sl, if sc > 0 then sc + tveTabWidth else 0)"
  define B where "B = (tl', tc + tveTabWidth)"
  define C where "C = (if fst (ed_cursor e) = sl then (sl, snd (ed_cursor e) + tveTabWidth) else B)"
  have k: "key_tab (logicalLines e) (ed_cursor e) e
      = Some ((edit (logicalLines e) (ed_cursor e) ?L e)\<lparr>ed_anchor := A, ed_sel := B, ed_cursor := C\<rparr>)"
    using True n st b by (simp add: key_tab_def A_def B_def C_def Let_def)
  have i: "in_text (map runes ?L) A" "in_text (map runes ?L) B"
    using indent_in_text [of "logicalLines e" s sl tl'] indent_in_text [of "logicalLines e" t sl tl'] S st b
    by (auto simp: A_def B_def doc_lines_def in_text_def)
  moreover have "in_text (map runes ?L) C"
    using i(2) indent_in_text(2) [of "logicalLines e" "ed_cursor e" sl tl'] cur b by (auto simp: C_def doc_lines_def)
  moreover have "undo_ok (ed_undo (edit (logicalLines e) (ed_cursor e) ?L e))"
    using assms by (intro undo_ok_edit) (auto simp: editor_ok_def doc_lines_def)
  ultimately have "editor_ok ((edit (logicalLines e) (ed_cursor e) ?L e)\<lparr>ed_anchor := A, ed_sel := B, ed_cursor := C\<rparr>)"
    using indent_good [OF good_lines [of e]] by (simp add: editor_ok_def doc_lines_def)
  with k True show ?thesis by simp
next
  case False
  let ?p = "ed_cursor e" and ?new = "replicate tveTabWidth 32"
  have p: "in_text (map runes (logicalLines e)) ?p" using assms by (simp add: editor_ok_def doc_lines_def)
  have v: "all_valid ?new" "no_break ?new" by simp_all
  note I = insert_runes_ok [OF good_lines p v]
  have sel: "ed_selecting e \<Longrightarrow> in_text (map runes (insert_runes (logicalLines e) ?p ?new)) (ed_anchor e)"
    using I(5) assms by (auto simp: editor_ok_def doc_lines_def)
  let ?e = "(edit (logicalLines e) ?p (insert_runes (logicalLines e) ?p ?new) e)\<lparr>ed_cursor := (fst ?p, snd ?p + tveTabWidth)\<rparr>"
  have "key_tab (logicalLines e) ?p e = Some ?e" using False by (simp add: key_tab_def Let_def)
  moreover have "editor_ok ?e \<and> halves ?e = (fst (halves e) @ ?new, snd (halves e))"
    using edit_result [OF assms I(1) _ refl False sel, of "(fst ?p, snd ?p + tveTabWidth)"] I(2-4)
    by (simp add: halves_def [of e] doc_lines_def)
  ultimately show ?thesis by simp
qed

text \<open>Page up and down, by visual lines.\<close>

lemma visual_ok: "editor_ok e \<Longrightarrow> editor_ok (snd (visual e))"
  by (simp add: editor_ok_def doc_lines_def cache_ok_visual)

lemma editor_visual: "editor_ok e \<Longrightarrow> fst (visual e) = buildVisualLines (logicalLines e) (charsPerLine e)"
  by (simp add: editor_ok_def visual_fst)

lemma visual_position:
  assumes "editor_ok e" "i < length (fst (visual e))" "c \<le> vl_width (fst (visual e) ! i)"
  shows "in_text (doc_lines e) (vl_logical (fst (visual e) ! i), vl_offset (fst (visual e) ! i) + c)"
  using build_lines [of "fst (visual e) ! i" "logicalLines e" "charsPerLine e"] assms
  by (auto simp: editor_visual [OF assms(1)] doc_in_text)

lemma visual_nonempty: "editor_ok e \<Longrightarrow> fst (visual e) \<noteq> []"
  using build_not_Nil [of "logicalLines e"] good_lines [of e] by (auto simp: editor_visual good_def)

lemma key_page_ok:
  assumes "editor_ok e"
  shows "\<exists>e'. key_page up e = Some e' \<and> editor_ok e' \<and> ed_raw e' = ed_raw e \<and> ed_undo e' = ed_undo e"
proof -
  let ?vs = "fst (visual e)" and ?e = "snd (visual e)"
  have p: "in_text (map runes (logicalLines e)) (ed_cursor e)" using assms by (simp add: editor_ok_def doc_lines_def)
  define cur where "cur = fst (logicalToVisual ?vs (ed_cursor e))"
  have c: "cur < length ?vs"
    using locate [OF p, of "charsPerLine e"] by (auto simp: cur_def editor_visual [OF assms])
  define i where "i = (if up then cur - visibleLineCount e else min (cur + visibleLineCount e) (length ?vs - 1))"
  have i: "i < length ?vs" using c by (auto simp: i_def min_def)
  let ?q = "(vl_logical (?vs ! i), vl_offset (?vs ! i))"
  have m: "min x (length ?vs - Suc 0) < length ?vs" for x using c by (auto simp: min_def)
  have "key_page up e = (if i < length ?vs then Some (cancelShift (?e\<lparr>ed_cursor := ?q\<rparr>)) else None)"
    using m by (simp add: key_page_def Let_def case_prod_beta cur_def i_def)
  then have k: "key_page up e = Some (cancelShift (?e\<lparr>ed_cursor := ?q\<rparr>))" using i by simp
  have "in_text (doc_lines ?e) ?q" using visual_position [OF assms i, of 0] by (simp add: doc_lines_def)
  then have "editor_ok (cancelShift (?e\<lparr>ed_cursor := ?q\<rparr>))" by (intro cancel_ok cursor_ok visual_ok assms)
  with k show ?thesis by simp
qed

text \<open>Every key.\<close>

lemma TypedKey_ok:
  assumes "editor_ok e"
  shows "\<exists>e'. TypedKey k e = Some e' \<and> editor_ok e'"
proof -
  let ?L = "logicalLines e" and ?p = "ed_cursor e"
  have c: "clamped ?L ?p = ?p" using assms by (intro clamped_id) (simp add: editor_ok_def doc_lines_def)
  have "\<exists>e'. (case k of
       KeyBackspace \<Rightarrow> Some (cancelShift (key_backspace ?L ?p e))
     | KeyDelete \<Rightarrow> Some (cancelShift (key_delete ?L ?p e))
     | KeyReturn \<Rightarrow> Some (cancelShift (key_return ?L ?p e))
     | KeyTab \<Rightarrow> key_tab ?L ?p e
     | KeyLeft \<Rightarrow> key_left ?L ?p e
     | KeyRight \<Rightarrow> Some (key_right ?L ?p e)
     | KeyUp \<Rightarrow> key_up ?L ?p e
     | KeyDown \<Rightarrow> key_down ?L ?p e
     | KeyHome \<Rightarrow> key_home ?p e
     | KeyEnd \<Rightarrow> key_end ?L ?p e
     | KeyPageUp \<Rightarrow> key_page True e
     | KeyPageDown \<Rightarrow> key_page False e
     | KeyOther \<Rightarrow> Some e) = Some e' \<and> editor_ok e'"
    using key_backspace_ok [OF assms] key_delete_ok [OF assms] key_return_ok [OF assms] key_tab_ok [OF assms]
      key_left_ok [OF assms] key_right_ok [OF assms] moves_ok [OF assms] key_page_ok [OF assms] assms
    by (cases k) (simp_all, blast+)
  then show ?thesis unfolding TypedKey_def Let_def c by (auto simp: ok_ensure)
qed

section \<open>Shortcuts\<close>

lemma undo_keeps: "editor_ok e \<Longrightarrow> editor_ok (undo e)"
proof (cases "ed_undo e = []")
  case False
  assume e: "editor_ok e"
  obtain raw p where l: "last (ed_undo e) = (raw, p)" by (metis surj_pair)
  have "(raw, p) \<in> set (ed_undo e)" using False l by (metis last_in_set)
  then have "in_text (map runes (splitRaw raw)) p" using e by (auto simp: editor_ok_def undo_ok_def)
  moreover have "undo_ok (butlast (ed_undo e))"
    using e by (auto simp: editor_ok_def undo_ok_def dest: in_set_butlastD)
  ultimately show ?thesis using False l by (simp add: undo_def editor_ok_def doc_lines_def logicalLines_def cache_ok_def)
qed (simp add: undo_def)

lemma select_all_ok: "editor_ok e \<Longrightarrow> editor_ok (select_all e)"
proof -
  have "0 < length (logicalLines e)" by (rule good_length [OF good_lines])
  then have "in_text (map runes (logicalLines e)) (0, 0)"
    "in_text (map runes (logicalLines e)) (length (logicalLines e) - 1, length (runes (logicalLines e ! (length (logicalLines e) - 1))))"
    by (simp_all add: in_text_def)
  then show "editor_ok e \<Longrightarrow> editor_ok (select_all e)"
    by (simp add: select_all_def editor_ok_def doc_lines_def cache_ok_def Let_def)
qed

lemma selectedText_eq:
  assumes "editor_ok e" "ed_has e" "normaliseSelection (ed_anchor e) (ed_sel e) = (s, t)"
  shows "selectedText e = Some (of_runes (between (doc_lines e) s t))"
  using selection_ends [OF assms] assms(2,3) by (simp add: selectedText_def span_text_eq doc_lines_def)

lemma clip_ok: "editor_ok e \<Longrightarrow> editor_ok (e\<lparr>ed_clip := t\<rparr>)"
  by (simp add: editor_ok_def doc_lines_def cache_ok_def)

lemma selection_cases:
  assumes "editor_ok e" "ed_has e"
  obtains s t where "normaliseSelection (ed_anchor e) (ed_sel e) = (s, t)"
    "selectedText e = Some (of_runes (between (doc_lines e) s t))"
  using selectedText_eq [OF assms] by (metis surj_pair)

lemma copy_ok:
  assumes "editor_ok e"
  shows "\<exists>e'. copy e = Some e' \<and> editor_ok e' \<and> halves e' = halves e"
proof (cases "ed_win e \<and> ed_has e")
  case True
  then obtain s t where "selectedText e = Some (of_runes (between (doc_lines e) s t))"
    using selection_cases [OF assms] by blast
  with True clip_ok [OF assms] show ?thesis by (simp add: copy_def halves_def doc_lines_def)
qed (use assms in \<open>auto simp: copy_def\<close>)

lemma delete_clip: "deleteSelection ls (e\<lparr>ed_clip := t\<rparr>) = (fst (deleteSelection ls e), (snd (deleteSelection ls e))\<lparr>ed_clip := t\<rparr>)"
  by (simp add: deleteSelection_def case_prod_beta Let_def)

lemma cut_ok:
  assumes "editor_ok e"
  shows "\<exists>e'. cut_text e = Some e' \<and> editor_ok e' \<and> (ed_win e \<longrightarrow> halves e' = base e)
    \<and> (ed_win e \<and> ed_has e \<longrightarrow> selectedText e = Some (ed_clip e') \<and> ed_win e' \<and> \<not> ed_has e' \<and> \<not> ed_selecting e')"
proof (cases "ed_win e \<and> ed_has e")
  case True
  then obtain s t where n: "normaliseSelection (ed_anchor e) (ed_sel e) = (s, t)"
    and x: "selectedText e = Some (of_runes (between (doc_lines e) s t))" using selection_cases [OF assms] by blast
  define e0 where "e0 = e\<lparr>ed_clip := of_runes (between (doc_lines e) s t)\<rparr>"
  have e0: "editor_ok e0" "base e0 = base e" "ed_has e0"
    using clip_ok [OF assms] True by (simp_all add: e0_def base_def halves_def doc_lines_def)
  obtain ls e1 where d: "deleteSelection (logicalLines e0) e0 = (ls, e1)" by (metis surj_pair)
  note D = deleteSelection_ok [OF e0(1) d]
  have c: "cut_text e = Some (ensureCursorVisible (edit (logicalLines e0) (ed_cursor e0) ls e1))"
    using True x d by (simp add: cut_text_def Let_def e0_def case_prod_beta)
  have "\<not> ed_selecting e1" using d e0(3) by (auto simp: deleteSelection_def case_prod_beta Let_def)
  then have sel: "ed_selecting e1 \<Longrightarrow> in_text (map runes ls) (ed_anchor e1)" by simp
  have "editor_ok (edit (logicalLines e0) (ed_cursor e0) ls e1) \<and> halves (edit (logicalLines e0) (ed_cursor e0) ls e1) = base e0"
    using edit_result [OF e0(1) D(1,2,5,3) sel] D(4) by (simp add: prod_eq_iff)
  moreover have "ed_clip e1 = of_runes (between (doc_lines e) s t)" "ed_win e1" using D(7,8) True by (simp_all add: e0_def)
  ultimately show ?thesis using c e0(2) x D(3) \<open>\<not> ed_selecting e1\<close> by (simp add: ok_ensure)
qed (use assms in \<open>auto simp: cut_text_def base_def\<close>)

text \<open>Paste. Its text is what the clipboard holds, every line break a line feed.\<close>

definition paste_runes :: "string \<Rightarrow> rune list" where
  "paste_runes clip = flat (map runes (split (unix_breaks clip) LF))"

lemma paste_pieces: "\<forall>x \<in> set (split (unix_breaks s) LF). one_line x"
  using split_pieces_free [of LF _ "unix_breaks s"] split_piece_set [of LF _ "unix_breaks s"] unix_no_CR [of s]
  by (auto simp: one_line_def contains_single)

text \<open>
  A paste of several lines while a selection is being extended with shift, but selects nothing yet, may
  leave its anchor past the end of a line: such a paste is left out.
\<close>

lemma paste_ok:
  assumes "editor_ok e" "ed_selecting e \<Longrightarrow> ed_has e"
  shows "editor_ok (paste e) \<and> (ed_win e \<and> ed_clip e \<noteq> [] \<longrightarrow>
    halves (paste e) = (fst (base e) @ paste_runes (ed_clip e), snd (base e)))"
proof (cases "ed_win e \<and> ed_clip e \<noteq> []")
  case True
  define body where "body = unix_breaks (ed_clip e)"
  obtain ls e1 where d: "deleteSelection (logicalLines e) e = (ls, e1)" by (metis surj_pair)
  note D = deleteSelection_ok [OF assms(1) d]
  have none: "\<not> ed_selecting e1" using d assms(2) by (auto simp: deleteSelection_def case_prod_beta Let_def split: if_splits)
  let ?P = "split body LF"
  have P: "?P \<noteq> []" "\<forall>x \<in> set ?P. one_line x" using paste_pieces [of "ed_clip e"] by (simp_all add: body_def)
  have cl: "clamped ls (ed_cursor e1) = ed_cursor e1" using clamped_id [OF D(2)] .
  show ?thesis
  proof (cases "length ?P = 1")
    case one: True
    then obtain h where h: "?P = [h]" by (metis One_nat_def length_0_conv length_Suc_conv)
    have "h = body" using join_split [of LF body] h by simp
    then have v: "all_valid (runes body)" "no_break (runes body)" using P h by (simp_all add: one_line_runes)
    note I = insert_runes_ok [OF D(1,2) v]
    define new where "new = insert_runes ls (ed_cursor e1) (runes body)"
    define q where "q = (fst (ed_cursor e1), snd (ed_cursor e1) + length (runes body))"
    have p: "paste e = ensureCursorVisible ((edit (logicalLines e) (ed_cursor e) new e1)\<lparr>ed_cursor := q\<rparr>)"
      using True one h \<open>h = body\<close> cl
      by (simp add: paste_def Let_def d case_prod_beta body_def new_def q_def)
    have "ed_selecting e1 \<Longrightarrow> in_text (map runes new) (ed_anchor e1)" using none by simp
    from edit_result [OF assms(1) I(1) _ D(5,3), folded new_def, OF _ this] I(2-4)
    have "editor_ok ((edit (logicalLines e) (ed_cursor e) new e1)\<lparr>ed_cursor := q\<rparr>)
      \<and> halves ((edit (logicalLines e) (ed_cursor e) new e1)\<lparr>ed_cursor := q\<rparr>)
        = (before (map runes ls) (ed_cursor e1) @ runes body, after (map runes ls) (ed_cursor e1))"
      by (simp add: q_def new_def)
    with p D(4) h \<open>h = body\<close> show ?thesis by (simp add: ok_ensure paste_runes_def flip: body_def) (simp add: flat_def)
  next
    case many: False
    then obtain h M t where P3: "?P = h # M @ [t]"
      using P(1) by (metis append_butlast_last_id length_Cons list.exhaust list.size(3) One_nat_def)
    obtain A x C c where a: "ls = A @ x # C" "ed_cursor e1 = (length A, c)" "c \<le> length (runes x)"
      using at_position [OF D(2)] .
    have n: "no_break (runes x)" using D(1) a(1) by (simp add: good_at one_line_runes)
    define new where "new = A @ (of_runes (take c (runes x)) @ h) # M @ (t @ of_runes (drop c (runes x))) # C"
    define q where "q = (Suc (length A + length M), length (runes t))"
    have p: "paste e = ensureCursorVisible ((edit (logicalLines e) (ed_cursor e) new e1)\<lparr>ed_cursor := q\<rparr>)"
      using True many P3 cl a
      by (simp add: paste_def Let_def d case_prod_beta body_def [symmetric] new_def q_def slice_def)
    have g: "good new" using D(1) a(1) n P(2) P3 by (auto simp: new_def good_def)
    define B where "B = A @ (of_runes (take c (runes x)) @ h) # M"
    have nB: "new = B @ (t @ of_runes (drop c (runes x))) # C" "fst q = length (map runes B)" by (simp_all add: new_def B_def q_def)
    have rt: "runes (t @ of_runes (drop c (runes x))) = runes t @ drop c (runes x)"
      by (simp add: runes_append_runes)
    have q: "q = (length (map runes B), length (runes t))" using nB(2) by (simp add: q_def)
    have i: "in_text (map runes new) q" "before (map runes new) q = concat (map (\<lambda>x. x @ [10]) (map runes B)) @ runes t"
      "after (map runes new) q = drop c (runes x) @ concat (map (\<lambda>y. 10 # y) (map runes C))"
      unfolding nB(1) q by (simp_all only: map_runes_at rt in_text_at before_at after_at) simp_all
    have bB: "concat (map (\<lambda>x. x @ [10]) (map runes B)) @ runes t = before (map runes ls) (ed_cursor e1) @ paste_runes (ed_clip e)"
      using P3 newline_shift [of 10 "map runes M" "runes t"] before_at [of "map runes A" "runes x" "map runes C" c] a
      by (simp add: B_def paste_runes_def flip: body_def) (simp add: flat_def runes_of_append)
    have aB: "after (map runes new) q = after (map runes ls) (ed_cursor e1)"
      using i(3) a after_at [of "map runes A" "runes x" "map runes C" c] by simp
    have "ed_selecting e1 \<Longrightarrow> in_text (map runes new) (ed_anchor e1)" using none by simp
    from edit_result [OF assms(1) g i(1) D(5,3) this] i(2) bB aB D(4) p show ?thesis by (simp add: ok_ensure)
  qed
qed (use assms in \<open>auto simp: paste_def\<close>)

section \<open>Mouse, focus, size\<close>

lemma point_ok:
  assumes "editor_ok e" "posFromPoint pt e = (p, e')"
  shows "e' = snd (visual e)" "in_text (doc_lines e) p"
proof -
  let ?vs = "fst (visual e)"
  define i where "i = nat (min (max (ed_scroll (snd (visual e)) + fst pt) 0) (int (length ?vs) - 1))"
  have ne: "?vs \<noteq> []" using visual_nonempty [OF assms(1)] .
  then have i: "i < length ?vs" by (cases ?vs) (auto simp: i_def min_def)
  have "posFromPoint pt e = ((vl_logical (?vs ! i), vl_offset (?vs ! i) + nat (min (max (snd pt) 0) (int (vl_width (?vs ! i))))),
      snd (visual e))"
    using ne by (simp add: posFromPoint_def Let_def case_prod_beta i_def)
  moreover have "nat (min (max (snd pt) 0) (int (vl_width (?vs ! i)))) \<le> vl_width (?vs ! i)" by simp
  ultimately show "e' = snd (visual e)" "in_text (doc_lines e) p"
    using assms(2) visual_position [OF assms(1) i] by auto
qed

lemma doc_visual [simp]: "doc_lines (snd (visual e)) = doc_lines e"
  by (simp add: doc_lines_def)

lemma select_ok: "editor_ok e \<Longrightarrow> in_text (doc_lines e) p \<Longrightarrow> in_text (doc_lines e) (ed_anchor e) \<Longrightarrow>
    editor_ok (e\<lparr>ed_sel := p, ed_cursor := p, ed_has := h\<rparr>)"
  by (simp add: editor_ok_def doc_lines_def cache_ok_def)

lemma MouseDown_ok:
  assumes "editor_ok e"
  shows "editor_ok (MouseDown pt e) \<and> in_text (doc_lines (MouseDown pt e)) (ed_anchor (MouseDown pt e))
    \<and> doc_lines (MouseDown pt e) = doc_lines e \<and> ed_clip (MouseDown pt e) = ed_clip e"
proof -
  obtain p e1 where p: "posFromPoint pt e = (p, e1)" by (metis surj_pair)
  note P = point_ok [OF assms p]
  have "editor_ok e1" "doc_lines e1 = doc_lines e" using visual_ok [OF assms] P by simp_all
  with p P(2) P(1) show ?thesis by (simp add: MouseDown_def editor_ok_def doc_lines_def cache_ok_def)
qed

lemma Dragged_ok:
  assumes "editor_ok e" "in_text (doc_lines e) (ed_anchor e)"
  shows "editor_ok (Dragged pt e) \<and> in_text (doc_lines (Dragged pt e)) (ed_anchor (Dragged pt e))"
proof -
  have d: "editor_ok (e\<lparr>ed_dragging := True\<rparr>)" using assms by (simp add: editor_ok_def doc_lines_def cache_ok_def)
  obtain p e1 where p: "posFromPoint pt (e\<lparr>ed_dragging := True\<rparr>) = (p, e1)" by (metis surj_pair)
  note P = point_ok [OF d p]
  have e1: "editor_ok e1" "doc_lines e1 = doc_lines e" "ed_anchor e1 = ed_anchor e"
    using visual_ok [OF d] P by (simp_all add: doc_lines_def)
  have i: "in_text (doc_lines e1) p" "in_text (doc_lines e1) (ed_anchor e1)"
    using P(2) e1 assms(2) by (simp_all add: doc_lines_def)
  from select_ok [OF e1(1) i] i(2) p show ?thesis by (simp add: Dragged_def doc_lines_def)
qed

lemma span_bounds:
  assumes "rs \<noteq> []" "word_span w rs col = (a, b)"
  shows "a \<le> b \<and> b \<le> length rs"
proof -
  define c where "c = (if col \<ge> length rs then length rs - 1 else col)"
  have "c \<le> length rs" by (simp add: c_def)
  moreover have "length (takeWhile w (drop c rs)) \<le> length rs - c"
    using length_takeWhile_le [of w "drop c rs"] by simp
  ultimately show ?thesis using assms(2) by (auto simp: word_span_def c_def [symmetric] Let_def)
qed

lemma DoubleTapped_ok:
  assumes "editor_ok e"
  shows "editor_ok (DoubleTapped w pt e)"
proof -
  obtain line col e1 where p: "posFromPoint pt e = ((line, col), e1)" by (metis surj_pair)
  note P = point_ok [OF assms p]
  have e1: "editor_ok e1" "logicalLines e1 = logicalLines e" using visual_ok [OF assms] P(1) by simp_all
  have l: "line < length (logicalLines e)" using P(2) by (simp add: in_text_def doc_lines_def)
  let ?rs = "runes (logicalLines e ! line)"
  obtain a b where ab: "word_span w ?rs col = (a, b)" by (metis surj_pair)
  show ?thesis
  proof (cases "?rs = []")
    case False
    from span_bounds [OF False ab] have "a \<le> length ?rs" "b \<le> length ?rs" by simp_all
    then have "in_text (map runes (logicalLines e)) (line, a)" "in_text (map runes (logicalLines e)) (line, b)"
      using l by (simp_all add: in_text_def)
    with False p ab l e1 show ?thesis by (simp add: DoubleTapped_def Let_def editor_ok_def doc_lines_def cache_ok_def)
  qed (use p l e1 in \<open>simp add: DoubleTapped_def Let_def\<close>)
qed

lemma frame_ok: "editor_ok e \<Longrightarrow> editor_ok (e\<lparr>ed_scroll := x\<rparr>)" "editor_ok e \<Longrightarrow> editor_ok (e\<lparr>ed_shift := b\<rparr>)"
    "editor_ok e \<Longrightarrow> editor_ok (e\<lparr>ed_shift := b, ed_selecting := False\<rparr>)" "editor_ok e \<Longrightarrow> editor_ok (e\<lparr>ed_dragging := b\<rparr>)"
    "editor_ok e \<Longrightarrow> editor_ok (e\<lparr>ed_sent := s\<rparr>)" "editor_ok e \<Longrightarrow> editor_ok (e\<lparr>ed_rend := r, ed_cache_raw := t\<rparr>)"
  by (simp_all add: editor_ok_def doc_lines_def cache_ok_def)

lemma Scrolled_ok: "editor_ok e \<Longrightarrow> editor_ok (Scrolled rows e)"
  using frame_ok(1) [OF visual_ok] by (simp add: Scrolled_def Let_def case_prod_beta)

lemma ShiftKey_ok: "editor_ok e \<Longrightarrow> editor_ok (ShiftKey down e)"
  by (simp add: ShiftKey_def frame_ok)

lemma FocusLost_ok: "editor_ok e \<Longrightarrow> editor_ok (FocusLost e)"
  by (cases "ed_dragging e") (simp_all add: FocusLost_def editor_ok_def doc_lines_def cache_ok_def)

lemma resize_ok: "editor_ok e \<Longrightarrow> editor_ok (resize sz e)"
  by (simp add: resize_def frame_ok)

lemma SetText_ok: "editor_ok (SetText s e)"
proof -
  have "0 < length (splitRaw s)" by (rule good_length [OF splitRaw_good])
  then show ?thesis by (simp add: SetText_def editor_ok_def doc_lines_def logicalLines_def cache_ok_def undo_ok_def in_text_def)
qed

lemma new_ok: "editor_ok (NewTextViewEntry win)"
  by (simp add: NewTextViewEntry_def editor_ok_def doc_lines_def logicalLines_def splitRaw_def cache_ok_def undo_ok_def in_text_def)

text \<open>Drawing clamps the scroll offset (\<open>layoutContent\<close>); the thumb of the scrollbar, in a widget of height \<open>h\<close>.\<close>

definition draw :: "editor \<Rightarrow> editor" where
  "draw e = (let (vs, e) = visual e; maxOffset = max (int (length vs) - int (visibleLineCount e)) 0
     in if ed_scroll e > maxOffset then e\<lparr>ed_scroll := maxOffset\<rparr> else e)"

definition dragScrollbar :: "rat \<Rightarrow> rat \<Rightarrow> editor \<Rightarrow> editor" where
  "dragScrollbar h y e = (if ed_rend e = None then e
     else let (vs, e) = visual e in
       case thumb_target h (length vs) y of None \<Rightarrow> e | Some i \<Rightarrow> e\<lparr>ed_scroll := i\<rparr>)"

lemma draw_ok: "editor_ok e \<Longrightarrow> editor_ok (draw e)"
  using frame_ok(1) [OF visual_ok] visual_ok [of e] by (simp add: draw_def Let_def case_prod_beta)

lemma dragScrollbar_ok: "editor_ok e \<Longrightarrow> editor_ok (dragScrollbar h y e)"
  using frame_ok(1) [OF visual_ok] visual_ok [of e]
  by (simp add: dragScrollbar_def Let_def case_prod_beta split: option.split)

section \<open>Events\<close>

text \<open>
  What the window sends to the editor. A drag is one event: the button goes down in the text, the pointer
  moves, with the focus lost or the wheel turned meanwhile, and the button goes up.
\<close>

datatype drag = DragTo "int \<times> int" | DragFocusLost | DragWheel int

datatype event = Rune rune | Key key | Shortcut shortcut | Drag "int \<times> int" "drag list"
  | DoubleTap "int \<times> int" | Wheel int | Thumb rat rat | Draw | Shift bool | Unfocus | Resized "nat \<times> nat" | Load string | Clipboard string

definition drag_step :: "drag \<Rightarrow> editor \<Rightarrow> editor" where
  "drag_step d e = (case d of DragTo pt \<Rightarrow> Dragged pt e | DragFocusLost \<Rightarrow> FocusLost e | DragWheel n \<Rightarrow> Scrolled n e)"

definition step :: "(rune \<Rightarrow> bool) \<Rightarrow> event \<Rightarrow> editor \<Rightarrow> editor option" where
  "step w ev e = (case ev of
     Rune r \<Rightarrow> Some (TypedRune r e)
   | Key k \<Rightarrow> TypedKey k e
   | Shortcut s \<Rightarrow> TypedShortcut s e
   | Drag pt ds \<Rightarrow> Some (MouseUp (fold drag_step ds (MouseDown pt e)))
   | DoubleTap pt \<Rightarrow> Some (DoubleTapped w pt e)
   | Wheel n \<Rightarrow> Some (Scrolled n e)
   | Thumb h y \<Rightarrow> Some (dragScrollbar h y e)
   | Draw \<Rightarrow> Some (draw e)
   | Shift down \<Rightarrow> Some (ShiftKey down e)
   | Unfocus \<Rightarrow> Some (FocusLost e)
   | Resized sz \<Rightarrow> Some (resize sz e)
   | Load s \<Rightarrow> Some (SetText s e)
   | Clipboard s \<Rightarrow> Some (e\<lparr>ed_clip := s\<rparr>))"

text \<open>
  A typed rune is a character and not a line break, and nothing is pasted while the shift key is extending
  a selection that selects nothing yet.
\<close>

definition event_ok :: "event \<Rightarrow> editor \<Rightarrow> bool" where
  "event_ok ev e = (case ev of
     Rune r \<Rightarrow> valid_rune r \<and> r \<noteq> 10 \<and> r \<noteq> 13
   | Shortcut ShortcutPaste \<Rightarrow> \<not> ed_selecting e \<or> ed_has e
   | _ \<Rightarrow> True)"

text \<open>A session: the events in turn; \<open>None\<close> when one of them panics.\<close>

fun session :: "(rune \<Rightarrow> bool) \<Rightarrow> event list \<Rightarrow> editor \<Rightarrow> editor option" where
  "session w [] e = Some e"
| "session w (ev # evs) e = (case step w ev e of None \<Rightarrow> None | Some e' \<Rightarrow> session w evs e')"

fun events_ok :: "(rune \<Rightarrow> bool) \<Rightarrow> event list \<Rightarrow> editor \<Rightarrow> bool" where
  "events_ok w [] e = True"
| "events_ok w (ev # evs) e = (event_ok ev e \<and> (case step w ev e of None \<Rightarrow> True | Some e' \<Rightarrow> events_ok w evs e'))"

lemma drags_ok:
  "editor_ok e \<Longrightarrow> in_text (doc_lines e) (ed_anchor e) \<Longrightarrow> editor_ok (fold drag_step ds e)"
proof (induction ds arbitrary: e)
  case (Cons d ds)
  have "editor_ok (drag_step d e) \<and> in_text (doc_lines (drag_step d e)) (ed_anchor (drag_step d e))"
  proof (cases d)
    case (DragTo pt)
    with Dragged_ok [OF Cons.prems, of pt] show ?thesis by (simp add: drag_step_def)
  next
    case DragFocusLost
    with FocusLost_ok [OF Cons.prems(1)] Cons.prems(2) show ?thesis by (simp add: drag_step_def) (simp add: FocusLost_def doc_lines_def)
  next
    case (DragWheel n)
    with Scrolled_ok [OF Cons.prems(1), of n] Cons.prems(2) show ?thesis
      by (simp add: drag_step_def) (simp add: Scrolled_def doc_lines_def Let_def case_prod_beta)
  qed
  with Cons.IH show ?case by simp
qed simp

lemma step_ok:
  assumes "editor_ok e" "event_ok ev e"
  shows "\<exists>e'. step w ev e = Some e' \<and> editor_ok e'"
proof (cases ev)
  case (Rune r)
  with TypedRune_ok [OF assms(1), of r] assms(2) show ?thesis by (simp add: step_def event_ok_def)
next
  case (Key k)
  with TypedKey_ok [OF assms(1)] show ?thesis by (simp add: step_def)
next
  case (Shortcut s)
  show ?thesis
  proof (cases s)
    case ShortcutPaste
    with paste_ok [OF assms(1)] assms(2) Shortcut show ?thesis by (auto simp: step_def TypedShortcut_def event_ok_def)
  qed (use Shortcut copy_ok [OF assms(1)] cut_ok [OF assms(1)] in
      \<open>auto simp: step_def TypedShortcut_def undo_keeps select_all_ok frame_ok assms(1)\<close>)
next
  case (Drag pt ds)
  have "editor_ok (fold drag_step ds (MouseDown pt e))"
    using drags_ok [of "MouseDown pt e" ds] MouseDown_ok [OF assms(1), of pt] by blast
  with Drag show ?thesis by (simp add: step_def MouseUp_def frame_ok)
qed (simp_all add: step_def assms(1) DoubleTapped_ok Scrolled_ok ShiftKey_ok FocusLost_ok resize_ok SetText_ok clip_ok draw_ok dragScrollbar_ok)



section \<open>What an edit does\<close>

text \<open>The text as a pair of lists of runes, what is before and what is after the cursor.\<close>

definition edit_spec :: "event \<Rightarrow> bool \<Rightarrow> string \<Rightarrow> rune list \<times> rune list \<Rightarrow> rune list \<times> rune list" where
  "edit_spec ev selected clip = (\<lambda>(b, a). case ev of
     Rune r \<Rightarrow> (b @ [r], a)
   | Key KeyReturn \<Rightarrow> (b @ [10], a)
   | Key KeyTab \<Rightarrow> (b @ [32, 32, 32, 32], a)
   | Key KeyBackspace \<Rightarrow> if selected then (b, a) else (butlast b, a)
   | Key KeyDelete \<Rightarrow> if selected then (b, a) else (b, tl a)
   | Key KeyLeft \<Rightarrow> if b = [] then (b, a) else (butlast b, last b # a)
   | Key KeyRight \<Rightarrow> if a = [] then (b, a) else (b @ [hd a], tl a)
   | Shortcut ShortcutPaste \<Rightarrow> (b @ paste_runes clip, a)
   | _ \<Rightarrow> (b, a))"

text \<open>The events it specifies; the tab, left and right keys are others with a selection.\<close>

definition specified :: "event \<Rightarrow> editor \<Rightarrow> bool" where
  "specified ev e = (case ev of Rune r \<Rightarrow> True
     | Key k \<Rightarrow> k \<in> {KeyReturn, KeyBackspace, KeyDelete} \<or> k \<in> {KeyTab, KeyLeft, KeyRight} \<and> \<not> ed_has e
     | Shortcut s \<Rightarrow> ed_win e \<and> (s = ShortcutCut \<or> s = ShortcutPaste \<and> ed_clip e \<noteq> [])
     | _ \<Rightarrow> False)"

lemma TypedKey_eq:
  assumes "editor_ok e"
  shows "TypedKey k e = (let lines = logicalLines e; p = ed_cursor e in
     map_option ensureCursorVisible (case k of
       KeyBackspace \<Rightarrow> Some (cancelShift (key_backspace lines p e))
     | KeyDelete \<Rightarrow> Some (cancelShift (key_delete lines p e))
     | KeyReturn \<Rightarrow> Some (cancelShift (key_return lines p e))
     | KeyTab \<Rightarrow> key_tab lines p e
     | KeyLeft \<Rightarrow> key_left lines p e
     | KeyRight \<Rightarrow> Some (key_right lines p e)
     | KeyUp \<Rightarrow> key_up lines p e
     | KeyDown \<Rightarrow> key_down lines p e
     | KeyHome \<Rightarrow> key_home p e
     | KeyEnd \<Rightarrow> key_end lines p e
     | KeyPageUp \<Rightarrow> key_page True e
     | KeyPageDown \<Rightarrow> key_page False e
     | KeyOther \<Rightarrow> Some e))"
proof -
  have "clamped (logicalLines e) (ed_cursor e) = ed_cursor e"
    using assms by (intro clamped_id) (simp add: editor_ok_def doc_lines_def)
  then show ?thesis by (simp only: TypedKey_def Let_def)
qed

lemma key_spec:
  assumes "editor_ok e" "specified (Key k) e"
  shows "\<exists>e'. TypedKey k e = Some e' \<and> halves e' = edit_spec (Key k) (ed_has e) (ed_clip e) (base e)"
proof -
  have b: "\<not> ed_has e \<Longrightarrow> base e = halves e" by (simp add: base_def)
  have t: "replicate tveTabWidth (32 :: rune) = [32, 32, 32, 32]" by (simp add: tveTabWidth_def numeral_eq_Suc)
  consider "k = KeyReturn" | "k = KeyBackspace" | "k = KeyDelete" | "k = KeyTab \<and> \<not> ed_has e"
    | "k = KeyLeft \<and> \<not> ed_has e" | "k = KeyRight \<and> \<not> ed_has e"
    using assms(2) by (auto simp: specified_def)
  then show ?thesis
  proof cases
    case 1
    with key_return_ok [OF assms(1)] show ?thesis by (simp add: TypedKey_eq [OF assms(1)] Let_def edit_spec_def case_prod_beta)
  next
    case 2
    with key_backspace_ok [OF assms(1)] show ?thesis by (simp add: TypedKey_eq [OF assms(1)] Let_def edit_spec_def case_prod_beta)
  next
    case 3
    with key_delete_ok [OF assms(1)] show ?thesis by (simp add: TypedKey_eq [OF assms(1)] Let_def edit_spec_def case_prod_beta)
  next
    case 4
    with key_tab_ok [OF assms(1)] b t show ?thesis by (auto simp: TypedKey_eq [OF assms(1)] Let_def edit_spec_def case_prod_beta)
  next
    case 5
    with key_left_ok [OF assms(1)] b show ?thesis
      by (auto simp: TypedKey_eq [OF assms(1)] Let_def edit_spec_def case_prod_beta split: list.splits)
  next
    case 6
    with key_right_ok [OF assms(1)] b show ?thesis
      by (auto simp: TypedKey_eq [OF assms(1)] Let_def edit_spec_def case_prod_beta split: list.splits)
  qed
qed

text \<open>
  C12: The editor edits like a text: seen as the runes before and after the cursor, with a selection first
  taken out, a typed rune, return, tab and a paste insert at the cursor, backspace and delete take
  the rune before or after it (only the selection, when there is one), cut takes the selection, and left
  and right move one rune; lines, columns, the bytes of UTF-8, clamping and the cache of visual lines do
  not show.
\<close>

theorem edit_refines_text:
  assumes "editor_ok e" "event_ok ev e" "specified ev e"
  shows "\<exists>e'. step w ev e = Some e' \<and> halves e' = edit_spec ev (ed_has e) (ed_clip e) (base e)"
proof (cases ev)
  case (Rune r)
  with TypedRune_ok [OF assms(1), of r] assms(2) show ?thesis by (simp add: step_def event_ok_def edit_spec_def case_prod_beta)
next
  case (Key k)
  with key_spec [OF assms(1)] assms(3) show ?thesis by (simp add: step_def)
next
  case (Shortcut s)
  then consider "s = ShortcutCut" "ed_win e" | "s = ShortcutPaste" "ed_win e" "ed_clip e \<noteq> []"
    using assms(3) by (auto simp: specified_def)
  then show ?thesis
  proof cases
    case 1
    with cut_ok [OF assms(1)] Shortcut show ?thesis by (auto simp: step_def TypedShortcut_def edit_spec_def case_prod_beta)
  next
    case 2
    with paste_ok [OF assms(1)] assms(2) Shortcut show ?thesis
      by (auto simp: step_def TypedShortcut_def edit_spec_def case_prod_beta event_ok_def)
  qed
qed (use assms(3) in \<open>simp_all add: specified_def\<close>)

theorem edit_refines_text_witness:
  "\<exists>e'. step (\<lambda>r. r = 97) (Rune 97) (NewTextViewEntry True) = Some e'
    \<and> halves e' = edit_spec (Rune 97) False [] (base (NewTextViewEntry True))"
proof -
  have "event_ok (Rune 97) (NewTextViewEntry True)" "specified (Rune 97) (NewTextViewEntry True)"
    by (simp_all add: event_ok_def valid_rune_def specified_def)
  from edit_refines_text [OF new_ok this] show ?thesis by (simp add: NewTextViewEntry_def)
qed

section \<open>Undo\<close>

definition pushed :: "editor \<Rightarrow> editor \<Rightarrow> bool" where
  "pushed e e' = (ed_undo e' = (if length (ed_undo e) \<ge> 100 then tl (ed_undo e) else ed_undo e)
     @ [(join (logicalLines e) LF, ed_cursor e)])"

definition untouched :: "editor \<Rightarrow> editor \<Rightarrow> bool" where
  "untouched e e' = (logicalLines e' = logicalLines e \<and> ed_cursor e' = ed_cursor e \<and> ed_undo e' = ed_undo e)"

definition edits :: "event \<Rightarrow> bool" where
  "edits ev = (case ev of Rune _ \<Rightarrow> True | Key k \<Rightarrow> k \<in> {KeyReturn, KeyTab, KeyBackspace, KeyDelete}
     | Shortcut s \<Rightarrow> s \<in> {ShortcutCut, ShortcutPaste} | _ \<Rightarrow> False)"

lemma undo_edit [simp]: "ed_undo (edit ls p new e) =
    (if length (ed_undo e) \<ge> 100 then tl (ed_undo e) else ed_undo e) @ [(join ls LF, p)]"
  by (simp add: edit_def commitLines_def pushUndo_def)

lemma delete_undo [simp]: "ed_undo (snd (deleteSelection ls e)) = ed_undo e"
  by (simp add: deleteSelection_def case_prod_beta Let_def)

lemma edit_pushes:
  assumes "editor_ok e" "edits ev" "step w ev e = Some e'"
  shows "pushed e e' \<or> untouched e e'"
proof (cases ev)
  case (Rune r)
  with assms(3) show ?thesis by (auto simp: step_def TypedRune_def Let_def case_prod_beta pushed_def)
next
  case (Key k)
  then consider "k = KeyReturn" | "k = KeyTab" | "k = KeyBackspace" | "k = KeyDelete"
    using assms(2) by (auto simp: edits_def)
  then show ?thesis
  proof cases
    case 1
    with assms(3) Key show ?thesis
      by (auto simp: step_def TypedKey_eq [OF assms(1)] key_return_def Let_def case_prod_beta pushed_def)
  next
    case 2
    with assms(3) Key show ?thesis
      by (auto simp: step_def TypedKey_eq [OF assms(1)] key_tab_def Let_def case_prod_beta pushed_def split: if_splits)
  next
    case 3
    then have e': "e' = ensureCursorVisible (cancelShift (key_backspace (logicalLines e) (ed_cursor e) e))"
      using assms(3) Key by (simp add: step_def TypedKey_eq [OF assms(1)] Let_def)
    show ?thesis
      by (cases "ed_has e"; cases "snd (ed_cursor e) > 0"; cases "fst (ed_cursor e) > 0")
        (simp_all add: e' key_backspace_def Let_def case_prod_beta pushed_def untouched_def)
  next
    case 4
    then have e': "e' = ensureCursorVisible (cancelShift (key_delete (logicalLines e) (ed_cursor e) e))"
      using assms(3) Key by (simp add: step_def TypedKey_eq [OF assms(1)] Let_def)
    show ?thesis
      by (simp add: e' key_delete_def Let_def case_prod_beta pushed_def untouched_def)
  qed
next
  case (Shortcut s)
  then consider "s = ShortcutCut" | "s = ShortcutPaste" using assms(2) by (auto simp: edits_def)
  then show ?thesis
  proof cases
    case 1
    with assms(3) Shortcut show ?thesis
      by (auto simp: step_def TypedShortcut_def cut_text_def Let_def case_prod_beta pushed_def untouched_def delete_clip split: if_splits)
  next
    case 2
    then have e': "e' = paste e" using assms(3) Shortcut by (simp add: step_def TypedShortcut_def)
    show ?thesis
      by (cases "ed_win e \<and> ed_clip e \<noteq> []"; cases "length (split (unix_breaks (ed_clip e)) LF) = 1")
        (simp_all add: e' paste_def Let_def case_prod_beta pushed_def untouched_def)
  qed
qed (use assms(2) in \<open>simp_all add: edits_def\<close>)

lemma undo_pop:
  assumes "ed_undo e = us @ [(raw, p)]"
  shows "ed_undo (undo e) = us" "logicalLines (undo e) = splitRaw raw" "ed_cursor (undo e) = p"
  using assms by (simp_all add: undo_def logicalLines_def)

text \<open>Taking back edits: \<open>undone n e e'\<close> when \<open>e'\<close> shows the text of \<open>e\<close> and has lost at most the oldest entries.\<close>

definition undone :: "nat \<Rightarrow> editor \<Rightarrow> editor \<Rightarrow> bool" where
  "undone n e e' = (logicalLines e' = logicalLines e \<and> ed_cursor e' = ed_cursor e \<and>
     (\<exists>us. ed_undo e = us @ ed_undo e') \<and> min (length (ed_undo e)) (100 - n) \<le> length (ed_undo e'))"

lemma undone_step:
  assumes "editor_ok e" "pushed e e1 \<or> untouched e e1" "undone n e1 e'" "n < 100"
  shows "\<exists>k \<le> 1. undone (Suc n) e ((undo ^^ k) e')"
  using assms(2)
proof
  assume u: "untouched e e1"
  then have "undone (Suc n) e e'" using assms(3) by (auto simp: undone_def untouched_def)
  then show ?thesis by (intro exI [of _ 0]) simp
next
  assume p: "pushed e e1"
  let ?U = "if length (ed_undo e) \<ge> 100 then tl (ed_undo e) else ed_undo e" and ?x = "(join (logicalLines e) LF, ed_cursor e)"
  obtain us where us: "?U @ [?x] = us @ ed_undo e'" using p assms(3) by (auto simp: pushed_def undone_def)
  have l: "min (length (?U @ [?x])) (100 - n) \<le> length (ed_undo e')" using p assms(3) by (simp add: pushed_def undone_def)
  then have "ed_undo e' \<noteq> []" using assms(4) by auto
  then obtain vs y where y: "ed_undo e' = vs @ [y]" by (metis append_butlast_last_id)
  have "?U @ [?x] = (us @ vs) @ [y]" using us unfolding y by simp
  then have vs: "ed_undo e' = vs @ [?x]" "?U = us @ vs" using y unfolding append1_eq_conv by simp_all
  note P = undo_pop [OF vs(1)]
  have "length (ed_undo e) \<le> 100" using assms(1) by (simp add: editor_ok_def undo_ok_def)
  moreover have "length ?U = length us + length vs" by (simp only: vs(2) length_append)
  ultimately have "min (length (ed_undo e)) (100 - Suc n) \<le> length vs"
    using l vs(1) by (cases "length (ed_undo e) \<ge> 100") (simp_all, linarith?)
  moreover have "\<exists>us. ed_undo e = us @ vs"
  proof (cases "length (ed_undo e) \<ge> 100")
    case True
    then have "ed_undo e = (hd (ed_undo e) # us) @ vs" using vs(2) by (cases "ed_undo e") auto
    then show ?thesis by blast
  qed (use vs(2) in auto)
  ultimately have "undone (Suc n) e (undo e')" using P splitRaw_join [OF good_lines [of e]] by (simp add: undone_def)
  then show ?thesis by (intro exI [of _ 1]) simp
qed

text \<open>
  C25: Undo takes back what was typed: after at most 100 edits (runes, return, tab, backspace, delete, cut,
  paste, in any order) from any state of the editor, pressing undo some number of times, no more than there
  were edits, brings back the lines and the cursor of before, and of the undo entries of before none was
  lost but the oldest.
\<close>

theorem undo_restores:
  assumes "editor_ok e" "events_ok w evs e" "\<forall>ev \<in> set evs. edits ev" "length evs \<le> 100"
  shows "\<exists>e' k. session w evs e = Some e' \<and> k \<le> length evs
    \<and> logicalLines ((undo ^^ k) e') = logicalLines e \<and> ed_cursor ((undo ^^ k) e') = ed_cursor e
    \<and> (\<exists>us. ed_undo e = us @ ed_undo ((undo ^^ k) e'))"
proof -
  have "\<exists>e' k. session w evs e = Some e' \<and> k \<le> length evs \<and> undone (length evs) e ((undo ^^ k) e')"
    using assms
  proof (induction evs arbitrary: e)
    case Nil
    then show ?case by (auto simp: undone_def)
  next
    case (Cons ev evs)
    obtain e1 where e1: "step w ev e = Some e1" "editor_ok e1" using step_ok [OF Cons.prems(1)] Cons.prems(2) by auto
    have P: "pushed e e1 \<or> untouched e e1" using edit_pushes [OF Cons.prems(1) _ e1(1)] Cons.prems(3) by simp
    obtain e' k where r: "session w evs e1 = Some e'" "k \<le> length evs" "undone (length evs) e1 ((undo ^^ k) e')"
      using Cons.IH [OF e1(2)] Cons.prems e1(1) by auto
    have "length evs < 100" using Cons.prems(4) by simp
    then obtain j where "j \<le> 1" "undone (Suc (length evs)) e ((undo ^^ j) ((undo ^^ k) e'))"
      using undone_step [OF Cons.prems(1) P r(3)] by blast
    then have "j + k \<le> Suc (length evs)" "undone (Suc (length evs)) e ((undo ^^ (j + k)) e')"
      using r(2) by (simp_all add: funpow_add)
    with r(1) e1(1) show ?case by auto
  qed
  then show ?thesis by (auto simp: undone_def)
qed

theorem undo_restores_witness:
  "\<exists>e' k. session (\<lambda>r. r = 97) [Rune 97, Key KeyReturn, Key KeyBackspace] (NewTextViewEntry True) = Some e'
    \<and> ed_cursor ((undo ^^ k) e') = (0, 0)"
proof -
  let ?evs = "[Rune 97, Key KeyReturn, Key KeyBackspace]"
  have "events_ok (\<lambda>r. r = 97) ?evs (NewTextViewEntry True)"
    by (auto simp: event_ok_def valid_rune_def split: option.splits)
  moreover have "\<forall>ev \<in> set ?evs. edits ev" "length ?evs \<le> 100" by (auto simp: edits_def)
  ultimately obtain e' k where "session (\<lambda>r. r = 97) ?evs (NewTextViewEntry True) = Some e'"
    "ed_cursor ((undo ^^ k) e') = ed_cursor (NewTextViewEntry True)" using undo_restores [OF new_ok] by blast
  then show ?thesis by (auto simp: NewTextViewEntry_def)
qed

section \<open>Selections, copied and shown\<close>

lemma starts_LF [simp]: "starts_rune (LF @ s)" "starts_rune LF"
  by (simp_all add: starts_rune_def)

lemma runes_LF: "runes (LF @ s) = 10 # runes s"
  using runes_of_append [of "[10]" s] by (simp add: encode_LF valid_rune_def)

lemma runes_join: "ls \<noteq> [] \<Longrightarrow> runes (join ls LF) = flat (map runes ls)"
proof (induction ls rule: induct_list012)
  case (3 x y zs)
  have "runes (join (x # y # zs) LF) = runes x @ runes (LF @ join (y # zs) LF)"
    by (simp add: runes_append flip: append_Cons)
  then show ?case using 3(2) runes_LF by (simp add: flat_def)
qed (simp_all add: flat_def)

lemma paste_runes_eq: "paste_runes s = runes (unix_breaks s)"
  using runes_join [of "split (unix_breaks s) LF"] join_split [of LF "unix_breaks s"] by (simp add: paste_runes_def)

lemma doc_flat: "flat (doc_lines e) = runes (unix_breaks (ed_raw e))"
proof (cases "ed_raw e = []")
  case True
  then show ?thesis by (simp add: doc_lines_def logicalLines_def splitRaw_def flat_def unix_breaks_def replace_all_absent)
next
  case False
  then show ?thesis
    using runes_join [of "split (unix_breaks (ed_raw e)) LF"] join_split [of LF "unix_breaks (ed_raw e)"]
    by (simp add: doc_lines_def logicalLines_def splitRaw_def)
qed

lemma flat_halves: "editor_ok e \<Longrightarrow> fst (halves e) @ snd (halves e) = flat (doc_lines e)"
  using before_after [of "ed_cursor e" "doc_lines e"] by (simp add: halves_def editor_ok_def in_text_def)

lemma flat_base:
  assumes "editor_ok e" "ed_has e" "normaliseSelection (ed_anchor e) (ed_sel e) = (s, t)"
  shows "fst (base e) @ between (doc_lines e) s t @ snd (base e) = flat (doc_lines e)"
  using selection_ends [OF assms] before_between [of s t "doc_lines e"] before_after [of t "doc_lines e"] assms(2,3)
  by (simp add: base_def in_text_def) (metis append.assoc)

lemma flat_no_CR: "13 \<notin> set (flat (doc_lines e))"
proof -
  have "13 \<notin> set (runes l)" if "l \<in> set (logicalLines e)" for l
    using one_line_runes [of l] good_lines [of e] that by (simp add: good_def no_break_def)
  then show ?thesis by (auto simp: flat_def doc_lines_def split: list.splits)
qed

lemma of_runes_no_CR: "13 \<notin> set rs \<Longrightarrow> unix_breaks (of_runes rs) = of_runes rs"
  using byte_of_runes [of "CHR 0x0D" rs] by (simp add: unix_breaks_def replace_all_absent)

lemma between_props:
  assumes "editor_ok e" "ed_has e" "normaliseSelection (ed_anchor e) (ed_sel e) = (s, t)"
  shows "all_valid (between (doc_lines e) s t)" "13 \<notin> set (between (doc_lines e) s t)"
proof -
  have "set (between (doc_lines e) s t) \<subseteq> set (flat (doc_lines e))" unfolding flat_base [OF assms, symmetric] by auto
  moreover have "all_valid (flat (doc_lines e))" by (simp add: doc_flat)
  ultimately show "all_valid (between (doc_lines e) s t)" "13 \<notin> set (between (doc_lines e) s t)"
    using flat_no_CR [of e] by (auto simp: all_valid_def)
qed

text \<open>
  Cut and paste: cutting a selection takes exactly the selected text out of the text and into the
  clipboard, which holds what copy would have put there, and pasting it back, with the cursor where the cut
  left it, gives the text of before (its line breaks line feeds).
\<close>

theorem cut_paste_roundtrip:
  assumes "editor_ok e" "ed_win e" "ed_has e"
  shows "\<exists>e'. cut_text e = Some e' \<and> copy e = Some (e\<lparr>ed_clip := ed_clip e'\<rparr>)
    \<and> fst (halves e') @ runes (ed_clip e') @ snd (halves e') = runes (unix_breaks (ed_raw e))
    \<and> runes (unix_breaks (ed_raw (paste e'))) = runes (unix_breaks (ed_raw e))"
proof -
  obtain s t where n: "normaliseSelection (ed_anchor e) (ed_sel e) = (s, t)"
    and x: "selectedText e = Some (of_runes (between (doc_lines e) s t))"
    using selection_cases [OF assms(1,3)] by blast
  obtain e' where e': "cut_text e = Some e'" "editor_ok e'" "halves e' = base e" "selectedText e = Some (ed_clip e')"
    "ed_win e'" "\<not> ed_has e'" "\<not> ed_selecting e'"
    using cut_ok [OF assms(1)] assms(2,3) by blast
  let ?b = "between (doc_lines e) s t"
  note B = between_props [OF assms(1,3) n]
  have clip: "ed_clip e' = of_runes ?b" using x e'(4) by simp
  have f: "fst (base e) @ ?b @ snd (base e) = flat (doc_lines e)" by (rule flat_base [OF assms(1,3) n])
  have b: "base e' = halves e'" using e'(6) by (simp add: base_def)
  have "flat (doc_lines (paste e')) = flat (doc_lines e)"
  proof (cases "ed_clip e' = []")
    case True
    then have "?b = []" using B(1) clip by (metis runes.simps(1) runes_of)
    moreover have "paste e' = e'" using True by (simp add: paste_def)
    ultimately show ?thesis using f flat_halves [OF e'(2)] e'(3) by simp
  next
    case False
    have p: "editor_ok (paste e')" "halves (paste e') = (fst (base e') @ paste_runes (ed_clip e'), snd (base e'))"
      using paste_ok [OF e'(2)] e'(5,7) False by blast+
    have "paste_runes (ed_clip e') = ?b" using B clip by (simp add: paste_runes_eq of_runes_no_CR)
    with p flat_halves [OF p(1)] b e'(3) f show ?thesis by simp
  qed
  moreover have "copy e = Some (e\<lparr>ed_clip := ed_clip e'\<rparr>)" using assms(2,3) e'(4) by (simp add: copy_def)
  moreover have "fst (halves e') @ runes (ed_clip e') @ snd (halves e') = flat (doc_lines e)"
    using f e'(3) clip B(1) by simp
  ultimately show ?thesis using e'(1) by (auto simp: doc_flat)
qed

theorem cut_paste_roundtrip_witness:
  "\<exists>e'. cut_text (select_all (SetText ''abc'' (NewTextViewEntry True))) = Some e'
    \<and> runes (unix_breaks (ed_raw (paste e'))) = runes (unix_breaks ''abc'')"
proof -
  let ?e = "select_all (SetText ''abc'' (NewTextViewEntry True))"
  have "editor_ok ?e" by (intro select_all_ok SetText_ok)
  moreover have "ed_win ?e" "ed_has ?e" "ed_raw ?e = ''abc''"
    by (simp_all add: select_all_def SetText_def NewTextViewEntry_def Let_def)
  ultimately show ?thesis using cut_paste_roundtrip [of ?e] by auto
qed

text \<open>
  What is shown as selected is what copy takes: of the columns of a visual line, exactly those are
  highlighted whose position in the text is from the start of the selection to before its end.
\<close>

theorem highlight_exact:
  assumes "pos_le s t" "c < vl_width (vs ! i)"
  shows "(case highlight vs s t i of (a, b) \<Rightarrow> a \<le> int c \<and> int c < b) \<longleftrightarrow>
    pos_le s (vl_logical (vs ! i), vl_offset (vs ! i) + c) \<and> \<not> pos_le t (vl_logical (vs ! i), vl_offset (vs ! i) + c)"
proof -
  obtain sl sc tl' tc where st: "s = (sl, sc)" "t = (tl', tc)" by (metis surj_pair)
  define l where "l = vl_logical (vs ! i)"
  define off where "off = vl_offset (vs ! i)"
  define n where "n = vl_width (vs ! i)"
  have c: "c < n" using assms(2) by (simp add: n_def)
  consider "l < sl" | "sl < l \<and> l < tl'" | "l = sl \<and> l = tl'" | "l = sl \<and> l < tl'" | "l = tl' \<and> sl < l" | "l > tl'"
    using assms(1) st by (fastforce simp: pos_le_def)
  then show ?thesis
    unfolding highlight_def Let_def pos_le_def st l_def [symmetric] off_def [symmetric] n_def [symmetric] fst_conv snd_conv
    using assms(1)[unfolded pos_le_def st fst_conv snd_conv] c
    by cases (auto split: if_splits)
qed

theorem highlight_exact_witness:
  "(case highlight [\<lparr>vl_tokens = [], vl_raw = ''abc'', vl_logical = 0, vl_offset = 0\<rparr>] (0, 1) (0, 2) 0 of (a, b) \<Rightarrow> a \<le> int 1 \<and> int 1 < b)"
  using highlight_exact [of "(0, 1)" "(0, 2)" 1 "[\<lparr>vl_tokens = [], vl_raw = ''abc'', vl_logical = 0, vl_offset = 0\<rparr>]" 0]
  by (simp add: pos_le_def vl_width_def runes_ascii)

section \<open>Two faults\<close>

lemma join_no_CR: "good ls \<Longrightarrow> CHR 0x0D \<notin> set (join ls LF)"
  using set_join [of ls LF] by (auto simp: good_def one_line_def)

text \<open>
  One keystroke rewrites every line break: whatever text \<open>s\<close> the editor was given, after one typed rune
  its text is that rune and \<open>s\<close> with each carriage return line feed, and each carriage return, replaced by a
  line feed: a body whose line breaks are part of the data (multipart, binary) is no longer the one loaded.
\<close>

theorem typing_rewrites_line_breaks:
  assumes "valid_rune r" "r \<noteq> 10" "r \<noteq> 13"
  shows "ed_raw (SetText s e) = s \<and> CHR 0x0D \<notin> set (ed_raw (TypedRune r (SetText s e)))
    \<and> runes (ed_raw (TypedRune r (SetText s e))) = r # runes (unix_breaks s)"
proof -
  let ?e = "SetText s e"
  have p: "in_text (map runes (logicalLines ?e)) (0, 0)"
    using SetText_ok [of s e] by (simp add: editor_ok_def doc_lines_def) (simp add: SetText_def)
  have v: "all_valid [r]" "no_break [r]" using assms by simp_all
  have "TypedRune r ?e = ensureCursorVisible ((edit (logicalLines ?e) (0, 0) (insert_runes (logicalLines ?e) (0, 0) [r]) ?e)
      \<lparr>ed_cursor := (0, Suc 0)\<rparr>)"
    using clamped_id [OF p] by (simp add: TypedRune_def Let_def case_prod_beta deleteSelection_def SetText_def)
  then have cr: "CHR 0x0D \<notin> set (ed_raw (TypedRune r ?e))"
    using join_no_CR [OF insert_runes_ok(1) [OF good_lines p v]] by simp
  then have u: "unix_breaks (ed_raw (TypedRune r ?e)) = ed_raw (TypedRune r ?e)" by (simp add: unix_breaks_def replace_all_absent)
  have T: "editor_ok (TypedRune r ?e)" "halves (TypedRune r ?e) = (fst (base ?e) @ [r], snd (base ?e))"
    using TypedRune_ok [OF SetText_ok assms] by blast+
  have b: "base ?e = halves ?e" "fst (halves ?e) = []"
    by (simp_all add: base_def halves_def before_def) (simp_all add: SetText_def)
  have "runes (ed_raw (TypedRune r ?e)) = r # (fst (halves ?e) @ snd (halves ?e))"
    using flat_halves [OF T(1)] T(2) b u by (simp add: doc_flat)
  also have "\<dots> = r # runes (unix_breaks s)"
    using flat_halves [OF SetText_ok [of s e]] by (simp add: doc_flat) (simp add: SetText_def)
  finally show ?thesis using cr by (simp add: SetText_def [of s e])
qed

theorem typing_rewrites_line_breaks_witness:
  "runes (ed_raw (TypedRune 97 (SetText (''a'' @ [CHR 0x0D, CHR 0x0A]) (NewTextViewEntry True)))) = [97, 97, 10]"
proof -
  have "valid_rune 97" by (simp add: valid_rune_def)
  then have "runes (ed_raw (TypedRune 97 (SetText (''a'' @ [CHR 0x0D, CHR 0x0A]) (NewTextViewEntry True))))
      = 97 # runes (unix_breaks (''a'' @ [CHR 0x0D, CHR 0x0A]))"
    using typing_rewrites_line_breaks [of 97] by simp
  moreover have "unix_breaks (''a'' @ [CHR 0x0D, CHR 0x0A]) = ''a'' @ [CHR 0x0A]" by code_simp
  ultimately show ?thesis by (simp add: runes_ascii)
qed

text \<open>
  A drag that starts in the right margin sets no anchor, and takes the one of an earlier click. When the
  text has lost that line since, the selection reaches past the text, and the tab key panics, as copy and
  cut do when the drag ends on the line of the stale anchor.
\<close>

theorem stale_anchor_panics:
  assumes "editor_ok e" "length (logicalLines e) \<le> fst (ed_anchor e)"
  shows "TypedKey KeyTab (Dragged pt e) = None"
proof -
  have d: "editor_ok (e\<lparr>ed_dragging := True\<rparr>)" using frame_ok(4) [OF assms(1)] .
  obtain p e1 where p: "posFromPoint pt (e\<lparr>ed_dragging := True\<rparr>) = (p, e1)" by (metis surj_pair)
  note P = point_ok [OF d p]
  have l: "fst p < length (logicalLines e)" using P(2) by (simp add: in_text_def doc_lines_def)
  then have n: "normaliseSelection (ed_anchor e) p = (p, ed_anchor e)" "ed_anchor e \<noteq> p"
    using assms(2) by (auto simp: normaliseSelection_def)
  then have "Dragged pt e = e1\<lparr>ed_sel := p, ed_cursor := p, ed_has := True\<rparr>"
    using p P(1) by (simp add: Dragged_def)
  then show ?thesis using n assms(2) P(1)
    by (simp add: TypedKey_def Let_def key_tab_def case_prod_beta)
qed

lemma two_lines: "map vl_logical (buildVisualLines [''a'', ''b''] 80) = [0, 1]"
    "map vl_offset (buildVisualLines [''a'', ''b''] 80) = [0, 0]"
  by (simp_all add: buildVisualLines_def body_start_def visual_line_def visual_chunks.simps runes_ascii slice_def Let_def)

theorem stale_anchor_panics_witness:
  "TypedKey KeyTab (Dragged (0, 0) (SetText ''a'' (MouseDown (1, 0) (SetText (''a'' @ LF @ ''b'') (NewTextViewEntry True))))) = None"
proof -
  let ?e0 = "SetText (''a'' @ LF @ ''b'') (NewTextViewEntry True)"
  have l: "logicalLines ?e0 = [''a'', ''b'']" by code_simp
  have vs: "fst (visual ?e0) = buildVisualLines [''a'', ''b''] 80"
    using editor_visual [OF SetText_ok [of "''a'' @ LF @ ''b''" "NewTextViewEntry True"]] l
    by (simp add: charsPerLine_def) (simp add: SetText_def NewTextViewEntry_def)
  have sc: "ed_scroll ?e0 = 0" by (simp add: SetText_def)
  have n: "length (buildVisualLines [''a'', ''b''] 80) = 2" using arg_cong [OF two_lines(1), of length] by simp
  have "vl_logical (buildVisualLines [''a'', ''b''] 80 ! 1) = 1"
    using arg_cong [OF two_lines(1), of "\<lambda>xs. xs ! 1"] n by simp
  then have a: "fst (ed_anchor (MouseDown (1, 0) ?e0)) = 1"
    using n vs sc by (auto simp: MouseDown_def posFromPoint_def Let_def case_prod_beta)
  let ?e = "SetText ''a'' (MouseDown (1, 0) ?e0)"
  have "logicalLines ?e = splitRaw ''a''" by (simp add: logicalLines_def SetText_def)
  also have "\<dots> = [''a'']" by code_simp
  finally have "length (logicalLines ?e) \<le> fst (ed_anchor ?e)" using a by (simp add: SetText_def)
  then show ?thesis by (rule stale_anchor_panics [OF SetText_ok])
qed

end
