(* ===== verification/TextView.thy ===== *)
theory TextView
  imports Tokeniser Selection Scrollbar
begin

text \<open>
  The read-only text view (\<open>internal/ui/widgets/textview.go\<close>): the parse that runs beside the user
  interface and the rules for starting it again, scrolling, selection and copy.

  A parse in flight is an entry of \<open>tv_jobs\<close>; a step may finish any of them. \<open>None\<close> is a panic (index out of
  range). Pixels are rational numbers where the code has \<open>float32\<close>, and \<open>cw\<close> is the width of a character.
  The colours and the canvas objects are left out, but for the highlight of the selection.
\<close>

section \<open>State\<close>

type_synonym point = "rat \<times> rat"

record tview =
  tv_lines :: "tvLine list"
  tv_raw :: string
  tv_scroll :: int
  tv_frac :: rat
  tv_anchor :: pos
  tv_sel :: pos
  tv_has :: bool
  tv_win :: bool
  tv_rend :: "point option"
  tv_width :: rat
  tv_pending :: string
  tv_processing :: bool
  tv_gen :: nat
  tv_jobs :: "(nat \<times> string \<times> rat) list"
  tv_clip :: string

definition NewTextView :: "bool \<Rightarrow> tview" where
  "NewTextView win = \<lparr>tv_lines = [], tv_raw = [], tv_scroll = 0, tv_frac = 0, tv_anchor = (0, 0), tv_sel = (0, 0),
     tv_has = False, tv_win = win, tv_rend = None, tv_width = 0, tv_pending = [], tv_processing = False, tv_gen = 0,
     tv_jobs = [], tv_clip = []\<rparr>"

section \<open>Text\<close>

definition startProcessing :: "string \<Rightarrow> rat \<Rightarrow> tview \<Rightarrow> tview" where
  "startProcessing s wrapWidth v = v\<lparr>tv_gen := Suc (tv_gen v), tv_processing := True,
     tv_jobs := tv_jobs v @ [(Suc (tv_gen v), s, wrapWidth)]\<rparr>"

definition view_SetText :: "string \<Rightarrow> tview \<Rightarrow> tview" where
  "view_SetText s v = (let v' = v\<lparr>tv_pending := s, tv_raw := s, tv_scroll := 0, tv_frac := 0, tv_has := False\<rparr>
     in if tv_processing v \<or> tv_width v < 1 then v' else startProcessing s (tv_width v) v')"

definition charsFit :: "rat \<Rightarrow> rat \<Rightarrow> nat" where
  "charsFit cw wrapWidth = nat (trunc (wrapWidth / cw))"

text \<open>The end of the \<open>i\<close>-th parse in flight, on the thread of the user interface.\<close>

definition parse_done :: "rat \<Rightarrow> nat \<Rightarrow> tview \<Rightarrow> tview" where
  "parse_done cw i v = (let (g, s, w) = tv_jobs v ! i;
       v = v\<lparr>tv_jobs := take i (tv_jobs v) @ drop (Suc i) (tv_jobs v)\<rparr>
     in if g \<noteq> tv_gen v then v
        else let v = v\<lparr>tv_lines := parseAndWrap (charsFit cw w) s, tv_processing := False\<rparr>;
                 pending = (if tv_pending v \<noteq> s then tv_pending v else [])
          in if pending \<noteq> [] \<and> tv_width v > 0 then startProcessing pending (tv_width v) v else v)"

definition checkWrapWidth :: "tview \<Rightarrow> tview" where
  "checkWrapWidth v = (case tv_rend v of None \<Rightarrow> v
   | Some (w, h) \<Rightarrow> let availWidth = w - tvPadX * 2 - tvScrollW; prevWidth = tv_width v in
       if availWidth < 1 then v
       else let v = v\<lparr>tv_width := availWidth\<rparr> in
         if tv_pending v = [] then v
         else if \<bar>prevWidth - availWidth\<bar> > 4 \<or> prevWidth < 1 then startProcessing (tv_pending v) availWidth v
         else v)"

definition Layout :: "point \<Rightarrow> tview \<Rightarrow> tview" where
  "Layout sz v = checkWrapWidth (v\<lparr>tv_rend := Some sz\<rparr>)"

section \<open>Scrolling\<close>

definition view_visibleLineCount :: "tview \<Rightarrow> int" where
  "view_visibleLineCount v = (case tv_rend v of None \<Rightarrow> 0 | Some (w, h) \<Rightarrow>
     let availHeight = h - tvPadY * 2 in if availHeight < 0 then 0 else trunc (availHeight / tvLineH))"

definition view_Scrolled :: "rat \<Rightarrow> tview \<Rightarrow> tview" where
  "view_Scrolled dy v = (let frac = tv_frac v - dy / tvLineH; rows = trunc frac; frac = frac - of_int rows;
       rows = (if rows = 0 then (if dy < 0 then 1 else if dy > 0 then - 1 else 0) else rows);
       maxOffset = max (int (length (tv_lines v)) - view_visibleLineCount v) 0;
       offset = tv_scroll v + rows; offset = (if offset < 0 then 0 else offset);
       offset = (if offset > maxOffset then maxOffset else offset)
     in v\<lparr>tv_scroll := offset, tv_frac := frac\<rparr>)"

definition thumb_dragged :: "rat \<Rightarrow> tview \<Rightarrow> tview" where
  "thumb_dragged y v = (case tv_rend v of None \<Rightarrow> v | Some (w, h) \<Rightarrow>
     if y < 0 \<or> y > h then v
     else case thumb_target h (length (tv_lines v)) y of None \<Rightarrow> v | Some i \<Rightarrow> v\<lparr>tv_scroll := i\<rparr>)"

section \<open>Selection\<close>

definition raws :: "tview \<Rightarrow> string list" where
  "raws v = map tl_raw (tv_lines v)"

definition view_posFromPoint :: "rat \<Rightarrow> point \<Rightarrow> tview \<Rightarrow> pos" where
  "view_posFromPoint cw pt v = (let n = int (length (tv_lines v));
       i = max (tv_scroll v + trunc ((snd pt - tvPadY) / tvLineH)) 0; i = (if i \<ge> n then n - 1 else i)
     in if i < 0 then (0, 0)
        else let rs = runes (raws v ! nat i)
          in (nat i, nat (min (max (trunc ((fst pt - tvPadX) / cw)) 0) (int (length rs)))))"

definition view_selectedText :: "tview \<Rightarrow> string option" where
  "view_selectedText v = (if \<not> tv_has v then Some []
     else let (s, t) = normaliseSelection (tv_anchor v) (tv_sel v) in span_text (raws v) s t)"

definition view_copy :: "tview \<Rightarrow> tview option" where
  "view_copy v = (if tv_win v \<and> tv_has v then map_option (\<lambda>t. v\<lparr>tv_clip := t\<rparr>) (view_selectedText v) else Some v)"

definition view_select_all :: "tview \<Rightarrow> tview" where
  "view_select_all v = (let n = length (tv_lines v); lastRaw = (if n > 0 then raws v ! (n - 1) else [])
     in v\<lparr>tv_anchor := (0, 0), tv_sel := (n - 1, length (runes lastRaw)), tv_has := True\<rparr>)"

definition view_FocusLost :: "tview \<Rightarrow> tview" where
  "view_FocusLost v = v\<lparr>tv_has := False\<rparr>"

definition inScrollbarArea :: "rat \<Rightarrow> tview \<Rightarrow> bool" where
  "inScrollbarArea x v = (case tv_rend v of None \<Rightarrow> False | Some (w, h) \<Rightarrow> x \<ge> w - tvScrollW)"

definition view_MouseDown :: "rat \<Rightarrow> point \<Rightarrow> tview \<Rightarrow> tview" where
  "view_MouseDown cw pt v = (if inScrollbarArea (fst pt) v then v
     else let p = view_posFromPoint cw pt v in v\<lparr>tv_anchor := p, tv_sel := p, tv_has := False\<rparr>)"

definition view_Dragged :: "rat \<Rightarrow> point \<Rightarrow> tview \<Rightarrow> tview" where
  "view_Dragged cw pt v = (if inScrollbarArea (fst pt) v then v
     else let p = view_posFromPoint cw pt v in v\<lparr>tv_sel := p, tv_has := (tv_anchor v \<noteq> p)\<rparr>)"

definition view_DoubleTapped :: "(rune \<Rightarrow> bool) \<Rightarrow> rat \<Rightarrow> point \<Rightarrow> tview \<Rightarrow> tview" where
  "view_DoubleTapped word cw pt v = (if inScrollbarArea (fst pt) v then v
     else let (line, col) = view_posFromPoint cw pt v;
              rs = runes (if line < length (tv_lines v) then raws v ! line else [])
       in if rs = [] then v
          else let (a, b) = word_span word rs col in v\<lparr>tv_anchor := (line, a), tv_sel := (line, b), tv_has := (a \<noteq> b)\<rparr>)"

text \<open>The columns of line \<open>i\<close> drawn as selected (\<open>layoutContent\<close>), first and last plus one.\<close>

definition view_highlight :: "tview \<Rightarrow> nat \<Rightarrow> (nat \<times> nat) option" where
  "view_highlight v i = (let (s, t) = normaliseSelection (tv_anchor v) (tv_sel v); n = length (runes (raws v ! i)) in
     if tv_has v \<and> i \<ge> fst s \<and> i \<le> fst t
     then Some (min (if i = fst s then snd s else 0) n, min (if i = fst t then snd t else n) n)
     else None)"

section \<open>Steps\<close>

inductive view_step :: "rat \<Rightarrow> (rune \<Rightarrow> bool) \<Rightarrow> tview \<Rightarrow> tview \<Rightarrow> bool" for cw w where
  set: "view_step cw w v (view_SetText s v)"
| layout: "view_step cw w v (Layout sz v)"
| parsed: "i < length (tv_jobs v) \<Longrightarrow> view_step cw w v (parse_done cw i v)"
| scroll: "view_step cw w v (view_Scrolled dy v)"
| thumb: "view_step cw w v (thumb_dragged y v)"
| down: "view_step cw w v (view_MouseDown cw pt v)"
| drag: "view_step cw w v (view_Dragged cw pt v)"
| double: "view_step cw w v (view_DoubleTapped w cw pt v)"
| all: "view_step cw w v (view_select_all v)"
| copy: "view_copy v = Some v' \<Longrightarrow> view_step cw w v v'"
| lose: "view_step cw w v (view_FocusLost v)"

inductive view_reachable :: "rat \<Rightarrow> (rune \<Rightarrow> bool) \<Rightarrow> tview \<Rightarrow> bool" for cw w where
  new: "view_reachable cw w (NewTextView win)"
| step: "view_reachable cw w v \<Longrightarrow> view_step cw w v v' \<Longrightarrow> view_reachable cw w v'"


section \<open>The last text is shown\<close>

text \<open>
  At most one parse in flight is the current one, and there is one exactly while \<open>tv_processing\<close> is set; else the
  lines are those of the pending text, at some width it was laid out with, unless that text is empty.
\<close>

definition current :: "tview \<Rightarrow> nat \<times> string \<times> rat \<Rightarrow> bool" where
  "current v j = (j \<in> set (tv_jobs v) \<and> fst j = tv_gen v)"

definition view_ok :: "rat \<Rightarrow> tview \<Rightarrow> bool" where
  "view_ok cw v = (distinct (map fst (tv_jobs v)) \<and> (\<forall>j \<in> set (tv_jobs v). fst j \<le> tv_gen v)
     \<and> (tv_processing v \<longleftrightarrow> (\<exists>j. current v j)) \<and> (tv_processing v \<longrightarrow> 1 \<le> tv_width v)
     \<and> (tv_width v = 0 \<or> 1 \<le> tv_width v) \<and> tv_raw v = tv_pending v
     \<and> (\<not> tv_processing v \<longrightarrow> tv_pending v = [] \<or> tv_width v = 0
          \<or> (\<exists>wd. tv_lines v = parseAndWrap (charsFit cw wd) (tv_pending v))))"

lemma start_ok:
  assumes "\<forall>j \<in> set (tv_jobs v). fst j \<le> tv_gen v" "distinct (map fst (tv_jobs v))" "1 \<le> tv_width v" "tv_raw v = tv_pending v"
  shows "view_ok cw (startProcessing s wd v)"
proof -
  have "Suc (tv_gen v) \<notin> fst ` set (tv_jobs v)" using assms(1) by fastforce
  with assms show ?thesis
    by (auto simp: view_ok_def startProcessing_def current_def)
qed

lemma idle_ok:
  assumes "view_ok cw v" "tv_lines v' = tv_lines v" "tv_raw v' = tv_raw v" "tv_width v' = tv_width v" "tv_pending v' = tv_pending v"
    "tv_processing v' = tv_processing v" "tv_gen v' = tv_gen v" "tv_jobs v' = tv_jobs v"
  shows "view_ok cw v'"
  using assms by (simp add: view_ok_def current_def)

lemma set_ok: "view_ok cw v \<Longrightarrow> view_ok cw (view_SetText s v)"
proof (cases "tv_processing v \<or> tv_width v < 1")
  case True
  assume "view_ok cw v"
  with True show ?thesis by (auto simp: view_ok_def view_SetText_def current_def)
next
  case False
  assume "view_ok cw v"
  with False show ?thesis by (simp add: view_SetText_def Let_def) (rule start_ok; simp add: view_ok_def)
qed

lemma layout_ok: "view_ok cw v \<Longrightarrow> view_ok cw (Layout sz v)"
proof -
  assume v: "view_ok cw v"
  obtain w h where s: "sz = (w, h)" by (metis surj_pair)
  define av where "av = w - tvPadX * 2 - tvScrollW"
  let ?v = "v\<lparr>tv_rend := Some sz, tv_width := av\<rparr>"
  consider "av < 1" | "av \<ge> 1" "tv_pending v \<noteq> []" "\<bar>tv_width v - av\<bar> > 4 \<or> tv_width v < 1"
    | "av \<ge> 1" "tv_pending v = [] \<or> \<not> (\<bar>tv_width v - av\<bar> > 4 \<or> tv_width v < 1)" by fastforce
  then show ?thesis
  proof cases
    case 1
    then have "Layout sz v = v\<lparr>tv_rend := Some sz\<rparr>" by (simp add: Layout_def checkWrapWidth_def s av_def)
    then show ?thesis using idle_ok [OF v] by simp
  next
    case 2
    then have "Layout sz v = startProcessing (tv_pending v) av ?v"
      by (simp add: Layout_def checkWrapWidth_def s Let_def flip: av_def)
    moreover have "view_ok cw (startProcessing (tv_pending v) av ?v)"
      by (rule start_ok) (use v 2 in \<open>simp_all add: view_ok_def\<close>)
    ultimately show ?thesis by simp
  next
    case 3
    then have "Layout sz v = ?v" by (auto simp: Layout_def checkWrapWidth_def s Let_def simp flip: av_def)
    moreover have "view_ok cw ?v" using v 3 by (auto simp: view_ok_def current_def)
    ultimately show ?thesis by simp
  qed
qed

text \<open>The end of a parse: a stale one is dropped, the current one is shown and perhaps another started.\<close>

lemma parse_done_cases:
  assumes "view_ok cw v" "i < length (tv_jobs v)"
  defines "rest \<equiv> take i (tv_jobs v) @ drop (Suc i) (tv_jobs v)"
  obtains (stale) g s wd where "tv_jobs v ! i = (g, s, wd)" "g \<noteq> tv_gen v" "parse_done cw i v = v\<lparr>tv_jobs := rest\<rparr>"
  | (shown) s wd where "tv_jobs v ! i = (tv_gen v, s, wd)" "tv_pending v = s \<or> tv_pending v = []"
      "parse_done cw i v = v\<lparr>tv_jobs := rest, tv_lines := parseAndWrap (charsFit cw wd) s, tv_processing := False\<rparr>"
  | (again) s wd where "tv_jobs v ! i = (tv_gen v, s, wd)" "tv_pending v \<noteq> s" "tv_pending v \<noteq> []"
      "parse_done cw i v = startProcessing (tv_pending v) (tv_width v)
         (v\<lparr>tv_jobs := rest, tv_lines := parseAndWrap (charsFit cw wd) s, tv_processing := False\<rparr>)"
proof -
  obtain g s wd where j: "tv_jobs v ! i = (g, s, wd)" by (metis surj_pair)
  show thesis
  proof (cases "g = tv_gen v")
    case False
    with j stale show thesis by (simp add: parse_done_def rest_def)
  next
    case True
    then have "current v (g, s, wd)" using j assms(2) by (metis current_def fst_conv nth_mem)
    then have "1 \<le> tv_width v" using assms(1) unfolding view_ok_def by blast
    then have "0 < tv_width v" by simp
    with True j shown again show thesis
      by (cases "tv_pending v = s \<or> tv_pending v = []") (auto simp: parse_done_def rest_def Let_def)
  qed
qed

lemma without: "i < length xs \<Longrightarrow> distinct (map f xs) \<Longrightarrow>
    set (take i xs @ drop (Suc i) xs) = set xs - {xs ! i} \<and> distinct (map f (take i xs @ drop (Suc i) xs))
    \<and> (\<forall>x \<in> set (take i xs @ drop (Suc i) xs). f x \<noteq> f (xs ! i))"
proof -
  assume i: "i < length xs" and d: "distinct (map f xs)"
  obtain a y b where xs: "xs = a @ y # b" "a = take i xs" "y = xs ! i" "b = drop (Suc i) xs"
    using i by (metis id_take_nth_drop)
  have "f y \<notin> f ` (set a \<union> set b)" "distinct (map f (a @ b))" using d unfolding xs(1) by auto
  moreover from this(1) have "\<forall>x \<in> set a \<union> set b. f x \<noteq> f y" by (metis image_eqI)
  ultimately have "set (a @ b) = set xs - {y} \<and> distinct (map f (a @ b)) \<and> (\<forall>x \<in> set (a @ b). f x \<noteq> f y)"
    using xs(1) by auto
  then show ?thesis using xs(2-4) by simp
qed

lemma done_ok:
  assumes "view_ok cw v" "i < length (tv_jobs v)"
  shows "view_ok cw (parse_done cw i v)"
proof -
  define rest where "rest = take i (tv_jobs v) @ drop (Suc i) (tv_jobs v)"
  have r: "set rest = set (tv_jobs v) - {tv_jobs v ! i}" "distinct (map fst rest)" "\<forall>j \<in> set rest. fst j \<noteq> fst (tv_jobs v ! i)"
    using without [OF assms(2), of fst] assms(1) by (simp_all add: view_ok_def rest_def)
  from assms show ?thesis
  proof (cases rule: parse_done_cases)
    case (stale g s wd)
    then have "current (v\<lparr>tv_jobs := rest\<rparr>) j \<longleftrightarrow> current v j" for j using r by (auto simp: current_def)
    with stale assms(1) r show ?thesis unfolding stale(3) rest_def [symmetric] by (auto simp: view_ok_def)
  next
    case (shown s wd)
    let ?v = "v\<lparr>tv_jobs := rest, tv_lines := parseAndWrap (charsFit cw wd) s, tv_processing := False\<rparr>"
    have "\<not> current ?v j" for j using r(3) shown(1) by (auto simp: current_def)
    with shown assms(1) r show ?thesis unfolding shown(3) rest_def [symmetric] by (auto simp: view_ok_def)
  next
    case (again s wd)
    have "current v (tv_jobs v ! i)" using again(1) assms(2) by (metis current_def fst_conv nth_mem)
    then have "1 \<le> tv_width v" using assms(1) unfolding view_ok_def by blast
    with again assms(1) r show ?thesis unfolding again(4) rest_def [symmetric]
      by (intro start_ok) (simp_all add: view_ok_def)
  qed
qed

lemma view_step_ok:
  assumes "view_step cw w v v'" "view_ok cw v"
  shows "view_ok cw v'"
  using assms(1)
proof cases
  case (scroll dy)
  then show ?thesis by (intro idle_ok [OF assms(2)]) (simp_all add: view_Scrolled_def Let_def)
next
  case (thumb y)
  then show ?thesis by (intro idle_ok [OF assms(2)]) (simp_all add: thumb_dragged_def split: option.split prod.split)
next
  case (down pt)
  then show ?thesis by (intro idle_ok [OF assms(2)]) (simp_all add: view_MouseDown_def Let_def)
next
  case (drag pt)
  then show ?thesis by (intro idle_ok [OF assms(2)]) (simp_all add: view_Dragged_def Let_def)
next
  case (double pt)
  then show ?thesis by (intro idle_ok [OF assms(2)]) (simp_all add: view_DoubleTapped_def Let_def split: prod.split)
next
  case all
  then show ?thesis by (intro idle_ok [OF assms(2)]) (simp_all add: view_select_all_def Let_def)
next
  case copy
  then show ?thesis by (intro idle_ok [OF assms(2)]) (auto simp: view_copy_def split: if_splits)
next
  case lose
  then show ?thesis by (intro idle_ok [OF assms(2)]) (simp_all add: view_FocusLost_def)
qed (simp_all add: assms(2) set_ok layout_ok done_ok)

lemma reachable_ok: "view_reachable cw w v \<Longrightarrow> view_ok cw v"
  by (induction rule: view_reachable.induct)
    (simp_all add: view_step_ok, simp add: NewTextView_def view_ok_def current_def)

text \<open>How many parses may still end: those in flight, and one more when the current one is of an old text.\<close>

definition to_come :: "tview \<Rightarrow> nat" where
  "to_come v = length (tv_jobs v) + (if \<exists>j. current v j \<and> fst (snd j) \<noteq> tv_pending v then 1 else 0)"

lemma done_frame [simp]: "tv_raw (parse_done cw i v) = tv_raw v" "tv_width (parse_done cw i v) = tv_width v"
    "tv_pending (parse_done cw i v) = tv_pending v"
  by (simp_all add: parse_done_def startProcessing_def Let_def split: prod.split)

lemma done_fewer:
  assumes "view_ok cw v" "i < length (tv_jobs v)"
  shows "to_come (parse_done cw i v) < to_come v"
proof -
  define rest where "rest = take i (tv_jobs v) @ drop (Suc i) (tv_jobs v)"
  have r: "set rest = set (tv_jobs v) - {tv_jobs v ! i}" "\<forall>j \<in> set rest. fst j \<noteq> fst (tv_jobs v ! i)"
    using without [OF assms(2), of fst] assms(1) by (simp_all add: view_ok_def rest_def)
  have l: "Suc (length rest) = length (tv_jobs v)" using assms(2) by (simp add: rest_def)
  from assms show ?thesis
  proof (cases rule: parse_done_cases)
    case (stale g s wd)
    then have "current (v\<lparr>tv_jobs := rest\<rparr>) j \<longleftrightarrow> current v j" for j using r by (auto simp: current_def)
    with l show ?thesis unfolding stale(3) rest_def [symmetric] by (simp add: to_come_def)
  next
    case (shown s wd)
    let ?v = "v\<lparr>tv_jobs := rest, tv_lines := parseAndWrap (charsFit cw wd) s, tv_processing := False\<rparr>"
    have "\<not> current ?v j" for j using r(2) shown(1) by (auto simp: current_def)
    with l show ?thesis unfolding shown(3) rest_def [symmetric] by (simp add: to_come_def)
  next
    case (again s wd)
    let ?v = "startProcessing (tv_pending v) (tv_width v)
         (v\<lparr>tv_jobs := rest, tv_lines := parseAndWrap (charsFit cw wd) s, tv_processing := False\<rparr>)"
    have "fst j \<le> tv_gen v" if "j \<in> set rest" for j using assms(1) r(1) that by (simp add: view_ok_def)
    then have "current ?v j \<Longrightarrow> fst (snd j) = tv_pending ?v" for j
      by (fastforce simp: current_def startProcessing_def)
    then have "to_come ?v = length (tv_jobs v)" using l by (auto simp: to_come_def) (simp_all add: startProcessing_def)
    moreover have "current v (tv_jobs v ! i)" "fst (snd (tv_jobs v ! i)) \<noteq> tv_pending v"
      using again(1,2) assms(2) by (metis current_def fst_conv nth_mem, simp)
    then have "\<exists>j. current v j \<and> fst (snd j) \<noteq> tv_pending v" by blast
    then have "to_come v = Suc (length (tv_jobs v))" unfolding to_come_def by (simp only: if_True)
    ultimately show ?thesis unfolding again(4) rest_def [symmetric] by simp
  qed
qed

definition parses_end :: "rat \<Rightarrow> tview \<Rightarrow> tview \<Rightarrow> bool" where
  "parses_end cw v v' = (\<exists>i < length (tv_jobs v). v' = parse_done cw i v)"

lemma ends_ok: "(parses_end cw ^^ n) v v' \<Longrightarrow> view_ok cw v \<Longrightarrow>
    view_ok cw v' \<and> n + to_come v' \<le> to_come v \<and> tv_raw v' = tv_raw v \<and> tv_width v' = tv_width v"
proof (induction n arbitrary: v')
  case (Suc n)
  then obtain u where u: "(parses_end cw ^^ n) v u" "parses_end cw u v'" by auto
  then obtain i where i: "i < length (tv_jobs u)" "v' = parse_done cw i u" by (auto simp: parses_end_def)
  have "view_ok cw u" "n + to_come u \<le> to_come v" "tv_raw u = tv_raw v" "tv_width u = tv_width v"
    using Suc.IH [OF u(1) Suc.prems(2)] by simp_all
  with done_ok [OF _ i(1), of cw] done_fewer [OF _ i(1), of cw] i(2) show ?case by simp
qed simp



section \<open>Scrolling stays in the text\<close>

text \<open>
  Scrolling never leaves the text: after the wheel, the first line shown is a line for which the
  window is full, or line 0 of a text that fits; and the line the scrollbar thumb goes to is at least 0 and
  at most the last one that fills the window.
\<close>

theorem view_scroll_bounds:
  "0 \<le> tv_scroll (view_Scrolled dy v) \<and> tv_scroll (view_Scrolled dy v) \<le> max (int (length (tv_lines v)) - view_visibleLineCount v) 0
    \<and> (case thumb_target h n y of None \<Rightarrow> True
        | Some i \<Rightarrow> 0 \<le> i \<and> i \<le> int n - trunc ((h - tvPadY * 2) / tvLineH))"
proof -
  have t: "0 \<le> i \<and> i \<le> int n - trunc ((h - tvPadY * 2) / tvLineH)" if "thumb_target h n y = Some i" for i
    using that by (rule thumb_target_bounds)
  have "0 \<le> tv_scroll (view_Scrolled dy v) \<and> tv_scroll (view_Scrolled dy v) \<le> max (int (length (tv_lines v)) - view_visibleLineCount v) 0"
  proof -
    define m where "m = max (int (length (tv_lines v)) - view_visibleLineCount v) 0"
    define x where "x = tv_scroll v + (let rows = trunc (tv_frac v - dy / tvLineH) in
      if rows = 0 then (if dy < 0 then 1 else if dy > 0 then - 1 else 0) else rows)"
    have "tv_scroll (view_Scrolled dy v) = (if (if x < 0 then 0 else x) > m then m else (if x < 0 then 0 else x))"
      by (simp add: view_Scrolled_def x_def m_def Let_def)
    moreover have "0 \<le> m" by (simp add: m_def)
    ultimately show ?thesis by (auto simp: m_def)
  qed
  with t show ?thesis by (auto split: option.split)
qed

section \<open>Selection\<close>

lemma view_point:
  assumes "tv_lines v \<noteq> []"
  shows "in_text (map runes (raws v)) (view_posFromPoint cw pt v)"
proof -
  define n where "n = int (length (tv_lines v))"
  define j where "j = max (tv_scroll v + trunc ((snd pt - tvPadY) / tvLineH)) 0"
  define i where "i = (if j \<ge> n then n - 1 else j)"
  have n: "0 < n" "0 \<le> i" "i < n" using assms by (auto simp: n_def i_def j_def)
  then have "nat i < length (raws v)" by (simp add: raws_def n_def)
  moreover have "view_posFromPoint cw pt v = (nat i, nat (min (max (trunc ((fst pt - tvPadX) / cw)) 0) (int (length (runes (raws v ! nat i))))))"
    using n by (simp add: view_posFromPoint_def Let_def i_def j_def n_def)
  ultimately show ?thesis by (simp add: in_text_def)
qed

lemma drags_frame: "tv_lines (fold (view_Dragged cw) pts v) = tv_lines v \<and> tv_anchor (fold (view_Dragged cw) pts v) = tv_anchor v"
  by (induction pts arbitrary: v) (simp_all add: view_Dragged_def Let_def)

lemma drags_sel:
  "tv_lines v \<noteq> [] \<Longrightarrow> in_text (map runes (raws v)) (tv_sel v) \<Longrightarrow>
    in_text (map runes (raws v)) (tv_sel (fold (view_Dragged cw) pts v))"
proof (induction pts arbitrary: v)
  case (Cons pt pts)
  have l: "tv_lines (view_Dragged cw pt v) = tv_lines v" "raws (view_Dragged cw pt v) = raws v"
    by (simp_all add: view_Dragged_def Let_def raws_def)
  have "in_text (map runes (raws v)) (tv_sel (view_Dragged cw pt v))"
    using Cons.prems view_point [OF Cons.prems(1)] by (simp add: view_Dragged_def Let_def)
  with Cons.IH [of "view_Dragged cw pt v"] Cons.prems(1) l show ?case by simp
qed simp

text \<open>
  Copy takes what was dragged over: after a press in the text and any movement of the pointer, the
  selected text is, rune for rune, what lies between the two ends of the drag in the lines shown, with
  line feeds between the lines, and the columns highlighted in a line are those of that stretch.
\<close>

theorem view_drag_selects:
  assumes "tv_lines v \<noteq> []" "\<not> inScrollbarArea (fst pt) v"
    and v'_def: "v' = fold (view_Dragged cw) pts (view_MouseDown cw pt v)"
    and "tv_has v'" "normaliseSelection (tv_anchor v') (tv_sel v') = (s, t)"
  shows "view_selectedText v' = Some (of_runes (between (map runes (raws v)) s t))
    \<and> (\<forall>i < length (tv_lines v). \<forall>c < length (runes (raws v ! i)).
        (case view_highlight v' i of None \<Rightarrow> False | Some (a, b) \<Rightarrow> a \<le> c \<and> c < b) \<longleftrightarrow> pos_le s (i, c) \<and> \<not> pos_le t (i, c))"
proof -
  let ?d = "view_MouseDown cw pt v"
  have d: "tv_lines ?d = tv_lines v" "tv_anchor ?d = view_posFromPoint cw pt v" "tv_sel ?d = view_posFromPoint cw pt v"
    using assms(2) by (simp_all add: view_MouseDown_def Let_def)
  have r: "raws v' = raws v" using drags_frame [of cw pts ?d] d(1) by (simp add: v'_def raws_def)
  have rd: "raws ?d = raws v" using d(1) by (simp add: raws_def)
  have "in_text (map runes (raws v)) (tv_sel v')" "in_text (map runes (raws v)) (tv_anchor v')"
    using drags_sel [of ?d cw pts] drags_frame [of cw pts ?d] view_point [OF assms(1)] d rd assms(1) by (simp_all add: v'_def)
  then have st: "in_text (map runes (raws v)) s" "in_text (map runes (raws v)) t" "pos_le s t"
    using normalise_cases [OF assms(5)] normalise_le [OF assms(5)] by auto
  then have "view_selectedText v' = Some (of_runes (between (map runes (raws v)) s t))"
    using assms(4,5) by (simp add: view_selectedText_def r span_text_eq)
  moreover have "(case view_highlight v' i of None \<Rightarrow> False | Some (a, b) \<Rightarrow> a \<le> c \<and> c < b) \<longleftrightarrow> pos_le s (i, c) \<and> \<not> pos_le t (i, c)"
    if "c < length (runes (raws v ! i))" for i c
    using assms(4,5) st(3) that by (cases s; cases t) (auto simp: view_highlight_def r pos_le_def Let_def)
  ultimately show ?thesis by blast
qed

theorem view_drag_selects_witness:
  "view_selectedText (view_Dragged 8 (24, 4) (view_MouseDown 8 (8, 4)
      ((NewTextView True)\<lparr>tv_lines := [\<lparr>tl_tokens = [], tl_raw = ''abc''\<rparr>]\<rparr>)))
    = Some (of_runes (between [runes ''abc''] (0, 0) (0, 2)))"
proof -
  let ?v = "(NewTextView True)\<lparr>tv_lines := [\<lparr>tl_tokens = [], tl_raw = ''abc''\<rparr>]\<rparr>"
  let ?v' = "view_Dragged 8 (24, 4) (view_MouseDown 8 (8, 4) ?v)"
  have p: "view_posFromPoint 8 (8, 4) v = (0, 0)" "view_posFromPoint 8 (24, 4) v = (0, 2)"
    if "tv_lines v = tv_lines ?v" "tv_scroll v = 0" for v
    using that by (simp_all add: view_posFromPoint_def raws_def runes_ascii tvPadX_def tvPadY_def tvLineH_def trunc_def Let_def)
  have i: "\<not> inScrollbarArea x v" if "tv_rend v = None" for x v using that by (simp add: inScrollbarArea_def)
  have v: "tv_rend ?v = None" "tv_scroll ?v = 0" "raws ?v = [''abc'']" by (simp_all add: NewTextView_def raws_def)
  have "tv_anchor ?v' = (0, 0) \<and> tv_sel ?v' = (0, 2) \<and> tv_has ?v'"
    using p v i by (simp add: view_Dragged_def view_MouseDown_def Let_def)
  then have "tv_has ?v'" "normaliseSelection (tv_anchor ?v') (tv_sel ?v') = ((0, 0), (0, 2))"
    by (simp_all add: normaliseSelection_def)
  with view_drag_selects [of ?v "(8, 4)" ?v' 8 "[(24, 4)]"] v i show ?thesis by simp
qed

section \<open>Faults\<close>

text \<open>
  A view that is cleared while the text before is still being parsed shows that text: \<open>SetText\<close> with the
  empty string leaves \<open>pendingText\<close> empty, which the end of the parse takes for nothing pending.
\<close>

theorem cleared_view_shows_old_text:
  assumes "\<not> tv_processing v" "1 \<le> tv_width v" "tv_jobs v = []"
    and v'_def: "v' = parse_done cw 0 (view_SetText [] (view_SetText s v))"
  shows "tv_raw v' = [] \<and> tv_lines v' = parseAndWrap (charsFit cw (tv_width v)) s \<and> \<not> tv_processing v' \<and> tv_jobs v' = []"
  using assms(1-3) by (simp add: v'_def view_SetText_def startProcessing_def parse_done_def Let_def)

theorem cleared_view_shows_old_text_witness:
  "tv_lines (parse_done 8 0 (view_SetText [] (view_SetText ''secret'' (Layout (824, 600) (NewTextView True)))))
    = parseAndWrap (charsFit 8 800) ''secret''"
proof -
  let ?v = "Layout (824, 600) (NewTextView True)"
  have "\<not> tv_processing ?v" "tv_width ?v = 800" "tv_jobs ?v = []"
    by (simp_all add: Layout_def checkWrapWidth_def NewTextView_def tvPadX_def tvScrollW_def)
  with cleared_view_shows_old_text [of ?v _ 8 "''secret''"] show ?thesis by simp
qed

text \<open>
  A window resized slowly is never wrapped again: each step of at most 4 pixels is compared with the
  width of the step before, which is recorded although nothing was wrapped for it, so however far the
  width moves in such steps no parse is started and the lines stay.
\<close>

definition avail :: "point \<Rightarrow> rat" where
  "avail sz = fst sz - tvPadX * 2 - tvScrollW"

fun slow :: "rat \<Rightarrow> point list \<Rightarrow> bool" where
  "slow w [] = True"
| "slow w (sz # szs) = (1 \<le> avail sz \<and> \<bar>w - avail sz\<bar> \<le> 4 \<and> slow (avail sz) szs)"

theorem slow_resize_never_wraps:
  assumes "1 \<le> tv_width v" "slow (tv_width v) szs"
  shows "tv_jobs (fold Layout szs v) = tv_jobs v \<and> tv_lines (fold Layout szs v) = tv_lines v
    \<and> (szs \<noteq> [] \<longrightarrow> tv_width (fold Layout szs v) = avail (last szs))"
  using assms
proof (induction szs arbitrary: v)
  case (Cons sz szs)
  have "Layout sz v = v\<lparr>tv_rend := Some sz, tv_width := avail sz\<rparr>"
    using Cons.prems by (auto simp: Layout_def checkWrapWidth_def avail_def Let_def split: prod.split)
  with Cons.IH [of "Layout sz v"] Cons.prems show ?case by auto
qed simp

theorem slow_resize_never_wraps_witness:
  "tv_jobs (fold Layout (map (\<lambda>i. (824 - 4 * of_nat i, 600)) [1..<101]) (Layout (824, 600) (NewTextView True))) = []"
proof -
  let ?v = "Layout (824, 600) (NewTextView True)"
  have v: "tv_width ?v = 800" "tv_jobs ?v = []"
    by (simp_all add: Layout_def checkWrapWidth_def NewTextView_def tvPadX_def tvScrollW_def)
  have "slow (804 - 4 * of_nat k) (map (\<lambda>i. (824 - 4 * of_nat i, 600)) [k..<101])" for k
  proof (induction "101 - k" arbitrary: k)
    case (Suc d)
    then have k: "[k..<101] = k # [Suc k..<101]" by (simp add: upt_conv_Cons)
    have "(of_nat k :: rat) \<le> of_nat 100" using Suc(2) by (simp only: of_nat_le_iff)
    then have "(of_nat k :: rat) \<le> 100" by simp
    with Suc(1) [of "Suc k"] Suc(2) k show ?case by (simp add: avail_def tvPadX_def tvScrollW_def algebra_simps)
  qed simp
  from this [of 1] v slow_resize_never_wraps [of ?v "map (\<lambda>i. (824 - 4 * of_nat i, 600)) [1..<101]"] show ?thesis by simp
qed

text \<open>
  Select all and copy in an empty view panics: select all selects line 0 of no lines, and copy indexes it.
\<close>

theorem empty_view_copy_panics:
  assumes "tv_lines v = []" "tv_win v"
  shows "view_copy (view_select_all v) = None"
  using assms by (simp add: view_copy_def view_select_all_def view_selectedText_def normaliseSelection_def span_text_def raws_def Let_def)

theorem empty_view_copy_panics_witness:
  "view_copy (view_select_all (NewTextView True)) = None"
  by (rule empty_view_copy_panics) (simp_all add: NewTextView_def)
end
