(* ===== verification/Repeater.thy ===== *)
theory Repeater
  imports App Format
begin

text \<open>
  Sending an edited request from the Repeater (\<open>internal/ui/repeater.go\<close>, \<open>repeater_http.go\<close>): the goroutine
  of \<open>doSend\<close>, which shows the request to the plugins, patches what they changed into the text, sends it and
  reports the response. What the button does before and what is posted back to the user interface after is in
  \<open>RepeaterTabs\<close>. The record \<open>rep_env\<close> is
  what is outside: \<open>http.NewRequest\<close>, the order in which a header map is ranged over, the network, the clock, the text of an error. The bus and the store are
  those of the opened project. \<open>None\<close> stands for a nil dereference in the goroutine.
\<close>

section \<open>What plugins changed\<close>

text \<open>\<open>URL.RequestURI\<close>.\<close>

definition request_uri :: "url \<Rightarrow> string" where
  "request_uri u = (if u_path u = [] then ''/'' else u_path u) @ (if u_query u = [] then [] else ''?'' @ u_query u)"

text \<open>The first header line of the given name gets the value; \<open>None\<close> when there is none before an empty line.\<close>

fun patch_line :: "string \<Rightarrow> string \<Rightarrow> string list \<Rightarrow> string list option" where
  "patch_line key val [] = None"
| "patch_line key val (l # ls) = (if l = [] then None
     else let parts = split_n2 l '': '' in
       if length parts = 2 \<and> to_lower (parts ! 0) = to_lower key then Some ((parts ! 0 @ '': '' @ val) # ls)
       else map_option (\<lambda>ls. l # ls) (patch_line key val ls))"

definition patch_header :: "string \<times> string list \<Rightarrow> string list \<Rightarrow> string list" where
  "patch_header = (\<lambda>(key, vals) lines. if vals = [] then lines
     else let val = join vals '', '' in
       case patch_line key val (tl lines) of
         Some ls \<Rightarrow> hd lines # ls
       | None \<Rightarrow> lines @ [key @ '': '' @ val])"

definition patch_request_line :: "string \<Rightarrow> string \<Rightarrow> string \<Rightarrow> string \<Rightarrow> string \<Rightarrow> string" where
  "patch_request_line method path origMethod origPath line =
     (let newMethod = (if method = [] then origMethod else method);
          newPath = (if path = [] \<or> path = ''?'' then origPath else path)
      in if newMethod \<noteq> origMethod \<or> newPath \<noteq> origPath then newMethod @ '' '' @ newPath @ '' HTTP/1.1'' else line)"

text \<open>The header map is ranged over in an order of its own, so it comes as a list.\<close>

definition patchRaw :: "string \<Rightarrow> string \<Rightarrow> string \<Rightarrow> string \<Rightarrow> string \<Rightarrow> string \<Rightarrow> url \<Rightarrow> header \<Rightarrow> string \<Rightarrow> string" where
  "patchRaw raw headerSection origBody origMethod origPath newMethod u newHeaders newBody =
     (let lines = split headerSection CRLF;
          lines = patch_request_line newMethod (request_uri u) origMethod origPath (hd lines) # tl lines;
          lines = fold patch_header newHeaders lines;
          finalBody = (if newBody \<noteq> origBody then newBody else snd (SplitRaw raw))
      in join lines CRLF @ CRLF2 @ finalBody)"

section \<open>One send\<close>

record rep_env =
  rv_request :: "string \<Rightarrow> string \<Rightarrow> http_request option"
  rv_order :: "header \<Rightarrow> header"
  rv_net :: raw_env
  rv_codecs :: codecs
  rv_start :: int
  rv_elapsed :: int
  rv_err_text :: "raw_error \<Rightarrow> string"

text \<open>What \<open>doSend\<close> hands its goroutine: the text of the editor, host, port and TLS, and the cookies.\<close>

record send_job =
  sj_raw :: string
  sj_host :: string
  sj_port :: int
  sj_tls :: bool
  sj_jar :: "(string \<times> string) list"

datatype send_outcome = SendDropped | SendFailed raw_error | SendDone RawResponse

definition job_addr :: "send_job \<Rightarrow> string" where
  "job_addr j = sj_host j @ '':'' @ itoa (sj_port j)"

text \<open>
  \<open>applyBusRequest\<close>: the request as the plugins leave it, with what is to be reported of it, or that it was
  dropped. When \<open>http.NewRequest\<close> fails the request goes out unseen.
\<close>

datatype bus_outcome = BusDropped | BusPassed string "(http_request \<times> url \<times> string) option"

definition applyBusRequest :: "rep_env \<Rightarrow> 'v world bus \<Rightarrow> send_job \<Rightarrow> 'v world \<Rightarrow> bus_outcome option \<times> 'v world" where
  "applyBusRequest en b j w = (let normalized = NormalizeLineEndings (sj_raw j);
       (headerSection, rawBody) = SplitRaw normalized;
       rawMethod = ExtractMethod normalized; rawPath = ExtractURL normalized;
       scheme = (if sj_tls j then ''https'' else ''http'')
     in case rv_request en rawMethod (scheme @ ''://'' @ job_addr j @ rawPath) of
       None \<Rightarrow> (Some (BusPassed normalized None), w)
     | Some busReq \<Rightarrow> (let (result, w) = EmitRequest b \<lparr>re_request = Some (busReq\<lparr>rq_header := ParseRawHeaders headerSection\<rparr>),
             re_body = rawBody\<rparr> w
         in if rr_drop result then (Some BusDropped, w)
            else case rr_request result of None \<Rightarrow> (None, w)
            | Some rq \<Rightarrow> (case rq_url rq of None \<Rightarrow> (None, w)
              | Some u \<Rightarrow> (Some (BusPassed (patchRaw normalized headerSection rawBody rawMethod rawPath (rq_method rq) u
                    (rv_order en (rq_header rq)) (rr_reqbody result))
                  (Some (rq, u, rr_reqbody result))), w))))"

definition job_options :: "send_job \<Rightarrow> string \<Rightarrow> RawRequestOptions" where
  "job_options j raw = \<lparr>ro_host = sj_host j, ro_port = sj_port j, ro_tls = sj_tls j, ro_raw = raw, ro_jar = sj_jar j, ro_timeout = 0\<rparr>"

definition send_event :: "rep_env \<Rightarrow> send_job \<Rightarrow> http_request \<times> url \<times> string \<Rightarrow> RawResponse \<Rightarrow> ResponseEvent" where
  "send_event en j = (\<lambda>(rq, u, body) resp. \<lparr>ev_timestamp = rv_start en, ev_host = job_addr j, ev_proto = ''HTTP/1.1'',
     ev_method = rq_method rq, ev_url = url_string u, ev_req_headers = rq_header rq, ev_req_body = body,
     ev_status = rr_status resp, ev_resp_headers = ParseRawHeaders (rr_raw resp), ev_resp_body = rr_body resp,
     ev_duration_ms = rv_elapsed en, ev_tls = sj_tls j\<rparr>)"

text \<open>The goroutine of \<open>doSend\<close>.\<close>

definition send_run :: "rep_env \<Rightarrow> 'v world bus \<Rightarrow> send_job \<Rightarrow> 'v world \<Rightarrow> send_outcome option \<times> 'v world" where
  "send_run en b j w = (case applyBusRequest en b j w of
     (None, w) \<Rightarrow> (None, w)
   | (Some BusDropped, w) \<Rightarrow> (Some SendDropped, w)
   | (Some (BusPassed finalRaw reported), w) \<Rightarrow>
       (case SendRaw (rv_net en) (rv_codecs en) (job_options j finalRaw) of
          Inl e \<Rightarrow> (Some (SendFailed e), w)
        | Inr resp \<Rightarrow> (Some (SendDone resp),
            case reported of None \<Rightarrow> w | Some r \<Rightarrow> EmitResponse b (send_event en j r resp) w)))"

section \<open>A request the plugins leave alone\<close>

lemma lower_char_twice: "lower_char (lower_char c) = lower_char c"
  by (auto simp: lower_char_def Let_def)

lemma to_lower_canonical: "to_lower (canonical_key k) = to_lower k"
proof -
  have "to_lower (canonical_aux up s) = to_lower s" for up s
    by (induction up s rule: canonical_aux.induct) (auto simp: to_lower_def lower_upper_char lower_char_twice)
  then show ?thesis by (simp add: canonical_key_def)
qed

text \<open>The header lines before the first empty one, as names and values.\<close>

definition line_fields :: "string list \<Rightarrow> (string \<times> string) list" where
  "line_fields ls = [(p ! 0, p ! 1). p \<leftarrow> map (\<lambda>l. split_n2 l '': '') (takeWhile (\<lambda>l. l \<noteq> []) ls), length p = 2]"

definition plain_headers :: "string list \<Rightarrow> bool" where
  "plain_headers ls = distinct (map (\<lambda>f. to_lower (fst f)) (line_fields ls))"

lemma line_fields_Nil [simp]: "line_fields [] = []" "line_fields ([] # ls) = []"
  by (simp_all add: line_fields_def)

lemma line_fields_Cons:
  "l \<noteq> [] \<Longrightarrow> line_fields (l # ls) = (if length (split_n2 l '': '') = 2
     then (split_n2 l '': '' ! 0, split_n2 l '': '' ! 1) # line_fields ls else line_fields ls)"
  by (simp add: line_fields_def)

lemma split_n2_two: "length (split_n2 l sep) = 2 \<Longrightarrow> l = split_n2 l sep ! 0 @ sep @ split_n2 l sep ! 1"
  by (auto simp: split_n2_def dest: cut_SomeD split: option.splits)

lemma update_fresh: "k \<notin> fst ` set h \<Longrightarrow> AList.update k v h = h @ [(k, v)]"
  by (induction h) auto

lemma parse_raw_fields:
  "plain_headers ls \<Longrightarrow> \<forall>k \<in> fst ` set h. to_lower k \<notin> (\<lambda>f. to_lower (fst f)) ` set (line_fields ls)
    \<Longrightarrow> parse_raw_header_lines h ls = h @ map (\<lambda>(k, v). (canonical_key k, [v])) (line_fields ls)"
proof (induction h ls rule: parse_raw_header_lines.induct)
  case (2 h l ls)
  show ?case
  proof (cases "l = [] \<or> length (split_n2 l '': '') \<noteq> 2")
    case True
    then show ?thesis using 2 by (auto simp: line_fields_Cons plain_headers_def)
  next
    case False
    then obtain k v where kv: "split_n2 l '': '' = [k, v]" by (auto simp: split_n2_def split: option.splits)
    with False have f: "line_fields (l # ls) = (k, v) # line_fields ls" by (simp add: line_fields_Cons)
    have fresh: "canonical_key k \<notin> fst ` set h" using 2(3) to_lower_canonical [of k] by (auto simp: f)
    then have add: "h_add h k v = h @ [(canonical_key k, [v])]"
      by (simp add: h_add_def h_put_def update_fresh h_vals_def map_of_eq_None_iff [THEN iffD2])
    have "plain_headers ls" "\<forall>k \<in> fst ` set (h_add h k v). to_lower k \<notin> (\<lambda>f. to_lower (fst f)) ` set (line_fields ls)"
      using 2(2,3) by (auto simp: add to_lower_canonical f plain_headers_def)
    with 2(1) [OF _ refl] False show ?thesis by (simp add: kv add f)
  qed
qed simp

lemma patch_line_same:
  "plain_headers ls \<Longrightarrow> (k, v) \<in> set (line_fields ls) \<Longrightarrow> to_lower key = to_lower k
    \<Longrightarrow> patch_line key v ls = Some ls"
proof (induction ls)
  case (Cons l ls)
  have "l \<noteq> []" using Cons.prems(2) by auto
  note f = line_fields_Cons [OF this, of ls]
  show ?case
  proof (cases "length (split_n2 l '': '') = 2 \<and> to_lower (split_n2 l '': '' ! 0) = to_lower k")
    case True
    then have "v = split_n2 l '': '' ! 1" using Cons.prems(1,2) by (force simp: f plain_headers_def)
    with True \<open>l \<noteq> []\<close> split_n2_two [of l "'': ''"] Cons.prems(3) show ?thesis by (simp add: Let_def)
  next
    case False
    then show ?thesis using Cons \<open>l \<noteq> []\<close> by (auto simp: f plain_headers_def split: if_splits)
  qed
qed simp

lemma patch_headers_same:
  "plain_headers ls \<Longrightarrow> \<forall>x \<in> set xs. \<exists>(k, v) \<in> set (line_fields ls). x = (canonical_key k, [v])
    \<Longrightarrow> fold patch_header xs (l # ls) = l # ls"
proof (induction xs)
  case (Cons x xs)
  then obtain k v where x: "(k, v) \<in> set (line_fields ls)" "x = (canonical_key k, [v])" by auto
  have "patch_line (canonical_key k) v ls = Some ls"
    by (rule patch_line_same [OF Cons.prems(1) x(1) to_lower_canonical])
  then have "patch_header x (l # ls) = l # ls" by (simp add: patch_header_def x(2))
  with Cons show ?case by simp
qed simp

lemma patchRaw_same:
  assumes "SplitRaw raw = (hs, body)" "raw = hs @ CRLF2 @ body" "plain_headers (tl (split hs CRLF))"
    and "set order = set (ParseRawHeaders hs)" and "request_uri u = p"
  shows "patchRaw raw hs body m p m u order body = raw"
proof -
  have ne: "split hs CRLF \<noteq> []" by simp
  have "ParseRawHeaders hs = map (\<lambda>(k, v). (canonical_key k, [v])) (line_fields (tl (split hs CRLF)))"
    using parse_raw_fields [OF assms(3), of "[]"] ne by (simp add: ParseRawHeaders_def Let_def)
  then have o: "\<forall>x \<in> set order. \<exists>(k, v) \<in> set (line_fields (tl (split hs CRLF))). x = (canonical_key k, [v])"
    using assms(4) by auto
  have l: "patch_request_line m p m p l = l" for l
    by (simp add: patch_request_line_def Let_def)
  have "fold patch_header order (split hs CRLF) = split hs CRLF"
    using patch_headers_same [OF assms(3) o, of "hd (split hs CRLF)"] by (simp only: list.collapse [OF ne])
  then show ?thesis
    using join_split [of CRLF hs] assms(1,2,5) by (simp add: patchRaw_def l Let_def)
qed

lemma SendRaw_normal:
  "SendRaw net cs (job_options j (NormalizeLineEndings raw)) = SendRaw net cs (job_options j raw)"
  by (simp add: SendRaw_def job_options_def wire_request_def NormalizeLineEndings_idem_aux cong: option.case_cong)


definition demo_rep :: rep_env where
  "demo_rep = \<lparr>rv_request = \<lambda>m t. Some \<lparr>rq_method = m,
       rq_url = Some \<lparr>u_scheme = ''http'', u_host = ''h:80'', u_path = ''/a'', u_query = []\<rparr>, rq_host = ''h:80'', rq_header = []\<rparr>,
     rv_order = \<lambda>h. h, rv_net = RawRequest.demo_env, rv_codecs = demo_codecs, rv_start = 0, rv_elapsed = 1, rv_err_text = \<lambda>_. ''error''\<rparr>"

definition demo_job :: send_job where
  "demo_job = \<lparr>sj_raw = ''GET /a HTTP/1.1'' @ LF @ ''Host: h'', sj_host = ''h'', sj_port = 80, sj_tls = False, sj_jar = []\<rparr>"

definition rep_codec :: codec where
  "rep_codec = demo_codec\<lparr>
     marshal := (\<lambda>h. if h = [] then Some ''{}'' else if h = [(''Host'', [''h''])] then Some ''{h}'' else None),
     unmarshal := (\<lambda>t. if t = ''{}'' then Some [] else if t = ''{h}'' then Some [(''Host'', [''h''])] else None)\<rparr>"


end
