(* ===== verification/RepeaterTabs.thy ===== *)
theory RepeaterTabs
  imports Repeater
begin

text \<open>
  The tabs of the Repeater (\<open>internal/ui/repeater.go\<close>, \<open>repeater_http.go\<close>): the state of one HTTP tab with its
  Send button, cookies and history of sends, and the list of open tabs with the rows the store keeps of
  them.
\<close>

section \<open>One tab\<close>

record http_tab =
  ht_tab :: RepeaterTab
  ht_text :: string
  ht_shown :: string
  ht_send_on :: bool
  ht_inspect_on :: bool
  ht_loot_on :: bool
  ht_prev_on :: bool
  ht_next_on :: bool
  ht_jar :: "(string \<times> string) list"
  ht_last_req :: string
  ht_last_resp :: string
  ht_last_body :: string
  ht_history :: "(string \<times> string) list"
  ht_idx :: int

definition buildHTTPTabItem :: "RepeaterTab \<Rightarrow> http_tab" where
  "buildHTTPTabItem tab = \<lparr>ht_tab = tab, ht_text = rt_raw_request tab, ht_shown = [], ht_send_on = True,
     ht_inspect_on = False, ht_loot_on = False, ht_prev_on = False, ht_next_on = False, ht_jar = [], ht_last_req = [],
     ht_last_resp = [], ht_last_body = [], ht_history = [], ht_idx = - 1\<rparr>"

definition loadHistEntry :: "int \<Rightarrow> http_tab \<Rightarrow> http_tab" where
  "loadHistEntry idx t = (if idx < 0 \<or> idx \<ge> int (length (ht_history t)) then t
     else let (req, resp) = ht_history t ! nat idx in
       t\<lparr>ht_idx := idx, ht_text := req, ht_shown := resp, ht_prev_on := (idx > 0),
         ht_next_on := (idx < int (length (ht_history t)) - 1)\<rparr>)"

text \<open>The first half of \<open>doSend\<close>: the job, if the button is enabled and there is a host.\<close>

definition send_target :: "RepeaterTab \<Rightarrow> string \<Rightarrow> string \<times> int \<times> bool" where
  "send_target tab raw = (let (host, port, useTLS) = ParseHostFromRaw raw in
     if port = 80 \<and> \<not> useTLS \<and> rt_port tab \<noteq> 0 then (host, rt_port tab, rt_tls tab) else (host, port, useTLS))"

definition doSend :: "http_tab \<Rightarrow> http_tab \<times> send_job option" where
  "doSend t = (if \<not> ht_send_on t then (t, None)
     else if fst (ParseHostFromRaw (ht_text t)) = [] then (t\<lparr>ht_shown := ''Error: no Host header found in request''\<rparr>, None)
     else let (host, port, useTLS) = send_target (ht_tab t) (ht_text t) in
       (t\<lparr>ht_send_on := False\<rparr>, Some \<lparr>sj_raw = ht_text t, sj_host = host, sj_port = port, sj_tls = useTLS, sj_jar = ht_jar t\<rparr>))"

definition maxHistory :: nat where "maxHistory = 50"

definition last_entries :: "nat \<Rightarrow> 'a list \<Rightarrow> 'a list" where
  "last_entries n xs = drop (length xs - n) xs"

text \<open>The name a tab gets from what was sent, if the request line has a target.\<close>

definition tab_name :: "nat \<Rightarrow> string \<Rightarrow> string option" where
  "tab_name n rawReq = (let parts = str_fields (first_line rawReq) in
     if length parts < 2 then None
     else let path = parts ! 1; path = (if length path > n then take n path @ ''...'' else path)
       in Some (parts ! 0 @ '' '' @ path))"

definition updateTabName :: "string \<Rightarrow> nat \<Rightarrow> store \<Rightarrow> store" where
  "updateTabName rawReq tabID s = (case tab_name 24 rawReq of None \<Rightarrow> s | Some name \<Rightarrow> snd (RenameRepeaterTab tabID name s))"

definition record_send :: "string \<Rightarrow> RawResponse \<Rightarrow> http_tab \<Rightarrow> http_tab" where
  "record_send rawReq resp t = (let history = last_entries maxHistory (ht_history t @ [(rawReq, rr_raw resp)]);
       idx = int (length history) - 1
     in t\<lparr>ht_history := history, ht_idx := idx, ht_prev_on := (if idx > 0 then True else ht_prev_on t), ht_next_on := False\<rparr>)"

text \<open>\<open>applySendResult\<close>, and what a dropped request posts.\<close>

definition applySendResult :: "rep_env \<Rightarrow> string \<Rightarrow> send_outcome \<Rightarrow> http_tab \<Rightarrow> store \<Rightarrow> http_tab \<times> store" where
  "applySendResult en rawReq out t s = (let t = t\<lparr>ht_send_on := True\<rparr> in
     case out of
       SendDropped \<Rightarrow> (t\<lparr>ht_shown := ''HTTP/1.1 403 Forbidden'' @ CRLF2 @ ''request dropped by plugin''\<rparr>, s)
     | SendFailed e \<Rightarrow> (t\<lparr>ht_shown := ''Error: '' @ rv_err_text en e\<rparr>, s)
     | SendDone resp \<Rightarrow>
         (let s = updateTabName rawReq (rt_id (ht_tab t)) s;
              s = snd (UpdateRepeaterTab (rt_id (ht_tab t)) rawReq (rr_raw resp) s)
          in (record_send rawReq resp (t\<lparr>ht_shown := rr_raw resp, ht_jar := fold (\<lambda>(k, v). AList.update k v) (rr_cookies resp) (ht_jar t),
               ht_last_req := rawReq, ht_last_resp := rr_raw resp, ht_last_body := rr_body resp,
               ht_inspect_on := True, ht_loot_on := True\<rparr>), s)))"

text \<open>The Copy buttons of the two panes, and what the Inspector is given.\<close>

definition copy_request :: "http_tab \<Rightarrow> string" where
  "copy_request t = ht_text t"

definition copy_response :: "http_tab \<Rightarrow> string" where
  "copy_response t = ht_last_resp t"

section \<open>The tabs\<close>

text \<open>
  An open tab: the id of its row and its label. \<open>DocTabs\<close> adds what \<open>CreateTab\<close> returns; a tab without a
  row, shown when the row cannot be saved, has no id.
\<close>

record open_tab =
  ot_id :: "nat option"
  ot_label :: string
  ot_type :: string

type_synonym rep_tabs = "open_tab list \<times> store"

definition new_row :: "string \<Rightarrow> string \<Rightarrow> int \<Rightarrow> bool \<Rightarrow> string \<Rightarrow> string \<Rightarrow> RepeaterTab" where
  "new_row name host port tls type raw = \<lparr>rt_id = 0, rt_name = name, rt_host = host, rt_port = port, rt_tls = tls,
     rt_type = type, rt_raw_request = raw, rt_last_response = [], rt_position = 0\<rparr>"

definition open_row :: "RepeaterTab \<Rightarrow> open_tab" where
  "open_row tab = \<lparr>ot_id = Some (rt_id tab), ot_label = rt_name tab, ot_type = rt_type tab\<rparr>"

definition CreateTab :: "rep_tabs \<Rightarrow> rep_tabs" where
  "CreateTab = (\<lambda>(ts, s). let row = new_row ''New Tab'' [] 443 False ''http'' [] in
     case SaveRepeaterTab row s of
       (Inl _, s) \<Rightarrow> (ts @ [\<lparr>ot_id = None, ot_label = ''New Tab'', ot_type = []\<rparr>], s)
     | (Inr i, s) \<Rightarrow> (ts @ [open_row (row\<lparr>rt_id := i\<rparr>)], s))"

definition AddTab :: "string \<Rightarrow> string \<Rightarrow> int \<Rightarrow> bool \<Rightarrow> string \<Rightarrow> rep_tabs \<Rightarrow> rep_tabs" where
  "AddTab name host port useTLS raw = (\<lambda>(ts, s). let row = new_row name host port useTLS ''http'' raw in
     case SaveRepeaterTab row s of (Inl _, s) \<Rightarrow> (ts, s) | (Inr i, s) \<Rightarrow> (ts @ [open_row (row\<lparr>rt_id := i\<rparr>)], s))"

definition AddWSTab :: "string \<Rightarrow> string \<Rightarrow> bool \<Rightarrow> rep_tabs \<Rightarrow> rep_tabs" where
  "AddWSTab name wsURL useTLS = (\<lambda>(ts, s). let row = new_row name wsURL 0 useTLS ''websocket'' wsURL in
     case SaveRepeaterTab row s of (Inl _, s) \<Rightarrow> (ts, s) | (Inr i, s) \<Rightarrow> (ts @ [open_row (row\<lparr>rt_id := i\<rparr>)], s))"

definition closeTab :: "nat \<Rightarrow> rep_tabs \<Rightarrow> rep_tabs" where
  "closeTab k = (\<lambda>(ts, s). (take k ts @ drop (Suc k) ts,
     case ot_id (ts ! k) of None \<Rightarrow> s | Some i \<Rightarrow> snd (DeleteRepeaterTab i s)))"

text \<open>The rename after a send shows in the label of the tab with that id.\<close>

definition rename_tab :: "nat \<Rightarrow> string \<Rightarrow> rep_tabs \<Rightarrow> rep_tabs" where
  "rename_tab tabID rawReq = (\<lambda>(ts, s). case tab_name 24 rawReq of None \<Rightarrow> (ts, s)
     | Some name \<Rightarrow> (map (\<lambda>t. if ot_id t = Some tabID then t\<lparr>ot_label := name\<rparr> else t) ts, snd (RenameRepeaterTab tabID name s)))"

definition build_tabs :: "store \<Rightarrow> rep_tabs" where
  "build_tabs s = (case AllRepeaterTabs s of (Inl _, s) \<Rightarrow> ([], s) | (Inr rows, s) \<Rightarrow> (map open_row rows, s))"

text \<open>The Clone button: the name, and what \<open>AddTab\<close> is given.\<close>

definition clone_tab :: "http_tab \<Rightarrow> rep_tabs \<Rightarrow> rep_tabs" where
  "clone_tab t = (let raw = ht_text t; (host, port, useTLS) = ParseHostFromRaw raw;
       name = (case tab_name 20 raw of None \<Rightarrow> rt_name (ht_tab t) | Some n \<Rightarrow> n)
     in AddTab name host port useTLS raw)"

section \<open>Sessions of one tab\<close>

text \<open>
  What can happen to one tab: the text is edited, a button is pressed (a disabled one does nothing), the send in
  flight ends.
\<close>

datatype tab_event = TEdit string | TSend | TDone send_outcome | TPrev | TNext

record tab_session =
  ts_tab :: http_tab
  ts_job :: "send_job option"
  ts_store :: store

definition tab_step :: "rep_env \<Rightarrow> tab_event \<Rightarrow> tab_session \<Rightarrow> tab_session" where
  "tab_step en e x = (let t = ts_tab x in case e of
     TEdit txt \<Rightarrow> x\<lparr>ts_tab := t\<lparr>ht_text := txt\<rparr>\<rparr>
   | TSend \<Rightarrow> (case doSend t of (t, None) \<Rightarrow> x\<lparr>ts_tab := t\<rparr> | (t, Some j) \<Rightarrow> x\<lparr>ts_tab := t, ts_job := Some j\<rparr>)
   | TDone out \<Rightarrow> (case ts_job x of None \<Rightarrow> x
       | Some j \<Rightarrow> (let (t, s) = applySendResult en (sj_raw j) out t (ts_store x) in \<lparr>ts_tab = t, ts_job = None, ts_store = s\<rparr>))
   | TPrev \<Rightarrow> (if ht_prev_on t then x\<lparr>ts_tab := loadHistEntry (ht_idx t - 1) t\<rparr> else x)
   | TNext \<Rightarrow> (if ht_next_on t then x\<lparr>ts_tab := loadHistEntry (ht_idx t + 1) t\<rparr> else x))"

definition tab_run :: "rep_env \<Rightarrow> tab_event list \<Rightarrow> tab_session \<Rightarrow> tab_session" where
  "tab_run en es x = fold (tab_step en) es x"

definition tab_start :: "RepeaterTab \<Rightarrow> store \<Rightarrow> tab_session" where
  "tab_start tab s = \<lparr>ts_tab = buildHTTPTabItem tab, ts_job = None, ts_store = s\<rparr>"

text \<open>The sends of a session that got a response, with what was sent.\<close>

fun sends :: "rep_env \<Rightarrow> tab_event list \<Rightarrow> tab_session \<Rightarrow> (string \<times> string) list" where
  "sends en [] x = []"
| "sends en (e # es) x = (case (e, ts_job x) of (TDone (SendDone resp), Some j) \<Rightarrow> [(sj_raw j, rr_raw resp)] | _ \<Rightarrow> [])
     @ sends en es (tab_step en e x)"

definition buttons_ok :: "http_tab \<Rightarrow> bool" where
  "buttons_ok t = (length (ht_history t) \<le> maxHistory
     \<and> (if ht_history t = [] then ht_idx t = - 1 else 0 \<le> ht_idx t \<and> ht_idx t < int (length (ht_history t)))
     \<and> ht_prev_on t = (0 < ht_idx t) \<and> ht_next_on t = (ht_idx t < int (length (ht_history t)) - 1))"

text \<open>What the tab, the store's row of it and the sends so far have to do with each other.\<close>

definition session_ok :: "(string \<times> string) list \<Rightarrow> tab_session \<Rightarrow> bool" where
  "session_ok sent x = (let t = ts_tab x; row = t_find (rt_id (ht_tab t)) (t_repeater (ts_store x)) in
     healthy (ts_store x) \<and> row \<noteq> None \<and> buttons_ok t \<and> (ht_send_on t \<longleftrightarrow> ts_job x = None)
     \<and> ht_history t = last_entries maxHistory sent
     \<and> (sent \<noteq> [] \<longrightarrow> (ht_last_req t, ht_last_resp t) = last sent
          \<and> map_option (\<lambda>r. (rp_raw_request r, rp_last_response r)) row = Some (last sent)))"

lemma t_find_update: "t_find i (t_update (\<lambda>(j, _). j = k) f t) = (if i = k then map_option f (t_find i t) else t_find i t)"
proof -
  have "map_of (map (\<lambda>r. if case r of (j, _) \<Rightarrow> j = k then (fst r, f (snd r)) else r) rs) i
      = (if i = k then map_option f (map_of rs i) else map_of rs i)" for rs
    by (induction rs) auto
  then show ?thesis by (simp add: t_find_def t_update_def)
qed

lemma last_entries_snoc: "0 < n \<Longrightarrow> last_entries n (last_entries n xs @ [x]) = last_entries n (xs @ [x])"
  by (cases "length xs \<le> n") (auto simp: last_entries_def drop_drop [symmetric] Suc_diff_le)

lemma length_last_entries: "length (last_entries n xs) = min n (length xs)"
  by (simp add: last_entries_def min_def)

lemma rename_facts:
  "healthy s \<Longrightarrow> healthy (updateTabName raw i s)
    \<and> map_option (\<lambda>r. (rp_raw_request r, rp_last_response r)) (t_find k (t_repeater (updateTabName raw i s)))
      = map_option (\<lambda>r. (rp_raw_request r, rp_last_response r)) (t_find k (t_repeater s))"
  by (auto simp: updateTabName_def RenameRepeaterTab_def healthy_write healthy_sql t_find_update option.map_comp comp_def
      healthy_def split: option.split)

lemma update_facts:
  "healthy s \<Longrightarrow> healthy (snd (UpdateRepeaterTab i raw resp s))
    \<and> map_option (\<lambda>r. (rp_raw_request r, rp_last_response r)) (t_find i (t_repeater (snd (UpdateRepeaterTab i raw resp s))))
      = map_option (\<lambda>_. (raw, resp)) (t_find i (t_repeater s))"
  by (simp add: UpdateRepeaterTab_def healthy_write healthy_sql t_find_update option.map_comp comp_def healthy_def)

lemma buttons_ok_other [simp]:
  "buttons_ok (t\<lparr>ht_text := y\<rparr>) = buttons_ok t" "buttons_ok (t\<lparr>ht_shown := y\<rparr>) = buttons_ok t"
  "buttons_ok (t\<lparr>ht_send_on := c\<rparr>) = buttons_ok t"
  by (simp_all add: buttons_ok_def)

lemma loadHistEntry_ok: "buttons_ok t \<Longrightarrow> buttons_ok (loadHistEntry i t)"
  by (auto simp: buttons_ok_def loadHistEntry_def split: prod.splits)

lemma loadHistEntry_same [simp]:
  "ht_tab (loadHistEntry i t) = ht_tab t" "ht_send_on (loadHistEntry i t) = ht_send_on t"
  "ht_history (loadHistEntry i t) = ht_history t" "ht_last_req (loadHistEntry i t) = ht_last_req t"
  "ht_last_resp (loadHistEntry i t) = ht_last_resp t"
  by (auto simp: loadHistEntry_def split: prod.splits)

lemma record_send_same [simp]:
  "ht_tab (record_send raw resp t) = ht_tab t" "ht_send_on (record_send raw resp t) = ht_send_on t"
  "ht_history (record_send raw resp t) = last_entries maxHistory (ht_history t @ [(raw, rr_raw resp)])"
  "ht_last_req (record_send raw resp t) = ht_last_req t" "ht_last_resp (record_send raw resp t) = ht_last_resp t"
  by (simp_all add: record_send_def Let_def)

lemma record_send_ok:
  assumes "buttons_ok t" shows "buttons_ok (record_send raw resp t)"
proof -
  define h where "h = last_entries maxHistory (ht_history t @ [(raw, rr_raw resp)])"
  have l: "length h = min maxHistory (Suc (length (ht_history t)))" by (simp add: h_def length_last_entries)
  then have "0 < length h" "length h \<le> maxHistory" by (simp_all add: maxHistory_def)
  moreover have "length h \<le> 1 \<Longrightarrow> ht_history t = []" using l by (auto simp: maxHistory_def min_def split: if_splits)
  ultimately show ?thesis using assms
    by (auto simp: record_send_def buttons_ok_def h_def [symmetric] Let_def split: if_splits)
qed

lemma doSend_cases:
  "(\<exists>y. doSend t = (t\<lparr>ht_shown := y\<rparr>, None)) \<or> ht_send_on t \<and> (\<exists>j. doSend t = (t\<lparr>ht_send_on := False\<rparr>, Some j))"
  by (cases "send_target (ht_tab t) (ht_text t)") (auto simp: doSend_def intro: exI [of _ "ht_shown t"])

lemma session_ok_done:
  assumes ok: "session_ok sent x" and j: "ts_job x = Some j"
  shows "session_ok (sent @ (case out of SendDone resp \<Rightarrow> [(sj_raw j, rr_raw resp)] | _ \<Rightarrow> [])) (tab_step en (TDone out) x)"
proof (cases out)
  case (SendDone resp)
  let ?i = "rt_id (ht_tab (ts_tab x))"
  let ?s = "updateTabName (sj_raw j) ?i (ts_store x)"
  have h: "healthy (ts_store x)" "t_find ?i (t_repeater (ts_store x)) \<noteq> None" "buttons_ok (ts_tab x)"
    "ht_history (ts_tab x) = last_entries maxHistory sent"
    using ok by (simp_all add: session_ok_def Let_def)
  note r = rename_facts [OF h(1), of "sj_raw j" ?i ?i]
  note u = update_facts [OF conjunct1 [OF r], of ?i "sj_raw j" "rr_raw resp"]
  have "t_find ?i (t_repeater ?s) \<noteq> None" using r h(2) by (metis option.map_disc_iff)
  with u obtain z where z: "t_find ?i (t_repeater (snd (UpdateRepeaterTab ?i (sj_raw j) (rr_raw resp) ?s))) = Some z"
    "rp_raw_request z = sj_raw j" "rp_last_response z = rr_raw resp" by auto
  have b: "buttons_ok (record_send (sj_raw j) resp t')" if "ht_history t' = ht_history (ts_tab x)"
      "ht_idx t' = ht_idx (ts_tab x)" "ht_prev_on t' = ht_prev_on (ts_tab x)" "ht_next_on t' = ht_next_on (ts_tab x)" for t'
    by (rule record_send_ok) (use h(3) that in \<open>simp add: buttons_ok_def\<close>)
  have "last_entries maxHistory (last_entries maxHistory sent @ [(sj_raw j, rr_raw resp)])
      = last_entries maxHistory (sent @ [(sj_raw j, rr_raw resp)])"
    by (simp add: last_entries_snoc maxHistory_def)
  then show ?thesis using z u h(4)
    by (simp add: session_ok_def tab_step_def j applySendResult_def SendDone Let_def b)
qed (use ok j in \<open>simp_all add: session_ok_def tab_step_def applySendResult_def Let_def\<close>)


lemma session_ok_step:
  assumes ok: "session_ok sent x"
  shows "session_ok (sent @ sends en [e] x) (tab_step en e x)"
proof (cases e)
  case (TDone out)
  show ?thesis
  proof (cases "ts_job x")
    case None
    then show ?thesis using ok by (cases out) (simp_all add: TDone tab_step_def)
  next
    case (Some j)
    show ?thesis using session_ok_done [OF ok Some, of out en] by (cases out) (simp_all add: TDone Some)
  qed
next
  case TSend
  then show ?thesis using doSend_cases [of "ts_tab x"] ok
    by (auto simp: session_ok_def tab_step_def Let_def)
qed (use ok in \<open>simp_all add: session_ok_def tab_step_def Let_def loadHistEntry_ok\<close>)

lemma session_ok_run: "session_ok sent x \<Longrightarrow> session_ok (sent @ sends en es x) (tab_run en es x)"
proof (induction es arbitrary: sent x)
  case (Cons e es)
  from Cons.IH [OF session_ok_step [OF Cons.prems, of en e]] show ?case by (simp add: tab_run_def)
qed (simp add: tab_run_def)

section \<open>The history of sends\<close>


definition demo_resp :: RawResponse where
  "demo_resp = \<lparr>rr_raw = ''r'', rr_status = 200, rr_headers = [], rr_body = [], rr_cookies = []\<rparr>"

definition demo_text :: "string \<Rightarrow> string" where
  "demo_text p = ''GET '' @ p @ '' HTTP/1.1'' @ LF @ ''Host: h''"

definition demo_session :: "tab_event list" where
  "demo_session = [TEdit (demo_text ''/1''), TSend, TDone (SendDone demo_resp),
     TEdit (demo_text ''/2''), TSend, TSend, TDone (SendDone demo_resp), TPrev]"


section \<open>The tabs and their rows\<close>

datatype rep_op = ONew | OAdd string string int bool string | OAddWS string string bool | OClose nat
  | OSent nat string string

text \<open>What a response to the tab with the given id does to its label and its row, and the other operations.\<close>

definition rep_step :: "rep_op \<Rightarrow> rep_tabs \<Rightarrow> rep_tabs" where
  "rep_step x v = (case x of ONew \<Rightarrow> CreateTab v
   | OAdd name host port tls raw \<Rightarrow> AddTab name host port tls raw v
   | OAddWS name u tls \<Rightarrow> AddWSTab name u tls v
   | OClose k \<Rightarrow> (if k < length (fst v) then closeTab k v else v)
   | OSent i raw resp \<Rightarrow> (let (ts, s) = rename_tab i raw v in (ts, snd (UpdateRepeaterTab i raw resp s))))"

definition rep_ok :: "store \<Rightarrow> bool" where
  "rep_ok s = (healthy s \<and> t_ok (t_repeater s) \<and> sorted_wrt (<) (map (\<lambda>r. rp_position (snd r)) (t_rows (t_repeater s))))"

definition rows_open :: "store \<Rightarrow> open_tab list" where
  "rows_open s = map (\<lambda>r. open_row (scan_tab r)) (t_rows (t_repeater s))"

lemma AllRepeaterTabs_rows:
  assumes "rep_ok s" shows "AllRepeaterTabs s = (Inr (map scan_tab (t_rows (t_repeater s))), tick s)"
proof -
  have "sorted (map (\<lambda>r. rp_position (snd r)) (t_rows (t_repeater s)))"
    using assms by (simp add: rep_ok_def strict_sorted_iff)
  then show ?thesis using assms
    by (simp add: AllRepeaterTabs_def rep_ok_def healthy_sql t_asc_rows sort_key_id_if_sorted)
qed

lemma build_tabs_rows: "rep_ok s \<Longrightarrow> build_tabs s = (rows_open s, tick s)"
  by (simp add: build_tabs_def AllRepeaterTabs_rows rows_open_def)

lemma rep_ok_tick [simp]: "rep_ok (tick s) = rep_ok s" "rows_open (tick s) = rows_open s"
  by (simp_all add: rep_ok_def healthy_def rows_open_def)

lemma save_row:
  assumes "rep_ok s" "rt_type tab \<noteq> []"
  shows "\<exists>i s'. SaveRepeaterTab tab s = (Inr i, s') \<and> rep_ok s' \<and> rows_open s' = rows_open s @ [open_row (tab\<lparr>rt_id := i\<rparr>)]"
proof -
  let ?row = "\<lparr>rp_name = rt_name tab, rp_host = rt_host tab, rp_port = rt_port tab, rp_tls = boolToInt (rt_tls tab),
    rp_type = rt_type tab, rp_raw_request = rt_raw_request tab, rp_last_response = rt_last_response tab,
    rp_position = next_position (t_repeater s)\<rparr>"
  let ?s = "(tick s)\<lparr>t_repeater := snd (t_insert ?row (t_repeater s))\<rparr>"
  have "SaveRepeaterTab tab s = (Inr (Suc (t_seq (t_repeater s))), ?s)"
    using assms by (simp add: SaveRepeaterTab_def healthy_write healthy_sql case_prod_beta Let_def t_insert_def rep_ok_def)
  moreover have "rep_ok ?s" using assms t_ok_insert [of "t_repeater s" ?row]
    by (auto simp: rep_ok_def healthy_def t_insert_def sorted_wrt_append next_position_above)
  moreover have "rows_open ?s = rows_open s @ [open_row (tab\<lparr>rt_id := Suc (t_seq (t_repeater s))\<rparr>)]"
    using assms(2) by (simp add: rows_open_def t_insert_def scan_tab_def open_row_def)
  ultimately show ?thesis by blast
qed

lemma remove_nth_filter:
  "distinct (map f xs) \<Longrightarrow> k < length xs \<Longrightarrow> filter (\<lambda>r. f r \<noteq> f (xs ! k)) xs = take k xs @ drop (Suc k) xs"
proof (induction xs arbitrary: k)
  case (Cons x xs)
  show ?case
  proof (cases k)
    case 0
    then show ?thesis using Cons.prems(1) by (auto simp: image_iff intro!: filter_True)
  next
    case (Suc n)
    then have "f x \<noteq> f (xs ! n)" using Cons.prems by auto
    then show ?thesis using Cons Suc by simp
  qed
qed simp

lemma positions_update:
  "(\<And>r. rp_position (f r) = rp_position r) \<Longrightarrow>
    map (\<lambda>r. rp_position (snd r)) (t_rows (t_update P f t)) = map (\<lambda>r. rp_position (snd r)) (t_rows t)"
  by (simp add: t_update_def comp_def if_distrib cong: if_cong)

lemma update_row:
  assumes "rep_ok s" "\<And>r. rp_position (f r) = rp_position r" and s': "s' = (tick s)\<lparr>t_repeater := t_update P f (t_repeater s)\<rparr>"
  shows "rep_ok s'"
  using assms(1) t_ok_update [of "t_repeater s" P f]
  unfolding rep_ok_def s' by (simp add: positions_update assms(2) healthy_def)

definition tabs_ok :: "rep_tabs \<Rightarrow> bool" where
  "tabs_ok v = (rep_ok (snd v) \<and> fst v = rows_open (snd v))"

lemma closeTab_ok:
  assumes "tabs_ok (ts, s)" "k < length ts" shows "tabs_ok (closeTab k (ts, s))"
proof -
  have ok: "rep_ok s" "ts = rows_open s" using assms(1) by (simp_all add: tabs_ok_def)
  let ?rs = "t_rows (t_repeater s)"
  have k: "k < length ?rs" using assms(2) ok(2) by (simp add: rows_open_def)
  then have i: "ot_id (ts ! k) = Some (fst (?rs ! k))"
    by (simp add: ok(2) rows_open_def open_row_def scan_tab_def case_prod_beta)
  let ?t = "t_delete (\<lambda>(j, _). j = fst (?rs ! k)) (t_repeater s)"
  have rows: "t_rows ?t = take k ?rs @ drop (Suc k) ?rs"
    using remove_nth_filter [of fst ?rs k] t_rows_distinct [of "t_repeater s"] ok(1) k
    by (simp add: t_delete_def case_prod_beta rep_ok_def)
  have "sorted_wrt (<) (map (\<lambda>r. rp_position (snd r)) (t_rows ?t))"
    using ok(1) unfolding t_delete_def rep_ok_def by (simp add: sorted_wrt_map_filter)
  then have "rep_ok ((tick s)\<lparr>t_repeater := ?t\<rparr>)"
    using ok(1) t_ok_delete [of "t_repeater s"] by (simp add: rep_ok_def healthy_def)
  moreover have "DeleteRepeaterTab (fst (?rs ! k)) s = (Inr (), (tick s)\<lparr>t_repeater := ?t\<rparr>)"
    using ok(1) by (simp add: DeleteRepeaterTab_def rep_ok_def healthy_write healthy_sql)
  ultimately show ?thesis
    by (simp add: closeTab_def i tabs_ok_def, simp add: rows_open_def rows, simp add: ok(2) rows_open_def take_map drop_map)
qed

lemma rename_tab_ok:
  assumes "tabs_ok (ts, s)" shows "tabs_ok (rename_tab i raw (ts, s))"
proof (cases "tab_name 24 raw")
  case (Some name)
  have ok: "rep_ok s" "ts = rows_open s" using assms by (simp_all add: tabs_ok_def)
  define s' where "s' = (tick s)\<lparr>t_repeater := t_update (\<lambda>(j, _). j = i) (\<lambda>r. r\<lparr>rp_name := name\<rparr>) (t_repeater s)\<rparr>"
  have "RenameRepeaterTab i name s = (Inr (), s')"
    using ok(1) by (simp add: RenameRepeaterTab_def rep_ok_def healthy_write healthy_sql s'_def)
  moreover have "rep_ok s'" using update_row [OF ok(1) _ s'_def] by simp
  moreover have "rows_open s' = map (\<lambda>t. if ot_id t = Some i then t\<lparr>ot_label := name\<rparr> else t) (rows_open s)"
    by (auto simp: s'_def rows_open_def t_update_def open_row_def scan_tab_def)
  ultimately show ?thesis by (simp add: rename_tab_def Some tabs_ok_def ok(2))
qed (use assms in \<open>simp add: rename_tab_def\<close>)

lemma update_tab_ok:
  assumes "tabs_ok (ts, s)" shows "tabs_ok (ts, snd (UpdateRepeaterTab i raw resp s))"
proof -
  have ok: "rep_ok s" "ts = rows_open s" using assms by (simp_all add: tabs_ok_def)
  define s' where "s' = (tick s)\<lparr>t_repeater := t_update (\<lambda>(j, _). j = i)
    (\<lambda>r. r\<lparr>rp_raw_request := raw, rp_last_response := resp\<rparr>) (t_repeater s)\<rparr>"
  have "UpdateRepeaterTab i raw resp s = (Inr (), s')"
    using ok(1) by (simp add: UpdateRepeaterTab_def rep_ok_def healthy_write healthy_sql s'_def)
  moreover have "rep_ok s'" using update_row [OF ok(1) _ s'_def] by simp
  moreover have "rows_open s' = rows_open s"
    by (auto simp: s'_def rows_open_def t_update_def open_row_def scan_tab_def)
  ultimately show ?thesis by (simp add: tabs_ok_def ok(2))
qed

lemma rep_step_ok:
  assumes "tabs_ok v" shows "tabs_ok (rep_step x v)"
proof -
  obtain ts s where v: "v = (ts, s)" by (cases v)
  have ok: "rep_ok s" "ts = rows_open s" using assms by (simp_all add: v tabs_ok_def)
  have save: "\<exists>i s'. SaveRepeaterTab (new_row name host port tls ty raw) s = (Inr i, s')
      \<and> tabs_ok (ts @ [open_row ((new_row name host port tls ty raw)\<lparr>rt_id := i\<rparr>)], s')" if "ty \<noteq> []" for name host port tls ty raw
    using save_row [OF ok(1), of "new_row name host port tls ty raw"] that by (auto simp: new_row_def tabs_ok_def ok(2))
  show ?thesis
  proof (cases x)
    case ONew
    then show ?thesis using save [of "''http''" "''New Tab''" "[]" 443 False "[]"]
      by (auto simp: rep_step_def CreateTab_def v Let_def)
  next
    case (OAdd name host port tls raw)
    then show ?thesis using save [of "''http''" name host port tls raw]
      by (auto simp: rep_step_def AddTab_def v Let_def)
  next
    case (OAddWS name u tls)
    then show ?thesis using save [of "''websocket''" name u 0 tls u]
      by (auto simp: rep_step_def AddWSTab_def v Let_def)
  next
    case (OClose k)
    then show ?thesis using assms closeTab_ok [of ts s k] by (simp add: rep_step_def v)
  next
    case (OSent i raw resp)
    show ?thesis using rename_tab_ok [OF assms [unfolded v], of i raw] update_tab_ok
      by (cases "rename_tab i raw (ts, s)") (simp add: rep_step_def OSent v)
  qed
qed

lemma rep_run_ok: "tabs_ok v \<Longrightarrow> tabs_ok (fold rep_step xs v)"
  by (induction xs arbitrary: v) (simp_all add: rep_step_ok)

lemma reopen_tabs: "tabs_ok v \<Longrightarrow> fst (build_tabs (snd v)) = fst v"
  by (simp add: tabs_ok_def build_tabs_rows)

text \<open>C28: Closing the project and opening it again loses no tab of the Repeater. Whatever tabs are created,
  sent to, renamed by a send and closed, in any order, the tabs \<open>build\<close> makes of the store afterwards are
  the open ones, in their order, with their labels and types.\<close>

theorem tabs_survive_restart:
  assumes "rep_ok s" and "fold rep_step xs (build_tabs s) = (ts, s')"
  shows "fst (build_tabs s') = ts"
  using reopen_tabs [OF rep_run_ok [of "build_tabs s" xs]] assms(2)
  by (simp add: build_tabs_rows [OF assms(1)] tabs_ok_def assms(1))

theorem tabs_survive_restart_witness:
  "map ot_label (fst (build_tabs (snd (fold rep_step
     [ONew, OAdd ''a'' ''h'' 80 False ''GET / HTTP/1.1'', OAddWS ''w'' ''ws://h/'' False, OSent 2 ''GET /x HTTP/1.1'' ''r'', OClose 0]
     (build_tabs demo_store))))) = [''GET /x'', ''w'']"
proof -
  let ?xs = "[ONew, OAdd ''a'' ''h'' 80 False ''GET / HTTP/1.1'', OAddWS ''w'' ''ws://h/'' False,
    OSent 2 ''GET /x HTTP/1.1'' ''r'', OClose 0]"
  have ok: "rep_ok demo_store"
    by (simp add: rep_ok_def demo_store_healthy, simp add: demo_store_def fresh_store_def new_file_def, simp add: empty_table_def)
  have n: "tab_name 24 ''GET /x HTTP/1.1'' = Some ''GET /x''" by code_simp
  have "map ot_label (fst (fold rep_step ?xs (build_tabs demo_store))) = [''GET /x'', ''w'']"
    by (simp add: build_tabs_rows ok)
      (simp add: rep_step_def CreateTab_def AddTab_def AddWSTab_def closeTab_def rename_tab_def n SaveRepeaterTab_def
        UpdateRepeaterTab_def RenameRepeaterTab_def DeleteRepeaterTab_def rows_open_def new_row_def open_row_def
        demo_store_def fresh_store_def new_file_def empty_table_def t_insert_def store_write_def sql_def tick_def Let_def)
  then show ?thesis using tabs_survive_restart [OF ok prod.collapse [symmetric], of ?xs] by simp
qed

end
