(* ===== verification/RepeaterWs.thy ===== *)
theory RepeaterWs
  imports App "HOL-Library.Multiset"
begin

text \<open>
  The WebSocket side of the Repeater (\<open>internal/ui/repeater_ws.go\<close>): one tab with its connection, the frames it
  shows, and the goroutines that dial, read and send, as a state machine over the event bus. A goroutine is
  its next steps: a dial in flight, a message read but not yet shown to the bus, a send that has not yet
  written. What a goroutine posts to the user interface waits in \<open>wt_posts\<close> and is run in order. What the
  peer sends, errors and times are arguments of the steps; a connection is a number, fresh with each dial
  that succeeds.
\<close>

section \<open>The tab\<close>

datatype wsConnState = wsDisconnected | wsConnecting | wsConnected

datatype ws_dir = DirError | DirConnected | DirClosed | DirRecv | DirSent

record wsFrame =
  fm_dir :: ws_dir
  fm_payload :: string
  fm_ts :: int

record wsTabState =
  wt_conn :: "nat option"
  wt_state :: wsConnState
  wt_conn_id :: nat
  wt_headers :: "(string \<times> string) list"
  wt_frames :: "wsFrame list"
  wt_payload :: string
  wt_url :: string
  wt_connect_text :: string
  wt_connect_on :: bool
  wt_send_on :: bool

definition buildWSTabItem :: "RepeaterTab \<Rightarrow> wsTabState" where
  "buildWSTabItem tab = \<lparr>wt_conn = None, wt_state = wsDisconnected, wt_conn_id = 0, wt_headers = [], wt_frames = [],
     wt_payload = [], wt_url = rt_raw_request tab, wt_connect_text = ''Connect'', wt_connect_on = True, wt_send_on = False\<rparr>"

definition updateConnectBtn :: "wsTabState \<Rightarrow> wsTabState" where
  "updateConnectBtn t = (case wt_state t of
     wsDisconnected \<Rightarrow> t\<lparr>wt_connect_text := ''Connect'', wt_connect_on := True, wt_send_on := False\<rparr>
   | wsConnecting \<Rightarrow> t\<lparr>wt_connect_text := ''Connecting...'', wt_connect_on := False, wt_send_on := False\<rparr>
   | wsConnected \<Rightarrow> t\<lparr>wt_connect_text := ''Disconnect'', wt_connect_on := True, wt_send_on := True\<rparr>)"

text \<open>The selection of a frame, and a frame added to the table and selected.\<close>

definition frame_selected :: "nat \<Rightarrow> wsTabState \<Rightarrow> wsTabState" where
  "frame_selected row t = (if row \<ge> length (wt_frames t) then t
     else let p = fm_payload (wt_frames t ! row) in t\<lparr>wt_payload := (if p = [] then ''(empty)'' else p)\<rparr>)"

definition add_frame :: "wsFrame \<Rightarrow> wsTabState \<Rightarrow> wsTabState" where
  "add_frame f t = (let t = t\<lparr>wt_frames := wt_frames t @ [f]\<rparr> in frame_selected (length (wt_frames t) - 1) t)"

definition clear_frames :: "wsTabState \<Rightarrow> wsTabState" where
  "clear_frames t = t\<lparr>wt_frames := [], wt_payload := []\<rparr>"

text \<open>The labels, in UTF-8, and the cells of the table; a time has its text from a parameter.\<close>

definition direction_text :: "ws_dir \<Rightarrow> string" where
  "direction_text d = (case d of
     DirError \<Rightarrow> [CHR 0xE2, CHR 0x9A, CHR 0xA0] @ '' Error''
   | DirConnected \<Rightarrow> [CHR 0xE2, CHR 0x9C, CHR 0x93] @ '' Connected''
   | DirClosed \<Rightarrow> [CHR 0xE2, CHR 0x9A, CHR 0xA0] @ '' Closed''
   | DirRecv \<Rightarrow> [CHR 0xE2, CHR 0x86, CHR 0x90] @ '' Recv''
   | DirSent \<Rightarrow> [CHR 0xE2, CHR 0x86, CHR 0x92] @ '' Sent'')"

definition frameCellValue :: "(int \<Rightarrow> string) \<Rightarrow> wsTabState \<Rightarrow> nat \<Rightarrow> nat \<Rightarrow> string" where
  "frameCellValue format t row col = (if row \<ge> length (wt_frames t) then []
     else let f = wt_frames t ! row in
       if col = 0 then direction_text (fm_dir f) else if col = 1 then format (fm_ts f)
       else if col = 2 then fm_payload f else [])"

definition frameCellStyle :: "wsTabState \<Rightarrow> nat \<Rightarrow> nat \<Rightarrow> importance" where
  "frameCellStyle t row col = (if col \<noteq> 0 \<or> row \<ge> length (wt_frames t) then MediumImportance
     else if fm_dir (wt_frames t ! row) = DirSent then HighImportance else SuccessImportance)"

text \<open>What the headers dialog saves, and the request headers made of it: no line breaks in a value.\<close>

definition save_headers :: "(string \<times> string) list \<Rightarrow> wsTabState \<Rightarrow> wsTabState" where
  "save_headers edited t = t\<lparr>wt_headers := filter (\<lambda>(k, v). trim_space k \<noteq> []) edited\<rparr>"

definition without_breaks :: "string \<Rightarrow> string" where
  "without_breaks s = filter (\<lambda>c. c \<noteq> CHR 0x0A \<and> c \<noteq> CHR 0x0D) s"

definition dial_headers :: "wsTabState \<Rightarrow> header" where
  "dial_headers t = fold (\<lambda>(k, v) h. if trim_space k \<noteq> [] then h_set h k (without_breaks v) else h) (wt_headers t) []"

section \<open>The goroutines\<close>

datatype ws_post = PostRecv wsFrame | PostSent string | PostSendFailed string | PostClosed nat string

datatype send_phase = SendQueued | SendWriting string

text \<open>
  \<open>wx_live\<close> are the connections neither closed by the tab nor ended by the peer; \<open>wx_read\<close> the messages read and not
  yet shown to the bus, with the connection they came from; \<open>wx_wire\<close> what was written, by connection.
\<close>

record 'w ws_world =
  wx_tab :: wsTabState
  wx_bus :: 'w
  wx_dial :: "(string \<times> header) option"
  wx_next :: nat
  wx_live :: "nat list"
  wx_loops :: "nat list"
  wx_read :: "(nat \<times> int \<times> string) list"
  wx_sends :: "(nat \<times> string \<times> send_phase) list"
  wx_posts :: "ws_post list"
  wx_wire :: "(nat \<times> string) list"

definition on_tab :: "(wsTabState \<Rightarrow> wsTabState) \<Rightarrow> 'w ws_world \<Rightarrow> 'w ws_world" where
  "on_tab f x = x\<lparr>wx_tab := f (wx_tab x)\<rparr>"

definition disconnect :: "'w ws_world \<Rightarrow> 'w ws_world" where
  "disconnect x = (let x = (case wt_conn (wx_tab x) of None \<Rightarrow> x
       | Some c \<Rightarrow> on_tab (\<lambda>t. t\<lparr>wt_conn := None\<rparr>) (x\<lparr>wx_live := removeAll c (wx_live x)\<rparr>))
     in on_tab (\<lambda>t. updateConnectBtn (t\<lparr>wt_state := wsDisconnected\<rparr>)) x)"

text \<open>The Connect button; what it saves of the URL is \<open>UpdateRepeaterTab\<close> of the store.\<close>

definition connect_tapped :: "'w ws_world \<Rightarrow> 'w ws_world" where
  "connect_tapped x = (let t = wx_tab x in
     if \<not> wt_connect_on t then x
     else if wt_state t = wsConnected then disconnect x
     else let rawURL = trim_space (wt_url t) in
       if rawURL = [] then x
       else (on_tab (\<lambda>t. updateConnectBtn (t\<lparr>wt_state := wsConnecting\<rparr>)) x)\<lparr>wx_dial := Some (rawURL, dial_headers t)\<rparr>)"

definition dial_failed :: "string \<Rightarrow> int \<Rightarrow> 'w ws_world \<Rightarrow> 'w ws_world" where
  "dial_failed err now x = (case wx_dial x of None \<Rightarrow> x
     | Some _ \<Rightarrow> on_tab (\<lambda>t. add_frame \<lparr>fm_dir = DirError, fm_payload = err, fm_ts = now\<rparr>
         (updateConnectBtn (t\<lparr>wt_state := wsDisconnected\<rparr>))) (x\<lparr>wx_dial := None\<rparr>))"

definition dial_done :: "'w bus \<Rightarrow> int \<Rightarrow> 'w ws_world \<Rightarrow> 'w ws_world" where
  "dial_done b now x = (case wx_dial x of None \<Rightarrow> x
     | Some (rawURL, _) \<Rightarrow> (let conn = wx_next x;
           (i, w) = EmitWebSocketConnection b \<lparr>wc_host = rawURL, wc_url = rawURL, wc_tls = has_prefix rawURL ''wss://'',
             wc_timestamp = now\<rparr> (wx_bus x)
         in on_tab (\<lambda>t. add_frame \<lparr>fm_dir = DirConnected, fm_payload = rawURL, fm_ts = now\<rparr>
             ((updateConnectBtn (t\<lparr>wt_conn := Some conn, wt_state := wsConnected\<rparr>))\<lparr>wt_conn_id := i\<rparr>))
           (x\<lparr>wx_dial := None, wx_bus := w, wx_next := Suc conn, wx_live := conn # wx_live x, wx_loops := conn # wx_loops x\<rparr>)))"

text \<open>
  The read loop of a connection, in two steps: \<open>ReadMessage\<close> returns, and the message goes to the bus under the
  id the tab has then, and is posted. A message still in the reader's buffer is read even after the
  connection was closed.
\<close>

definition loop_reads :: "nat \<Rightarrow> int \<Rightarrow> string \<Rightarrow> 'w ws_world \<Rightarrow> 'w ws_world" where
  "loop_reads c opcode payload x = (if c \<in> set (wx_loops x) \<and> c \<notin> fst ` set (wx_read x)
     then x\<lparr>wx_read := wx_read x @ [(c, opcode, payload)]\<rparr> else x)"

definition loop_emits :: "'w bus \<Rightarrow> nat \<Rightarrow> int \<Rightarrow> 'w ws_world \<Rightarrow> 'w ws_world" where
  "loop_emits b c now x = (case map_of (wx_read x) c of None \<Rightarrow> x
     | Some (opcode, payload) \<Rightarrow>
         (let (r, w) = EmitWebSocketFrame b (frame_event (wt_conn_id (wx_tab x)) now WebSocketServer opcode payload) (wx_bus x)
          in x\<lparr>wx_bus := w, wx_read := filter (\<lambda>r. fst r \<noteq> c) (wx_read x), wx_posts := wx_posts x
            @ [PostRecv \<lparr>fm_dir = DirRecv, fm_payload = payload_bytes (fr_payload r), fm_ts = now\<rparr>]\<rparr>))"

definition loop_ends :: "nat \<Rightarrow> string \<Rightarrow> 'w ws_world \<Rightarrow> 'w ws_world" where
  "loop_ends c err x = (if c \<in> set (wx_loops x) \<and> c \<notin> fst ` set (wx_read x)
     then x\<lparr>wx_loops := removeAll c (wx_loops x), wx_live := removeAll c (wx_live x),
       wx_posts := wx_posts x @ [PostClosed c err]\<rparr>
     else x)"

definition run_post :: "int \<Rightarrow> 'w ws_world \<Rightarrow> 'w ws_world" where
  "run_post now x = (case wx_posts x of [] \<Rightarrow> x
     | p # ps \<Rightarrow> (let x = x\<lparr>wx_posts := ps\<rparr> in case p of
         PostRecv f \<Rightarrow> on_tab (add_frame f) x
       | PostSent payload \<Rightarrow> on_tab (add_frame \<lparr>fm_dir = DirSent, fm_payload = payload, fm_ts = now\<rparr>) x
       | PostSendFailed err \<Rightarrow> on_tab (add_frame \<lparr>fm_dir = DirError, fm_payload = ''send failed: '' @ err, fm_ts = now\<rparr>) x
       | PostClosed c err \<Rightarrow>
           (if wt_conn (wx_tab x) = Some c
            then on_tab (\<lambda>t. add_frame \<lparr>fm_dir = DirClosed, fm_payload = err, fm_ts = now\<rparr>
              (updateConnectBtn (t\<lparr>wt_conn := None, wt_state := wsDisconnected\<rparr>))) x
            else x)))"

text \<open>The Send button and its goroutine: show the frame to the bus, write it, post the outcome.\<close>

definition send_tapped :: "string \<Rightarrow> 'w ws_world \<Rightarrow> 'w ws_world" where
  "send_tapped entry x = (let t = wx_tab x; payload = replace_all (replace_all entry CRLF []) LF [] in
     case wt_conn t of
       Some c \<Rightarrow> (if wt_send_on t \<and> wt_state t = wsConnected \<and> payload \<noteq> []
         then x\<lparr>wx_sends := wx_sends x @ [(c, payload, SendQueued)]\<rparr> else x)
     | None \<Rightarrow> x)"

definition send_emits :: "'w bus \<Rightarrow> nat \<Rightarrow> int \<Rightarrow> 'w ws_world \<Rightarrow> 'w ws_world" where
  "send_emits b k now x = (if k < length (wx_sends x) then
     (case wx_sends x ! k of
        (c, payload, SendQueued) \<Rightarrow>
          (let (r, w) = EmitWebSocketFrame b (frame_event (wt_conn_id (wx_tab x)) now WebSocketClient 1 payload) (wx_bus x)
           in x\<lparr>wx_bus := w, wx_sends := (wx_sends x)[k := (c, payload, SendWriting (payload_bytes (fr_payload r)))]\<rparr>)
      | _ \<Rightarrow> x) else x)"

definition send_writes :: "nat \<Rightarrow> string option \<Rightarrow> 'w ws_world \<Rightarrow> 'w ws_world" where
  "send_writes k err x = (if k < length (wx_sends x) then
     (case wx_sends x ! k of
        (c, _, SendWriting p) \<Rightarrow>
          (let x = x\<lparr>wx_sends := take k (wx_sends x) @ drop (Suc k) (wx_sends x)\<rparr> in
           case err of
             Some e \<Rightarrow> x\<lparr>wx_posts := wx_posts x @ [PostSendFailed e]\<rparr>
           | None \<Rightarrow> x\<lparr>wx_wire := wx_wire x @ [(c, p)],
               wx_posts := wx_posts x @ [PostSent p]\<rparr>)
      | _ \<Rightarrow> x) else x)"

datatype ws_event = WUrl string | WHeaders "(string \<times> string) list" | WConnect | WDialed int | WDialFailed string int
  | WRead nat int string | WEmit nat int | WEnd nat string | WPost int | WSend string | WSendEmit nat int
  | WWrite nat "string option" | WClear | WSelect nat

definition ws_step :: "'w bus \<Rightarrow> ws_event \<Rightarrow> 'w ws_world \<Rightarrow> 'w ws_world" where
  "ws_step b e = (case e of
     WUrl u \<Rightarrow> on_tab (\<lambda>t. t\<lparr>wt_url := u\<rparr>)
   | WHeaders hs \<Rightarrow> on_tab (save_headers hs)
   | WConnect \<Rightarrow> connect_tapped
   | WDialed now \<Rightarrow> dial_done b now
   | WDialFailed err now \<Rightarrow> dial_failed err now
   | WRead c opcode payload \<Rightarrow> loop_reads c opcode payload
   | WEmit c now \<Rightarrow> loop_emits b c now
   | WEnd c err \<Rightarrow> loop_ends c err
   | WPost now \<Rightarrow> run_post now
   | WSend p \<Rightarrow> send_tapped p
   | WSendEmit k now \<Rightarrow> send_emits b k now
   | WWrite k err \<Rightarrow> send_writes k err
   | WClear \<Rightarrow> on_tab clear_frames
   | WSelect k \<Rightarrow> on_tab (frame_selected k))"

definition ws_start :: "RepeaterTab \<Rightarrow> 'w \<Rightarrow> 'w ws_world" where
  "ws_start tab w = \<lparr>wx_tab = buildWSTabItem tab, wx_bus = w, wx_dial = None, wx_next = 0, wx_live = [], wx_loops = [],
     wx_read = [], wx_sends = [], wx_posts = [], wx_wire = []\<rparr>"

definition ws_run :: "'w bus \<Rightarrow> ws_event list \<Rightarrow> 'w ws_world \<Rightarrow> 'w ws_world" where
  "ws_run b es x = fold (ws_step b) es x"

section \<open>The tab and its connection\<close>

fun closed_conns :: "ws_post list \<Rightarrow> nat list" where
  "closed_conns [] = []"
| "closed_conns (p # ps) = (case p of PostClosed c _ \<Rightarrow> [c] | _ \<Rightarrow> []) @ closed_conns ps"

lemma closed_conns_append [simp]: "closed_conns (ps @ qs) = closed_conns ps @ closed_conns qs"
  by (induction ps) simp_all

definition ws_tab_ok :: "'w ws_world \<Rightarrow> bool" where
  "ws_tab_ok x = (let t = wx_tab x in
     (wt_state t = wsConnected) = (wt_conn t \<noteq> None) \<and> (wt_state t = wsConnecting) = (wx_dial x \<noteq> None)
     \<and> wt_send_on t = (wt_state t = wsConnected) \<and> wt_connect_on t = (wt_state t \<noteq> wsConnecting)
     \<and> set (wx_live x) \<subseteq> set_option (wt_conn t)
     \<and> (\<forall>c \<in> set_option (wt_conn t) \<union> set (wx_loops x). c < wx_next x)
     \<and> (\<forall>c \<in> set (closed_conns (wx_posts x)). c \<notin> set (wx_live x) \<and> c < wx_next x))"

lemma on_tab_same [simp]:
  "wx_tab (on_tab f x) = f (wx_tab x)" "wx_dial (on_tab f x) = wx_dial x" "wx_live (on_tab f x) = wx_live x"
  "wx_next (on_tab f x) = wx_next x" "wx_loops (on_tab f x) = wx_loops x" "wx_bus (on_tab f x) = wx_bus x"
  "wx_posts (on_tab f x) = wx_posts x" "wx_wire (on_tab f x) = wx_wire x" "wx_read (on_tab f x) = wx_read x"
  "wx_sends (on_tab f x) = wx_sends x"
  by (simp_all add: on_tab_def)

lemma updateConnectBtn_same [simp]:
  "wt_conn (updateConnectBtn t) = wt_conn t" "wt_state (updateConnectBtn t) = wt_state t"
  "wt_frames (updateConnectBtn t) = wt_frames t" "wt_conn_id (updateConnectBtn t) = wt_conn_id t"
  "wt_send_on (updateConnectBtn t) = (wt_state t = wsConnected)"
  "wt_connect_on (updateConnectBtn t) = (wt_state t \<noteq> wsConnecting)"
  by (simp_all add: updateConnectBtn_def split: wsConnState.split)

lemma add_frame_same [simp]:
  "wt_conn (add_frame f t) = wt_conn t" "wt_state (add_frame f t) = wt_state t" "wt_send_on (add_frame f t) = wt_send_on t"
  "wt_connect_on (add_frame f t) = wt_connect_on t" "wt_conn_id (add_frame f t) = wt_conn_id t"
  "wt_frames (add_frame f t) = wt_frames t @ [f]"
  by (simp_all add: add_frame_def frame_selected_def Let_def)

lemma frame_selected_same [simp]:
  "wt_conn (frame_selected k t) = wt_conn t" "wt_state (frame_selected k t) = wt_state t"
  "wt_send_on (frame_selected k t) = wt_send_on t" "wt_connect_on (frame_selected k t) = wt_connect_on t"
  "wt_frames (frame_selected k t) = wt_frames t" "wt_conn_id (frame_selected k t) = wt_conn_id t"
  by (simp_all add: frame_selected_def Let_def)

lemmas ws_step_defs = ws_step_def connect_tapped_def disconnect_def dial_done_def dial_failed_def loop_reads_def loop_emits_def
  loop_ends_def run_post_def send_tapped_def send_emits_def send_writes_def save_headers_def clear_frames_def

lemma ws_step_ok:
  assumes "ws_tab_ok x" shows "ws_tab_ok (ws_step b e x)"
proof (cases e)
  case WConnect
  then show ?thesis using assms
    by (auto simp: ws_tab_ok_def ws_step_defs Let_def split: option.splits)
next
  case (WDialed now)
  then show ?thesis using assms
    by (auto simp: ws_tab_ok_def ws_step_defs Let_def intro: less_SucI split: option.splits prod.splits)
next
  case (WDialFailed err now)
  then show ?thesis using assms by (auto simp: ws_tab_ok_def ws_step_defs Let_def split: option.splits)
next
  case (WPost now)
  then show ?thesis using assms
    by (auto simp: ws_tab_ok_def ws_step_defs Let_def dest!: subset_singletonD split: list.splits ws_post.splits)
qed (use assms in \<open>auto simp: ws_tab_ok_def ws_step_defs Let_def
      split: if_splits option.splits prod.splits send_phase.splits\<close>)


section \<open>What is shown and what is recorded\<close>

text \<open>The frames a step shows to the bus, the payloads shown or waiting to be shown as received.\<close>

definition emitted :: "ws_event \<Rightarrow> 'w ws_world \<Rightarrow> WebSocketFrameEvent list" where
  "emitted e x = (case e of
     WEmit c now \<Rightarrow> (case map_of (wx_read x) c of None \<Rightarrow> []
       | Some (opcode, payload) \<Rightarrow> [frame_event (wt_conn_id (wx_tab x)) now WebSocketServer opcode payload])
   | WSendEmit k now \<Rightarrow> (if k < length (wx_sends x) then (case wx_sends x ! k of
         (c, payload, SendQueued) \<Rightarrow> [frame_event (wt_conn_id (wx_tab x)) now WebSocketClient 1 payload] | _ \<Rightarrow> []) else [])
   | _ \<Rightarrow> [])"

fun all_emitted :: "'w bus \<Rightarrow> ws_event list \<Rightarrow> 'w ws_world \<Rightarrow> WebSocketFrameEvent list" where
  "all_emitted b [] x = []"
| "all_emitted b (e # es) x = emitted e x @ all_emitted b es (ws_step b e x)"

definition received :: "'w ws_world \<Rightarrow> string list" where
  "received x = map fm_payload (filter (\<lambda>f. fm_dir f = DirRecv) (wt_frames (wx_tab x)))
     @ concat (map (\<lambda>p. case p of PostRecv f \<Rightarrow> [fm_payload f] | _ \<Rightarrow> []) (wx_posts x))"

definition recv_ok :: "'w ws_world \<Rightarrow> bool" where
  "recv_ok x = (\<forall>f. PostRecv f \<in> set (wx_posts x) \<longrightarrow> fm_dir f = DirRecv)"

definition one_connection :: "ws_event \<Rightarrow> bool" where
  "one_connection e = (case e of WDialed _ \<Rightarrow> False | WClear \<Rightarrow> False | _ \<Rightarrow> True)"

definition server_payloads :: "WebSocketFrameEvent list \<Rightarrow> string list" where
  "server_payloads es = map (\<lambda>e. payload_bytes (wf_payload e)) (filter (\<lambda>e. wf_direction e = WebSocketServer) es)"

lemma observe_frames_append: "observe_frames c (es @ fs) s = observe_frames c fs (observe_frames c es s)"
  by (simp add: observe_frames_def)

lemma emitted_conn: "\<forall>f \<in> set (emitted e x). wf_conn_id f = wt_conn_id (wx_tab x)"
proof (cases e)
  case (WSendEmit k now)
  obtain c payload ph where p: "wx_sends x ! k = (c, payload, ph)" by (cases "wx_sends x ! k")
  show ?thesis
    by (cases "k < length (wx_sends x)"; cases ph) (simp_all add: p WSendEmit emitted_def frame_event_def)
qed (auto simp: emitted_def frame_event_def split: option.splits)

lemma ws_step_recorded:
  assumes b: "register_all (app_handlers pj True) NewBus = Inr b" and i: "app_idle pj (wx_bus x)"
    and r: "recv_ok x" and one: "one_connection e"
  shows "app_idle pj (wx_bus (ws_step b e x)) \<and> recv_ok (ws_step b e x)
    \<and> wt_conn_id (wx_tab (ws_step b e x)) = wt_conn_id (wx_tab x)
    \<and> wd_store (wx_bus (ws_step b e x)) = observe_frames (pj_codec pj) (emitted e x) (wd_store (wx_bus x))
    \<and> received (ws_step b e x) = received x @ server_payloads (emitted e x)"
proof -
  note emit = app_frame_idle [OF b i]
  show ?thesis
  proof (cases e)
    case (WEmit c now)
    then show ?thesis using i r
      by (auto simp: ws_step_def loop_emits_def emit emitted_def recv_ok_def received_def server_payloads_def
          observe_frames_def on_store_def frame_event_def Let_def split: option.splits)
  next
    case (WSendEmit k now)
    obtain c payload ph where p: "wx_sends x ! k = (c, payload, ph)" by (cases "wx_sends x ! k")
    show ?thesis using i r
      by (cases "k < length (wx_sends x)"; cases ph) (simp_all add: WSendEmit p ws_step_def send_emits_def emit emitted_def recv_ok_def received_def
          server_payloads_def observe_frames_def on_store_def frame_event_def WebSocketClient_def WebSocketServer_def Let_def)
  next
    case (WPost now)
    then show ?thesis using i r
      by (auto simp: ws_step_def run_post_def emitted_def recv_ok_def received_def server_payloads_def
          observe_frames_def Let_def split: list.splits ws_post.splits)
  qed (use i r one in \<open>auto simp: one_connection_def ws_step_defs emitted_def recv_ok_def received_def server_payloads_def
      observe_frames_def Let_def split: if_splits option.splits prod.splits send_phase.splits\<close>)
qed

lemma ws_run_recorded:
  assumes b: "register_all (app_handlers pj True) NewBus = Inr b"
  shows "app_idle pj (wx_bus x) \<Longrightarrow> recv_ok x \<Longrightarrow> list_all one_connection es \<Longrightarrow>
      wd_store (wx_bus (ws_run b es x)) = observe_frames (pj_codec pj) (all_emitted b es x) (wd_store (wx_bus x))
    \<and> received (ws_run b es x) = received x @ server_payloads (all_emitted b es x)
    \<and> (\<forall>e \<in> set (all_emitted b es x). wf_conn_id e = wt_conn_id (wx_tab x))"
proof (induction es arbitrary: x)
  case (Cons e es)
  have s: "one_connection e" "list_all one_connection es" using Cons.prems(3) by simp_all
  note st = ws_step_recorded [OF b Cons.prems(1,2) s(1)]
  then have "app_idle pj (wx_bus (ws_step b e x))" "recv_ok (ws_step b e x)" by blast+
  note ih = Cons.IH [OF this s(2)]
  have "ws_run b (e # es) x = ws_run b es (ws_step b e x)" by (simp add: ws_run_def)
  with ih st emitted_conn [of e x] show ?case by (auto simp: observe_frames_append server_payloads_def)
qed (simp add: ws_run_def observe_frames_def server_payloads_def)

text \<open>While one connection of a WebSocket tab lasts, the tab and the store tell the same story: with no plugin in the
  way, whatever is sent and received, the frames the store returns for the connection are those it held
  before and then every frame shown to the bus, in order, and what the tab shows or is about to show as
  received are the payloads of the recorded frames of the server, in order.\<close>

theorem ws_tab_recorded:
  assumes b: "register_all (app_handlers pj True) NewBus = Inr b" and idle: "app_idle pj (wx_bus x)"
    and st: "healthy (wd_store (wx_bus x))" "t_ok (t_ws_frames (wd_store (wx_bus x)))" "time_law (pj_codec pj)"
    and run: "recv_ok x" "list_all one_connection es" "wt_conn_id (wx_tab x) = i" "i \<noteq> 0" "y = ws_run b es x"
    and old: "fst (FramesForConnection (pj_codec pj) i (wd_store (wx_bus x))) = Inr old"
  shows "(\<exists>fs. fst (FramesForConnection (pj_codec pj) i (wd_store (wx_bus y))) = Inr fs
      \<and> map frame_data fs = map frame_data old @ map event_data (all_emitted b es x))
    \<and> received y = received x @ server_payloads (all_emitted b es x)"
proof -
  note r = ws_run_recorded [OF b idle run(1,2)]
  have y: "wd_store (wx_bus y) = observe_frames (pj_codec pj) (all_emitted b es x) (wd_store (wx_bus x))"
    using r by (simp add: run(5))
  have "healthy (wd_store (wx_bus y))" using observe_frames_rows [OF st(1,2)] by (simp add: y)
  then obtain fs where fs: "fst (FramesForConnection (pj_codec pj) i (wd_store (wx_bus y))) = Inr fs"
    by (simp add: FramesForConnection_eq)
  have "filter (\<lambda>e. wf_conn_id e = i) (all_emitted b es x) = all_emitted b es x"
    using r run(3) by (simp add: filter_id_conv)
  with frames_after [OF st run(4) old fs [unfolded y]] fs r run(5) show ?thesis by auto
qed

definition demo_ws :: "script world ws_world" where
  "demo_ws = (ws_start (demo_tab\<lparr>rt_raw_request := ''ws://h/''\<rparr>) (px_bus demo_world))\<lparr>
     wx_tab := (buildWSTabItem demo_tab)\<lparr>wt_conn := Some 0, wt_conn_id := 3, wt_state := wsConnected, wt_send_on := True\<rparr>,
     wx_next := 1, wx_live := [0], wx_loops := [0]\<rparr>"

theorem ws_tab_recorded_witness:
  "\<exists>b y fs. y = ws_run b [WSend ''ping'', WRead 0 1 ''pong'', WSendEmit 0 0, WEmit 0 0, WWrite 0 None, WPost 0] demo_ws
    \<and> received y = [''pong''] \<and> fst (FramesForConnection app_codec 3 (wd_store (wx_bus y))) = Inr fs
    \<and> map frame_data fs = [(0, 0, 1, Some ''ping''), (0, 1, 1, Some ''pong'')]"
proof -
  obtain b where b: "register_all (app_handlers demo_project True) NewBus = Inr b" using app_registers by blast
  let ?es = "[WSend ''ping'', WRead 0 1 ''pong'', WSendEmit 0 0, WEmit 0 0, WWrite 0 None, WPost 0]"
  let ?y = "ws_run b ?es demo_ws"
  have bus: "wx_bus demo_ws = px_bus demo_world" by (simp add: demo_ws_def ws_start_def)
  have one: "recv_ok demo_ws" "list_all one_connection ?es" "wt_conn_id (wx_tab demo_ws) = 3"
    by (simp_all add: recv_ok_def demo_ws_def ws_start_def one_connection_def)
  have p: "replace_all (replace_all ''ping'' CRLF []) LF [] = ''ping''" by code_simp
  have ev: "all_emitted b ?es demo_ws = [frame_event 3 0 WebSocketClient 1 ''ping'', frame_event 3 0 WebSocketServer 1 ''pong'']"
    using p by (simp add: demo_ws_def ws_start_def emitted_def ws_step_def send_tapped_def loop_reads_def send_emits_def
        loop_emits_def send_writes_def run_post_def case_prod_beta Let_def del: replace_all_def)
  have tl: "time_law (pj_codec demo_project)" using app_codec_laws by (simp add: demo_project_def)
  have old: "fst (FramesForConnection (pj_codec demo_project) 3 (wd_store (wx_bus demo_ws))) = Inr []"
    unfolding bus by (simp add: FramesForConnection_eq demo_world_ok(2))
       (simp add: demo_world_def demo_store_def fresh_store_def new_file_def t_asc_rows, simp add: empty_table_def)
  have pc: "pj_codec demo_project = app_codec" by (simp add: demo_project_def)
  have data: "map event_data (all_emitted b ?es demo_ws) = [(0, 0, 1, Some ''ping''), (0, 1, 1, Some ''pong'')]"
    "server_payloads (all_emitted b ?es demo_ws) = [''pong'']"
    unfolding ev by (simp_all add: frame_event_def event_data_def stored_payload_def wsFrameSizeLimit_def WebSocketClient_def
        WebSocketServer_def server_payloads_def payload_bytes_def)
  have r0: "received demo_ws = []" by (simp add: received_def demo_ws_def ws_start_def buildWSTabItem_def)
  from ws_tab_recorded [OF b _ _ _ tl one(1,2,3) _ refl old] demo_world_ok(1,2,4)
  show ?thesis unfolding data r0 pc bus by (intro exI [of _ b] exI [of _ ?y]) auto
qed

section \<open>What is shown as sent\<close>

text \<open>The payloads shown, or waiting to be shown, as sent.\<close>

definition sent_shown :: "'w ws_world \<Rightarrow> string multiset" where
  "sent_shown x = mset (map fm_payload (filter (\<lambda>f. fm_dir f = DirSent) (wt_frames (wx_tab x))))
     + mset (concat (map (\<lambda>p. case p of PostSent q \<Rightarrow> [q] | _ \<Rightarrow> []) (wx_posts x)))"

lemma ws_step_recv_ok: "recv_ok x \<Longrightarrow> recv_ok (ws_step b e x)"
proof (cases e)
  case (WSendEmit k now)
  assume "recv_ok x"
  moreover obtain c payload ph where "wx_sends x ! k = (c, payload, ph)" by (cases "wx_sends x ! k")
  ultimately show ?thesis
    by (cases ph) (auto simp: WSendEmit ws_step_def send_emits_def recv_ok_def Let_def split: prod.split)
next
  case (WWrite k err)
  assume "recv_ok x"
  moreover obtain c payload ph where "wx_sends x ! k = (c, payload, ph)" by (cases "wx_sends x ! k")
  ultimately show ?thesis
    by (cases ph) (auto simp: WWrite ws_step_def send_writes_def recv_ok_def Let_def split: option.split)
qed (auto simp: ws_step_defs recv_ok_def Let_def split: if_splits option.splits prod.splits list.splits ws_post.splits)

lemma ws_step_sent:
  assumes "recv_ok x" "sent_shown x \<subseteq># mset (map snd (wx_wire x))"
  shows "sent_shown (ws_step b e x) \<subseteq># mset (map snd (wx_wire (ws_step b e x)))"
proof (cases e)
  case (WSendEmit k now)
  obtain c payload ph where "wx_sends x ! k = (c, payload, ph)" by (cases "wx_sends x ! k")
  then show ?thesis using assms(2)
    by (cases ph) (simp_all add: WSendEmit ws_step_def send_emits_def sent_shown_def case_prod_beta Let_def)
next
  case (WWrite k err)
  obtain c payload ph where "wx_sends x ! k = (c, payload, ph)" by (cases "wx_sends x ! k")
  then show ?thesis using assms(2)
    by (cases ph; cases err) (simp_all add: WWrite ws_step_def send_writes_def sent_shown_def Let_def)
next
  case WClear
  have "sent_shown (ws_step b WClear x) \<subseteq># sent_shown x"
    by (simp add: ws_step_def clear_frames_def sent_shown_def)
  also have "\<dots> \<subseteq># mset (map snd (wx_wire x))" by (rule assms(2))
  finally show ?thesis by (simp add: WClear ws_step_def)
next
  case (WPost now)
  show ?thesis
  proof (cases "wx_posts x")
    case (Cons p ps)
    then show ?thesis using assms
      by (cases p) (auto simp: WPost ws_step_def run_post_def sent_shown_def recv_ok_def Let_def)
  qed (use assms in \<open>simp add: WPost ws_step_def run_post_def\<close>)
qed (use assms(2) in \<open>simp_all add: ws_step_defs sent_shown_def Let_def case_prod_beta split: option.split\<close>)

text \<open>What a WebSocket tab shows as sent was written: in every run each payload it shows or is about to show as sent
  stands for a message written to a connection, counted with repetitions.\<close>

theorem shown_sent_was_written:
  "sent_shown (ws_run b es (ws_start tab w)) \<subseteq># mset (map snd (wx_wire (ws_run b es (ws_start tab w))))"
proof -
  have "recv_ok x \<and> sent_shown x \<subseteq># mset (map snd (wx_wire x)) \<Longrightarrow>
      sent_shown (ws_run b es x) \<subseteq># mset (map snd (wx_wire (ws_run b es x)))" for x
    by (induction es arbitrary: x) (simp_all add: ws_run_def ws_step_recv_ok ws_step_sent [simplified])
  then show ?thesis by (simp add: recv_ok_def sent_shown_def ws_start_def buildWSTabItem_def)
qed

section \<open>What the buttons leave open\<close>

text \<open>
  A message read from a connection before the user reconnects is recorded under the id of the new connection:
  the goroutine reads the id from the tab when it shows the message to the bus.
\<close>

lemma late_frame_new_connection:
  assumes "wt_conn (wx_tab x) = Some c" "wt_state (wx_tab x) = wsConnected" "wt_connect_on (wx_tab x)"
    and "trim_space (wt_url (wx_tab x)) = u" "u \<noteq> []" "map_of (wx_read x) c = Some (opcode, p)"
  shows "all_emitted b [WConnect, WConnect, WDialed n, WEmit c m] x
    = [frame_event (fst (EmitWebSocketConnection b \<lparr>wc_host = u, wc_url = u, wc_tls = has_prefix u ''wss://'', wc_timestamp = n\<rparr>
        (wx_bus x))) m WebSocketServer opcode p]"
  using assms by (simp add: ws_step_def connect_tapped_def disconnect_def dial_done_def loop_emits_def emitted_def
      case_prod_beta Let_def updateConnectBtn_def)

text \<open>Two presses of Send can have both goroutines in \<open>WriteMessage\<close> of one connection at the same time.\<close>

lemma two_writes_at_once:
  assumes "wt_conn (wx_tab x) = Some c" "wt_state (wx_tab x) = wsConnected" "wt_send_on (wx_tab x)" "wx_sends x = []"
  shows "\<exists>p q. wx_sends (ws_run b [WSend ''a'', WSend ''b'', WSendEmit 0 n, WSendEmit 1 m] x)
    = [(c, ''a'', SendWriting p), (c, ''b'', SendWriting q)]"
proof -
  have p: "replace_all (replace_all ''a'' CRLF []) LF [] = ''a''" "replace_all (replace_all ''b'' CRLF []) LF [] = ''b''"
    by code_simp+
  show ?thesis using assms
    by (simp add: ws_run_def ws_step_def send_tapped_def send_emits_def p case_prod_beta Let_def)
qed

end
