(* ===== verification/DataTable.thy ===== *)
theory DataTable
  imports Runes Scrollbar
begin

text \<open>
  The table widget every list of the program is shown in (\<open>internal/ui/widgets/datatable.go\<close>): the selection, the
  scrolling by wheel, thumb and keys, the rows and texts on display, and the dragging of a column's edge.
  Pixels are rational numbers. The callbacks all tables set are data: \<open>RowID\<close> over all rows is the list \<open>dt_rows\<close>, so
  \<open>RowCount\<close> is its length; the others, and what text measures, are the record \<open>dt_env\<close>. \<open>dt_log\<close> is the list
  of calls to \<open>OnSelect\<close> and \<open>OnNearBottom\<close>. \<open>dt_size\<close> is the renderer's size, \<open>None\<close> before there is one.
\<close>

section \<open>State and layout\<close>

definition dtRowH :: rat where "dtRowH = 32"
definition dtHdrH :: rat where "dtHdrH = 34"
definition dtPadX :: rat where "dtPadX = 8"
definition dtDivW :: rat where "dtDivW = 6"
definition dtScrollW :: rat where "dtScrollW = 8"
definition dtNearBottomThreshold :: int where "dtNearBottomThreshold = 20"

datatype dt_call = CalledSelect int | CalledNearBottom

record dt_env =
  de_measure :: "bool \<Rightarrow> string \<Rightarrow> rat"
  de_cell :: "int \<Rightarrow> nat \<Rightarrow> string"
  de_near_bottom :: bool

record data_table =
  dt_columns :: "(string \<times> rat) list"
  dt_rows :: "int list"
  dt_widths :: "rat list"
  dt_selected_id :: int
  dt_selected_row :: int
  dt_has_selected :: bool
  dt_offset :: int
  dt_frac :: rat
  dt_near_fired :: bool
  dt_hovered :: bool
  dt_size :: "(rat \<times> rat) option"
  dt_slots :: nat
  dt_dragging :: bool
  dt_log :: "dt_call list"

definition initColWidths :: "data_table \<Rightarrow> data_table" where
  "initColWidths t = (if length (dt_widths t) = length (dt_columns t) then t
     else t\<lparr>dt_widths := map snd (dt_columns t)\<rparr>)"

definition NewDataTable :: "(string \<times> rat) list \<Rightarrow> int list \<Rightarrow> data_table" where
  "NewDataTable cols rows = initColWidths \<lparr>dt_columns = cols, dt_rows = rows, dt_widths = [], dt_selected_id = 0,
     dt_selected_row = 0, dt_has_selected = False, dt_offset = 0, dt_frac = 0, dt_near_fired = False, dt_hovered = False,
     dt_size = None, dt_slots = 0, dt_dragging = False, dt_log = []\<rparr>"

definition rowCount :: "data_table \<Rightarrow> int" where
  "rowCount t = int (length (dt_rows t))"

definition visibleSlots :: "data_table \<Rightarrow> int" where
  "visibleSlots t = (case dt_size t of None \<Rightarrow> 1
     | Some (_, h) \<Rightarrow> (let avail = h - dtHdrH in if avail < 0 then 0 else trunc (avail / dtRowH) + 2))"

text \<open>\<open>growSlots\<close>: the number of row objects, which only grows.\<close>

definition growSlots :: "data_table \<Rightarrow> data_table" where
  "growSlots t = (case dt_size t of None \<Rightarrow> t
     | Some (_, h) \<Rightarrow> t\<lparr>dt_slots := max (dt_slots t) (nat (trunc (max (h - dtHdrH) 0 / dtRowH) + 2))\<rparr>)"

definition dt_layout :: "rat \<times> rat \<Rightarrow> data_table \<Rightarrow> data_table" where
  "dt_layout sz t = growSlots (t\<lparr>dt_size := Some sz\<rparr>)"

text \<open>Position and height of the scrollbar thumb.\<close>

definition thumbBounds :: "data_table \<Rightarrow> (rat \<times> rat) option" where
  "thumbBounds t = (case dt_size t of None \<Rightarrow> None
     | Some (_, h) \<Rightarrow> (let body = h - dtHdrH; visible = trunc (body / dtRowH); scrollable = rowCount t - visible
         in if scrollable \<le> 0 \<or> body \<le> 0 then None
            else let thumbH = max (body * (of_int visible / of_int (rowCount t))) 20
              in Some (dtHdrH + (of_int (dt_offset t) / of_int scrollable) * (body - thumbH), thumbH)))"

section \<open>Selection and scrolling\<close>

definition SetSelected :: "int \<Rightarrow> data_table \<Rightarrow> data_table" where
  "SetSelected i t = t\<lparr>dt_selected_id := i, dt_has_selected := (i \<noteq> 0)\<rparr>"

definition ClearSelection :: "data_table \<Rightarrow> data_table" where
  "ClearSelection t = t\<lparr>dt_selected_id := 0, dt_has_selected := False\<rparr>"

definition ScrollToRow :: "int \<Rightarrow> data_table \<Rightarrow> data_table" where
  "ScrollToRow row t = (let visible = visibleSlots t;
       off = (if row < dt_offset t then row
              else if row \<ge> dt_offset t + visible then row - visible + 1 else dt_offset t)
     in t\<lparr>dt_offset := max off 0\<rparr>)"

definition wheel_rows :: "rat \<Rightarrow> data_table \<Rightarrow> int \<times> rat" where
  "wheel_rows dy t = (let frac = dt_frac t - dy / dtRowH; rows = trunc frac; frac = frac - of_int rows
     in (if rows = 0 then (if dy < 0 then 1 else if dy > 0 then - 1 else 0) else rows, frac))"

definition near_bottom :: "dt_env \<Rightarrow> data_table \<Rightarrow> data_table" where
  "near_bottom en t = (if de_near_bottom en \<and> rowCount t > 0
     then if rowCount t - (dt_offset t + visibleSlots t) < dtNearBottomThreshold
       then if dt_near_fired t then t else t\<lparr>dt_near_fired := True, dt_log := dt_log t @ [CalledNearBottom]\<rparr>
       else t\<lparr>dt_near_fired := False\<rparr>
     else t)"

definition dt_Scrolled :: "dt_env \<Rightarrow> rat \<Rightarrow> data_table \<Rightarrow> data_table" where
  "dt_Scrolled en dy t = (let maxOffset = max (rowCount t - visibleSlots t) 0; (rows, frac) = wheel_rows dy t
     in near_bottom en (t\<lparr>dt_frac := frac, dt_offset := min (max (dt_offset t + rows) 0) maxOffset\<rparr>))"

definition tappedRow :: "int \<Rightarrow> data_table \<Rightarrow> data_table" where
  "tappedRow row t = t\<lparr>dt_selected_id := dt_rows t ! nat row, dt_has_selected := True, dt_selected_row := row,
     dt_log := dt_log t @ [CalledSelect row]\<rparr>"

text \<open>The keys up and down move by one; others do nothing.\<close>

definition dt_TypedKey :: "int \<Rightarrow> data_table \<Rightarrow> data_table" where
  "dt_TypedKey k t = (if \<not> dt_has_selected t \<or> rowCount t = 0 then t
     else let sel = min (max (dt_selected_row t + k) 0) (rowCount t - 1)
       in if sel = dt_selected_row t then t else tappedRow sel (ScrollToRow sel t))"

section \<open>The pointer\<close>

definition dt_inScrollbarArea :: "rat \<Rightarrow> data_table \<Rightarrow> bool" where
  "dt_inScrollbarArea x t = (case dt_size t of None \<Rightarrow> False | Some (w, _) \<Rightarrow> x \<ge> w - dtScrollW)"

definition inThumb :: "rat \<times> rat \<Rightarrow> data_table \<Rightarrow> bool" where
  "inThumb = (\<lambda>(x, y) t. dt_inScrollbarArea x t
     \<and> (case thumbBounds t of None \<Rightarrow> False | Some (thumbY, thumbH) \<Rightarrow> y \<ge> thumbY \<and> y \<le> thumbY + thumbH))"

definition rowAtY :: "rat \<Rightarrow> data_table \<Rightarrow> int" where
  "rowAtY y t = (if y < dtHdrH then - 1
     else let i = dt_offset t + trunc ((y - dtHdrH) / dtRowH) in
       if i < 0 \<or> i \<ge> rowCount t then - 1 else i)"

definition dt_Tapped :: "rat \<times> rat \<Rightarrow> data_table \<Rightarrow> data_table" where
  "dt_Tapped = (\<lambda>(x, y) t. if dt_inScrollbarArea x t then t
     else if rowAtY y t \<ge> 0 then tappedRow (rowAtY y t) t else t)"

definition dt_MouseDown :: "rat \<times> rat \<Rightarrow> data_table \<Rightarrow> data_table" where
  "dt_MouseDown p t = t\<lparr>dt_dragging := inThumb p t\<rparr>"

definition dt_MouseUp :: "data_table \<Rightarrow> data_table" where
  "dt_MouseUp t = t\<lparr>dt_dragging := False\<rparr>"

definition dt_MouseMoved :: "rat \<Rightarrow> data_table \<Rightarrow> data_table" where
  "dt_MouseMoved x t = t\<lparr>dt_hovered := dt_inScrollbarArea x t\<rparr>"

definition dt_MouseOut :: "data_table \<Rightarrow> data_table" where
  "dt_MouseOut t = t\<lparr>dt_hovered := False\<rparr>"

text \<open>A drag of the thumb to \<open>y\<close>; \<open>inside\<close> says whether the pointer is within the height of the widget.\<close>

definition dt_Dragged :: "bool \<Rightarrow> rat \<Rightarrow> data_table \<Rightarrow> data_table" where
  "dt_Dragged inside y t = (case (dt_size t, thumbBounds t) of
     (Some (_, h), Some (_, thumbH)) \<Rightarrow>
       (let body = h - dtHdrH; track = body - thumbH; scrollable = rowCount t - trunc (body / dtRowH)
        in if \<not> dt_dragging t \<or> \<not> inside \<or> track \<le> 0 \<or> scrollable \<le> 0 then t
           else let top = min (max (y - dtHdrH - thumbH / 2) 0) track
             in t\<lparr>dt_offset := trunc (top / track * of_int scrollable)\<rparr>)
   | _ \<Rightarrow> t)"

section \<open>What is drawn\<close>

text \<open>
  \<open>truncateText\<close>. The search keeps the invariant that the first \<open>lo\<close> runes fit.
\<close>

function fit_search :: "(string \<Rightarrow> rat) \<Rightarrow> rat \<Rightarrow> rune list \<Rightarrow> nat \<Rightarrow> nat \<Rightarrow> nat" where
  "fit_search width budget rs lo hi = (if lo < hi
     then let mid = (lo + hi + 1) div 2 in
       if width (of_runes (take mid rs)) \<le> budget then fit_search width budget rs mid hi
       else fit_search width budget rs lo (mid - 1)
     else lo)"
  by pat_completeness auto
termination by (relation "measure (\<lambda>(_, _, _, lo, hi). hi - lo)") auto

declare fit_search.simps [simp del]

definition ellipsis :: string where "ellipsis = ''...''"

definition truncateText :: "(string \<Rightarrow> rat) \<Rightarrow> string \<Rightarrow> rat \<Rightarrow> string" where
  "truncateText width s maxWidth = (if maxWidth \<le> 0 then []
     else if width s \<le> maxWidth then s
     else let budget = maxWidth - width ellipsis in
       if budget \<le> 0 then ellipsis
       else let rs = runes s in of_runes (take (fit_search width budget rs 0 (length rs)) rs) @ ellipsis)"

text \<open>
  A slot of the body: its vertical position, the row it shows if any, whether that row is highlighted, and
  the positions and texts of its cells. A header has its text's position, unless it is hidden, and the position of
  the line right of it, where there is one.
\<close>

record dt_slot =
  ds_y :: rat
  ds_row :: "int option"
  ds_selected :: bool
  ds_xs :: "rat list"
  ds_texts :: "string list"

primrec text_xs :: "rat \<Rightarrow> rat list \<Rightarrow> rat list" where
  "text_xs x [] = []"
| "text_xs x (w # ws) = (x + dtPadX) # text_xs (x + w) ws"

fun header_xs :: "rat \<Rightarrow> rat list \<Rightarrow> 'a list \<Rightarrow> (rat \<times> rat option) option list" where
  "header_xs x ws [] = []"
| "header_xs x [] (c # cs) = None # header_xs x [] cs"
| "header_xs x (w # ws) (c # cs) =
     Some (x + dtPadX, if cs = [] then None else Some (x + w - 1 / 2)) # header_xs (x + w) ws cs"

definition layoutHeader :: "data_table \<Rightarrow> (rat \<times> rat option) option list" where
  "layoutHeader t = header_xs 0 (dt_widths t) (dt_columns t)"

definition draw_slot :: "dt_env \<Rightarrow> data_table \<Rightarrow> nat \<Rightarrow> dt_slot" where
  "draw_slot en t slot = (let row = dt_offset t + int slot; y = dtHdrH + of_nat slot * dtRowH in
     if row \<ge> rowCount t then \<lparr>ds_y = y, ds_row = None, ds_selected = False, ds_xs = [], ds_texts = []\<rparr>
     else \<lparr>ds_y = y, ds_row = Some row,
       ds_selected = (dt_has_selected t \<and> dt_rows t ! nat row = dt_selected_id t),
       ds_xs = text_xs 0 (take (length (dt_columns t)) (dt_widths t)),
       ds_texts = map (\<lambda>col. truncateText (de_measure en False) (de_cell en row col) (dt_widths t ! col - dtPadX * 2))
         [0..<min (length (dt_columns t)) (length (dt_widths t))]\<rparr>)"

definition layoutBody :: "dt_env \<Rightarrow> data_table \<Rightarrow> dt_slot list" where
  "layoutBody en t = (case dt_size t of None \<Rightarrow> []
     | Some (_, h) \<Rightarrow> map (draw_slot en t) [0..<min (nat (trunc ((h - dtHdrH) / dtRowH) + 2)) (dt_slots t)])"

text \<open>The track and the thumb of the scrollbar: left edge, top, width and height; \<open>None\<close> is transparent.\<close>

definition layoutScrollbar :: "data_table \<Rightarrow> ((rat \<times> rat \<times> rat \<times> rat) \<times> (rat \<times> rat \<times> rat \<times> rat) option) option" where
  "layoutScrollbar t = (case dt_size t of None \<Rightarrow> None
     | Some (w, h) \<Rightarrow> (let body = h - dtHdrH; trackW = (if dt_hovered t then dtScrollW + 6 else dtScrollW); trackX = w - trackW
         in if rowCount t \<le> trunc (body / dtRowH) then None
            else Some ((trackX, dtHdrH, trackW, body),
              map_option (\<lambda>(thumbY, thumbH). (trackX + 1, thumbY, trackW - 2, thumbH)) (thumbBounds t))))"

text \<open>Left edges of the areas where the pointer takes hold of a column's edge.\<close>

primrec divider_xs :: "rat \<Rightarrow> rat list \<Rightarrow> rat list" where
  "divider_xs x [] = []"
| "divider_xs x (w # ws) = (x + w - dtDivW / 2) # divider_xs (x + w) ws"

definition layoutDividers :: "data_table \<Rightarrow> rat list" where
  "layoutDividers t = divider_xs 0 (take (length (dt_columns t) - 1) (dt_widths t))"

section \<open>Dragging the edge of a column\<close>

definition minColWidth :: "dt_env \<Rightarrow> data_table \<Rightarrow> nat \<Rightarrow> rat" where
  "minColWidth en t col = (if col \<ge> length (dt_columns t) then dtPadX * 2
     else de_measure en True (fst (dt_columns t ! col)) + dtPadX * 2)"

text \<open>The room right of the last column.\<close>

definition spare_space :: "data_table \<Rightarrow> rat" where
  "spare_space t = (case dt_size t of None \<Rightarrow> 0 | Some (w, _) \<Rightarrow> max (w - sum_list (dt_widths t) - dtScrollW) 0)"

definition divider_Dragged :: "dt_env \<Rightarrow> nat \<Rightarrow> rat \<Rightarrow> data_table \<Rightarrow> data_table" where
  "divider_Dragged en col dx t = (if col \<ge> length (dt_widths t) then t
     else let left = dt_widths t ! col;
              delta = (if left + dx < minColWidth en t col then minColWidth en t col - left else dx)
       in if delta = 0 then t
          else let (ws, delta) =
            (if col + 1 < length (dt_widths t)
             then let right = dt_widths t ! (col + 1); rightMin = minColWidth en t (col + 1) in
               if delta > 0
               then let spare = spare_space t; taken = delta - spare in
                 if taken > 0
                 then let taken = (if right - taken < rightMin then right - rightMin else taken)
                   in ((dt_widths t)[col + 1 := right - taken], spare + taken)
                 else (dt_widths t, delta)
               else ((dt_widths t)[col + 1 := right - delta], delta)
             else (dt_widths t, delta))
          in t\<lparr>dt_widths := ws[col := left + delta]\<rparr>)"

section \<open>Events\<close>

datatype dt_event = DWheel rat | DKey int | DTap "rat \<times> rat" | DDown "rat \<times> rat" | DUp | DThumb bool rat | DMove rat | DOut
  | DDivider nat rat | DSize "rat \<times> rat" | DRows "int list" | DScrollTo int | DSelect int | DClear

definition dt_step :: "dt_env \<Rightarrow> dt_event \<Rightarrow> data_table \<Rightarrow> data_table" where
  "dt_step en e = (case e of
     DWheel dy \<Rightarrow> dt_Scrolled en dy
   | DKey k \<Rightarrow> dt_TypedKey k
   | DTap p \<Rightarrow> dt_Tapped p
   | DDown p \<Rightarrow> dt_MouseDown p
   | DUp \<Rightarrow> dt_MouseUp
   | DThumb inside y \<Rightarrow> dt_Dragged inside y
   | DMove x \<Rightarrow> dt_MouseMoved x
   | DOut \<Rightarrow> dt_MouseOut
   | DDivider col dx \<Rightarrow> divider_Dragged en col dx
   | DSize sz \<Rightarrow> dt_layout sz
   | DRows rows \<Rightarrow> (\<lambda>t. t\<lparr>dt_rows := rows\<rparr>)
   | DScrollTo row \<Rightarrow> ScrollToRow row
   | DSelect i \<Rightarrow> SetSelected i
   | DClear \<Rightarrow> ClearSelection)"

definition dt_run :: "dt_env \<Rightarrow> dt_event list \<Rightarrow> data_table \<Rightarrow> data_table" where
  "dt_run en es t = fold (dt_step en) es t"

section \<open>Rows in range\<close>

text \<open>A call of the table's callbacks with a row there is.\<close>

definition call_ok :: "data_table \<Rightarrow> dt_call \<Rightarrow> bool" where
  "call_ok t c = (case c of CalledSelect r \<Rightarrow> 0 \<le> r \<and> r < rowCount t | CalledNearBottom \<Rightarrow> True)"

definition table_ok :: "data_table \<Rightarrow> bool" where
  "table_ok t = (0 \<le> dt_offset t \<and> length (dt_widths t) = length (dt_columns t))"

lemma trunc_nonneg: "0 \<le> x \<Longrightarrow> trunc x = \<lfloor>x\<rfloor>"
  by (simp add: trunc_def)

lemma rowAtY_range: "rowAtY y t = - 1 \<or> 0 \<le> rowAtY y t \<and> rowAtY y t < rowCount t"
  by (simp add: rowAtY_def Let_def)

lemma ScrollToRow_ok [simp]:
  "table_ok t \<Longrightarrow> table_ok (ScrollToRow row t)" "dt_log (ScrollToRow row t) = dt_log t" "dt_rows (ScrollToRow row t) = dt_rows t"
  "rowCount (ScrollToRow row t) = rowCount t"
  by (simp_all add: ScrollToRow_def table_ok_def rowCount_def Let_def)

lemma thumb_offset:
  assumes "dt_Dragged inside y t \<noteq> t" shows "0 \<le> dt_offset (dt_Dragged inside y t)"
proof -
  obtain w h thumbY thumbH where d: "dt_size t = Some (w, h)" "thumbBounds t = Some (thumbY, thumbH)"
    using assms by (auto simp: dt_Dragged_def split: option.splits)
  define track where "track = h - dtHdrH - thumbH"
  define sc where "sc = rowCount t - trunc ((h - dtHdrH) / dtRowH)"
  define top where "top = min (max (y - dtHdrH - thumbH / 2) 0) track"
  have e: "dt_Dragged inside y t = (if \<not> dt_dragging t \<or> \<not> inside \<or> track \<le> 0 \<or> sc \<le> 0 then t
      else t\<lparr>dt_offset := trunc (top / track * of_int sc)\<rparr>)"
    by (simp add: dt_Dragged_def d track_def sc_def top_def Let_def)
  with assms have p: "0 < track" "0 < sc" "dt_Dragged inside y t = t\<lparr>dt_offset := trunc (top / track * of_int sc)\<rparr>"
    by (auto split: if_splits)
  then have "0 \<le> top / track * of_int sc" by (simp add: top_def)
  then show ?thesis by (simp add: p(3) trunc_nonneg)
qed

lemma dt_Dragged_same: "dt_widths (dt_Dragged inside y t) = dt_widths t" "dt_columns (dt_Dragged inside y t) = dt_columns t"
    "dt_log (dt_Dragged inside y t) = dt_log t"
  by (auto simp: dt_Dragged_def Let_def split: option.split)

lemma divider_same: "length (dt_widths (divider_Dragged en col dx t)) = length (dt_widths t)"
    "dt_columns (divider_Dragged en col dx t) = dt_columns t" "dt_offset (divider_Dragged en col dx t) = dt_offset t"
    "dt_log (divider_Dragged en col dx t) = dt_log t"
  by (auto simp: divider_Dragged_def Let_def split: prod.split)

lemma dt_step_ok:
  assumes "table_ok t"
  shows "table_ok (dt_step en e t) \<and> (\<exists>cs. dt_log (dt_step en e t) = dt_log t @ cs \<and> list_all (call_ok t) cs)"
proof (cases e)
  case (DWheel dy)
  then show ?thesis using assms
    by (auto simp: dt_step_def dt_Scrolled_def near_bottom_def table_ok_def call_ok_def Let_def split: prod.split)
next
  case (DKey k)
  then show ?thesis using assms
    by (auto simp: dt_step_def dt_TypedKey_def tappedRow_def table_ok_def call_ok_def ScrollToRow_def rowCount_def Let_def)
next
  case (DTap p)
  then show ?thesis using assms rowAtY_range [of "snd p" t]
    by (cases p) (auto simp: dt_step_def dt_Tapped_def tappedRow_def table_ok_def call_ok_def)
next
  case (DThumb inside y)
  then show ?thesis using assms thumb_offset [of inside y t]
    by (cases "dt_Dragged inside y t = t") (auto simp: dt_step_def table_ok_def dt_Dragged_same)
next
  case (DDivider col dx)
  then show ?thesis using assms by (simp add: dt_step_def table_ok_def divider_same)
next
  case (DSize sz)
  then show ?thesis using assms by (auto simp: dt_step_def dt_layout_def growSlots_def table_ok_def split: prod.split)
qed (use assms in \<open>simp_all add: dt_step_def table_ok_def dt_MouseDown_def dt_MouseUp_def dt_MouseMoved_def dt_MouseOut_def
    ScrollToRow_def SetSelected_def ClearSelection_def Let_def\<close>)

lemma dt_run_ok: "table_ok t \<Longrightarrow> table_ok (dt_run en es t)"
  by (induction es arbitrary: t) (simp_all add: dt_run_def dt_step_ok)

lemma NewDataTable_ok: "table_ok (NewDataTable cols rows)"
  by (simp add: table_ok_def NewDataTable_def initColWidths_def)

lemma drawn_row:
  assumes "table_ok t" "d \<in> set (layoutBody en t)" "ds_row d = Some r"
  shows "dt_offset t \<le> r \<and> r < rowCount t \<and> ds_y d = dtHdrH + of_int (r - dt_offset t) * dtRowH"
  using assms by (auto simp: layoutBody_def draw_slot_def Let_def table_ok_def split: option.splits if_splits)

text \<open>C30: Whatever is scrolled, dragged, tapped, typed, resized or loaded, and in whatever order, the table draws and reports only
  rows there are: every row on display lies in the data, at its place below the first, and every row given to
  \<open>OnSelect\<close> lies in the data of that moment.\<close>

theorem table_rows_in_range:
  "let t = dt_run en es (NewDataTable cols rows) in
    0 \<le> dt_offset t
    \<and> list_all (\<lambda>d. case ds_row d of None \<Rightarrow> True
        | Some r \<Rightarrow> 0 \<le> r \<and> r < rowCount t \<and> ds_y d = dtHdrH + of_int (r - dt_offset t) * dtRowH) (layoutBody en t)
    \<and> (\<exists>cs. dt_log (dt_step en e t) = dt_log t @ cs \<and> list_all (call_ok t) cs)"
proof -
  define t where "t = dt_run en es (NewDataTable cols rows)"
  have ok: "table_ok t" unfolding t_def by (rule dt_run_ok [OF NewDataTable_ok])
  have "0 \<le> r \<and> r < rowCount t \<and> ds_y d = dtHdrH + of_int (r - dt_offset t) * dtRowH"
    if "d \<in> set (layoutBody en t)" "ds_row d = Some r" for d r
    using drawn_row [OF ok that] ok by (auto simp: table_ok_def)
  then show ?thesis using ok dt_step_ok [OF ok]
    unfolding t_def [symmetric] by (auto simp: table_ok_def list_all_iff split: option.split)
qed

section \<open>The pointer and the picture\<close>

lemma slot_at:
  assumes "0 \<le> n" "of_int n * dtRowH \<le> z" "z < (of_int n + 1) * dtRowH"
  shows "trunc (z / dtRowH) = n"
proof -
  have "of_int n \<le> z / dtRowH" "z / dtRowH < of_int n + 1"
    using assms(2,3) by (simp_all add: dtRowH_def field_simps)
  moreover from this(1) assms(1) have "0 \<le> z / dtRowH" by linarith
  ultimately show ?thesis by (simp add: trunc_nonneg floor_eq_iff)
qed

text \<open>A tap hits what is drawn under it: at a height within a slot on display, left of the scrollbar, it selects the
  row the slot shows, highlights it and reports it to \<open>OnSelect\<close>; on an empty slot it does nothing.\<close>

theorem tap_hits_drawn_row:
  assumes "table_ok t" "d \<in> set (layoutBody en t)" "ds_y d \<le> y" "y < ds_y d + dtRowH" "\<not> dt_inScrollbarArea x t"
  shows "case ds_row d of
      None \<Rightarrow> dt_Tapped (x, y) t = t
    | Some r \<Rightarrow> dt_log (dt_Tapped (x, y) t) = dt_log t @ [CalledSelect r] \<and> dt_selected_row (dt_Tapped (x, y) t) = r
        \<and> ds_selected (draw_slot en (dt_Tapped (x, y) t) (nat (r - dt_offset t)))"
proof -
  obtain k where d: "d = draw_slot en t k" using assms(2) by (auto simp: layoutBody_def split: option.splits)
  have yk: "ds_y d = dtHdrH + of_nat k * dtRowH" by (simp add: d draw_slot_def Let_def)
  have "trunc ((y - dtHdrH) / dtRowH) = int k"
    using assms(3,4) by (intro slot_at) (simp_all add: yk algebra_simps)
  moreover have "dtHdrH \<le> y" using assms(3) by (simp add: yk dtRowH_def order_trans [rotated])
  ultimately have row: "rowAtY y t = (if dt_offset t + int k < rowCount t then dt_offset t + int k else - 1)"
    using assms(1) by (simp add: rowAtY_def table_ok_def)
  show ?thesis
  proof (cases "dt_offset t + int k < rowCount t")
    case True
    then show ?thesis using assms(1,5) row
      by (auto simp: dt_Tapped_def d draw_slot_def Let_def table_ok_def tappedRow_def rowCount_def)
  next
    case False
    then show ?thesis using row by (simp add: dt_Tapped_def d draw_slot_def Let_def)
  qed
qed

text \<open>
  Headers and cells stand below each other, and each area that takes hold of a column's edge is centred on the line
  drawn there, to half a pixel.
\<close>

lemma header_text_xs: "length ws = length cs \<Longrightarrow> map (map_option fst) (header_xs x ws cs) = map Some (text_xs x ws)"
  by (induction x ws cs rule: header_xs.induct) auto

lemma header_lines:
  "length ws = length cs \<Longrightarrow> map (\<lambda>x. x + dtDivW / 2) (divider_xs x (take (length cs - 1) ws))
    = map (\<lambda>l. l + 1 / 2) (List.map_filter (\<lambda>d. Option.bind d snd) (header_xs x ws cs))"
proof (induction x ws cs rule: header_xs.induct)
  case (3 x w ws c cs)
  then show ?case by (cases cs; cases ws) (simp_all add: map_filter_simps)
qed (simp_all add: map_filter_simps)

lemma columns_line_up:
  assumes "table_ok t" "d \<in> set (layoutBody en t)" "ds_row d = Some r"
  shows "map (map_option fst) (layoutHeader t) = map Some (ds_xs d)"
    "map (\<lambda>x. x + dtDivW / 2) (layoutDividers t) = map (\<lambda>l. l + 1 / 2) (List.map_filter (\<lambda>d. Option.bind d snd) (layoutHeader t))"
proof -
  have l: "length (dt_widths t) = length (dt_columns t)" using assms(1) by (simp add: table_ok_def)
  have "ds_xs d = text_xs 0 (dt_widths t)"
    using assms(2,3) l by (auto simp: layoutBody_def draw_slot_def Let_def split: option.splits if_splits)
  then show "map (map_option fst) (layoutHeader t) = map Some (ds_xs d)" by (simp add: layoutHeader_def header_text_xs [OF l])
  show "map (\<lambda>x. x + dtDivW / 2) (layoutDividers t) = map (\<lambda>l. l + 1 / 2) (List.map_filter (\<lambda>d. Option.bind d snd) (layoutHeader t))"
    unfolding layoutDividers_def layoutHeader_def by (rule header_lines [OF l])
qed

text \<open>
  The thumb lies within the track unless the rows became fewer than the offset; then nothing at all is
  drawn below the header.
\<close>

lemma thumb_in_track:
  assumes "table_ok t" "dt_size t = Some (w, h)" "thumbBounds t = Some (y, th)" "th \<le> h - dtHdrH"
    and "dt_offset t \<le> rowCount t - trunc ((h - dtHdrH) / dtRowH)"
  shows "dtHdrH \<le> y" "y + th \<le> h"
proof -
  define body where "body = h - dtHdrH"
  define sc where "sc = rowCount t - trunc (body / dtRowH)"
  have y: "y = dtHdrH + (of_int (dt_offset t) / of_int sc) * (body - th)" and sc: "0 < sc"
    using assms(2,3) by (auto simp: thumbBounds_def body_def sc_def Let_def split: if_splits)
  define q where "q = of_int (dt_offset t) / (of_int sc :: rat)"
  have q: "0 \<le> q" "q \<le> 1" using assms(1,5) sc by (simp_all add: q_def table_ok_def sc_def body_def)
  have b: "0 \<le> body - th" using assms(4) by (simp add: body_def)
  have "0 \<le> q * (body - th)" "q * (body - th) \<le> body - th"
    using mult_nonneg_nonneg [OF q(1) b] mult_left_le_one_le [OF b q] by auto
  then show "dtHdrH \<le> y" "y + th \<le> h" by (simp_all add: y body_def q_def)
qed

lemma shrunk_table_blank:
  assumes "length rows \<le> nat (dt_offset t)" "0 \<le> dt_offset t"
  shows "list_all (\<lambda>d. ds_row d = None) (layoutBody en (dt_step en (DRows rows) t))"
  using assms by (auto simp: dt_step_def layoutBody_def draw_slot_def rowCount_def Let_def list_all_iff split: option.split)

definition demo_dt_env :: dt_env where
  "demo_dt_env = \<lparr>de_measure = \<lambda>_ s. 7 * of_nat (length s), de_cell = \<lambda>r c. ''cell'', de_near_bottom = True\<rparr>"

definition demo_table :: data_table where
  "demo_table = dt_layout (300, 98) (NewDataTable [(''A'', 100), (''B'', 150)] [11, 12, 13, 14, 15, 16, 17, 18, 19, 20])"

lemma demo_table_eq:
  "demo_table = \<lparr>dt_columns = [(''A'', 100), (''B'', 150)], dt_rows = [11, 12, 13, 14, 15, 16, 17, 18, 19, 20],
     dt_widths = [100, 150], dt_selected_id = 0, dt_selected_row = 0, dt_has_selected = False, dt_offset = 0, dt_frac = 0,
     dt_near_fired = False, dt_hovered = False, dt_size = Some (300, 98), dt_slots = 4, dt_dragging = False, dt_log = []\<rparr>"
  by (simp add: demo_table_def NewDataTable_def initColWidths_def dt_layout_def growSlots_def dtHdrH_def dtRowH_def trunc_def)

theorem tap_hits_drawn_row_witness:
  "dt_log (dt_Tapped (10, 70) demo_table) = [CalledSelect 1]"
proof -
  have ok: "table_ok demo_table" by (simp add: demo_table_eq table_ok_def)
  have b: "layoutBody demo_dt_env demo_table = map (draw_slot demo_dt_env demo_table) [0..<4]"
    by (simp add: layoutBody_def demo_table_eq dtHdrH_def dtRowH_def trunc_def)
  have d: "draw_slot demo_dt_env demo_table 1 \<in> set (layoutBody demo_dt_env demo_table)" unfolding b by simp
  have y: "ds_y (draw_slot demo_dt_env demo_table 1) = 66" "ds_row (draw_slot demo_dt_env demo_table 1) = Some 1"
    by (simp_all add: draw_slot_def demo_table_eq rowCount_def dtHdrH_def dtRowH_def Let_def)
  have "\<not> dt_inScrollbarArea 10 demo_table" by (simp add: dt_inScrollbarArea_def demo_table_eq dtScrollW_def)
  from tap_hits_drawn_row [OF ok d _ _ this, of 70] show ?thesis
    unfolding y by (simp add: dtRowH_def demo_table_eq)
qed

section \<open>Rows out of sight\<close>

text \<open>With a renderer at least as high as the header, the last of the visible slots lies below the widget.\<close>

lemma last_slot_below:
  assumes "dt_size t = Some (w, h)" "dtHdrH \<le> h"
  shows "h < dtHdrH + of_int (visibleSlots t - 1) * dtRowH"
proof -
  define q where "q = (h - dtHdrH) / dtRowH"
  have "0 \<le> q" using assms(2) by (simp add: q_def dtRowH_def)
  then have "visibleSlots t = \<lfloor>q\<rfloor> + 2" using assms by (simp add: visibleSlots_def q_def trunc_nonneg Let_def)
  moreover have "q < of_int (\<lfloor>q\<rfloor> + 1)" by linarith
  moreover have "h = dtHdrH + q * dtRowH" by (simp add: q_def dtRowH_def field_simps)
  ultimately show ?thesis by (simp add: dtRowH_def)
qed

text \<open>\<open>ScrollToRow\<close> leaves a row it scrolls down to out of sight, and the wheel cannot reach the last row: both count the
  partly visible slot and the spare one below it as visible. Where the row is drawn at all, it is drawn below the
  lower edge of the widget.\<close>

theorem rows_out_of_sight:
  assumes "table_ok t" "dt_size t = Some (w, h)" "dtHdrH \<le> h"
  shows "(dt_offset t + visibleSlots t \<le> row \<longrightarrow>
        (\<forall>d \<in> set (layoutBody en (ScrollToRow row t)). ds_row d = Some row \<longrightarrow> h < ds_y d))
    \<and> (visibleSlots t < rowCount t \<longrightarrow>
        (\<forall>d \<in> set (layoutBody en (dt_Scrolled en dy t)). ds_row d = Some (rowCount t - 1) \<longrightarrow> h < ds_y d))"
proof -
  have v: "0 \<le> visibleSlots t - 1" using assms(2,3) by (simp add: visibleSlots_def trunc_def Let_def dtRowH_def)
  note below = last_slot_below [OF assms(2,3)]
  have far: "h < dtHdrH + of_int k * dtRowH" if "visibleSlots t - 1 \<le> k" for k
  proof -
    have "of_int (visibleSlots t - 1) * dtRowH \<le> of_int k * dtRowH" using that by (simp add: dtRowH_def)
    with below show ?thesis by linarith
  qed
  have "h < ds_y d" if "dt_offset t + visibleSlots t \<le> row" "d \<in> set (layoutBody en (ScrollToRow row t))" "ds_row d = Some row" for d
  proof -
    have "row - dt_offset (ScrollToRow row t) = visibleSlots t - 1"
      using that(1) assms(1) v by (simp add: ScrollToRow_def table_ok_def Let_def)
    with drawn_row [OF ScrollToRow_ok(1) [OF assms(1)] that(2,3)] below show ?thesis by simp
  qed
  moreover have "h < ds_y d" if "visibleSlots t < rowCount t" "d \<in> set (layoutBody en (dt_Scrolled en dy t))"
    "ds_row d = Some (rowCount t - 1)" for d
  proof -
    have "dt_offset (dt_Scrolled en dy t) \<le> rowCount t - visibleSlots t"
      using that(1) by (simp add: dt_Scrolled_def near_bottom_def Let_def split: prod.split)
    then have "visibleSlots t - 1 \<le> rowCount t - 1 - dt_offset (dt_Scrolled en dy t)" by simp
    from far [OF this] drawn_row [OF _ that(2,3)] dt_step_ok [OF assms(1), of en "DWheel dy"] show ?thesis
      by (simp add: dt_step_def)
  qed
  ultimately show ?thesis by blast
qed

text \<open>Seven pages of ten rows; scrolled to row 7, which is drawn at height 130 of 98, and by the wheel as far as it goes.\<close>

theorem rows_out_of_sight_witness:
  "ds_row (draw_slot demo_dt_env (ScrollToRow 7 demo_table) 3) = Some 7
    \<and> 98 < ds_y (draw_slot demo_dt_env (ScrollToRow 7 demo_table) 3)
    \<and> dt_offset (dt_Scrolled demo_dt_env (- 3200) demo_table) = 6"
proof -
  have ok: "table_ok demo_table" "dt_size demo_table = Some (300, 98)" "dtHdrH \<le> 98" "visibleSlots demo_table = 4"
    by (simp_all add: demo_table_eq table_ok_def dtHdrH_def visibleSlots_def dtRowH_def trunc_def)
  have s: "ScrollToRow 7 demo_table = demo_table\<lparr>dt_offset := 4\<rparr>"
    by (simp add: ScrollToRow_def ok(4)) (simp add: demo_table_eq)
  have b: "layoutBody demo_dt_env (ScrollToRow 7 demo_table) = map (draw_slot demo_dt_env (ScrollToRow 7 demo_table)) [0..<4]"
    unfolding s by (simp add: layoutBody_def demo_table_eq dtHdrH_def dtRowH_def trunc_def)
  have d: "draw_slot demo_dt_env (ScrollToRow 7 demo_table) 3 \<in> set (layoutBody demo_dt_env (ScrollToRow 7 demo_table))"
    unfolding b by simp
  have r: "ds_row (draw_slot demo_dt_env (ScrollToRow 7 demo_table) 3) = Some 7"
    unfolding s by (simp add: draw_slot_def demo_table_eq rowCount_def Let_def)
  have "dt_offset demo_table + visibleSlots demo_table \<le> 7" by (simp add: ok(4)) (simp add: demo_table_eq)
  with rows_out_of_sight [OF ok(1-3), of 7 demo_dt_env "- 3200"] d r
  have "98 < ds_y (draw_slot demo_dt_env (ScrollToRow 7 demo_table) 3)" by blast
  moreover have "dt_offset (dt_Scrolled demo_dt_env (- 3200) demo_table) = 6"
    by (simp add: dt_Scrolled_def near_bottom_def ok(4) wheel_rows_def Let_def)
      (simp add: demo_table_eq rowCount_def trunc_def dtRowH_def demo_dt_env_def)
  ultimately show ?thesis using r by blast
qed

text \<open>
  The keys move from the index selected last, the highlight from the id: after a row was put before the others, the
  key down stays on the highlighted row.
\<close>

lemma key_down_after_new_row:
  assumes "dt_has_selected t" "dt_selected_row t = r" "0 \<le> r" "r < rowCount t" "dt_selected_id t = dt_rows t ! nat r"
  shows "dt_selected_id (dt_TypedKey 1 (t\<lparr>dt_rows := i # dt_rows t\<rparr>)) = dt_selected_id t"
  using assms by (simp add: dt_TypedKey_def rowCount_def tappedRow_def ScrollToRow_def Let_def nat_add_distrib)

section \<open>Texts cut to the width of a column\<close>

lemma fit_search_correct:
  assumes mono: "\<And>i j. i \<le> j \<Longrightarrow> width (of_runes (take i rs)) \<le> width (of_runes (take j rs))"
  shows "lo \<le> hi \<Longrightarrow> width (of_runes (take lo rs)) \<le> budget \<Longrightarrow> \<forall>k > hi. k \<le> length rs \<longrightarrow> budget < width (of_runes (take k rs))
    \<Longrightarrow> r = fit_search width budget rs lo hi \<Longrightarrow>
      r \<le> hi \<and> width (of_runes (take r rs)) \<le> budget \<and> (\<forall>k > r. k \<le> length rs \<longrightarrow> budget < width (of_runes (take k rs)))"
proof (induction "hi - lo" arbitrary: lo hi rule: less_induct)
  case less
  show ?case
  proof (cases "lo < hi")
    case False
    then have "r = lo" using less.prems(4) by (simp add: fit_search.simps)
    then show ?thesis using less.prems False by auto
  next
    case True
    define mid where "mid = (lo + hi + 1) div 2"
    have m: "lo < mid" "mid \<le> hi" "Suc (lo + hi) div 2 = mid" using True by (auto simp: mid_def)
    show ?thesis
    proof (cases "width (of_runes (take mid rs)) \<le> budget")
      case True
      then have "r = fit_search width budget rs mid hi"
        using less.prems(4) \<open>lo < hi\<close> by (simp add: fit_search.simps [of _ _ _ lo hi] m(3) Let_def)
      then show ?thesis using less.hyps [OF _ _ True less.prems(3)] m by simp
    next
      case False
      then have r: "r = fit_search width budget rs lo (mid - 1)"
        using less.prems(4) \<open>lo < hi\<close> by (simp add: fit_search.simps [of _ _ _ lo hi] m(3) Let_def)
      have "\<forall>k > mid - 1. k \<le> length rs \<longrightarrow> budget < width (of_runes (take k rs))"
      proof (intro allI impI)
        fix k assume "mid - 1 < k"
        then have "width (of_runes (take mid rs)) \<le> width (of_runes (take k rs))" by (intro mono) simp
        with False show "budget < width (of_runes (take k rs))" by simp
      qed
      from less.hyps [OF _ _ less.prems(2) this r] m show ?thesis by force
    qed
  qed
qed

text \<open>C31: A text too long for its column is cut to the most characters that fit before the ellipsis. For a font in which a
  longer prefix is never narrower, the binary search of \<open>truncateText\<close> ends and finds the greatest number of runes
  whose width with the ellipsis' is within the column; a text that fits stays as it is.\<close>

theorem truncateText_longest:
  assumes "\<And>i j. i \<le> j \<Longrightarrow> width (of_runes (take i (runes s))) \<le> width (of_runes (take j (runes s)))" and "width [] = 0"
  shows "truncateText width s w = (if w \<le> 0 then [] else if width s \<le> w then s else if w \<le> width ellipsis then ellipsis
    else of_runes (take (GREATEST k. k \<le> length (runes s) \<and> width (of_runes (take k (runes s))) \<le> w - width ellipsis) (runes s))
      @ ellipsis)"
proof (cases "w \<le> width ellipsis")
  case False
  define budget where "budget = w - width ellipsis"
  define r where "r = fit_search width budget (runes s) 0 (length (runes s))"
  have "r \<le> length (runes s) \<and> width (of_runes (take r (runes s))) \<le> budget
      \<and> (\<forall>k > r. k \<le> length (runes s) \<longrightarrow> budget < width (of_runes (take k (runes s))))"
    using False by (intro fit_search_correct [OF assms(1) _ _ _ r_def]) (simp_all add: budget_def assms(2))
  then have "(GREATEST k. k \<le> length (runes s) \<and> width (of_runes (take k (runes s))) \<le> budget) = r"
    by (intro Greatest_equality) (auto simp: not_less [symmetric])
  then show ?thesis using False by (simp add: truncateText_def budget_def r_def Let_def)
qed (simp add: truncateText_def Let_def)

lemma list_all_take: "list_all P xs \<Longrightarrow> list_all P (take i xs)"
  by (auto simp: list_all_iff dest: in_set_takeD)

theorem truncateText_longest_witness:
  "truncateText (\<lambda>s. 7 * of_nat (length s)) ''long text'' 50 = ''long...''"
proof -
  let ?w = "\<lambda>s :: string. 7 * of_nat (length s) :: rat"
  have r: "runes ''long text'' = map of_char ''long text''" by (rule runes_ascii) code_simp
  have a: "of_runes (take i (runes ''long text'')) = take i ''long text''" for i
  proof -
    have "of_runes (map of_char t) = t" if "\<forall>c \<in> set t. code c < 128" for t
      using that by (induction t) (auto simp: encode_low)
    moreover have "\<forall>c \<in> set (take i ''long text''). code c < 128"
    proof -
      have "list_all (\<lambda>c. code c < 128) ''long text''" by code_simp
      then have "list_all (\<lambda>c. code c < 128) (take i ''long text'')" by (rule list_all_take)
      then show ?thesis by (simp only: list_all_iff)
    qed
    ultimately show ?thesis by (simp only: r take_map)
  qed
  have mono: "?w (of_runes (take i (runes ''long text''))) \<le> ?w (of_runes (take j (runes ''long text'')))" if "i \<le> j" for i j
    unfolding a length_take using that by (simp add: min_def)
  have g: "(GREATEST k. k \<le> length (runes ''long text'') \<and> ?w (of_runes (take k (runes ''long text''))) \<le> 50 - ?w ellipsis) = 4"
    unfolding a by (rule Greatest_equality) (simp_all add: r ellipsis_def min_def split: if_splits)
  have "truncateText ?w ''long text'' 50 = (if (50 :: rat) \<le> 0 then [] else if ?w ''long text'' \<le> 50 then ''long text''
      else if 50 \<le> ?w ellipsis then ellipsis else of_runes (take 4 (runes ''long text'')) @ ellipsis)"
    using truncateText_longest [where width = ?w and s = "''long text''" and w = 50, OF mono] unfolding g by simp
  then show ?thesis unfolding a by (simp add: ellipsis_def)
qed

section \<open>Widths of columns\<close>

lemma sum_list_replace: "k < length xs \<Longrightarrow> sum_list (xs[k := x]) = sum_list xs + x - xs ! k" for x :: rat
  by (induction xs arbitrary: k) (auto split: nat.split)

text \<open>What a drag does to the two widths beside the edge.\<close>

lemma divider_cases:
  assumes "col + 1 < length (dt_widths t)" "minColWidth en t col \<le> dt_widths t ! col"
    and "minColWidth en t (col + 1) \<le> dt_widths t ! (col + 1)"
  shows "\<exists>a b. dt_widths (divider_Dragged en col dx t) = (dt_widths t)[col + 1 := b, col := a]
    \<and> minColWidth en t col \<le> a \<and> minColWidth en t (col + 1) \<le> b
    \<and> a + b \<le> dt_widths t ! col + dt_widths t ! (col + 1) + spare_space t"
proof -
  define l where "l = dt_widths t ! col"
  define r where "r = dt_widths t ! Suc col"
  define lm where "lm = minColWidth en t col"
  define rm where "rm = minColWidth en t (Suc col)"
  define delta where "delta = (if l + dx < lm then lm - l else dx)"
  define sp where "sp = spare_space t"
  have sp: "0 \<le> sp" by (simp add: sp_def spare_space_def split: option.split)
  have m: "lm \<le> l" "rm \<le> r" using assms(2,3) by (simp_all add: l_def r_def lm_def rm_def)
  have lr: "(dt_widths t)[col + 1 := r] = dt_widths t" "(dt_widths t)[col := l] = dt_widths t" by (simp_all add: r_def l_def)
  have w: "dt_widths (divider_Dragged en col dx t) = (if delta = 0 then dt_widths t
      else if delta > 0 then if delta - sp > 0
        then let taken = (if r - (delta - sp) < rm then r - rm else delta - sp)
          in (dt_widths t)[col + 1 := r - taken, col := l + (sp + taken)]
        else (dt_widths t)[col := l + delta]
      else (dt_widths t)[col + 1 := r - delta, col := l + delta])"
    using assms(1)
    by (simp add: divider_Dragged_def Let_def l_def [symmetric] r_def [symmetric] lm_def [symmetric] rm_def [symmetric]
        sp_def [symmetric] delta_def)
  define taken where "taken = (if r - (delta - sp) < rm then r - rm else delta - sp)"
  consider "delta = 0" | "delta > 0" "delta - sp > 0" | "delta > 0" "\<not> delta - sp > 0" | "delta < 0" by linarith
  then show ?thesis
  proof cases
    case 1
    then show ?thesis using m sp lr
      by (intro exI [of _ l] exI [of _ r]) (simp add: w l_def [symmetric] r_def [symmetric] lm_def [symmetric] rm_def [symmetric] sp_def [symmetric])
  next
    case 2
    then show ?thesis using m sp
      by (intro exI [of _ "l + (sp + taken)"] exI [of _ "r - taken"])
        (simp add: w taken_def [symmetric] l_def [symmetric] r_def [symmetric] lm_def [symmetric] rm_def [symmetric] sp_def [symmetric],
          auto simp: taken_def)
  next
    case 3
    then show ?thesis using m sp lr
      by (intro exI [of _ "l + delta"] exI [of _ r])
        (simp add: w l_def [symmetric] r_def [symmetric] lm_def [symmetric] rm_def [symmetric] sp_def [symmetric])
  next
    case 4
    then have "lm \<le> l + delta" using m by (auto simp: delta_def split: if_splits)
    with 4 show ?thesis using m sp
      by (intro exI [of _ "l + delta"] exI [of _ "r - delta"])
        (simp add: w l_def [symmetric] r_def [symmetric] lm_def [symmetric] rm_def [symmetric] sp_def [symmetric])
  qed
qed

text \<open>Dragging the edge between two columns makes no column narrower than its header and never pushes the table over
  its right edge: if every column has its least width, so it has after the drag, and the sum of the
  widths grows at most to the width left of the scrollbar.\<close>

theorem divider_drag_bounds:
  assumes "\<forall>i < length (dt_widths t). minColWidth en t i \<le> dt_widths t ! i" "dt_size t = Some (w, h)" "col + 1 < length (dt_widths t)"
    and "t' = divider_Dragged en col dx t"
  shows "(\<forall>i < length (dt_widths t'). minColWidth en t' i \<le> dt_widths t' ! i)
    \<and> sum_list (dt_widths t') \<le> max (sum_list (dt_widths t)) (w - dtScrollW)"
proof -
  obtain a b where ab: "dt_widths t' = (dt_widths t)[col + 1 := b, col := a]" "minColWidth en t col \<le> a"
    "minColWidth en t (col + 1) \<le> b" "a + b \<le> dt_widths t ! col + dt_widths t ! (col + 1) + spare_space t"
    using divider_cases [of col t en dx] assms by auto
  have "minColWidth en t' i = minColWidth en t i" for i by (simp add: minColWidth_def assms(4) divider_same)
  moreover have "sum_list (dt_widths t') = sum_list (dt_widths t) + b - dt_widths t ! (col + 1) + a - dt_widths t ! col"
    using assms(3) by (simp add: ab(1) sum_list_replace)
  ultimately show ?thesis using ab assms(1-3) by (auto simp: nth_list_update spare_space_def max_def split: if_splits)
qed

theorem divider_drag_bounds_witness:
  "dt_widths (divider_Dragged demo_dt_env 0 80 demo_table) = [180, 112] \<and> sum_list [180, 112 :: rat] \<le> 292"
proof -
  have w: "dt_widths demo_table = [100, 150]" "dt_size demo_table = Some (300, 98)" by (simp_all add: demo_table_eq)
  have m: "\<forall>i < length (dt_widths demo_table). minColWidth demo_dt_env demo_table i \<le> dt_widths demo_table ! i"
    by (auto simp: w minColWidth_def less_Suc_eq, auto simp: demo_table_eq demo_dt_env_def dtPadX_def)
  have d: "dt_widths (divider_Dragged demo_dt_env 0 80 demo_table) = [180, 112]"
    by (simp add: demo_table_eq divider_Dragged_def spare_space_def minColWidth_def demo_dt_env_def dtPadX_def dtScrollW_def Let_def)
  from divider_drag_bounds [OF m w(2) _ refl, of 0 80] d show ?thesis by (simp add: w dtScrollW_def)
qed

end
