(* ===== verification/PluginApi.thy ===== *)
theory PluginApi
  imports PluginEngine StoreHistory "HOL-Library.Multiset"
begin

text \<open>
  The functions a plugin's script can call (\<open>internal/plugin/api.go\<close>): the three of \<open>http\<close> and the eight of \<open>db\<close>. A
  function takes the list of its arguments and pushes a list of results; \<open>None\<close> stands for the Lua error that a
  missing or ill-typed argument raises. The record \<open>api_env\<close> is what is outside: the codec of the store, the
  clock, the texts of errors, \<open>http.NewRequest\<close> and the HTTP client.
\<close>

section \<open>Arguments\<close>

definition arg :: "nat \<Rightarrow> lua list \<Rightarrow> lua" where
  "arg n args = (if 0 < n \<and> n \<le> length args then args ! (n - 1) else LNil)"

text \<open>\<open>CheckString\<close> takes a number for its text; \<open>CheckInt\<close> takes numbers only.\<close>

definition CheckString :: "nat \<Rightarrow> lua list \<Rightarrow> string option" where
  "CheckString n args = (case arg n args of LString s \<Rightarrow> Some s | LNumber k \<Rightarrow> Some (itoa k) | _ \<Rightarrow> None)"

definition OptString :: "nat \<Rightarrow> string \<Rightarrow> lua list \<Rightarrow> string option" where
  "OptString n d args = (if arg n args = LNil then Some d else CheckString n args)"

definition CheckInt :: "nat \<Rightarrow> lua list \<Rightarrow> int option" where
  "CheckInt n args = (case arg n args of LNumber k \<Rightarrow> Some k | _ \<Rightarrow> None)"

definition OptInt :: "nat \<Rightarrow> int \<Rightarrow> lua list \<Rightarrow> int option" where
  "OptInt n d args = (if arg n args = LNil then Some d else CheckInt n args)"

definition OptTable :: "nat \<Rightarrow> lua list \<Rightarrow> (lua \<times> lua) list option option" where
  "OptTable n args = (case arg n args of LNil \<Rightarrow> Some None | LTable t \<Rightarrow> Some (Some t) | _ \<Rightarrow> None)"

text \<open>An array is a table with the keys 1, 2 and so on.\<close>

definition lua_array :: "lua list \<Rightarrow> lua" where
  "lua_array xs = LTable (zip (map (\<lambda>i. LNumber (int i + 1)) [0..<length xs]) xs)"

definition num_field :: "string \<Rightarrow> int \<Rightarrow> lua \<times> lua" where
  "num_field k n = (LString k, LNumber n)"

record api_env =
  ae_codec :: codec
  ae_now :: int
  ae_err :: "store_error \<Rightarrow> string"
  ae_new_request :: "string \<Rightarrow> string \<Rightarrow> string + http_request"
  ae_do :: "http_request \<Rightarrow> string \<Rightarrow> string + int \<times> header \<times> string"
  ae_text :: "(lua \<times> lua) list \<Rightarrow> string"

section \<open>The HTTP client\<close>

definition pushResponse :: "int \<times> header \<times> string \<Rightarrow> lua list" where
  "pushResponse = (\<lambda>(status, h, body). [LTable [num_field ''status'' status, str_field ''body'' body,
     (LString ''headers'', header_table h)]])"

definition lua_error :: "string \<Rightarrow> lua list" where
  "lua_error e = [LNil, LString e]"

definition send_request :: "api_env \<Rightarrow> string \<Rightarrow> string \<Rightarrow> string \<Rightarrow> (http_request \<Rightarrow> http_request) \<Rightarrow> lua list" where
  "send_request en method u body prepare = (case ae_new_request en method u of
     Inl e \<Rightarrow> lua_error e
   | Inr req \<Rightarrow> (case ae_do en (prepare req) body of Inl e \<Rightarrow> lua_error e | Inr resp \<Rightarrow> pushResponse resp))"

definition http_get :: "api_env \<Rightarrow> lua list \<Rightarrow> lua list option" where
  "http_get en args = (case CheckString 1 args of None \<Rightarrow> None
     | Some u \<Rightarrow> Some (send_request en ''GET'' u [] (\<lambda>r. r)))"

definition http_post :: "api_env \<Rightarrow> lua list \<Rightarrow> lua list option" where
  "http_post en args = (case (CheckString 1 args, CheckString 2 args, OptString 3 ''application/json'' args) of
     (Some u, Some body, Some ct) \<Rightarrow>
       Some (send_request en ''POST'' u body (\<lambda>r. r\<lparr>rq_header := h_set (rq_header r) ''Content-Type'' ct\<rparr>))
   | _ \<Rightarrow> None)"

definition http_request_fn :: "api_env \<Rightarrow> lua list \<Rightarrow> lua list option" where
  "http_request_fn en args = (case (CheckString 1 args, CheckString 2 args, OptString 3 [] args, OptTable 4 args) of
     (Some method, Some u, Some body, Some headers) \<Rightarrow>
       Some (send_request en method u body (\<lambda>r. case headers of None \<Rightarrow> r
         | Some t \<Rightarrow> r\<lparr>rq_header := fold (\<lambda>(k, v) h. h_set h (lua_text (ae_text en) k) (lua_text (ae_text en) v)) t (rq_header r)\<rparr>))
   | _ \<Rightarrow> None)"

section \<open>The database\<close>

definition transactionToTable :: "codec \<Rightarrow> Transaction \<Rightarrow> lua" where
  "transactionToTable c tx = LTable [num_field ''id'' (int (tx_id tx)), str_field ''host'' (tx_host tx),
     str_field ''method'' (tx_method tx), str_field ''url'' (tx_url tx), str_field ''proto'' (tx_proto tx),
     num_field ''status'' (tx_status tx), num_field ''duration_ms'' (tx_duration_ms tx),
     (LString ''tls'', LBool (tx_tls tx)), (LString ''in_scope'', LBool (tx_in_scope tx)),
     str_field ''req_body'' (tx_req_body tx), str_field ''resp_body'' (tx_resp_body tx),
     str_field ''timestamp'' (format_time c (tx_timestamp tx)),
     (LString ''req_headers'', header_table (tx_req_headers tx)), (LString ''resp_headers'', header_table (tx_resp_headers tx))]"

definition api_filter :: "string \<Rightarrow> string \<Rightarrow> TransactionFilter" where
  "api_filter host search = \<lparr>tf_search = search, tf_host = host, tf_port = 0, tf_path_prefix = [], tf_show_out_scope = True,
     tf_methods = [], tf_status_min = 0, tf_status_max = 0, tf_hide_static = False\<rparr>"

type_synonym api_call = "lua list \<Rightarrow> store \<Rightarrow> lua list option \<times> store"

text \<open>The result of a call of the store: an error becomes \<open>nil\<close> and its text.\<close>

definition push :: "api_env \<Rightarrow> ('a \<Rightarrow> lua) \<Rightarrow> (store_error + 'a) \<times> store \<Rightarrow> lua list option \<times> store" where
  "push en f = (\<lambda>(r, s). (Some (case r of Inl e \<Rightarrow> lua_error (ae_err en e) | Inr x \<Rightarrow> [f x]), s))"

definition db_history :: "api_env \<Rightarrow> api_call" where
  "db_history en args s = (case OptInt 1 100 args of None \<Rightarrow> (None, s)
     | Some limit \<Rightarrow> push en (\<lambda>txs. lua_array (map (transactionToTable (ae_codec en))
           (if limit > 0 \<and> int (length txs) > limit then take (nat limit) txs else txs)))
         (TransactionsPage (ae_codec en) 0 (api_filter [] []) s))"

definition db_history_filter :: "api_env \<Rightarrow> api_call" where
  "db_history_filter en args s = (case (OptString 1 [] args, OptString 2 [] args, OptInt 3 0 args) of
     (Some host, Some method, Some _) \<Rightarrow> push en (\<lambda>txs. lua_array (map (transactionToTable (ae_codec en)) txs))
         (TransactionsPage (ae_codec en) 0 (api_filter host method) s)
   | _ \<Rightarrow> (None, s))"

definition db_scope_get :: "api_env \<Rightarrow> api_call" where
  "db_scope_get en args s = push en (\<lambda>es. lua_array (map (\<lambda>e.
     LTable [num_field ''id'' (int (se_id e)), str_field ''host'' (se_host e)]) es)) (AllScopeEntries s)"

definition db_scope_add :: "api_env \<Rightarrow> api_call" where
  "db_scope_add en args s = (case CheckString 1 args of None \<Rightarrow> (None, s)
     | Some host \<Rightarrow> push en (\<lambda>_. LBool True) (AddScopeEntry host s))"

text \<open>Ids are positive, so a negative one names no row.\<close>

definition db_scope_remove :: "api_env \<Rightarrow> api_call" where
  "db_scope_remove en args s = (case CheckInt 1 args of None \<Rightarrow> (None, s)
     | Some i \<Rightarrow> push en (\<lambda>_. LBool True) (DeleteScopeEntry (nat i) s))"

definition loot_table :: "LootEntry \<Rightarrow> lua" where
  "loot_table e = LTable [num_field ''id'' (int (le_id e)), str_field ''title'' (le_title e),
     str_field ''severity'' (le_severity e), str_field ''notes'' (le_notes e), str_field ''raw_request'' (le_raw_request e),
     str_field ''raw_response'' (le_raw_response e)]"

definition db_loot_get :: "api_env \<Rightarrow> api_call" where
  "db_loot_get en args s = push en (\<lambda>es. lua_array (map loot_table es)) (AllLoot (ae_codec en) s)"

definition db_loot_add :: "api_env \<Rightarrow> api_call" where
  "db_loot_add en args s = (case (CheckString 1 args, CheckString 2 args, OptString 3 [] args, OptString 4 [] args, OptString 5 [] args) of
     (Some title, Some severity, Some notes, Some rawReq, Some rawResp) \<Rightarrow>
       push en (\<lambda>i. LNumber (int i)) (AddLoot (ae_codec en) (ae_now en) \<lparr>le_id = 0, le_title = title, le_severity = severity,
         le_notes = notes, le_history_id = None, le_raw_request = rawReq, le_raw_response = rawResp, le_created_at = 0\<rparr> s)
   | _ \<Rightarrow> (None, s))"

definition db_loot_delete :: "api_env \<Rightarrow> api_call" where
  "db_loot_delete en args s = (case CheckInt 1 args of None \<Rightarrow> (None, s)
     | Some i \<Rightarrow> push en (\<lambda>_. LBool True) (DeleteLoot (nat i) s))"

section \<open>What a script sees of the history\<close>

lemma api_filter_all: "page_where 0 (api_filter [] []) r"
proof -
  have "str_fields (to_lower []) = []" by code_simp
  then show ?thesis by (cases r) (simp add: page_where_def api_filter_def)
qed

lemma healthy_fault: "healthy s \<Longrightarrow> \<not> s_fault s n"
  by (simp add: healthy_def)

text \<open>C32: \<open>db.history (k)\<close> gives a script the newest transactions, at most \<open>k\<close> and at most a hundred, newest first; each
  is what \<open>GetTransaction\<close> returns for its id except for the two bodies, which are always empty.\<close>

theorem db_history_newest:
  assumes "healthy s" "t_ok (t_history s)"
  shows "\<exists>txs. fst (db_history en [LNumber k] s) = Some [lua_array (map (transactionToTable (ae_codec en)) txs)]
    \<and> map tx_id txs = map fst (take (if 0 < k then min (nat k) 100 else 100) (rev (t_rows (t_history s))))
    \<and> list_all (\<lambda>tx. \<exists>full. fst (GetTransaction (ae_codec en) (tx_id tx) s) = Inr full
        \<and> tx = full\<lparr>tx_req_body := [], tx_resp_body := []\<rparr>) txs"
proof -
  let ?c = "ae_codec en" and ?n = "if 0 < k then min (nat k) 100 else 100 :: nat"
  let ?rs = "rev (t_rows (t_history s))"
  let ?txs = "map (scan_row ?c False) (take ?n ?rs)"
  have m: "matching (api_filter [] []) s = ?rs"
    by (simp add: matching_def t_desc_rows [OF assms(2)] api_filter_all)
  have "TransactionsPage ?c 0 (api_filter [] []) s = (Inr (map (scan_row ?c False) (take 100 ?rs)), tick s)"
    using TransactionsPage_eq [OF healthy_fault [OF assms(1)], of ?c 0 "api_filter [] []"] by (simp add: m PageSize_def)
  moreover have "k = 100 \<or> k \<noteq> 100" by simp
  then have "(if k > 0 \<and> int (length (map (scan_row ?c False) (take 100 ?rs))) > k
      then take (nat k) (map (scan_row ?c False) (take 100 ?rs)) else map (scan_row ?c False) (take 100 ?rs)) = ?txs"
    by (auto simp: take_map min_def nat_le_iff)
  ultimately have r: "fst (db_history en [LNumber k] s) = Some [lua_array (map (transactionToTable ?c) ?txs)]"
    by (simp add: db_history_def OptInt_def CheckInt_def arg_def push_def)
  have ids: "map tx_id ?txs = map fst (take ?n ?rs)" by (auto simp: scan_row_def)
  have "list_all (\<lambda>tx. \<exists>full. fst (GetTransaction ?c (tx_id tx) s) = Inr full
      \<and> tx = full\<lparr>tx_req_body := [], tx_resp_body := []\<rparr>) ?txs"
  proof (unfold list_all_iff, rule ballI)
    fix tx assume "tx \<in> set ?txs"
    then obtain i r where tx: "tx = scan_row ?c False (i, r)" "(i, r) \<in> set (t_rows (t_history s))"
      by (auto dest: in_set_takeD)
    then have "t_find i (t_history s) = Some r" using t_find_Some [OF assms(2)] by blast
    then have "fst (GetTransaction ?c i s) = Inr (scan_row ?c True (i, r))"
      by (simp add: GetTransaction_eq [OF healthy_fault [OF assms(1)]])
    moreover have "tx_id tx = i" by (simp add: tx(1) scan_row_def)
    ultimately have "fst (GetTransaction ?c (tx_id tx) s) = Inr (scan_row ?c True (i, r))" by simp
    then show "\<exists>full. fst (GetTransaction ?c (tx_id tx) s) = Inr full \<and> tx = full\<lparr>tx_req_body := [], tx_resp_body := []\<rparr>"
      by (auto simp: tx(1) scan_row_def)
  qed
  with r ids show ?thesis by blast
qed

definition demo_api :: api_env where
  "demo_api = \<lparr>ae_codec = demo_codec, ae_now = 0, ae_err = \<lambda>_. ''error'', ae_new_request = \<lambda>_ _. Inl ''error'',
     ae_do = \<lambda>_ _. Inl ''error'', ae_text = \<lambda>_. ''table''\<rparr>"

lemma map_fst_single: "map fst xs = [k] \<Longrightarrow> \<exists>a. xs = [(k, a)]"
  by (cases xs) auto

theorem db_history_newest_witness:
  "\<exists>txs. fst (db_history demo_api [LNumber 5] (history_step demo_codec (HLog demo_tx) demo_store))
      = Some [lua_array (map (transactionToTable demo_codec) txs)] \<and> map tx_id txs = [1] \<and> map tx_req_body txs = [[]]"
proof -
  let ?s = "history_step demo_codec (HLog demo_tx) demo_store"
  have t: "map fst (t_rows (t_history ?s)) = [1]" "t_seq (t_history ?s) = 1" "\<not> s_done ?s" by code_simp+
  have "s_fault ?s = (\<lambda>_. False)" unfolding history_step_fault by (simp add: demo_store_def fresh_store_def)
  with t have ok: "healthy ?s" "t_ok (t_history ?s)" by (auto simp: healthy_def t_ok_def)
  obtain txs where x: "fst (db_history demo_api [LNumber 5] ?s) = Some [lua_array (map (transactionToTable (ae_codec demo_api)) txs)]"
    "map tx_id txs = map fst (take 5 (rev (t_rows (t_history ?s))))"
    "list_all (\<lambda>tx. \<exists>full. fst (GetTransaction (ae_codec demo_api) (tx_id tx) ?s) = Inr full
        \<and> tx = full\<lparr>tx_req_body := [], tx_resp_body := []\<rparr>) txs"
    using db_history_newest [OF ok, of demo_api 5] by auto
  obtain a where "t_rows (t_history ?s) = [(1, a)]" using map_fst_single [OF t(1)] by blast
  with x(2) have ids: "map tx_id txs = [1]" by simp
  moreover from ids obtain tx where "txs = [tx]" by (cases txs) auto
  moreover have "ae_codec demo_api = demo_codec" by (simp add: demo_api_def)
  moreover from \<open>txs = [tx]\<close> x(3) have "tx_req_body tx = []" by auto
  ultimately show ?thesis using x(1) by (intro exI [of _ txs]) simp
qed

text \<open>The third argument of \<open>db.history_filter\<close>, the status, is read and not used.\<close>

lemma db_history_filter_status:
  "db_history_filter en [LString host, LString method, LNumber a] s = db_history_filter en [LString host, LString method, LNumber b] s"
  by (simp add: db_history_filter_def OptInt_def CheckInt_def OptString_def CheckString_def arg_def)

section \<open>Loot from a script\<close>

lemma AllLoot_mset:
  assumes "healthy s" "t_ok (t_loot s)"
  shows "\<exists>es. fst (AllLoot c s) = Inr es \<and> mset es = mset (map (scan_loot c) (t_rows (t_loot s)))"
  using assms by (simp add: AllLoot_def healthy_sql t_desc_rows)

text \<open>What a script adds to the loot it finds there: \<open>db.loot_add\<close> returns a fresh id, and \<open>db.loot_get\<close> then returns
  the entries from before and one new table with that id and the five texts given.\<close>

theorem loot_add_then_get:
  assumes "healthy s" "t_ok (t_loot s)"
    and "fst (AllLoot (ae_codec en) s) = Inr es"
    and "db_loot_add en [LString title, LString severity, LString notes, LString rawReq, LString rawResp] s = (r, s')"
  shows "\<exists>i es'. r = Some [LNumber (int i)] \<and> i \<notin> le_id ` set es
    \<and> fst (db_loot_get en [] s') = Some [lua_array (map loot_table es')]
    \<and> mset (map loot_table es') = add_mset (LTable [num_field ''id'' (int i), str_field ''title'' title,
        str_field ''severity'' severity, str_field ''notes'' notes, str_field ''raw_request'' rawReq,
        str_field ''raw_response'' rawResp]) (mset (map loot_table es))"
proof -
  let ?c = "ae_codec en"
  let ?i = "Suc (t_seq (t_loot s))"
  let ?row = "\<lparr>lr_title = title, lr_severity = severity, lr_notes = notes, lr_history_id = None, lr_raw_request = rawReq,
    lr_raw_response = rawResp, lr_created_at = format_time ?c (ae_now en)\<rparr>"
  let ?t = "snd (t_insert ?row (t_loot s))"
  have add: "\<exists>s2. AddLoot ?c (ae_now en) \<lparr>le_id = 0, le_title = title, le_severity = severity, le_notes = notes,
      le_history_id = None, le_raw_request = rawReq, le_raw_response = rawResp, le_created_at = 0\<rparr> s = (Inr ?i, s2)
      \<and> healthy s2 \<and> t_loot s2 = ?t"
    using assms(1) by (simp add: AddLoot_def healthy_write healthy_sql t_insert_def notifyLoot_def healthy_def)
  then obtain s2 where s2: "r = Some [LNumber (int ?i)]" "s' = s2" "healthy s2" "t_loot s2 = ?t"
    using assms(4) by (auto simp: db_loot_add_def CheckString_def OptString_def arg_def push_def)
  obtain es' where es': "fst (AllLoot ?c s2) = Inr es'" "mset es' = mset (map (scan_loot ?c) (t_rows ?t))"
    using AllLoot_mset [OF s2(3), of ?c] t_ok_insert [OF assms(2)] by (auto simp: s2(4))
  have es: "mset es = mset (map (scan_loot ?c) (t_rows (t_loot s)))"
    using AllLoot_mset [OF assms(1,2), of ?c] assms(3) by auto
  then have "set es = set (map (scan_loot ?c) (t_rows (t_loot s)))" by (metis set_mset_mset)
  then have "?i \<notin> le_id ` set es" using assms(2) by (auto simp: t_ok_def scan_loot_def)
  moreover have "mset (map loot_table es') = add_mset (loot_table (scan_loot ?c (?i, ?row))) (mset (map loot_table es))"
    using arg_cong [OF es'(2), of "image_mset loot_table"] arg_cong [OF es, of "image_mset loot_table"]
    by (simp add: t_insert_def)
  moreover have "fst (db_loot_get en [] s') = Some [lua_array (map loot_table es')]"
    using es'(1) by (simp add: db_loot_get_def push_def s2(2) case_prod_beta)
  ultimately show ?thesis using s2(1) by (intro exI [of _ ?i] exI [of _ es']) (simp add: loot_table_def scan_loot_def)
qed

theorem loot_add_then_get_witness:
  "\<exists>i es'. fst (db_loot_add demo_api [LString ''t'', LString ''High'', LString [], LString ''q'', LString ''r''] demo_store)
      = Some [LNumber (int i)]
    \<and> fst (db_loot_get demo_api [] (snd (db_loot_add demo_api [LString ''t'', LString ''High'', LString [], LString ''q'', LString ''r'']
        demo_store))) = Some [lua_array (map loot_table es')] \<and> length es' = 1"
proof -
  let ?a = "[LString ''t'', LString ''High'', LString [], LString ''q'', LString ''r'']"
  have ok: "t_ok (t_loot demo_store)" "fst (AllLoot demo_codec demo_store) = Inr []"
    by (simp_all add: AllLoot_def healthy_sql demo_store_def fresh_store_def new_file_def)
       (simp add: sql_def tick_def t_desc_rows, simp add: empty_table_def)
  have c: "ae_codec demo_api = demo_codec" by (simp add: demo_api_def)
  obtain i es' where "fst (db_loot_add demo_api ?a demo_store) = Some [LNumber (int i)]"
    "fst (db_loot_get demo_api [] (snd (db_loot_add demo_api ?a demo_store))) = Some [lua_array (map loot_table es')]"
    "mset (map loot_table es') = add_mset (LTable [num_field ''id'' (int i), str_field ''title'' ''t'', str_field ''severity'' ''High'',
        str_field ''notes'' [], str_field ''raw_request'' ''q'', str_field ''raw_response'' ''r'']) (mset (map loot_table []))"
    using loot_add_then_get [OF demo_store_healthy(1) ok(1) _ prod.collapse [symmetric], of demo_api "[]"] ok(2) unfolding c by blast
  moreover from this(3) have "length es' = 1" by (metis length_map list.simps(8) mset.simps(1) size_mset size_single)
  ultimately show ?thesis by blast
qed

end
