(* ===== verification/Cert.thy ===== *)
theory Cert
  imports Net
begin

text \<open>
  The certificate authority (\<open>internal/cert/ca.go\<close>): loading or generating it, a certificate for a host, and the
  cache goroutines share. Keys are of any type \<open>'k\<close>. The record \<open>crypto\<close> is the standard library's part: key
  generation and serial numbers (the \<open>n\<close>-th draw may fail), \<open>x509.CreateCertificate\<close> and \<open>x509.ParseCertificate\<close>,
  and the text forms. The directory is a map from paths to contents; \<open>cr_write\<close> says whether a path can be
  written and \<open>cr_mkdir\<close> whether a directory is there or can be made. An IP address is its text.
\<close>

section \<open>Certificates\<close>

datatype key_usage = CertSign | CRLSign | DigitalSignature | KeyEncipherment
datatype ext_key_usage = ServerAuth

text \<open>\<open>xc_max_path\<close> is \<open>None\<close> where the code does not set it.\<close>

record x509_cert =
  xc_serial :: nat
  xc_common_name :: string
  xc_organization :: "string list"
  xc_not_before :: int
  xc_not_after :: int
  xc_usage :: "key_usage set"
  xc_ext_usage :: "ext_key_usage list"
  xc_is_ca :: bool
  xc_max_path :: "nat option"
  xc_dns :: "string list"
  xc_ips :: "string list"

record 'k crypto =
  cr_key :: "nat \<Rightarrow> nat \<Rightarrow> 'k option"
  cr_serial :: "nat \<Rightarrow> nat option"
  cr_create :: "x509_cert \<Rightarrow> x509_cert \<Rightarrow> 'k \<Rightarrow> 'k \<Rightarrow> string option"
  cr_parse :: "string \<Rightarrow> x509_cert option"
  cr_key_der :: "'k \<Rightarrow> string"
  cr_parse_key :: "string \<Rightarrow> 'k option"
  cr_pem :: "string \<Rightarrow> string \<Rightarrow> string"
  cr_pem_decode :: "string \<Rightarrow> string option"
  cr_write :: "string \<Rightarrow> bool"
  cr_mkdir :: "string \<Rightarrow> bool"

record 'k CA =
  ca_cert :: x509_cert
  ca_raw :: string
  ca_key :: 'k
  ca_fresh :: bool

datatype cert_error = KeyGeneration | SerialGeneration | CreateFailed | ParseFailed | WriteFailed string
  | ReadFailed string | KeyPEM | KeyParse | CertPEM_bad | NoDir

type_synonym files = "string \<Rightarrow> string option"

definition caKeySize :: nat where "caKeySize = 4096"
definition hostKeySize :: nat where "hostKeySize = 2048"

text \<open>Times in nanoseconds.\<close>

definition minute :: int where "minute = 60 * 1000000000"
definition caValidity :: int where "caValidity = 10 * 365 * 24 * 60 * minute"
definition hostValidity :: int where "hostValidity = 365 * 24 * 60 * minute"

section \<open>The authority\<close>

definition ca_template :: "nat \<Rightarrow> int \<Rightarrow> x509_cert" where
  "ca_template serial now = \<lparr>xc_serial = serial, xc_common_name = ''Shiv Local CA'', xc_organization = [''Shiv''],
     xc_not_before = now - minute, xc_not_after = now + caValidity, xc_usage = {CertSign, CRLSign}, xc_ext_usage = [],
     xc_is_ca = True, xc_max_path = Some 1, xc_dns = [], xc_ips = []\<rparr>"

definition writePEM :: "'k crypto \<Rightarrow> string \<Rightarrow> string \<Rightarrow> string \<Rightarrow> files \<Rightarrow> files option" where
  "writePEM cr path pemType der fs = (if cr_write cr path then Some (fs(path \<mapsto> cr_pem cr pemType der)) else None)"

text \<open>\<open>generate\<close> at the \<open>n\<close>-th draw of randomness: the key is written before the certificate.\<close>

definition generate :: "'k crypto \<Rightarrow> nat \<Rightarrow> int \<Rightarrow> string \<Rightarrow> string \<Rightarrow> files \<Rightarrow> (cert_error + 'k CA) \<times> files" where
  "generate cr n now keyPath crtPath fs = (case cr_key cr caKeySize n of None \<Rightarrow> (Inl KeyGeneration, fs)
     | Some key \<Rightarrow> (case cr_serial cr n of None \<Rightarrow> (Inl SerialGeneration, fs)
     | Some serial \<Rightarrow> (let tmpl = ca_template serial now in
       case cr_create cr tmpl tmpl key key of None \<Rightarrow> (Inl CreateFailed, fs)
     | Some der \<Rightarrow> (case cr_parse cr der of None \<Rightarrow> (Inl ParseFailed, fs)
     | Some parsed \<Rightarrow> (case writePEM cr keyPath ''RSA PRIVATE KEY'' (cr_key_der cr key) fs of
         None \<Rightarrow> (Inl (WriteFailed keyPath), fs)
     | Some fs \<Rightarrow> (case writePEM cr crtPath ''CERTIFICATE'' der fs of None \<Rightarrow> (Inl (WriteFailed crtPath), fs)
     | Some fs \<Rightarrow> (Inr \<lparr>ca_cert = parsed, ca_raw = der, ca_key = key, ca_fresh = True\<rparr>, fs)))))))"

definition loadFromDisk :: "'k crypto \<Rightarrow> nat \<Rightarrow> int \<Rightarrow> string \<Rightarrow> string \<Rightarrow> files \<Rightarrow> (cert_error + 'k CA) \<times> files" where
  "loadFromDisk cr n now keyPath crtPath fs = (case fs keyPath of None \<Rightarrow> (Inl (ReadFailed keyPath), fs)
     | Some keyPEM \<Rightarrow> (case fs crtPath of None \<Rightarrow> (Inl (ReadFailed crtPath), fs)
     | Some crtPEM \<Rightarrow> (case cr_pem_decode cr keyPEM of None \<Rightarrow> (Inl KeyPEM, fs)
     | Some keyDer \<Rightarrow> (case cr_parse_key cr keyDer of None \<Rightarrow> (Inl KeyParse, fs)
     | Some key \<Rightarrow> (case cr_pem_decode cr crtPEM of None \<Rightarrow> (Inl CertPEM_bad, fs)
     | Some der \<Rightarrow> (case cr_parse cr der of None \<Rightarrow> (Inl ParseFailed, fs)
     | Some parsed \<Rightarrow> (if now > xc_not_after parsed then generate cr n now keyPath crtPath fs
         else (Inr \<lparr>ca_cert = parsed, ca_raw = der, ca_key = key, ca_fresh = False\<rparr>, fs))))))))"

definition load_files :: "'k crypto \<Rightarrow> nat \<Rightarrow> int \<Rightarrow> string \<Rightarrow> files \<Rightarrow> (cert_error + 'k CA) \<times> files" where
  "load_files cr n now dir fs = (let keyPath = dir @ ''/ca.key''; crtPath = dir @ ''/ca.crt'' in
     if fs keyPath \<noteq> None \<and> fs crtPath \<noteq> None then loadFromDisk cr n now keyPath crtPath fs
     else generate cr n now keyPath crtPath fs)"

definition LoadFromDir :: "'k crypto \<Rightarrow> nat \<Rightarrow> int \<Rightarrow> string \<Rightarrow> files \<Rightarrow> (cert_error + 'k CA) \<times> files" where
  "LoadFromDir cr n now dir fs = (if cr_mkdir cr dir then load_files cr n now dir fs else (Inl NoDir, fs))"

text \<open>\<open>Dir\<close> and \<open>Load\<close>, with the configuration directory of the user if there is one.\<close>

definition CA_Dir :: "'k crypto \<Rightarrow> string option \<Rightarrow> string option" where
  "CA_Dir cr config = (case config of None \<Rightarrow> None
     | Some c \<Rightarrow> (let dir = c @ ''/shiv'' in if cr_mkdir cr dir then Some dir else None))"

definition CA_Load :: "'k crypto \<Rightarrow> nat \<Rightarrow> int \<Rightarrow> string option \<Rightarrow> files \<Rightarrow> (cert_error + 'k CA) \<times> files" where
  "CA_Load cr n now config fs = (case CA_Dir cr config of None \<Rightarrow> (Inl NoDir, fs) | Some dir \<Rightarrow> load_files cr n now dir fs)"

definition CertPEMPath :: "'k crypto \<Rightarrow> string option \<Rightarrow> string option" where
  "CertPEMPath cr config = map_option (\<lambda>dir. dir @ ''/ca.crt'') (CA_Dir cr config)"

definition CertPEM :: "'k crypto \<Rightarrow> 'k CA \<Rightarrow> string" where
  "CertPEM cr ca = cr_pem cr ''CERTIFICATE'' (ca_raw ca)"

section \<open>A certificate for a host\<close>

record 'k tls_cert =
  tc_chain :: "string list"
  tc_key :: 'k
  tc_leaf :: x509_cert

definition host_template :: "nat \<Rightarrow> int \<Rightarrow> string \<Rightarrow> x509_cert" where
  "host_template serial now hostname = \<lparr>xc_serial = serial, xc_common_name = hostname, xc_organization = [],
     xc_not_before = now - minute, xc_not_after = now + hostValidity, xc_usage = {DigitalSignature, KeyEncipherment},
     xc_ext_usage = [ServerAuth], xc_is_ca = False, xc_max_path = None,
     xc_dns = (if is_ip hostname then [] else [hostname]), xc_ips = (if is_ip hostname then [hostname] else [])\<rparr>"

definition generateHostCert :: "'k crypto \<Rightarrow> 'k CA \<Rightarrow> nat \<Rightarrow> int \<Rightarrow> string \<Rightarrow> cert_error + 'k tls_cert" where
  "generateHostCert cr ca n now hostname = (case cr_key cr hostKeySize n of None \<Rightarrow> Inl KeyGeneration
     | Some key \<Rightarrow> (case cr_serial cr n of None \<Rightarrow> Inl SerialGeneration
     | Some serial \<Rightarrow> (case cr_create cr (host_template serial now hostname) (ca_cert ca) key (ca_key ca) of None \<Rightarrow> Inl CreateFailed
     | Some der \<Rightarrow> (case cr_parse cr der of None \<Rightarrow> Inl ParseFailed
     | Some leaf \<Rightarrow> Inr \<lparr>tc_chain = [der, ca_raw ca], tc_key = key, tc_leaf = leaf\<rparr>))))"

definition host_of :: "string \<Rightarrow> string" where
  "host_of host = (case split_host_port host of Some (h, _) \<Rightarrow> h | None \<Rightarrow> host)"

text \<open>
  \<open>TLSCertForHost\<close> as goroutines run it: look into the cache, generate a certificate, store it if there is none
  yet. The look and the store are one atomic operation of the \<open>sync.Map\<close> each.
\<close>

datatype 'k cert_pc = CIdle | CStart string | CMake string | CStore string "'k tls_cert"
  | CReturn string "cert_error + 'k tls_cert"

record 'k cert_state =
  cs_cache :: "string \<Rightarrow> 'k tls_cert option"
  cs_pc :: "nat \<Rightarrow> 'k cert_pc"
  cs_draw :: nat

definition TLSCertForHost_step :: "'k crypto \<Rightarrow> 'k CA \<Rightarrow> int \<Rightarrow> nat \<Rightarrow> 'k cert_state \<Rightarrow> 'k cert_state" where
  "TLSCertForHost_step cr ca now g s = (case cs_pc s g of
     CStart host \<Rightarrow> (let h = host_of host in case cs_cache s h of
         Some c \<Rightarrow> s\<lparr>cs_pc := (cs_pc s)(g := CReturn h (Inr c))\<rparr>
       | None \<Rightarrow> s\<lparr>cs_pc := (cs_pc s)(g := CMake h)\<rparr>)
   | CMake h \<Rightarrow> s\<lparr>cs_draw := Suc (cs_draw s), cs_pc := (cs_pc s)(g := (case generateHostCert cr ca (cs_draw s) now h of
         Inl e \<Rightarrow> CReturn h (Inl e) | Inr c \<Rightarrow> CStore h c))\<rparr>
   | CStore h c \<Rightarrow> (case cs_cache s h of
         Some c' \<Rightarrow> s\<lparr>cs_pc := (cs_pc s)(g := CReturn h (Inr c'))\<rparr>
       | None \<Rightarrow> s\<lparr>cs_cache := (cs_cache s)(h \<mapsto> c), cs_pc := (cs_pc s)(g := CReturn h (Inr c))\<rparr>)
   | _ \<Rightarrow> s)"

datatype cert_event = CertCall nat string | CertStep nat int

text \<open>A goroutine that is in no call, or back from one, may call; any goroutine may take its next step.\<close>

definition cert_event :: "'k crypto \<Rightarrow> 'k CA \<Rightarrow> cert_event \<Rightarrow> 'k cert_state \<Rightarrow> 'k cert_state" where
  "cert_event cr ca e s = (case e of
     CertCall g host \<Rightarrow> (case cs_pc s g of CIdle \<Rightarrow> s\<lparr>cs_pc := (cs_pc s)(g := CStart host)\<rparr>
       | CReturn _ _ \<Rightarrow> s\<lparr>cs_pc := (cs_pc s)(g := CStart host)\<rparr> | _ \<Rightarrow> s)
   | CertStep g now \<Rightarrow> TLSCertForHost_step cr ca now g s)"

definition cert_run :: "'k crypto \<Rightarrow> 'k CA \<Rightarrow> cert_event list \<Rightarrow> 'k cert_state \<Rightarrow> 'k cert_state" where
  "cert_run cr ca es s = fold (cert_event cr ca) es s"

definition new_cache :: "'k cert_state" where
  "new_cache = \<lparr>cs_cache = \<lambda>_. None, cs_pc = \<lambda>_. CIdle, cs_draw = 0\<rparr>"

section \<open>One certificate per host\<close>

text \<open>
  What \<open>x509.CreateCertificate\<close> documents: the certificate has the fields of the template; times are kept to
  the second.
\<close>

definition as_issued :: "x509_cert \<Rightarrow> x509_cert" where
  "as_issued t = t\<lparr>xc_not_before := xc_not_before t - xc_not_before t mod 1000000000,
     xc_not_after := xc_not_after t - xc_not_after t mod 1000000000\<rparr>"

definition create_law :: "'k crypto \<Rightarrow> bool" where
  "create_law cr = (\<forall>t p k s der. cr_create cr t p k s = Some der \<longrightarrow> cr_parse cr der = Some (as_issued t))"

text \<open>A certificate for exactly this host, signed under this authority.\<close>

definition names_host :: "'k CA \<Rightarrow> string \<Rightarrow> 'k tls_cert \<Rightarrow> bool" where
  "names_host ca h c = (xc_dns (tc_leaf c) = (if is_ip h then [] else [h]) \<and> xc_ips (tc_leaf c) = (if is_ip h then [h] else [])
     \<and> \<not> xc_is_ca (tc_leaf c) \<and> xc_ext_usage (tc_leaf c) = [ServerAuth] \<and> (\<exists>der. tc_chain c = [der, ca_raw ca]))"

lemma generateHostCert_names: "create_law cr \<Longrightarrow> generateHostCert cr ca n now h = Inr c \<Longrightarrow> names_host ca h c"
  by (auto simp: generateHostCert_def create_law_def names_host_def host_template_def as_issued_def split: option.splits)

definition cert_ok :: "'k CA \<Rightarrow> 'k cert_state \<Rightarrow> bool" where
  "cert_ok ca s = ((\<forall>h c. cs_cache s h = Some c \<longrightarrow> names_host ca h c)
     \<and> (\<forall>g h c. cs_pc s g = CStore h c \<longrightarrow> names_host ca h c)
     \<and> (\<forall>g h c. cs_pc s g = CReturn h (Inr c) \<longrightarrow> cs_cache s h = Some c))"

lemma cert_event_ok:
  assumes "create_law cr" "cert_ok ca s" shows "cert_ok ca (cert_event cr ca e s)"
proof (cases e)
  case (CertCall g host)
  then show ?thesis using assms(2) by (cases "cs_pc s g") (auto simp: cert_event_def cert_ok_def)
next
  case (CertStep g now)
  note gen = generateHostCert_names [OF assms(1)]
  show ?thesis
  proof (cases "cs_pc s g")
    case (CMake h)
    then show ?thesis using assms(2)
      by (auto simp: CertStep cert_event_def TLSCertForHost_step_def cert_ok_def gen split: sum.splits)
  next
    case (CStore h c)
    show ?thesis
    proof (cases "cs_cache s h")
      case None
      have "cs_pc s g' = CReturn h (Inr c') \<Longrightarrow> False" for g' c' using assms(2) None by (auto simp: cert_ok_def)
      then show ?thesis using assms(2) CStore None
        by (auto simp: CertStep cert_event_def TLSCertForHost_step_def cert_ok_def)
    qed (use assms(2) CStore in \<open>auto simp: CertStep cert_event_def TLSCertForHost_step_def cert_ok_def\<close>)
  qed (use assms(2) in \<open>auto simp: CertStep cert_event_def TLSCertForHost_step_def cert_ok_def Let_def split: option.splits\<close>)
qed

lemma cert_run_ok: "create_law cr \<Longrightarrow> cert_ok ca s \<Longrightarrow> cert_ok ca (cert_run cr ca es s)"
  by (induction es arbitrary: s) (simp_all add: cert_run_def cert_event_ok)


definition demo_crypto :: "nat crypto" where
  "demo_crypto = \<lparr>cr_key = \<lambda>bits n. Some n, cr_serial = \<lambda>n. Some 7,
     cr_create = \<lambda>t p k s. if t = host_template 7 0 ''h'' then Some ''host'' else if t = ca_template 7 0 then Some ''ca'' else None,
     cr_parse = \<lambda>d. if d = ''host'' then Some (as_issued (host_template 7 0 ''h''))
       else if d = ''ca'' then Some (as_issued (ca_template 7 0)) else None,
     cr_key_der = \<lambda>k. nat_digits k, cr_parse_key = \<lambda>d. Some (digits_val d),
     cr_pem = \<lambda>t d. d, cr_pem_decode = Some, cr_write = \<lambda>_. True, cr_mkdir = \<lambda>_. True\<rparr>"

definition demo_ca :: "nat CA" where
  "demo_ca = \<lparr>ca_cert = as_issued (ca_template 7 0), ca_raw = ''ca'', ca_key = 0, ca_fresh = True\<rparr>"

lemma demo_create_law: "create_law demo_crypto"
  by (simp add: create_law_def demo_crypto_def host_template_def ca_template_def)


section \<open>The authority on disk\<close>

text \<open>What the text forms are documented to do: what was written reads back.\<close>

definition pem_law :: "'k crypto \<Rightarrow> bool" where
  "pem_law cr = ((\<forall>t d. cr_pem_decode cr (cr_pem cr t d) = Some d) \<and> (\<forall>k. cr_parse_key cr (cr_key_der cr k) = Some k))"

lemma generate_files:
  assumes "generate cr n now keyPath crtPath fs = (Inr ca, fs')" "keyPath \<noteq> crtPath"
  shows "fs' keyPath = Some (cr_pem cr ''RSA PRIVATE KEY'' (cr_key_der cr (ca_key ca)))
    \<and> fs' crtPath = Some (cr_pem cr ''CERTIFICATE'' (ca_raw ca)) \<and> cr_parse cr (ca_raw ca) = Some (ca_cert ca)"
  using assms by (auto simp: generate_def writePEM_def Let_def split: option.splits if_splits)

lemma loadFromDisk_cases:
  assumes "loadFromDisk cr n now keyPath crtPath fs = (Inr ca, fs')"
  shows "generate cr n now keyPath crtPath fs = (Inr ca, fs')
    \<or> fs' = fs \<and> \<not> ca_fresh ca \<and> (\<exists>kp kd cp. fs keyPath = Some kp \<and> cr_pem_decode cr kp = Some kd \<and> cr_parse_key cr kd = Some (ca_key ca)
        \<and> fs crtPath = Some cp \<and> cr_pem_decode cr cp = Some (ca_raw ca) \<and> cr_parse cr (ca_raw ca) = Some (ca_cert ca))"
  using assms by (auto simp: loadFromDisk_def split: option.splits if_splits)

text \<open>C34: The authority survives a restart. After a successful load, generated or read, every later load up to the end of its
  validity gives the same certificate and the same key, says that it is not fresh and leaves the files alone.\<close>

theorem ca_survives_restart:
  assumes "pem_law cr" and "LoadFromDir cr n now dir fs = (Inr ca, fs')"
    and "now' \<le> xc_not_after (ca_cert ca)"
  shows "LoadFromDir cr n' now' dir fs' = (Inr (ca\<lparr>ca_fresh := False\<rparr>), fs')"
proof -
  let ?k = "dir @ ''/ca.key''" and ?c = "dir @ ''/ca.crt''"
  have kc: "?k \<noteq> ?c" and dir: "cr_mkdir cr dir" using assms(2) by (auto simp: LoadFromDir_def load_files_def Let_def split: if_splits)
  have "\<exists>kp kd cp. fs' ?k = Some kp \<and> cr_pem_decode cr kp = Some kd \<and> cr_parse_key cr kd = Some (ca_key ca)
      \<and> fs' ?c = Some cp \<and> cr_pem_decode cr cp = Some (ca_raw ca) \<and> cr_parse cr (ca_raw ca) = Some (ca_cert ca)"
  proof (cases "generate cr n now ?k ?c fs = (Inr ca, fs')")
    case True
    from generate_files [OF this kc] assms(1) show ?thesis by (auto simp: pem_law_def)
  next
    case False
    then have "loadFromDisk cr n now ?k ?c fs = (Inr ca, fs')"
      using assms(2) dir by (simp add: LoadFromDir_def load_files_def Let_def split: if_splits)
    from loadFromDisk_cases [OF this] False show ?thesis by blast
  qed
  then show ?thesis using assms(3) dir by (auto simp: LoadFromDir_def load_files_def loadFromDisk_def Let_def)
qed

theorem ca_survives_restart_witness:
  "\<exists>ca fs'. LoadFromDir demo_crypto 4 0 ''d'' (\<lambda>_. None) = (Inr ca, fs') \<and> ca_fresh ca
    \<and> LoadFromDir demo_crypto 9 1000000000 ''d'' fs' = (Inr (ca\<lparr>ca_fresh := False\<rparr>), fs')"
proof -
  have law: "pem_law demo_crypto" by (simp add: pem_law_def demo_crypto_def)
  let ?ca = "\<lparr>ca_cert = as_issued (ca_template 7 0), ca_raw = ''ca'', ca_key = 4, ca_fresh = True\<rparr>"
  have "ca_template 7 0 \<noteq> host_template 7 0 ''h''" by (simp add: ca_template_def host_template_def)
  then have "\<exists>fs'. LoadFromDir demo_crypto 4 0 ''d'' (\<lambda>_. None) = (Inr ?ca, fs')"
    by (simp add: LoadFromDir_def load_files_def generate_def writePEM_def demo_crypto_def Let_def)
  then obtain fs' where l: "LoadFromDir demo_crypto 4 0 ''d'' (\<lambda>_. None) = (Inr ?ca, fs')" by blast
  have "1000000000 \<le> xc_not_after (ca_cert ?ca)"
    by (simp add: as_issued_def ca_template_def caValidity_def minute_def)
  from ca_survives_restart [OF law l this, of 9] l show ?thesis by (intro exI conjI) (rule l, simp_all)
qed

text \<open>
  A key without its certificate: when the key file was lost and the new certificate cannot be written, the next load takes
  the old certificate with the new key.
\<close>

lemma half_written_authority:
  assumes "pem_law cr" "cr_mkdir cr dir" "fs (dir @ ''/ca.key'') = None" "fs (dir @ ''/ca.crt'') = Some (cr_pem cr ''CERTIFICATE'' old)"
    and "cr_parse cr old = Some oldCert" "now \<le> xc_not_after oldCert"
    and "cr_write cr (dir @ ''/ca.key'')" "\<not> cr_write cr (dir @ ''/ca.crt'')"
    and "cr_key cr caKeySize n = Some key" "cr_serial cr n = Some sn" "cr_create cr (ca_template sn now) (ca_template sn now) key key = Some der"
      "cr_parse cr der = Some parsed"
  shows "\<exists>fs'. LoadFromDir cr n now dir fs = (Inl (WriteFailed (dir @ ''/ca.crt'')), fs')
    \<and> LoadFromDir cr n' now dir fs' = (Inr \<lparr>ca_cert = oldCert, ca_raw = old, ca_key = key, ca_fresh = False\<rparr>, fs')"
  using assms by (simp add: LoadFromDir_def load_files_def generate_def writePEM_def loadFromDisk_def pem_law_def Let_def)

end
