(* ===== verification/WsTab.thy ===== *)
theory WsTab
  imports StoreWs GoCodec RepeaterTabs "HOL-Library.Sublist"
begin

text \<open>
  The WebSockets window (\<open>internal/ui/websocket.go\<close>): the connections and the frames recorded by the store, each
  list with its filter, as a state machine. Loads run in goroutines: one is started, queries the store, and hands its
  result to the user interface, each a step of its own; two further goroutines read the channels the store notifies
  on. They outlive the window: each time it is opened two more are started, and a message a former window's goroutine
  takes is lost to the present one.
\<close>

section \<open>Filters and cells\<close>

fun hex_digits :: "nat \<Rightarrow> string" where
  "hex_digits n = (if n < 16 then [hex_digit n] else hex_digits (n div 16) @ [hex_digit (n mod 16)])"

declare hex_digits.simps [simp del]

definition opcodeLabel :: "WebSocketOpcode \<Rightarrow> string" where
  "opcodeLabel op = (if op = 1 then ''Text'' else if op = 2 then ''Binary'' else if op = 9 then ''Ping''
     else if op = 10 then ''Pong'' else if op = 8 then ''Close''
     else ''0x'' @ (if op < 0 then CHR ''-'' # hex_digits (nat (- op)) else hex_digits (nat op)))"

definition frame_payload :: "WebSocketFrame \<Rightarrow> string" where
  "frame_payload f = (case wsf_payload f of None \<Rightarrow> [] | Some b \<Rightarrow> b)"

definition filterConnections :: "WebSocketConnection list \<Rightarrow> string \<Rightarrow> WebSocketConnection list" where
  "filterConnections conns query = (let q = to_lower (trim_space query) in
     if q = [] then conns
     else filter (\<lambda>c. list_all (contains (to_lower (wsc_host c @ '' '' @ wsc_url c))) (str_fields q)) conns)"

definition filterFrames :: "WebSocketFrame list \<Rightarrow> string \<Rightarrow> WebSocketFrame list" where
  "filterFrames fs query = (let q = to_lower (trim_space query) in
     if q = [] then fs
     else filter (\<lambda>f. list_all (contains (to_lower (frame_payload f @ '' '' @ opcodeLabel (wsf_opcode f)))) (str_fields q)) fs)"

text \<open>The cells of the two tables; a time has its text from a parameter. The arrows and the tick are in UTF-8.\<close>

definition conn_cell :: "(int \<Rightarrow> string) \<Rightarrow> WebSocketConnection list \<Rightarrow> nat \<Rightarrow> nat \<Rightarrow> string" where
  "conn_cell format conns row col = (if row \<ge> length conns then []
     else let c = conns ! row in
       if col = 0 then nat_digits (wsc_id c) else if col = 1 then wsc_host c else if col = 2 then wsc_url c
       else if col = 3 then (if wsc_tls c then [CHR 0xE2, CHR 0x9C, CHR 0x93] else [])
       else if col = 4 then nat_digits (wsc_frame_count c) else if col = 5 then format (wsc_timestamp c) else [])"

definition frame_cell :: "(int \<Rightarrow> string) \<Rightarrow> WebSocketFrame list \<Rightarrow> nat \<Rightarrow> nat \<Rightarrow> string" where
  "frame_cell format fs row col = (if row \<ge> length fs then []
     else let f = fs ! row in
       if col = 0 then (if wsf_direction f = WebSocketClient then [CHR 0xE2, CHR 0x86, CHR 0x92] @ '' Client''
           else [CHR 0xE2, CHR 0x86, CHR 0x90] @ '' Server'')
       else if col = 1 then opcodeLabel (wsf_opcode f)
       else if col = 2 then nat_digits (length (frame_payload f)) @ ''b''
       else if col = 3 then format (wsf_timestamp f) else [])"

definition frame_style :: "WebSocketFrame list \<Rightarrow> nat \<Rightarrow> nat \<Rightarrow> importance" where
  "frame_style fs row col = (if col \<noteq> 0 \<or> row \<ge> length fs then MediumImportance
     else if wsf_direction (fs ! row) = WebSocketClient then HighImportance else SuccessImportance)"

section \<open>The window\<close>

record ws_window =
  ww_all :: "WebSocketConnection list"
  ww_conns :: "WebSocketConnection list"
  ww_all_frames :: "WebSocketFrame list"
  ww_frames :: "WebSocketFrame list"
  ww_selected :: nat
  ww_conn_filter :: string
  ww_frame_filter :: string
  ww_payload :: string

definition buildWebSocketContent :: ws_window where
  "buildWebSocketContent = \<lparr>ww_all = [], ww_conns = [], ww_all_frames = [], ww_frames = [], ww_selected = 0,
     ww_conn_filter = [], ww_frame_filter = [], ww_payload = []\<rparr>"

definition refilterConns :: "ws_window \<Rightarrow> ws_window" where
  "refilterConns w = w\<lparr>ww_conns := filterConnections (ww_all w) (ww_conn_filter w)\<rparr>"

definition refilterFrames :: "ws_window \<Rightarrow> ws_window" where
  "refilterFrames w = w\<lparr>ww_frames := filterFrames (ww_all_frames w) (ww_frame_filter w)\<rparr>"

text \<open>A load in flight, with its result once it has queried the store, and what waits for the user interface.\<close>

datatype ws_load = LoadAll bool | LoadFrames nat bool

datatype ws_result = GotConns "WebSocketConnection list" | GotFrames "WebSocketFrame list"

datatype ws_news = NewsAll bool "WebSocketConnection list" | NewsFrames bool "WebSocketFrame list"
  | NewsConn WebSocketConnection | NewsFrame WebSocketFrame

text \<open>\<open>wo_seen\<close> are the connections selected since the window was opened; it is there to state properties only.\<close>

record ws_view =
  wo_store :: store
  wo_window :: "ws_window option"
  wo_loads :: "(ws_load \<times> ws_result option) list"
  wo_news :: "ws_news list"
  wo_readers :: nat
  wo_seen :: "nat set"

definition on_window :: "(ws_window \<Rightarrow> ws_window) \<Rightarrow> ws_view \<Rightarrow> ws_view" where
  "on_window f x = x\<lparr>wo_window := map_option f (wo_window x)\<rparr>"

definition start_load :: "ws_load \<Rightarrow> ws_view \<Rightarrow> ws_view" where
  "start_load l x = x\<lparr>wo_loads := wo_loads x @ [(l, None)]\<rparr>"

text \<open>
  Opening; what a former window has in flight does not concern the new one. Closing.
\<close>

definition showWebSocketWindow :: "ws_view \<Rightarrow> ws_view" where
  "showWebSocketWindow x = (case wo_window x of Some _ \<Rightarrow> x
     | None \<Rightarrow> start_load (LoadAll True) (x\<lparr>wo_window := Some buildWebSocketContent, wo_loads := [], wo_news := [],
         wo_readers := Suc (wo_readers x), wo_seen := {}\<rparr>))"

definition close_window :: "ws_view \<Rightarrow> ws_view" where
  "close_window x = x\<lparr>wo_window := None, wo_loads := [], wo_news := []\<rparr>"

definition conn_selected :: "nat \<Rightarrow> ws_view \<Rightarrow> ws_view" where
  "conn_selected row x = (case wo_window x of None \<Rightarrow> x
     | Some w \<Rightarrow> if row \<ge> length (ww_conns w) then x
         else let i = wsc_id (ww_conns w ! row)
           in start_load (LoadFrames i True) (on_window (\<lambda>w. w\<lparr>ww_selected := i\<rparr>) (x\<lparr>wo_seen := insert i (wo_seen x)\<rparr>)))"

text \<open>Send to Repeater in the menu of a row: a tab with the connection's host, URL and TLS flag.\<close>

definition conn_to_repeater :: "nat \<Rightarrow> ws_window \<Rightarrow> rep_tabs \<Rightarrow> rep_tabs" where
  "conn_to_repeater row w rt = (if row \<ge> length (ww_conns w) then rt
     else let conn = ww_conns w ! row in AddWSTab (wsc_host conn) (wsc_url conn) (wsc_tls conn) rt)"

definition ws_frame_selected :: "nat \<Rightarrow> ws_view \<Rightarrow> ws_view" where
  "ws_frame_selected row = on_window (\<lambda>w. if row \<ge> length (ww_frames w) then w
     else let p = frame_payload (ww_frames w ! row) in w\<lparr>ww_payload := (if p = [] then ''(empty)'' else p)\<rparr>)"

definition conn_filter_changed :: "string \<Rightarrow> ws_view \<Rightarrow> ws_view" where
  "conn_filter_changed q = on_window (\<lambda>w. refilterConns (w\<lparr>ww_conn_filter := q\<rparr>))"

definition frame_filter_changed :: "string \<Rightarrow> ws_view \<Rightarrow> ws_view" where
  "frame_filter_changed q = on_window (\<lambda>w. refilterFrames (w\<lparr>ww_frame_filter := q\<rparr>))"

definition refresh_tapped :: "ws_view \<Rightarrow> ws_view" where
  "refresh_tapped x = (case wo_window x of None \<Rightarrow> x | Some _ \<Rightarrow> start_load (LoadAll False) x)"

section \<open>The goroutines\<close>

text \<open>The \<open>k\<close>-th load queries the store; if that fails it ends. Then it posts its result.\<close>

definition load_reads :: "codec \<Rightarrow> nat \<Rightarrow> ws_view \<Rightarrow> ws_view" where
  "load_reads c k x = (if k < length (wo_loads x) then
     (let drop_load = (\<lambda>s. x\<lparr>wo_store := s, wo_loads := take k (wo_loads x) @ drop (Suc k) (wo_loads x)\<rparr>);
          got = (\<lambda>l r s. x\<lparr>wo_store := s, wo_loads := (wo_loads x)[k := (l, Some r)]\<rparr>)
      in case wo_loads x ! k of
        (LoadAll i, None) \<Rightarrow> (case AllWebSocketConnections c (wo_store x) of
            (Inl _, s) \<Rightarrow> drop_load s | (Inr cs, s) \<Rightarrow> got (LoadAll i) (GotConns cs) s)
      | (LoadFrames i b, None) \<Rightarrow> (case FramesForConnection c i (wo_store x) of
            (Inl _, s) \<Rightarrow> drop_load s | (Inr fs, s) \<Rightarrow> got (LoadFrames i b) (GotFrames fs) s)
      | _ \<Rightarrow> x) else x)"

definition load_posts :: "nat \<Rightarrow> ws_view \<Rightarrow> ws_view" where
  "load_posts k x = (if k < length (wo_loads x) then
     (let posted = (\<lambda>n. x\<lparr>wo_loads := take k (wo_loads x) @ drop (Suc k) (wo_loads x), wo_news := wo_news x @ [n]\<rparr>)
      in case wo_loads x ! k of
        (LoadAll i, Some (GotConns cs)) \<Rightarrow> posted (NewsAll i cs)
      | (LoadFrames _ b, Some (GotFrames fs)) \<Rightarrow> posted (NewsFrames b fs)
      | _ \<Rightarrow> x) else x)"

text \<open>A reader takes a message: the present window's, or one of those a former window left behind.\<close>

definition takes_conn :: "bool \<Rightarrow> ws_view \<Rightarrow> ws_view" where
  "takes_conn own x = (case s_ws_conn_ch (wo_store x) of [] \<Rightarrow> x
     | conn # rest \<Rightarrow> (let y = x\<lparr>wo_store := (wo_store x)\<lparr>s_ws_conn_ch := rest\<rparr>\<rparr> in
         if own then (if wo_window x = None then x else y\<lparr>wo_news := wo_news x @ [NewsConn conn]\<rparr>)
         else if wo_readers x \<le> (if wo_window x = None then 0 else 1) then x else y))"

definition takes_frame :: "bool \<Rightarrow> ws_view \<Rightarrow> ws_view" where
  "takes_frame own x = (case s_ws_frame_ch (wo_store x) of [] \<Rightarrow> x
     | f # rest \<Rightarrow> (let y = x\<lparr>wo_store := (wo_store x)\<lparr>s_ws_frame_ch := rest\<rparr>\<rparr> in
         if own then (if wo_window x = None then x else y\<lparr>wo_news := wo_news x @ [NewsFrame f]\<rparr>)
         else if wo_readers x \<le> (if wo_window x = None then 0 else 1) then x else y))"

text \<open>What a frame adds to the count of its connection.\<close>

fun count_frame :: "nat \<Rightarrow> WebSocketConnection list \<Rightarrow> WebSocketConnection list" where
  "count_frame i [] = []"
| "count_frame i (c # cs) = (if wsc_id c = i then c\<lparr>wsc_frame_count := Suc (wsc_frame_count c)\<rparr> # cs else c # count_frame i cs)"

text \<open>The user interface takes the next news.\<close>

definition run_news :: "ws_view \<Rightarrow> ws_view" where
  "run_news x = (case wo_news x of [] \<Rightarrow> x
     | n # ns \<Rightarrow> (let x = x\<lparr>wo_news := ns\<rparr> in case n of
         NewsAll initial cs \<Rightarrow>
           if initial then on_window (\<lambda>w. w\<lparr>ww_all := cs, ww_conns := filterConnections cs []\<rparr>) x
           else (let x = on_window (\<lambda>w. refilterConns (w\<lparr>ww_all := cs\<rparr>)) x in
             case wo_window x of None \<Rightarrow> x
             | Some w \<Rightarrow> if ww_selected w > 0 then start_load (LoadFrames (ww_selected w) True) x else x)
       | NewsFrames clear fs \<Rightarrow>
           on_window (\<lambda>w. (refilterFrames (w\<lparr>ww_all_frames := fs\<rparr>))\<lparr>ww_payload := (if clear then [] else ww_payload w)\<rparr>) x
       | NewsConn conn \<Rightarrow> on_window (\<lambda>w. if wsc_id conn \<in> wsc_id ` set (ww_all w) then w
           else refilterConns (w\<lparr>ww_all := conn # ww_all w\<rparr>)) x
       | NewsFrame f \<Rightarrow> (let x = on_window (\<lambda>w. refilterConns (w\<lparr>ww_all := count_frame (wsf_conn_id f) (ww_all w)\<rparr>)) x in
           case wo_window x of None \<Rightarrow> x
           | Some w \<Rightarrow> if wsf_conn_id f = ww_selected w then start_load (LoadFrames (ww_selected w) False) x else x)))"

datatype ws_ui_event = WOpen | WClose | WSelect nat | WSelectFrame nat | WConnFilter string | WFrameFilter string | WRefresh
  | WReads nat | WPosts nat | WTakesConn bool | WTakesFrame bool | WNews
  | WConnection WebSocketConnectionEvent | WRecord WebSocketFrameEvent

definition wo_step :: "codec \<Rightarrow> ws_ui_event \<Rightarrow> ws_view \<Rightarrow> ws_view" where
  "wo_step c e x = (case e of
     WOpen \<Rightarrow> showWebSocketWindow x
   | WClose \<Rightarrow> close_window x
   | WSelect row \<Rightarrow> conn_selected row x
   | WSelectFrame row \<Rightarrow> ws_frame_selected row x
   | WConnFilter q \<Rightarrow> conn_filter_changed q x
   | WFrameFilter q \<Rightarrow> frame_filter_changed q x
   | WRefresh \<Rightarrow> refresh_tapped x
   | WReads k \<Rightarrow> load_reads c k x
   | WPosts k \<Rightarrow> load_posts k x
   | WTakesConn own \<Rightarrow> takes_conn own x
   | WTakesFrame own \<Rightarrow> takes_frame own x
   | WNews \<Rightarrow> run_news x
   | WConnection ev \<Rightarrow> x\<lparr>wo_store := snd (ObserveWebSocketConnection c ev (wo_store x))\<rparr>
   | WRecord ev \<Rightarrow> x\<lparr>wo_store := snd (ObserveWebSocketFrame c ev (wo_store x))\<rparr>)"

definition wo_run :: "codec \<Rightarrow> ws_ui_event list \<Rightarrow> ws_view \<Rightarrow> ws_view" where
  "wo_run c es x = fold (wo_step c) es x"

definition wo_start :: "store \<Rightarrow> ws_view" where
  "wo_start s = \<lparr>wo_store = s, wo_window = None, wo_loads = [], wo_news = [], wo_readers = 0, wo_seen = {}\<rparr>"

section \<open>What the window shows\<close>

text \<open>The frames recorded for a connection, in the order of their ids.\<close>

definition frames_of :: "codec \<Rightarrow> store \<Rightarrow> nat \<Rightarrow> WebSocketFrame list" where
  "frames_of c s i = map (scan_frame c) (filter (\<lambda>(_, r). fw_conn_id r = i) (t_rows (t_ws_frames s)))"

text \<open>Frames shown: an initial part of those of one connection that was selected.\<close>

definition frames_part :: "codec \<Rightarrow> store \<Rightarrow> nat set \<Rightarrow> WebSocketFrame list \<Rightarrow> bool" where
  "frames_part c s seen fs = (fs = [] \<or> (\<exists>i \<in> seen. prefix fs (frames_of c s i)))"

definition tables_ok :: "store \<Rightarrow> bool" where
  "tables_ok s = (t_ok (t_ws_conns s) \<and> t_ok (t_ws_frames s) \<and> list_all (\<lambda>f. wsf_conn_id f \<noteq> 0) (s_ws_frame_ch s))"

definition load_ok :: "codec \<Rightarrow> store \<Rightarrow> nat set \<Rightarrow> ws_load \<times> ws_result option \<Rightarrow> bool" where
  "load_ok c s seen l = (case l of
     (LoadAll _, Some (GotConns cs)) \<Rightarrow> distinct (map wsc_id cs)
   | (LoadFrames i _, None) \<Rightarrow> i \<in> seen
   | (LoadFrames i _, Some (GotFrames fs)) \<Rightarrow> frames_part c s seen fs
   | _ \<Rightarrow> True)"

definition news_ok :: "codec \<Rightarrow> store \<Rightarrow> nat set \<Rightarrow> ws_news \<Rightarrow> bool" where
  "news_ok c s seen n = (case n of NewsAll _ cs \<Rightarrow> distinct (map wsc_id cs) | NewsFrames _ fs \<Rightarrow> frames_part c s seen fs
     | NewsConn _ \<Rightarrow> True | NewsFrame f \<Rightarrow> wsf_conn_id f \<noteq> 0)"

definition window_ok :: "codec \<Rightarrow> store \<Rightarrow> nat set \<Rightarrow> ws_window \<Rightarrow> bool" where
  "window_ok c s seen w = (distinct (map wsc_id (ww_all w))
     \<and> (ww_conns w = filterConnections (ww_all w) (ww_conn_filter w) \<or> ww_conns w = ww_all w)
     \<and> ww_frames w = filterFrames (ww_all_frames w) (ww_frame_filter w)
     \<and> frames_part c s seen (ww_all_frames w) \<and> (ww_selected w = 0 \<or> ww_selected w \<in> seen))"

definition wo_ok :: "codec \<Rightarrow> ws_view \<Rightarrow> bool" where
  "wo_ok c x = (tables_ok (wo_store x) \<and> pred_option (window_ok c (wo_store x) (wo_seen x)) (wo_window x)
     \<and> list_all (load_ok c (wo_store x) (wo_seen x)) (wo_loads x) \<and> list_all (news_ok c (wo_store x) (wo_seen x)) (wo_news x))"

lemma frames_of_grows: "prefix (t_rows (t_ws_frames s)) (t_rows (t_ws_frames s')) \<Longrightarrow> prefix (frames_of c s i) (frames_of c s' i)"
  by (auto simp: prefix_def frames_of_def)

lemma frames_part_grows:
  assumes "prefix (t_rows (t_ws_frames s)) (t_rows (t_ws_frames s'))" "seen \<subseteq> seen'" "frames_part c s seen fs"
  shows "frames_part c s' seen' fs"
  using assms(2,3) frames_of_grows [OF assms(1), of c] prefix_order.trans unfolding frames_part_def by (metis subsetD)

text \<open>Everything of the invariant but the state of the tables is kept when the store grows and more is selected.\<close>

lemma wo_ok_grows:
  assumes "wo_ok c x" "tables_ok s'" "prefix (t_rows (t_ws_frames (wo_store x))) (t_rows (t_ws_frames s'))" "wo_seen x \<subseteq> seen'"
  shows "wo_ok c (x\<lparr>wo_store := s', wo_seen := seen'\<rparr>)"
proof -
  note grows = frames_part_grows [OF assms(3,4)]
  have "window_ok c s' seen' w" if "window_ok c (wo_store x) (wo_seen x) w" for w
    using that grows assms(4) by (auto simp: window_ok_def)
  moreover have "load_ok c s' seen' l" if "load_ok c (wo_store x) (wo_seen x) l" for l
    using that grows assms(4) by (auto simp: load_ok_def split: prod.splits ws_load.splits ws_result.splits option.splits)
  moreover have "news_ok c s' seen' n" if "news_ok c (wo_store x) (wo_seen x) n" for n
    using that grows by (auto simp: news_ok_def split: ws_news.splits)
  ultimately show ?thesis using assms(1,2) by (auto simp: wo_ok_def list_all_iff pred_option_def)
qed

lemma InScope_tables:
  "t_ws_conns (snd (InScope h s)) = t_ws_conns s" "t_ws_frames (snd (InScope h s)) = t_ws_frames s"
  "s_ws_frame_ch (snd (InScope h s)) = s_ws_frame_ch s"
  by (simp_all add: InScope_def Let_def AllScopeEntries_eq)

lemma observe_connection_tables:
  assumes "tables_ok s" shows "tables_ok (snd (ObserveWebSocketConnection c ev s))
    \<and> prefix (t_rows (t_ws_frames s)) (t_rows (t_ws_frames (snd (ObserveWebSocketConnection c ev s))))"
  using assms InScope_tables [of "wc_host ev" s]
  by (auto simp: ObserveWebSocketConnection_def LogWebSocketConnection_def store_simps tables_ok_def t_ok_insert
      case_prod_beta split: sum.splits prod.splits)

lemma observe_frame_tables:
  assumes "tables_ok s" shows "tables_ok (snd (ObserveWebSocketFrame c ev s))
    \<and> prefix (t_rows (t_ws_frames s)) (t_rows (t_ws_frames (snd (ObserveWebSocketFrame c ev s))))"
  using assms t_ok_insert [of "t_ws_frames s"]
  by (auto simp: ObserveWebSocketFrame_def LogWebSocketFrame_def store_simps tables_ok_def try_send_def observed_frame_def
      case_prod_beta split: sum.splits prod.splits) (auto simp: t_insert_def)

lemma AllWebSocketConnections_distinct:
  assumes "t_ok (t_ws_conns s)" "AllWebSocketConnections c s = (Inr cs, s')"
  shows "distinct (map wsc_id cs) \<and> s' = tick s"
proof -
  have "cs = map (\<lambda>(i, r). \<lparr>wsc_id = i, wsc_history_id = cr_history_id r, wsc_host = cr_host r, wsc_url = cr_url r,
      wsc_tls = (cr_tls r = 1), wsc_in_scope = (cr_in_scope r = 1), wsc_timestamp = parse_time_or_zero c (cr_timestamp r),
      wsc_frame_count = length (filter (\<lambda>(_, f). fw_conn_id f = i) (t_rows (t_ws_frames s)))\<rparr>) (rev (t_rows (t_ws_conns s)))"
    and s': "s' = tick s"
    using assms(2) by (auto simp: AllWebSocketConnections_def sql_def t_desc_rows [OF assms(1)] split: if_splits)
  then have "map wsc_id cs = map fst (rev (t_rows (t_ws_conns s)))" by (auto simp: comp_def case_prod_beta)
  then show ?thesis using s' t_rows_distinct [OF assms(1)] by (simp add: rev_map [symmetric])
qed

lemma FramesForConnection_part:
  "t_ok (t_ws_frames s) \<Longrightarrow> FramesForConnection c i s = (if s_fault s (s_clock s) then Inl SqlError else Inr (frames_of c s i), tick s)"
  by (simp add: FramesForConnection_def sql_def t_asc_rows frames_of_def)

lemma AllWebSocketConnections_store: "snd (AllWebSocketConnections c s) = tick s"
  by (simp add: AllWebSocketConnections_def sql_def)

lemma tables_ok_tick [simp]: "tables_ok (tick s) = tables_ok s"
  by (simp add: tables_ok_def)

lemma frames_part_own: "i \<in> seen \<Longrightarrow> frames_part c s seen (frames_of c s i)"
  by (auto simp: frames_part_def)

lemma wo_ok_tick: "wo_ok c x \<Longrightarrow> wo_ok c (x\<lparr>wo_store := tick (wo_store x)\<rparr>)"
  using wo_ok_grows [of c x "tick (wo_store x)" "wo_seen x"] by (simp add: wo_ok_def)

lemma list_all_drop_nth: "list_all P xs \<Longrightarrow> list_all P (take k xs @ drop (Suc k) xs)"
  by (auto simp: list_all_iff dest: in_set_takeD in_set_dropD)

lemma list_all_update: "list_all P xs \<Longrightarrow> P y \<Longrightarrow> list_all P (xs[k := y])"
  by (auto simp: list_all_iff dest: set_update_subset_insert [THEN subsetD])

lemma load_reads_ok:
  assumes "wo_ok c x" shows "wo_ok c (load_reads c k x)"
proof (cases "k < length (wo_loads x) \<and> snd (wo_loads x ! k) = None")
  case True
  then obtain l where l: "wo_loads x ! k = (l, None)" by (cases "wo_loads x ! k") auto
  let ?s = "wo_store x"
  have t: "tables_ok ?s" "t_ok (t_ws_conns ?s)" "t_ok (t_ws_frames ?s)" using assms by (simp_all add: wo_ok_def tables_ok_def)
  have lo: "load_ok c ?s (wo_seen x) (l, None)"
    using assms True l by (auto simp: wo_ok_def list_all_length)
  note y = wo_ok_tick [OF assms]
  have d: "wo_ok c (x\<lparr>wo_store := tick ?s, wo_loads := take k (wo_loads x) @ drop (Suc k) (wo_loads x)\<rparr>)"
    using y list_all_drop_nth [of "load_ok c (tick ?s) (wo_seen x)" "wo_loads x" k] by (simp add: wo_ok_def)
  have g: "wo_ok c (x\<lparr>wo_store := tick ?s, wo_loads := (wo_loads x)[k := r]\<rparr>)" if "load_ok c (tick ?s) (wo_seen x) r" for r
    using y list_all_update [of "load_ok c (tick ?s) (wo_seen x)" "wo_loads x" r k] that by (simp add: wo_ok_def)
  show ?thesis
  proof (cases l)
    case (LoadAll i)
    show ?thesis
    proof (cases "AllWebSocketConnections c ?s")
      case (Pair r s)
      then have s: "s = tick ?s" using AllWebSocketConnections_store [of c ?s] by simp
      show ?thesis
      proof (cases r)
        case (Inl e)
        then show ?thesis using True l LoadAll Pair d s by (simp add: load_reads_def)
      next
        case (Inr cs)
        with Pair have "AllWebSocketConnections c ?s = (Inr cs, s)" by simp
        from AllWebSocketConnections_distinct [OF t(2) this] have "load_ok c (tick ?s) (wo_seen x) (LoadAll i, Some (GotConns cs))"
          by (simp add: load_ok_def)
        from g [OF this] show ?thesis using True l LoadAll Pair Inr s by (simp add: load_reads_def)
      qed
    qed
  next
    case (LoadFrames i b)
    then have "i \<in> wo_seen x" using lo by (simp add: load_ok_def)
    moreover have "frames_of c (tick ?s) i = frames_of c ?s i" by (simp add: frames_of_def)
    ultimately have "load_ok c (tick ?s) (wo_seen x) (LoadFrames i b, Some (GotFrames (frames_of c ?s i)))"
      using frames_part_own [of i "wo_seen x" c "tick ?s"] by (simp add: load_ok_def)
    then show ?thesis using True l LoadFrames d g by (simp add: load_reads_def FramesForConnection_part [OF t(3)])
  qed
next
  case False
  then show ?thesis using assms
    by (cases "wo_loads x ! k") (auto simp: load_reads_def split: ws_load.split option.split)
qed

lemma load_posts_ok:
  assumes "wo_ok c x" shows "wo_ok c (load_posts k x)"
proof (cases "k < length (wo_loads x)")
  case True
  let ?s = "wo_store x"
  obtain l r where l: "wo_loads x ! k = (l, r)" by fastforce
  have "load_ok c ?s (wo_seen x) (l, r)" using assms True l by (auto simp: wo_ok_def list_all_length)
  moreover have "wo_ok c (x\<lparr>wo_loads := take k (wo_loads x) @ drop (Suc k) (wo_loads x), wo_news := wo_news x @ [n]\<rparr>)"
    if "news_ok c ?s (wo_seen x) n" for n
    using assms that list_all_drop_nth [of "load_ok c ?s (wo_seen x)" "wo_loads x" k] by (simp add: wo_ok_def)
  ultimately show ?thesis using True l assms
    by (auto simp: load_posts_def load_ok_def news_ok_def Let_def split: ws_load.split option.split ws_result.split)
qed (use assms in \<open>simp add: load_posts_def\<close>)

lemma wo_ok_news: "wo_ok c x \<Longrightarrow> news_ok c (wo_store x) (wo_seen x) n \<Longrightarrow> wo_ok c (x\<lparr>wo_news := wo_news x @ [n]\<rparr>)"
  by (simp add: wo_ok_def)

lemma takes_conn_ok:
  assumes "wo_ok c x" shows "wo_ok c (takes_conn own x)"
proof (cases "s_ws_conn_ch (wo_store x)")
  case (Cons conn rest)
  have t: "tables_ok ((wo_store x)\<lparr>s_ws_conn_ch := rest\<rparr>)" using assms by (simp add: wo_ok_def tables_ok_def)
  have y: "wo_ok c (x\<lparr>wo_store := (wo_store x)\<lparr>s_ws_conn_ch := rest\<rparr>\<rparr>)"
    using wo_ok_grows [OF assms t, of "wo_seen x"] by simp
  then show ?thesis using assms Cons wo_ok_news [OF y, of "NewsConn conn"]
    by (auto simp: takes_conn_def Let_def news_ok_def)
qed (use assms in \<open>simp add: takes_conn_def\<close>)

lemma takes_frame_ok:
  assumes "wo_ok c x" shows "wo_ok c (takes_frame own x)"
proof (cases "s_ws_frame_ch (wo_store x)")
  case (Cons f rest)
  have t: "tables_ok ((wo_store x)\<lparr>s_ws_frame_ch := rest\<rparr>)" and f: "wsf_conn_id f \<noteq> 0"
    using assms Cons by (simp_all add: wo_ok_def tables_ok_def)
  have y: "wo_ok c (x\<lparr>wo_store := (wo_store x)\<lparr>s_ws_frame_ch := rest\<rparr>\<rparr>)"
    using wo_ok_grows [OF assms t, of "wo_seen x"] by simp
  then show ?thesis using assms Cons wo_ok_news [OF y, of "NewsFrame f"] f
    by (auto simp: takes_frame_def Let_def news_ok_def)
qed (use assms in \<open>simp add: takes_frame_def\<close>)

lemma on_window_ok:
  assumes "wo_ok c x" "\<And>w. window_ok c (wo_store x) (wo_seen x) w \<Longrightarrow> window_ok c (wo_store x) (wo_seen x) (f w)"
  shows "wo_ok c (on_window f x)"
  using assms by (cases "wo_window x") (auto simp: wo_ok_def on_window_def)

lemma start_load_ok: "wo_ok c x \<Longrightarrow> load_ok c (wo_store x) (wo_seen x) (l, None) \<Longrightarrow> wo_ok c (start_load l x)"
  by (simp add: wo_ok_def start_load_def)

lemma count_frame_ids: "map wsc_id (count_frame i cs) = map wsc_id cs"
  by (induction cs) auto

lemma conn_selected_ok:
  assumes "wo_ok c x" shows "wo_ok c (conn_selected row x)"
proof (cases "wo_window x")
  case (Some w)
  show ?thesis
  proof (cases "row < length (ww_conns w)")
    case True
    let ?i = "wsc_id (ww_conns w ! row)"
    let ?y = "x\<lparr>wo_seen := insert ?i (wo_seen x)\<rparr>"
    have "wo_ok c ?y" using wo_ok_grows [OF assms, of "wo_store x" "insert ?i (wo_seen x)"] assms by (auto simp: wo_ok_def)
    then have "wo_ok c (on_window (\<lambda>w. w\<lparr>ww_selected := ?i\<rparr>) ?y)" by (rule on_window_ok) (simp add: window_ok_def)
    then show ?thesis using Some True start_load_ok [of c "on_window (\<lambda>w. w\<lparr>ww_selected := ?i\<rparr>) ?y" "LoadFrames ?i True"]
      by (simp add: conn_selected_def load_ok_def on_window_def Let_def)
  qed (use assms Some in \<open>simp add: conn_selected_def\<close>)
qed (use assms in \<open>simp add: conn_selected_def\<close>)

text \<open>A load of the selected connection may be started whenever one is selected.\<close>

lemma selected_load_ok:
  assumes "wo_ok c x" "wo_window x = Some w" "ww_selected w \<noteq> 0"
  shows "wo_ok c (start_load (LoadFrames (ww_selected w) b) x)"
  using assms by (intro start_load_ok) (auto simp: wo_ok_def window_ok_def load_ok_def)

lemma run_news_ok:
  assumes "wo_ok c x" shows "wo_ok c (run_news x)"
proof (cases "wo_news x")
  case (Cons n ns)
  define y where "y = x\<lparr>wo_news := ns\<rparr>"
  have y: "wo_ok c y" and n: "news_ok c (wo_store y) (wo_seen y) n" using assms Cons by (simp_all add: y_def wo_ok_def)
  show ?thesis
  proof (cases n)
    case (NewsAll initial cs)
    then have d: "distinct (map wsc_id cs)" using n by (simp add: news_ok_def)
    have "filterConnections cs [] = cs"
      by (simp add: filterConnections_def to_lower_def trim_space_def trim_left_def trim_right_def)
    then have "wo_ok c (on_window (\<lambda>w. w\<lparr>ww_all := cs, ww_conns := filterConnections cs []\<rparr>) y)"
      "wo_ok c (on_window (\<lambda>w. refilterConns (w\<lparr>ww_all := cs\<rparr>)) y)"
      using d by (auto intro!: on_window_ok [OF y] simp: window_ok_def refilterConns_def)
    then show ?thesis using NewsAll Cons selected_load_ok
      by (auto simp: run_news_def y_def [symmetric] Let_def split: option.split)
  next
    case (NewsFrames clear fs)
    then show ?thesis using Cons n
      by (auto simp: run_news_def y_def [symmetric] news_ok_def Let_def window_ok_def refilterFrames_def intro!: on_window_ok [OF y])
  next
    case (NewsConn conn)
    then show ?thesis using Cons
      by (auto simp: run_news_def y_def [symmetric] Let_def window_ok_def refilterConns_def intro!: on_window_ok [OF y])
  next
    case (NewsFrame f)
    have "wo_ok c (on_window (\<lambda>w. refilterConns (w\<lparr>ww_all := count_frame (wsf_conn_id f) (ww_all w)\<rparr>)) y)"
      by (rule on_window_ok [OF y]) (simp add: window_ok_def refilterConns_def count_frame_ids)
    moreover have "wsf_conn_id f \<noteq> 0" using n NewsFrame by (simp add: news_ok_def)
    ultimately show ?thesis using NewsFrame Cons selected_load_ok
      by (auto simp: run_news_def y_def [symmetric] Let_def split: option.split)
  qed
qed (use assms in \<open>simp add: run_news_def\<close>)

lemma showWebSocketWindow_ok: "wo_ok c x \<Longrightarrow> wo_ok c (showWebSocketWindow x)"
  by (auto simp: wo_ok_def showWebSocketWindow_def start_load_def load_ok_def buildWebSocketContent_def window_ok_def frames_part_def
      filterFrames_def Let_def split: option.split)

lemma wo_step_ok:
  assumes "wo_ok c x" shows "wo_ok c (wo_step c e x)"
proof (cases e)
  case (WConnection ev)
  have "tables_ok (wo_store x)" using assms by (simp add: wo_ok_def)
  then show ?thesis using WConnection wo_ok_grows [OF assms, of _ "wo_seen x"] observe_connection_tables [of "wo_store x" c ev]
    by (simp add: wo_step_def)
next
  case (WRecord ev)
  have "tables_ok (wo_store x)" using assms by (simp add: wo_ok_def)
  then show ?thesis using WRecord wo_ok_grows [OF assms, of _ "wo_seen x"] observe_frame_tables [of "wo_store x" c ev]
    by (simp add: wo_step_def)
next
  case WClose
  then show ?thesis using assms by (simp add: wo_step_def close_window_def wo_ok_def)
next
  case (WSelectFrame row)
  then show ?thesis using assms
    by (auto simp: wo_step_def ws_frame_selected_def window_ok_def Let_def intro!: on_window_ok)
next
  case (WConnFilter q)
  then show ?thesis using assms
    by (auto simp: wo_step_def conn_filter_changed_def window_ok_def refilterConns_def intro!: on_window_ok)
next
  case (WFrameFilter q)
  then show ?thesis using assms
    by (auto simp: wo_step_def frame_filter_changed_def window_ok_def refilterFrames_def intro!: on_window_ok)
next
  case WRefresh
  then show ?thesis using assms
    by (auto simp: wo_step_def refresh_tapped_def load_ok_def intro!: start_load_ok split: option.split)
qed (use assms in \<open>simp_all add: wo_step_def showWebSocketWindow_ok conn_selected_ok load_reads_ok load_posts_ok takes_conn_ok
    takes_frame_ok run_news_ok\<close>)

lemma wo_run_ok: "wo_ok c x \<Longrightarrow> wo_ok c (wo_run c es x)"
  by (induction es arbitrary: x) (simp_all add: wo_run_def wo_step_ok)

lemma wo_start_ok: "tables_ok s \<Longrightarrow> wo_ok c (wo_start s)"
  by (simp add: wo_ok_def wo_start_def)


text \<open>C36: Refresh brings the window up to date: pressed when nothing is in flight and a connection is selected, and left alone, it
  ends with exactly the connections and the frames of the store on display, under the filters as typed.\<close>

theorem refresh_shows_store:
  assumes "x = wo_run c es (wo_start s)" "tables_ok s" "wo_window x = Some w" "ww_selected w \<noteq> 0"
    and "wo_loads x = []" "wo_news x = []" "s_fault (wo_store x) = (\<lambda>_. False)"
    and "x' = wo_run c [WRefresh, WReads 0, WPosts 0, WNews, WReads 0, WPosts 0, WNews] x"
  shows "\<exists>w'. wo_window x' = Some w' \<and> wo_loads x' = [] \<and> wo_news x' = []
    \<and> fst (AllWebSocketConnections c (wo_store x)) = Inr (ww_all w')
    \<and> fst (FramesForConnection c (ww_selected w) (wo_store x)) = Inr (ww_all_frames w')
    \<and> ww_conns w' = filterConnections (ww_all w') (ww_conn_filter w)
    \<and> ww_frames w' = filterFrames (ww_all_frames w') (ww_frame_filter w)"
proof -
  have "wo_ok c x" unfolding assms(1) by (rule wo_run_ok [OF wo_start_ok [OF assms(2)]])
  then have t: "t_ok (t_ws_frames (wo_store x))" "t_ok (t_ws_frames (tick (wo_store x)))" by (simp_all add: wo_ok_def tables_ok_def)
  obtain cs where cs: "AllWebSocketConnections c (wo_store x) = (Inr cs, tick (wo_store x))"
    using assms(7) by (simp add: AllWebSocketConnections_def sql_def)
  have f: "FramesForConnection c i (tick (wo_store x)) = (Inr (frames_of c (wo_store x) i), tick (tick (wo_store x)))"
    "fst (FramesForConnection c i (wo_store x)) = Inr (frames_of c (wo_store x) i)" for i
    using assms(7) FramesForConnection_part [OF t(2), of c i] FramesForConnection_part [OF t(1), of c i]
    by (simp_all add: frames_of_def)
  let ?w = "w\<lparr>ww_all := cs, ww_conns := filterConnections cs (ww_conn_filter w)\<rparr>"
  let ?y = "x\<lparr>wo_store := tick (wo_store x), wo_loads := [(LoadFrames (ww_selected w) True, None)], wo_news := [], wo_window := Some ?w\<rparr>"
  have "wo_run c [WRefresh, WReads 0, WPosts 0, WNews] x = ?y"
    using assms(4) by (simp add: wo_run_def wo_step_def refresh_tapped_def start_load_def load_reads_def load_posts_def run_news_def
        on_window_def refilterConns_def Let_def assms(3,5,6) cs)
  then have "x' = wo_run c [WReads 0, WPosts 0, WNews] ?y" by (simp add: assms(8) wo_run_def)
  then show ?thesis
    by (simp add: wo_run_def wo_step_def load_reads_def load_posts_def run_news_def on_window_def refilterFrames_def Let_def f cs)
qed

text \<open>
  Loads may overtake one another: of two selected connections the window can go on showing the frames of the one
  selected before.
\<close>

lemma late_frames_shown:
  assumes "wo_window x = Some w" "wo_news x = []"
    and "wo_loads x = [(LoadFrames i b, Some (GotFrames old)), (LoadFrames (ww_selected w) b', Some (GotFrames new))]"
  shows "\<exists>w'. wo_window (wo_run c [WPosts 1, WNews, WPosts 0, WNews] x) = Some w' \<and> ww_selected w' = ww_selected w
    \<and> ww_all_frames w' = old \<and> wo_loads (wo_run c [WPosts 1, WNews, WPosts 0, WNews] x) = []"
  using assms by (simp add: wo_run_def wo_step_def load_posts_def run_news_def on_window_def refilterFrames_def Let_def)

text \<open>After the window was closed and opened again, a reader of the former one may take a new connection: the window never hears of it.\<close>

lemma reopened_window_misses:
  assumes "wo_window x = None" "0 < wo_readers x" "s_ws_conn_ch (wo_store x) = conn # rest"
  shows "wo_news (wo_run c [WOpen, WTakesConn False] x) = [] \<and> s_ws_conn_ch (wo_store (wo_run c [WOpen, WTakesConn False] x)) = rest"
  using assms by (simp add: wo_run_def wo_step_def showWebSocketWindow_def start_load_def takes_conn_def Let_def)

text \<open>A first load that comes after a word was typed into the filter shows every connection all the same.\<close>

lemma first_load_ignores_filter:
  assumes "wo_window x = Some w" "wo_news x = [NewsAll True cs]"
  shows "\<exists>w'. wo_window (run_news x) = Some w' \<and> ww_conns w' = cs \<and> ww_conn_filter w' = ww_conn_filter w"
proof -
  have "filterConnections cs [] = cs"
    by (simp add: filterConnections_def to_lower_def trim_space_def trim_left_def trim_right_def)
  then show ?thesis using assms by (simp add: run_news_def on_window_def)
qed

text \<open>A frame that the load has counted already is counted again when its message is read.\<close>

lemma count_frame_in: "conn \<in> set cs \<Longrightarrow> wsc_id conn = i \<Longrightarrow> distinct (map wsc_id cs)
    \<Longrightarrow> conn\<lparr>wsc_frame_count := Suc (wsc_frame_count conn)\<rparr> \<in> set (count_frame i cs)"
  by (induction cs) (auto simp: image_iff)

lemma frame_counted_twice:
  assumes "wo_window x = Some w" "wo_news x = []" "s_ws_frame_ch (wo_store x) = f # rest" "t_ok (t_ws_conns (wo_store x))"
    and "AllWebSocketConnections c (wo_store x) = (Inr (ww_all w), s)" "conn \<in> set (ww_all w)" "wsc_id conn = wsf_conn_id f"
  shows "\<exists>w'. wo_window (wo_run c [WTakesFrame True, WNews] x) = Some w'
    \<and> conn\<lparr>wsc_frame_count := Suc (wsc_frame_count conn)\<rparr> \<in> set (ww_all w')"
  using assms(1-3) count_frame_in [OF assms(6,7)] AllWebSocketConnections_distinct [OF assms(4,5)]
  by (auto simp: wo_run_def wo_step_def takes_frame_def run_news_def on_window_def refilterConns_def start_load_def Let_def)

section \<open>An example\<close>

lemma demo_ws_store_ok: "healthy demo_ws_store" "tables_ok demo_ws_store"
  "\<exists>conn. fst (AllWebSocketConnections demo_codec demo_ws_store) = Inr [conn] \<and> wsc_id conn = 1"
proof -
  let ?c = "snd (ObserveWebSocketConnection demo_codec demo_conn demo_store)"
  have d: "t_ok (t_ws_conns demo_store)" "t_rows (t_ws_conns demo_store) = []" "t_seq (t_ws_conns demo_store) = 0"
    "tables_ok demo_store"
    by (simp_all add: demo_store_def fresh_store_def new_file_def tables_ok_def) (simp_all add: empty_table_def)
  have c: "healthy ?c" "t_ok (t_ws_conns ?c)" "t_ok (t_ws_frames ?c)" "map fst (t_rows (t_ws_conns ?c)) = [1]"
    using observe_conn_ok [of demo_store demo_codec demo_conn] d by simp_all
  show h: "healthy demo_ws_store" using observe_frames_rows [OF c(1,3)] by (simp add: demo_ws_store_def)
  have "tables_ok (observe_frames demo_codec es s)" if "tables_ok s" for es s
    using that by (induction es arbitrary: s) (simp_all add: observe_frames_def observe_frame_tables)
  then show t: "tables_ok demo_ws_store" using observe_connection_tables [OF d(4)] by (simp add: demo_ws_store_def)
  have "map fst (t_rows (t_ws_conns demo_ws_store)) = [1]"
    using c(4) by (simp add: demo_ws_store_def observe_frames_conns)
  then obtain r where "t_rows (t_ws_conns demo_ws_store) = [(1, r)]" by auto
  then show "\<exists>conn. fst (AllWebSocketConnections demo_codec demo_ws_store) = Inr [conn] \<and> wsc_id conn = 1"
    using t by (simp add: AllWebSocketConnections_def healthy_sql [OF h] tables_ok_def t_desc_rows)
qed

definition demo_window_events :: "ws_ui_event list" where
  "demo_window_events = [WOpen, WReads 0, WPosts 0, WNews, WSelect 0, WReads 0, WPosts 0, WNews]"

lemma demo_window:
  "\<exists>x w. x = wo_run demo_codec demo_window_events (wo_start demo_ws_store) \<and> wo_window x = Some w \<and> ww_selected w = 1
    \<and> wo_loads x = [] \<and> wo_news x = [] \<and> s_fault (wo_store x) = (\<lambda>_. False) \<and> wo_seen x = {1}
    \<and> ww_all_frames w = frames_of demo_codec (wo_store x) 1"
proof -
  let ?s = demo_ws_store
  have t: "t_ok (t_ws_frames (tick ?s))" and f: "s_fault ?s = (\<lambda>_. False)"
    using demo_ws_store_ok(1,2) by (simp_all add: tables_ok_def healthy_def)
  obtain conn where cs: "AllWebSocketConnections demo_codec ?s = (Inr [conn], tick ?s)" "wsc_id conn = 1"
    using demo_ws_store_ok(3) AllWebSocketConnections_store [of demo_codec ?s] by (metis prod.collapse)
  have fr: "FramesForConnection demo_codec i (tick ?s) = (Inr (frames_of demo_codec (tick ?s) i), tick (tick ?s))" for i
    using FramesForConnection_part [OF t] f by simp
  have e: "filterConnections [conn] [] = [conn]"
    by (simp add: filterConnections_def to_lower_def trim_space_def trim_left_def trim_right_def)
  show ?thesis
    by (simp add: demo_window_events_def wo_run_def wo_step_def wo_start_def showWebSocketWindow_def start_load_def load_reads_def
        load_posts_def run_news_def on_window_def conn_selected_def refilterFrames_def buildWebSocketContent_def Let_def cs e fr f)
      (simp add: frames_of_def)
qed


theorem refresh_shows_store_witness:
  "\<exists>x w w'. x = wo_run demo_codec demo_window_events (wo_start demo_ws_store) \<and> wo_window x = Some w
    \<and> wo_window (wo_run demo_codec [WRefresh, WReads 0, WPosts 0, WNews, WReads 0, WPosts 0, WNews] x) = Some w'
    \<and> fst (FramesForConnection demo_codec 1 (wo_store x)) = Inr (ww_all_frames w')"
proof -
  obtain x w where x: "x = wo_run demo_codec demo_window_events (wo_start demo_ws_store)" "wo_window x = Some w" "ww_selected w = 1"
    "wo_loads x = []" "wo_news x = []" "s_fault (wo_store x) = (\<lambda>_. False)"
    using demo_window by blast
  have "ww_selected w \<noteq> 0" using x(3) by simp
  from refresh_shows_store [OF x(1) demo_ws_store_ok(2) x(2) this x(4-6) refl]
  obtain w' where "wo_window (wo_run demo_codec [WRefresh, WReads 0, WPosts 0, WNews, WReads 0, WPosts 0, WNews] x) = Some w'"
    "fst (FramesForConnection demo_codec (ww_selected w) (wo_store x)) = Inr (ww_all_frames w')" by blast
  with x(1,2) show ?thesis unfolding x(3) by blast
qed

end
