(* ===== verification/LootTab.thy ===== *)
theory LootTab
  imports StoreTables StoreHistory StoreWs Format RepeaterTabs
begin

text \<open>
  The Loot tab (\<open>internal/ui/loot.go\<close>) over the loot table of the store: the list, the selection by index, the
  dialogs that delete and add, the reload after each notification, the linked request and the export as Markdown. A
  dialog stays open while anything else happens; a notification is taken by a goroutine, which posts the
  reload to the user interface. The record \<open>loot_env\<close> is what is outside: the codec of the store, the texts of times and
  \<open>json.Indent\<close>. \<open>assets/findings.md.tmpl\<close>, which \<open>text/template\<close> fills in, is written out.
\<close>

section \<open>The list\<close>

record loot_env =
  lo_codec :: codec
  lo_format :: "int \<Rightarrow> string"
  lo_indent :: "string \<Rightarrow> string option"

definition severityImportance :: "string \<Rightarrow> importance option" where
  "severityImportance s = map_of [(''Critical'', DangerImportance), (''High'', DangerImportance), (''Medium'', WarningImportance),
     (''Low'', MediumImportance), (''Info'', LowImportance)] s"

text \<open>\<open>lt_highlight\<close> is the id the table highlights; an open delete dialog is the entry it was opened for.\<close>

record loot_tab =
  lt_entries :: "LootEntry list"
  lt_selected :: int
  lt_highlight :: nat
  lt_notes :: string
  lt_delete_on :: bool
  lt_view_on :: bool
  lt_dialogs :: "LootEntry list"

definition newLootTab :: loot_tab where
  "newLootTab = \<lparr>lt_entries = [], lt_selected = - 1, lt_highlight = 0, lt_notes = [], lt_delete_on = False, lt_view_on = False,
     lt_dialogs = []\<rparr>"

definition loot_cell :: "loot_env \<Rightarrow> loot_tab \<Rightarrow> nat \<Rightarrow> nat \<Rightarrow> string" where
  "loot_cell en t row col = (if row \<ge> length (lt_entries t) then []
     else let e = lt_entries t ! row in
       if col = 0 then le_severity e else if col = 1 then le_title e
       else if col = 2 then lo_format en (le_created_at e) else [])"

definition loot_style :: "loot_tab \<Rightarrow> nat \<Rightarrow> nat \<Rightarrow> importance" where
  "loot_style t row col = (if col \<noteq> 0 \<or> row \<ge> length (lt_entries t) then MediumImportance
     else case severityImportance (le_severity (lt_entries t ! row)) of Some imp \<Rightarrow> imp | None \<Rightarrow> MediumImportance)"

definition has_request :: "LootEntry \<Rightarrow> bool" where
  "has_request e = (le_history_id e \<noteq> None \<or> le_raw_request e \<noteq> [])"

definition notes_text :: "loot_env \<Rightarrow> LootEntry \<Rightarrow> string" where
  "notes_text en e = ''Severity: '' @ le_severity e @ LF @ ''Created: '' @ lo_format en (le_created_at e) @ LF2 @ le_notes e"

text \<open>A tap on a row: the table highlights its id and calls \<open>OnSelect\<close>.\<close>

definition loot_selected :: "loot_env \<Rightarrow> nat \<Rightarrow> loot_tab \<Rightarrow> loot_tab" where
  "loot_selected en row t = (if row \<ge> length (lt_entries t) then t
     else let e = lt_entries t ! row
       in t\<lparr>lt_highlight := le_id e, lt_selected := int row, lt_delete_on := True, lt_notes := notes_text en e,
         lt_view_on := has_request e\<rparr>)"

definition loot_reload :: "loot_env \<Rightarrow> loot_tab \<times> store \<Rightarrow> loot_tab \<times> store" where
  "loot_reload en = (\<lambda>(t, s). case AllLoot (lo_codec en) s of
     (Inl _, s) \<Rightarrow> (t, s) | (Inr es, s) \<Rightarrow> (t\<lparr>lt_entries := es\<rparr>, s))"

section \<open>Dialogs\<close>

text \<open>The Delete button and the menu's Delete open a dialog; answering Yes deletes.\<close>

definition delete_tapped :: "loot_tab \<Rightarrow> loot_tab" where
  "delete_tapped t = (if \<not> lt_delete_on t \<or> lt_selected t < 0 \<or> lt_selected t \<ge> int (length (lt_entries t)) then t
     else t\<lparr>lt_dialogs := lt_dialogs t @ [lt_entries t ! nat (lt_selected t)]\<rparr>)"

definition menu_delete :: "nat \<Rightarrow> loot_tab \<Rightarrow> loot_tab" where
  "menu_delete row t = (if row \<ge> length (lt_entries t) then t else t\<lparr>lt_dialogs := lt_dialogs t @ [lt_entries t ! row]\<rparr>)"

definition delete_answered :: "nat \<Rightarrow> bool \<Rightarrow> loot_tab \<times> store \<Rightarrow> loot_tab \<times> store" where
  "delete_answered k ok = (\<lambda>(t, s). if k \<ge> length (lt_dialogs t) then (t, s)
     else let e = lt_dialogs t ! k; t = t\<lparr>lt_dialogs := take k (lt_dialogs t) @ drop (Suc k) (lt_dialogs t)\<rparr>
       in if \<not> ok then (t, s)
          else (case DeleteLoot (le_id e) s of
              (Inl _, s) \<Rightarrow> (t, s)
            | (Inr _, s) \<Rightarrow> (t\<lparr>lt_selected := - 1, lt_delete_on := False, lt_notes := []\<rparr>, s)))"

text \<open>Save of the add dialog: a title of blanks adds nothing.\<close>

definition add_saved :: "loot_env \<Rightarrow> int \<Rightarrow> nat option \<Rightarrow> string \<Rightarrow> string \<Rightarrow> string \<times> string \<times> string \<Rightarrow> store \<Rightarrow> store" where
  "add_saved en now historyID rawRequest rawResponse = (\<lambda>(title, severity, notes) s. let title = trim_space title in
     if title = [] then s
     else snd (AddLoot (lo_codec en) now \<lparr>le_id = 0, le_title = title, le_severity = severity, le_notes = notes,
       le_history_id = historyID, le_raw_request = rawRequest, le_raw_response = rawResponse, le_created_at = 0\<rparr> s))"

section \<open>The linked request and the export\<close>

record linked =
  lk_title :: string
  lk_request :: string
  lk_response :: string
  lk_target :: "string \<times> int \<times> bool"

text \<open>\<open>showLinkedRequest\<close>: the dialog it shows, if any. The dash is in UTF-8.\<close>

definition showLinkedRequest :: "loot_env \<Rightarrow> LootEntry \<Rightarrow> store \<Rightarrow> linked option \<times> store" where
  "showLinkedRequest en e s = (case le_history_id e of
     Some i \<Rightarrow> (case GetTransaction (lo_codec en) i s of
         (Inl _, s) \<Rightarrow> (None, s)
       | (Inr tx, s) \<Rightarrow> (Some \<lparr>lk_title = ''Linked Request '' @ [CHR 0xE2, CHR 0x80, CHR 0x94] @ '' '' @ tx_method tx @ '' '' @ tx_url tx,
           lk_request = FormatStoreRequest (lo_indent en) tx, lk_response = FormatStoreResponse (lo_indent en) tx,
           lk_target = (tx_host tx, tx_port tx, tx_tls tx)\<rparr>, s))
   | None \<Rightarrow> (Some \<lparr>lk_title = ''Linked Request'', lk_request = le_raw_request e, lk_response = le_raw_response e,
       lk_target = ParseHostFromRaw (le_raw_request e)\<rparr>, s))"

definition view_tapped :: "loot_env \<Rightarrow> loot_tab \<Rightarrow> store \<Rightarrow> linked option \<times> store" where
  "view_tapped en t s = (if \<not> lt_view_on t \<or> lt_selected t < 0 \<or> lt_selected t \<ge> int (length (lt_entries t)) then (None, s)
     else showLinkedRequest en (lt_entries t ! nat (lt_selected t)) s)"

text \<open>Send to Repeater in that dialog.\<close>

definition linked_to_repeater :: "linked \<Rightarrow> rep_tabs \<Rightarrow> rep_tabs" where
  "linked_to_repeater l = (let path = PathOf (ExtractURL (lk_request l)); path = (if length path > 20 then take 20 path @ ''...'' else path);
       (host, port, useTLS) = lk_target l
     in AddTab (ExtractMethod (lk_request l) @ '' '' @ path) host port useTLS (lk_request l))"

record entry_data =
  ed_severity :: string
  ed_title :: string
  ed_date :: string
  ed_notes :: string
  ed_request :: string
  ed_response :: string

definition export_entry :: "loot_env \<Rightarrow> LootEntry \<Rightarrow> store \<Rightarrow> entry_data \<times> store" where
  "export_entry en e s = (let ed = \<lparr>ed_severity = le_severity e, ed_title = le_title e, ed_date = lo_format en (le_created_at e),
       ed_notes = le_notes e, ed_request = [], ed_response = []\<rparr> in
     case le_history_id e of
       Some i \<Rightarrow> (case GetTransaction (lo_codec en) i s of
           (Inl _, s) \<Rightarrow> (ed, s)
         | (Inr tx, s) \<Rightarrow> (ed\<lparr>ed_request := FormatStoreRequest (lo_indent en) tx,
             ed_response := FormatStoreResponse (lo_indent en) tx\<rparr>, s))
     | None \<Rightarrow> (ed\<lparr>ed_request := le_raw_request e, ed_response := le_raw_response e\<rparr>, s))"

primrec export_entries :: "loot_env \<Rightarrow> LootEntry list \<Rightarrow> store \<Rightarrow> entry_data list \<times> store" where
  "export_entries en [] s = ([], s)"
| "export_entries en (e # es) s = (let (ed, s) = export_entry en e s; (eds, s) = export_entries en es s in (ed # eds, s))"

definition fence :: string where "fence = ''```''"

definition template_entry :: "entry_data \<Rightarrow> string" where
  "template_entry ed = LF @ ''## ['' @ ed_severity ed @ ''] '' @ ed_title ed @ LF2 @ ''**Date:** '' @ ed_date ed @ LF
     @ (if ed_notes ed = [] then [] else LF @ ''### Notes'' @ LF2 @ ed_notes ed @ LF) @ LF
     @ (if ed_request ed = [] then [] else LF @ ''### Request'' @ LF2 @ fence @ ''http'' @ LF @ ed_request ed @ LF @ fence @ LF2
         @ ''### Response'' @ LF2 @ fence @ ''http'' @ LF @ ed_response ed @ LF @ fence @ LF) @ LF @ ''---'' @ LF"

definition FindingsTemplate :: "string \<Rightarrow> entry_data list \<Rightarrow> string" where
  "FindingsTemplate generated eds = ''# Shiv Loot'' @ LF2 @ ''Generated: '' @ generated @ LF2 @ ''---'' @ LF
     @ concat (map template_entry eds) @ LF"

text \<open>\<open>exportMarkdown\<close>: what the file gets, or nothing when there is no loot or it cannot be read.\<close>

definition exportMarkdown :: "loot_env \<Rightarrow> int \<Rightarrow> store \<Rightarrow> string option \<times> store" where
  "exportMarkdown en now s = (case AllLoot (lo_codec en) s of
     (Inl _, s) \<Rightarrow> (None, s)
   | (Inr es, s) \<Rightarrow> (if es = [] then (None, s)
       else let (eds, s) = export_entries en es s in (Some (FindingsTemplate (lo_format en now) eds), s)))"

section \<open>The tab at work\<close>

record loot_world =
  lw_tab :: loot_tab
  lw_store :: store
  lw_reloads :: nat

datatype loot_event = LSelect nat | LDelete | LMenuDelete nat | LAnswer nat bool
  | LAdd int "nat option" string string "string \<times> string \<times> string" | LTake | LReload | LHistory history_op

text \<open>The tab is built, with its first load. An event; \<open>LHistory\<close> is whatever happens to the history meanwhile.\<close>

definition loot_build :: "loot_env \<Rightarrow> store \<Rightarrow> loot_world" where
  "loot_build en s = (let (t, s) = loot_reload en (newLootTab, s) in \<lparr>lw_tab = t, lw_store = s, lw_reloads = 0\<rparr>)"

definition loot_step :: "loot_env \<Rightarrow> loot_event \<Rightarrow> loot_world \<Rightarrow> loot_world" where
  "loot_step en e x = (case e of
     LSelect row \<Rightarrow> x\<lparr>lw_tab := loot_selected en row (lw_tab x)\<rparr>
   | LDelete \<Rightarrow> x\<lparr>lw_tab := delete_tapped (lw_tab x)\<rparr>
   | LMenuDelete row \<Rightarrow> x\<lparr>lw_tab := menu_delete row (lw_tab x)\<rparr>
   | LAnswer k ok \<Rightarrow> (let (t, s) = delete_answered k ok (lw_tab x, lw_store x) in x\<lparr>lw_tab := t, lw_store := s\<rparr>)
   | LAdd now h req resp f \<Rightarrow> x\<lparr>lw_store := add_saved en now h req resp f (lw_store x)\<rparr>
   | LTake \<Rightarrow> (if s_loot_ch (lw_store x) = 0 then x
       else x\<lparr>lw_store := (lw_store x)\<lparr>s_loot_ch := s_loot_ch (lw_store x) - 1\<rparr>, lw_reloads := Suc (lw_reloads x)\<rparr>)
   | LReload \<Rightarrow> (if lw_reloads x = 0 then x
       else let (t, s) = loot_reload en (lw_tab x, lw_store x) in x\<lparr>lw_tab := t, lw_store := s, lw_reloads := lw_reloads x - 1\<rparr>)
   | LHistory op \<Rightarrow> x\<lparr>lw_store := history_step (lo_codec en) op (lw_store x)\<rparr>)"

definition loot_run :: "loot_env \<Rightarrow> loot_event list \<Rightarrow> loot_world \<Rightarrow> loot_world" where
  "loot_run en es x = fold (loot_step en) es x"

section \<open>The list settles\<close>

definition loot_of :: "codec \<Rightarrow> store \<Rightarrow> LootEntry list" where
  "loot_of c s = map (scan_loot c) (sort_key (\<lambda>r. severity_rank (lr_severity (snd r))) (t_desc (t_loot s)))"

text \<open>An entry read earlier: its id was handed out, and if its row is still there it is that row.\<close>

definition read_earlier :: "codec \<Rightarrow> store \<Rightarrow> LootEntry \<Rightarrow> bool" where
  "read_earlier c s e = (le_id e \<le> t_seq (t_loot s)
     \<and> list_all (\<lambda>r. fst r = le_id e \<longrightarrow> scan_loot c r = e) (t_rows (t_loot s)))"

definition lw_ok :: "loot_env \<Rightarrow> loot_world \<Rightarrow> bool" where
  "lw_ok en x = (healthy (lw_store x) \<and> t_ok (t_loot (lw_store x))
     \<and> (0 < s_loot_ch (lw_store x) \<or> 0 < lw_reloads x \<or> lt_entries (lw_tab x) = loot_of (lo_codec en) (lw_store x))
     \<and> list_all (read_earlier (lo_codec en) (lw_store x)) (lt_entries (lw_tab x))
     \<and> list_all (read_earlier (lo_codec en) (lw_store x)) (lt_dialogs (lw_tab x)))"

lemma AllLoot_healthy: "healthy s \<Longrightarrow> AllLoot c s = (Inr (loot_of c s), tick s)"
  by (simp add: AllLoot_def healthy_sql loot_of_def)

lemma loot_of_tick [simp]: "loot_of c (tick s) = loot_of c s"
  by (simp add: loot_of_def)

lemma loot_of_read:
  assumes "t_ok (t_loot s)" shows "list_all (read_earlier c s) (loot_of c s)"
proof -
  have "read_earlier c s (scan_loot c r)" if "r \<in> set (t_rows (t_loot s))" for r
  proof -
    have "r' = r" if "r' \<in> set (t_rows (t_loot s))" "fst r' = fst r" for r'
      using t_find_Some [OF assms, of "fst r"] that \<open>r \<in> set (t_rows (t_loot s))\<close> by (metis option.inject prod.collapse)
    moreover have "le_id (scan_loot c r) = fst r" by (simp add: scan_loot_def case_prod_beta)
    ultimately show ?thesis using assms that by (auto simp: read_earlier_def list_all_iff t_ok_def)
  qed
  then show ?thesis by (auto simp: loot_of_def list_all_iff t_desc_rows [OF assms])
qed

lemma read_earlier_cong: "t_loot s' = t_loot s \<Longrightarrow> read_earlier c s' = read_earlier c s"
  by (simp add: read_earlier_def fun_eq_iff)

lemma read_earlier_insert: "t_ok (t_loot s) \<Longrightarrow> t_loot s' = snd (t_insert a (t_loot s)) \<Longrightarrow> read_earlier c s e \<Longrightarrow> read_earlier c s' e"
  by (auto simp: read_earlier_def t_insert_def)

lemma read_earlier_delete: "t_loot s' = t_delete P (t_loot s) \<Longrightarrow> read_earlier c s e \<Longrightarrow> read_earlier c s' e"
  by (auto simp: read_earlier_def t_delete_def list_all_iff)

lemma try_signal_pos: "0 < try_signal n"
  by (simp add: try_signal_def chan_cap_def)

lemma AddLoot_healthy:
  assumes "healthy s" shows "\<exists>a. t_loot (snd (AddLoot c now e s)) = snd (t_insert a (t_loot s)) \<and> healthy (snd (AddLoot c now e s))
    \<and> 0 < s_loot_ch (snd (AddLoot c now e s))"
  using assms by (simp add: AddLoot_def healthy_write healthy_sql notifyLoot_def t_insert_def try_signal_pos) (auto simp: healthy_def)

lemma DeleteLoot_healthy:
  assumes "healthy s" shows "\<exists>s'. DeleteLoot i s = (Inr (), s') \<and> t_loot s' = t_delete (\<lambda>(j, _). j = i) (t_loot s) \<and> healthy s' \<and> 0 < s_loot_ch s'"
  using assms by (simp add: DeleteLoot_def healthy_write healthy_sql notifyLoot_def try_signal_pos) (simp add: healthy_def)

lemma history_step_loot:
  "t_loot (history_step c op s) = t_loot s" "s_loot_ch (history_step c op s) = s_loot_ch s" "s_done (history_step c op s) = s_done s"
  by (cases op; auto simp: Log_def ObserveResponse_def InScope_def AllScopeEntries_eq ClearHistory_def
    DeleteTransactionsByHostPort_def store_simps case_prod_beta split: option.splits)+

lemma dialog_opened:
  assumes "lw_ok en x" "n < length (lt_entries (lw_tab x))"
  shows "lw_ok en (x\<lparr>lw_tab := (lw_tab x)\<lparr>lt_dialogs := lt_dialogs (lw_tab x) @ [lt_entries (lw_tab x) ! n]\<rparr>\<rparr>)"
  using assms by (simp add: lw_ok_def list_all_length [of _ "lt_entries (lw_tab x)"])

lemma loot_step_ok:
  assumes "lw_ok en x" shows "lw_ok en (loot_step en e x)"
proof (cases e)
  case (LSelect row)
  then show ?thesis using assms by (simp add: loot_step_def loot_selected_def lw_ok_def Let_def)
next
  case LDelete
  have same: "x\<lparr>lw_tab := lw_tab x\<rparr> = x" by simp
  show ?thesis using assms dialog_opened [OF assms, of "nat (lt_selected (lw_tab x))"]
    by (auto simp: LDelete loot_step_def delete_tapped_def same nat_less_iff)
next
  case (LMenuDelete row)
  have same: "x\<lparr>lw_tab := lw_tab x\<rparr> = x" by simp
  show ?thesis using assms dialog_opened [OF assms, of row] by (simp add: LMenuDelete loot_step_def menu_delete_def same)
next
  case (LAnswer k ok)
  let ?t = "lw_tab x" and ?s = "lw_store x"
  obtain s' where d: "DeleteLoot (le_id (lt_dialogs ?t ! k)) ?s = (Inr (), s')"
    "t_loot s' = t_delete (\<lambda>(j, _). j = le_id (lt_dialogs ?t ! k)) (t_loot ?s)" "healthy s'" "0 < s_loot_ch s'"
    using DeleteLoot_healthy assms unfolding lw_ok_def by blast
  have "t_ok (t_loot s')" using d(2) assms by (simp add: lw_ok_def t_ok_delete)
  moreover have "list_all (read_earlier (lo_codec en) ?s) es \<Longrightarrow> list_all (read_earlier (lo_codec en) s') es" for es
    using read_earlier_delete [OF d(2)] by (auto simp: list_all_iff)
  moreover have "list_all P ds \<Longrightarrow> list_all P (take k ds @ drop (Suc k) ds)" for P and ds :: "LootEntry list"
    by (auto simp: list_all_iff dest: in_set_takeD in_set_dropD)
  ultimately show ?thesis using assms d LAnswer by (auto simp: loot_step_def delete_answered_def lw_ok_def Let_def)
next
  case (LAdd now h req resp f)
  have t: "t_ok (t_loot (lw_store x))" "healthy (lw_store x)" using assms by (simp_all add: lw_ok_def)
  show ?thesis
  proof (cases "lw_store (loot_step en e x) = lw_store x")
    case True
    then have "loot_step en e x = x" by (simp add: LAdd loot_step_def)
    then show ?thesis using assms by simp
  next
    case False
    then obtain c now' le where "lw_store (loot_step en e x) = snd (AddLoot c now' le (lw_store x))"
      by (cases f) (auto simp: LAdd loot_step_def add_saved_def Let_def split: if_splits)
    with AddLoot_healthy [OF t(2)] obtain a where a: "t_loot (lw_store (loot_step en e x)) = snd (t_insert a (t_loot (lw_store x)))"
      "healthy (lw_store (loot_step en e x))" "0 < s_loot_ch (lw_store (loot_step en e x))" by metis
    moreover have "list_all (read_earlier (lo_codec en) (lw_store x)) es
        \<Longrightarrow> list_all (read_earlier (lo_codec en) (lw_store (loot_step en e x))) es" for es
      using read_earlier_insert [OF t(1) a(1)] by (auto simp: list_all_iff)
    moreover have "lw_tab (loot_step en e x) = lw_tab x" by (simp add: LAdd loot_step_def)
    moreover have "t_ok (t_loot (lw_store (loot_step en e x)))" unfolding a(1) by (rule t_ok_insert [OF t(1)])
    ultimately show ?thesis using assms by (simp add: lw_ok_def)
  qed
next
  case LTake
  have "read_earlier c ((lw_store x)\<lparr>s_loot_ch := n\<rparr>) = read_earlier c (lw_store x)" for c n by (rule read_earlier_cong) simp
  then show ?thesis using assms by (auto simp: LTake loot_step_def lw_ok_def healthy_def loot_of_def)
next
  case LReload
  have s: "healthy (lw_store x)" "t_ok (t_loot (lw_store x))" using assms by (simp_all add: lw_ok_def)
  have "read_earlier c (tick (lw_store x)) = read_earlier c (lw_store x)" for c by (rule read_earlier_cong) simp
  then show ?thesis using assms loot_of_read [OF s(2), of "lo_codec en"]
    by (auto simp: LReload loot_step_def loot_reload_def AllLoot_healthy [OF s(1)] lw_ok_def)
next
  case (LHistory op)
  have "read_earlier c (history_step (lo_codec en) op (lw_store x)) = read_earlier c (lw_store x)" for c
    by (rule read_earlier_cong) (simp add: history_step_loot)
  then show ?thesis using assms
    by (auto simp: LHistory loot_step_def lw_ok_def healthy_def history_step_loot history_step_fault loot_of_def list_all_iff)
qed

lemma loot_run_ok: "lw_ok en x \<Longrightarrow> lw_ok en (loot_run en es x)"
  by (induction es arbitrary: x) (simp_all add: loot_run_def loot_step_ok)

lemma loot_build_ok: "healthy s \<Longrightarrow> t_ok (t_loot s) \<Longrightarrow> lw_ok en (loot_build en s)"
  using loot_of_read [of "tick s" "lo_codec en"]
  by (simp add: loot_build_def loot_reload_def AllLoot_healthy lw_ok_def newLootTab_def)

text \<open>The Loot tab catches up: in every reachable state with no notification waiting and no reload posted, the list shows exactly
  the loot the store has, sorted by severity and newest first; and each entry still shown has the contents of its row, if
  the row is still there.\<close>

theorem loot_tab_settles:
  assumes "x = loot_run en es (loot_build en s)" "healthy s" "t_ok (t_loot s)"
  shows "(s_loot_ch (lw_store x) = 0 \<and> lw_reloads x = 0 \<longrightarrow> fst (AllLoot (lo_codec en) (lw_store x)) = Inr (lt_entries (lw_tab x)))
    \<and> list_all (read_earlier (lo_codec en) (lw_store x)) (lt_entries (lw_tab x))"
proof -
  have "lw_ok en x" unfolding assms(1) by (rule loot_run_ok [OF loot_build_ok [OF assms(2,3)]])
  then show ?thesis by (auto simp: lw_ok_def AllLoot_healthy)
qed

text \<open>C37: A confirmed deletion deletes what the dialog named: whatever was added, deleted, reloaded and selected since the dialog was
  opened, Yes removes the row of the entry in its title and no other, and until then that row has the contents the dialog
  was opened for.\<close>

theorem confirmed_delete_exact:
  assumes "x = loot_run en es (loot_build en s)" "healthy s" "t_ok (t_loot s)" "k < length (lt_dialogs (lw_tab x))"
    and "x' = loot_step en (LAnswer k True) x"
  shows "t_rows (t_loot (lw_store x')) = filter (\<lambda>r. fst r \<noteq> le_id (lt_dialogs (lw_tab x) ! k)) (t_rows (t_loot (lw_store x)))
    \<and> list_all (\<lambda>r. fst r = le_id (lt_dialogs (lw_tab x) ! k) \<longrightarrow> scan_loot (lo_codec en) r = lt_dialogs (lw_tab x) ! k)
        (t_rows (t_loot (lw_store x)))"
proof -
  have ok: "lw_ok en x" unfolding assms(1) by (rule loot_run_ok [OF loot_build_ok [OF assms(2,3)]])
  then have "read_earlier (lo_codec en) (lw_store x) (lt_dialogs (lw_tab x) ! k)"
    using assms(4) by (auto simp: lw_ok_def list_all_length)
  moreover obtain s' where "DeleteLoot (le_id (lt_dialogs (lw_tab x) ! k)) (lw_store x) = (Inr (), s')"
    "t_loot s' = t_delete (\<lambda>(j, _). j = le_id (lt_dialogs (lw_tab x) ! k)) (t_loot (lw_store x))"
    using DeleteLoot_healthy ok unfolding lw_ok_def by blast
  then have "t_rows (t_loot (lw_store x')) = filter (\<lambda>r. fst r \<noteq> le_id (lt_dialogs (lw_tab x) ! k)) (t_rows (t_loot (lw_store x)))"
    using assms(4) by (simp add: assms(5) loot_step_def delete_answered_def t_delete_def Let_def case_prod_beta)
  ultimately show ?thesis by (simp add: read_earlier_def)
qed

text \<open>
  The selection is an index, and a reload does not move it: after an entry came first in the list, the Delete button asks for that
  one while the table highlights the other.
\<close>

lemma stale_selection_names_other:
  assumes "lt_selected t = 0" "lt_delete_on t" "lt_highlight t = le_id a" "AllLoot (lo_codec en) s = (Inr (b # a # es), s')"
    and "loot_reload en (t, s) = (t', s'')"
  shows "lt_highlight t' = le_id a \<and> lt_dialogs (delete_tapped t') = lt_dialogs t @ [b]"
proof -
  have "t' = t\<lparr>lt_entries := b # a # es\<rparr>" using assms(4,5) by (simp add: loot_reload_def)
  then show ?thesis using assms(1-3) by (simp add: delete_tapped_def)
qed

section \<open>Linked requests\<close>

lemma linked_transaction:
  assumes "t_ok (t_history s)" "(i, r) \<in> set (t_rows (t_history s))" "s' = fold (history_step c) ops s" "\<not> s_fault s' (s_clock s')"
  shows "fst (GetTransaction c i s') = Inr (scan_row c True (i, r)) \<or> fst (GetTransaction c i s') = Inl NoRows \<and> t_find i (t_history s') = None"
proof -
  have reach: "sqlite.reaches (t_history s) (t_history s')"
    unfolding assms(3) by (rule history_steps_reach [OF sqlite.reaches.refl])
  have ok: "t_ok (t_history s')" using sqlite.reaches_ok [OF reach assms(1)] by simp
  have i: "i \<le> t_seq (t_history s)" using assms(1,2) by (auto simp: t_ok_def)
  show ?thesis
  proof (cases "t_find i (t_history s')")
    case (Some a)
    then have "(i, a) \<in> set (t_rows (t_history s'))" by (simp add: t_find_Some [OF ok])
    from sqlite.no_resurrection [OF reach assms(1) this i] have "t_find i (t_history s) = Some a" by (simp add: t_find_Some [OF assms(1)])
    then have "a = r" using assms(1,2) t_find_Some [OF assms(1), of i r] by simp
    with Some show ?thesis by (simp add: GetTransaction_eq [OF assms(4)])
  qed (simp add: GetTransaction_eq [OF assms(4)])
qed

text \<open>Loot linked to a transaction keeps its evidence or shows none: whatever is logged, cleared and deleted in the history after the
  entry was made, View Request shows the request and response of that transaction, never another's, and an export
  prints them; once the transaction was deleted, the one shows nothing and the other leaves both out.\<close>

theorem linked_loot_evidence:
  assumes "t_ok (t_history s)" "(i, r) \<in> set (t_rows (t_history s))" "tx = scan_row (lo_codec en) True (i, r)"
    and "s' = fold (history_step (lo_codec en)) ops s" "\<not> s_fault s' (s_clock s')" "le_history_id e = Some i"
  shows "if t_find i (t_history s') = None
    then fst (showLinkedRequest en e s') = None
      \<and> ed_request (fst (export_entry en e s')) = [] \<and> ed_response (fst (export_entry en e s')) = []
    else (\<exists>l. fst (showLinkedRequest en e s') = Some l \<and> lk_request l = FormatStoreRequest (lo_indent en) tx
        \<and> lk_response l = FormatStoreResponse (lo_indent en) tx \<and> lk_target l = (tx_host tx, tx_port tx, tx_tls tx))
      \<and> ed_request (fst (export_entry en e s')) = FormatStoreRequest (lo_indent en) tx
      \<and> ed_response (fst (export_entry en e s')) = FormatStoreResponse (lo_indent en) tx"
proof (cases "t_find i (t_history s')")
  case None
  then have "fst (GetTransaction (lo_codec en) i s') = Inl NoRows" by (simp add: GetTransaction_eq [OF assms(5)])
  with None show ?thesis
    by (cases "GetTransaction (lo_codec en) i s'") (simp add: showLinkedRequest_def export_entry_def assms(6) Let_def)
next
  case (Some a)
  then have "fst (GetTransaction (lo_codec en) i s') = Inr tx"
    using linked_transaction [OF assms(1,2,4,5)] assms(3) by auto
  with Some show ?thesis
    by (cases "GetTransaction (lo_codec en) i s'") (simp add: showLinkedRequest_def export_entry_def assms(6) Let_def)
qed

section \<open>An example\<close>

definition demo_loot_env :: loot_env where
  "demo_loot_env = \<lparr>lo_codec = demo_codec, lo_format = \<lambda>_. ''date'', lo_indent = \<lambda>_. None\<rparr>"

definition demo_loot_events :: "loot_event list" where
  "demo_loot_events = [LAdd 0 None ''q'' ''r'' ('' t '', ''High'', []), LTake, LReload]"

lemma demo_loot:
  assumes "x = loot_run demo_loot_env demo_loot_events (loot_build demo_loot_env demo_store)"
  shows "s_loot_ch (lw_store x) = 0" "lw_reloads x = 0" "\<exists>r. t_rows (t_loot (lw_store x)) = [(1, r)] \<and> lr_title r = ''t''"
    "lt_dialogs (lw_tab x) = []"
proof -
  have t: "trim_space '' t '' = ''t''" by code_simp
  have d: "healthy demo_store" "t_rows (t_loot demo_store) = []" "t_seq (t_loot demo_store) = 0" "s_loot_ch demo_store = 0"
    "t_ok (t_loot demo_store)"
    by (simp_all add: healthy_def demo_store_def fresh_store_def new_file_def) (simp_all add: empty_table_def)
  have "healthy (tick demo_store)" using d(1) by simp
  obtain s2 where s2: "snd (AddLoot demo_codec 0 \<lparr>le_id = 0, le_title = ''t'', le_severity = ''High'', le_notes = [],
      le_history_id = None, le_raw_request = ''q'', le_raw_response = ''r'', le_created_at = 0\<rparr> (tick demo_store)) = s2"
    "healthy s2" "s_loot_ch s2 = 1" "\<exists>r. t_rows (t_loot s2) = [(1, r)] \<and> lr_title r = ''t''"
    using \<open>healthy (tick demo_store)\<close> d(2-4)
    by (simp add: AddLoot_def healthy_write healthy_sql notifyLoot_def t_insert_def try_signal_def chan_cap_def)
      (use d(1) in \<open>simp add: healthy_def\<close>)
  have h: "healthy (s2\<lparr>s_loot_ch := 0\<rparr>)" using s2(2) by (simp add: healthy_def)
  let ?t = "newLootTab\<lparr>lt_entries := loot_of demo_codec demo_store\<rparr>"
  have "x = \<lparr>lw_tab = ?t\<lparr>lt_entries := loot_of demo_codec (s2\<lparr>s_loot_ch := 0\<rparr>)\<rparr>, lw_store = tick (s2\<lparr>s_loot_ch := 0\<rparr>), lw_reloads = 0\<rparr>"
    using s2(1,3) d(1)
    by (simp add: assms loot_run_def demo_loot_events_def loot_build_def loot_reload_def AllLoot_healthy loot_step_def add_saved_def t
        demo_loot_env_def AllLoot_healthy [OF h])
  then show "s_loot_ch (lw_store x) = 0" "lw_reloads x = 0" "\<exists>r. t_rows (t_loot (lw_store x)) = [(1, r)] \<and> lr_title r = ''t''"
    "lt_dialogs (lw_tab x) = []"
    using s2(4) by (simp_all add: tick_def newLootTab_def)
qed

theorem loot_tab_settles_witness:
  "\<exists>x. x = loot_run demo_loot_env demo_loot_events (loot_build demo_loot_env demo_store)
    \<and> fst (AllLoot demo_codec (lw_store x)) = Inr (lt_entries (lw_tab x)) \<and> length (t_rows (t_loot (lw_store x))) = 1"
proof -
  define x where "x = loot_run demo_loot_env demo_loot_events (loot_build demo_loot_env demo_store)"
  have "t_ok (t_loot demo_store)" by (simp add: demo_store_def fresh_store_def new_file_def)
  from loot_tab_settles [OF x_def demo_store_healthy(1) this] demo_loot [OF x_def]
  have "fst (AllLoot demo_codec (lw_store x)) = Inr (lt_entries (lw_tab x)) \<and> length (t_rows (t_loot (lw_store x))) = 1"
    by (auto simp: demo_loot_env_def)
  then show ?thesis using x_def by blast
qed

theorem confirmed_delete_exact_witness:
  "\<exists>x. x = loot_run demo_loot_env (demo_loot_events @ [LMenuDelete 0]) (loot_build demo_loot_env demo_store)
    \<and> length (t_rows (t_loot (lw_store x))) = 1 \<and> t_rows (t_loot (lw_store (loot_step demo_loot_env (LAnswer 0 True) x))) = []"
proof -
  define y where "y = loot_run demo_loot_env demo_loot_events (loot_build demo_loot_env demo_store)"
  define x where "x = loot_run demo_loot_env (demo_loot_events @ [LMenuDelete 0]) (loot_build demo_loot_env demo_store)"
  have t: "t_ok (t_loot demo_store)" by (simp add: demo_store_def fresh_store_def new_file_def)
  have "lw_ok demo_loot_env y" unfolding y_def by (rule loot_run_ok [OF loot_build_ok [OF demo_store_healthy(1) t]])
  then have e: "lt_entries (lw_tab y) = loot_of demo_codec (lw_store y)" "t_ok (t_loot (lw_store y))"
    using demo_loot [OF y_def] by (auto simp: lw_ok_def demo_loot_env_def)
  obtain r where r: "t_rows (t_loot (lw_store y)) = [(1, r)]" using demo_loot(3) [OF y_def] by blast
  have l: "lt_entries (lw_tab y) = [scan_loot demo_codec (1, r)]" by (simp add: e(1) loot_of_def t_desc_rows [OF e(2)] r)
  have x: "x = y\<lparr>lw_tab := (lw_tab y)\<lparr>lt_dialogs := [scan_loot demo_codec (1, r)]\<rparr>\<rparr>"
    using demo_loot(4) [OF y_def] by (simp add: x_def loot_run_def y_def [unfolded loot_run_def, symmetric] loot_step_def menu_delete_def l)
  then have k: "0 < length (lt_dialogs (lw_tab x))" "lt_dialogs (lw_tab x) ! 0 = scan_loot demo_codec (1, r)"
    "t_rows (t_loot (lw_store x)) = [(1, r)]" by (simp_all add: r)
  from confirmed_delete_exact [OF x_def demo_store_healthy(1) t k(1) refl]
  have "t_rows (t_loot (lw_store (loot_step demo_loot_env (LAnswer 0 True) x))) = []" unfolding k by (simp add: scan_loot_def)
  with x_def k(3) show ?thesis by (intro exI [of _ x]) simp
qed

theorem linked_loot_evidence_witness:
  "\<exists>s r. t_rows (t_history s) = [(1, r)] \<and> ed_request (fst (export_entry demo_loot_env
      \<lparr>le_id = 1, le_title = ''t'', le_severity = ''High'', le_notes = [], le_history_id = Some 1, le_raw_request = [],
        le_raw_response = [], le_created_at = 0\<rparr> s)) = FormatStoreRequest (\<lambda>_. None) (scan_row demo_codec True (1, r))"
proof -
  let ?s = "history_step demo_codec (HLog demo_tx) demo_store"
  let ?e = "\<lparr>le_id = 1, le_title = ''t'', le_severity = ''High'', le_notes = [], le_history_id = Some 1, le_raw_request = [],
        le_raw_response = [], le_created_at = 0\<rparr>"
  have t: "map fst (t_rows (t_history ?s)) = [1]" "t_seq (t_history ?s) = 1" by code_simp+
  have f: "\<not> s_fault ?s (s_clock ?s)" unfolding history_step_fault by (simp add: demo_store_def fresh_store_def)
  from t have ok: "t_ok (t_history ?s)" by (auto simp: t_ok_def)
  obtain r where r: "t_rows (t_history ?s) = [(1, r)]" using t(1) by (cases "t_rows (t_history ?s)") auto
  then have m: "(1, r) \<in> set (t_rows (t_history ?s))" "t_find 1 (t_history ?s) \<noteq> None" by (simp_all add: t_find_def)
  have c: "lo_codec demo_loot_env = demo_codec" "lo_indent demo_loot_env = (\<lambda>_. None)" by (simp_all add: demo_loot_env_def)
  have n: "?s = fold (history_step (lo_codec demo_loot_env)) [] ?s" by simp
  have h: "le_history_id ?e = Some 1" by simp
  from linked_loot_evidence [OF ok m(1) refl n f h] m(2) r c show ?thesis by (intro exI [of _ ?s] exI [of _ r]) auto
qed

end
