(* ===== verification/ScopeDialog.thy ===== *)
theory ScopeDialog
  imports StoreScope StoreHistory StoreWs
begin

text \<open>
  The scope dialog (\<open>internal/ui/scope.go\<close>): a local copy of the scope table, the field a host is typed or pasted into, and
  the two buttons. \<open>sd_errors\<close> are the errors shown to the user and \<open>sd_changes\<close> counts the calls of \<open>onChanged\<close>.
\<close>

section \<open>The dialog\<close>

record scope_dialog =
  sd_rows :: "(nat \<times> string) list"
  sd_selected :: int
  sd_delete_on :: bool
  sd_text :: string
  sd_errors :: "store_error list"
  sd_changes :: nat

definition scope_rows :: "ScopeEntry list \<Rightarrow> (nat \<times> string) list" where
  "scope_rows es = map (\<lambda>e. (se_id e, se_host e)) es"

text \<open>An error while loading leaves no rows.\<close>

definition loaded_rows :: "store_error + ScopeEntry list \<Rightarrow> (nat \<times> string) list" where
  "loaded_rows r = (case r of Inl _ \<Rightarrow> [] | Inr es \<Rightarrow> scope_rows es)"

definition showScopeDialog :: "store \<Rightarrow> scope_dialog \<times> store" where
  "showScopeDialog s = (let (r, s) = AllScopeEntries s in
     (\<lparr>sd_rows = loaded_rows r, sd_selected = - 1, sd_delete_on = False, sd_text = [], sd_errors = [], sd_changes = 0\<rparr>, s))"

definition scope_row_selected :: "nat \<Rightarrow> scope_dialog \<Rightarrow> scope_dialog" where
  "scope_row_selected i d = d\<lparr>sd_selected := int i, sd_delete_on := True\<rparr>"

definition scope_row_unselected :: "scope_dialog \<Rightarrow> scope_dialog" where
  "scope_row_unselected d = d\<lparr>sd_selected := - 1, sd_delete_on := False\<rparr>"

definition trim_prefix :: "string \<Rightarrow> string \<Rightarrow> string" where
  "trim_prefix s p = (if has_prefix s p then drop (length p) s else s)"

text \<open>The host in what was typed: without scheme, path and port.\<close>

definition typed_host :: "string \<Rightarrow> string" where
  "typed_host text = (let host = trim_prefix (trim_prefix text ''https://'') ''http://'';
       host = (case index_of host ''/'' of Some idx \<Rightarrow> take idx host | None \<Rightarrow> host)
     in case split_host_port host of Some (hostname, _) \<Rightarrow> hostname | None \<Rightarrow> host)"

definition scope_add_tapped :: "scope_dialog \<times> store \<Rightarrow> scope_dialog \<times> store" where
  "scope_add_tapped = (\<lambda>(d, s). let text = trim_space (sd_text d) in
     if text = [] then (d, s)
     else (case AddScopeEntry (typed_host text) s of
         (Inl e, s) \<Rightarrow> (d\<lparr>sd_errors := sd_errors d @ [e]\<rparr>, s)
       | (Inr _, s) \<Rightarrow> (let (r, s) = AllScopeEntries s
           in (d\<lparr>sd_rows := loaded_rows r, sd_text := [], sd_changes := Suc (sd_changes d)\<rparr>, s))))"

definition scope_remove_tapped :: "scope_dialog \<times> store \<Rightarrow> scope_dialog \<times> store" where
  "scope_remove_tapped = (\<lambda>(d, s).
     if \<not> sd_delete_on d \<or> sd_selected d < 0 \<or> sd_selected d \<ge> int (length (sd_rows d)) then (d, s)
     else (case DeleteScopeEntry (fst (sd_rows d ! nat (sd_selected d))) s of
         (Inl e, s) \<Rightarrow> (d\<lparr>sd_errors := sd_errors d @ [e]\<rparr>, s)
       | (Inr _, s) \<Rightarrow> (let (r, s) = AllScopeEntries s
           in (d\<lparr>sd_rows := loaded_rows r, sd_selected := - 1, sd_delete_on := False, sd_changes := Suc (sd_changes d)\<rparr>, s))))"

section \<open>What was typed is in scope\<close>

definition schemes :: "string list" where "schemes = [[], ''http://'', ''https://'']"

lemma first_slash:
  assumes "CHR ''/'' \<notin> set a" "r = [] \<or> hd r = CHR ''/''"
  shows "takeWhile (\<lambda>c. c \<noteq> CHR ''/'') (a @ r) = a"
  using assms by (cases r) (auto simp: takeWhile_append2 takeWhile_tail)

lemma no_scheme:
  assumes "CHR ''/'' \<notin> set a" "r = [] \<or> hd r = CHR ''/''" "a = [] \<or> last a \<noteq> CHR '':''"
  shows "\<not> has_prefix (a @ r) ''http://''" "\<not> has_prefix (a @ r) ''https://''"
proof -
  have "a = ''http:''" if "a @ r = ''http://'' @ x" for x using first_slash [OF assms(1,2)] unfolding that by simp
  then show "\<not> has_prefix (a @ r) ''http://''" using assms(3) by (auto simp: has_prefix_def prefix_def)
  have "a = ''https:''" if "a @ r = ''https://'' @ x" for x using first_slash [OF assms(1,2)] unfolding that by simp
  then show "\<not> has_prefix (a @ r) ''https://''" using assms(3) by (auto simp: has_prefix_def prefix_def)
qed

lemma cut_at_slash:
  assumes "CHR ''/'' \<notin> set a" "r = [] \<or> hd r = CHR ''/''"
  shows "(case index_of (a @ r) ''/'' of Some idx \<Rightarrow> take idx (a @ r) | None \<Rightarrow> a @ r) = a"
proof (cases r)
  case Nil
  then show ?thesis using index_of_skip_set [of "''/''" a "[]"] assms(1) by simp
next
  case (Cons c t)
  then have "index_of r ''/'' = Some 0" using assms(2) by simp
  then show ?thesis using index_of_skip_set [of "''/''" a r] assms(1) by simp
qed

text \<open>A target as it is copied from somewhere: scheme, port and path are optional.\<close>

definition pasted :: "string \<Rightarrow> string \<Rightarrow> nat option \<Rightarrow> string \<Rightarrow> string" where
  "pasted scheme h port path = scheme @ (case port of None \<Rightarrow> h | Some p \<Rightarrow> join_host_port h (nat_digits p)) @ path"

definition target :: "string \<Rightarrow> nat option \<Rightarrow> string \<Rightarrow> bool" where
  "target h port path = (h \<noteq> [] \<and> set h \<inter> {CHR ''['', CHR '']'', CHR ''/''} = {} \<and> (port = None \<longrightarrow> CHR '':'' \<notin> set h)
     \<and> (path = [] \<or> hd path = CHR ''/'') \<and> list_all (\<lambda>c. \<not> is_space c) (h @ path))"

lemma nat_digits_plain: "set (nat_digits p) \<inter> {CHR ''['', CHR '']'', CHR '':'', CHR ''/''} = {}"
proof -
  have "\<not> is_digit (CHR ''['')" "\<not> is_digit (CHR '']'')" "\<not> is_digit (CHR '':'')" "\<not> is_digit (CHR ''/'')" by code_simp+
  then show ?thesis using nat_digits_is_digit [of _ p] by blast
qed

lemma typed_host_pasted:
  assumes "target h port path" "scheme \<in> set schemes"
  shows "typed_host (pasted scheme h port path) = h"
proof -
  define a where "a = (case port of None \<Rightarrow> h | Some p \<Rightarrow> join_host_port h (nat_digits p))"
  have h: "h \<noteq> []" "set h \<inter> {CHR ''['', CHR '']'', CHR ''/''} = {}" "port = None \<Longrightarrow> CHR '':'' \<notin> set h"
    and path: "path = [] \<or> hd path = CHR ''/''"
    using assms(1) by (auto simp: target_def)
  have a: "CHR ''/'' \<notin> set a" "a = [] \<or> last a \<noteq> CHR '':''"
  proof -
    show "CHR ''/'' \<notin> set a" using h nat_digits_plain by (auto simp: a_def join_host_port_def split: option.split)
    have "last (nat_digits p) \<noteq> CHR '':''" for p using nat_digits_plain [of p] by (metis disjoint_iff insertCI last_in_set nat_digits_not_Nil)
    then show "a = [] \<or> last a \<noteq> CHR '':''"
      using h(3) by (cases port) (auto simp: a_def join_host_port_def dest: last_in_set)
  qed
  have "trim_prefix (trim_prefix (scheme @ a @ path) ''https://'') ''http://'' = a @ path"
    using assms(2) no_scheme [OF a(1) path a(2)] by (auto simp: schemes_def trim_prefix_def) (auto simp: has_prefix_def)
  moreover have "(case split_host_port a of Some (hostname, _) \<Rightarrow> hostname | None \<Rightarrow> a) = h"
  proof (cases port)
    case None
    then show ?thesis using h(3) by (simp add: a_def split_host_port_no_colon)
  next
    case (Some p)
    then show ?thesis using split_join_host_port [of h "nat_digits p"] h(2) nat_digits_plain [of p] by (auto simp: a_def)
  qed
  ultimately show ?thesis
    unfolding typed_host_def pasted_def a_def [symmetric] Let_def by (simp only: cut_at_slash [OF a(1) path])
qed

lemma pasted_trimmed:
  assumes "target h port path" "scheme \<in> set schemes"
  shows "trim_space (pasted scheme h port path) = pasted scheme h port path" "pasted scheme h port path \<noteq> []"
proof -
  have "\<not> is_space c" if "c \<in> set (nat_digits p)" for c p using nat_digits_is_digit [OF that] by (rule digit_not_space)
  moreover have "list_all (\<lambda>c. \<not> is_space c) ''http://'' \<and> list_all (\<lambda>c. \<not> is_space c) ''https://'' \<and> list_all (\<lambda>c. \<not> is_space c) ''[]:''"
    by code_simp
  ultimately have "\<forall>c \<in> set (pasted scheme h port path). \<not> is_space c"
    using assms by (auto simp: pasted_def schemes_def target_def join_host_port_def list_all_iff split: option.split)
  then show "trim_space (pasted scheme h port path) = pasted scheme h port path" by (rule trim_space_no_space)
  show "pasted scheme h port path \<noteq> []" using assms(1) by (auto simp: pasted_def target_def join_host_port_def split: option.split)
qed



text \<open>A pasted IPv6 address without a port keeps its brackets, and so never matches.\<close>

lemma bracketed_host_never_matches:
  "typed_host ''https://[::1]/'' = ''[::1]''" "\<not> matchesScope [\<lparr>se_id = 1, se_host = ''[::1]''\<rparr>] (strip_port ''[::1]:443'')"
  by code_simp+

text \<open>Removing deletes exactly the row that is listed at the selected index.\<close>

lemma scope_remove_exact:
  assumes "healthy s" "sd_delete_on d" "0 \<le> sd_selected d" "sd_selected d < int (length (sd_rows d))" "scope_remove_tapped (d, s) = (d', s')"
  shows "t_rows (t_scope s') = filter (\<lambda>r. fst r \<noteq> fst (sd_rows d ! nat (sd_selected d))) (t_rows (t_scope s)) \<and> \<not> sd_delete_on d'"
  using assms by (auto simp: scope_remove_tapped_def DeleteScopeEntry_eq AllScopeEntries_eq healthy_def t_delete_def invalidateScopeCache_def case_prod_beta)

end
