(* ===== verification/PluginsTab.thy ===== *)
theory PluginsTab
  imports StoreTables StoreWs
begin

text \<open>
  The Plugins tab (\<open>internal/ui/plugins.go\<close>): the list with its selection by index, the button that switches a plugin on and
  off through the bus, the log of the selected plugin, and the reload after each notification of the store, which a
  goroutine takes and posts. The engine's side of the switch is in \<open>PluginEngine\<close>.
\<close>

section \<open>The tab\<close>

record plugins_tab =
  pt_plugins :: "PluginEntry list"
  pt_selected :: int
  pt_toggle_text :: string
  pt_toggle_on :: bool
  pt_log :: string

definition new_plugins_tab :: plugins_tab where
  "new_plugins_tab = \<lparr>pt_plugins = [], pt_selected = - 1, pt_toggle_text = ''Disable'', pt_toggle_on = False, pt_log = []\<rparr>"

text \<open>The plugin selected, if the index is in the list.\<close>

definition pt_current :: "plugins_tab \<Rightarrow> PluginEntry option" where
  "pt_current t = (if pt_selected t < 0 \<or> pt_selected t \<ge> int (length (pt_plugins t)) then None
     else Some (pt_plugins t ! nat (pt_selected t)))"

definition refreshLogs :: "store \<Rightarrow> plugins_tab \<Rightarrow> plugins_tab" where
  "refreshLogs s t = (case pt_current t of None \<Rightarrow> t\<lparr>pt_log := []\<rparr>
     | Some p \<Rightarrow> t\<lparr>pt_log := join (PluginLogs (pn_name p) s) LF\<rparr>)"

definition toggle_label :: "PluginEntry \<Rightarrow> string" where
  "toggle_label p = (if pn_enabled p then ''Disable'' else ''Enable'')"

definition refreshAll :: "plugins_tab \<times> store \<Rightarrow> plugins_tab \<times> store" where
  "refreshAll = (\<lambda>(t, s). case AllPlugins s of
     (Inl _, s) \<Rightarrow> (t, s)
   | (Inr entries, s) \<Rightarrow> (let t = t\<lparr>pt_plugins := entries\<rparr>;
         t = (case pt_current t of None \<Rightarrow> t | Some p \<Rightarrow> t\<lparr>pt_toggle_text := toggle_label p, pt_toggle_on := True\<rparr>)
       in (refreshLogs s t, s)))"

text \<open>An item of the list: its mark, in UTF-8, the mark's importance and the name.\<close>

definition plugin_item :: "plugins_tab \<Rightarrow> nat \<Rightarrow> (string \<times> importance \<times> string) option" where
  "plugin_item t i = (if i \<ge> length (pt_plugins t) then None
     else let p = pt_plugins t ! i in
       Some (if pn_enabled p then ([CHR 0xE2, CHR 0x9C, CHR 0x93], SuccessImportance, pn_name p)
         else ([CHR 0xE2, CHR 0x9C, CHR 0x97], DangerImportance, pn_name p)))"

definition plugin_selected :: "nat \<Rightarrow> store \<Rightarrow> plugins_tab \<Rightarrow> plugins_tab" where
  "plugin_selected i s t = (let t = t\<lparr>pt_selected := int i\<rparr> in
     if i \<ge> length (pt_plugins t) then t\<lparr>pt_toggle_on := False\<rparr>
     else refreshLogs s (t\<lparr>pt_toggle_text := toggle_label (pt_plugins t ! i), pt_toggle_on := True\<rparr>))"

definition plugin_unselected :: "plugins_tab \<Rightarrow> plugins_tab" where
  "plugin_unselected t = t\<lparr>pt_selected := - 1, pt_toggle_on := False, pt_log := []\<rparr>"

text \<open>What the toggle button emits, and what the file dialog of Add emits.\<close>

definition toggle_tapped :: "plugins_tab \<Rightarrow> SetPluginEnabledEvent option" where
  "toggle_tapped t = (if \<not> pt_toggle_on t then None
     else map_option (\<lambda>p. \<lparr>pe_name = pn_name p, pe_enabled = (\<not> pn_enabled p)\<rparr>) (pt_current t))"

definition plugin_chosen :: "string option \<Rightarrow> LoadPluginEvent option" where
  "plugin_chosen chosen = map_option (\<lambda>path. \<lparr>lp_source_path = path\<rparr>) chosen"

section \<open>The tab at work\<close>

record plugins_world =
  pu_tab :: plugins_tab
  pu_store :: store
  pu_reloads :: nat

datatype plugins_event = PSelect nat | PUnselect | PToggle | PTake | PReload
  | PLogged PluginLogEvent | PRegistered string string | PSwitched SetPluginEnabledEvent

definition plugins_build :: "store \<Rightarrow> plugins_world" where
  "plugins_build s = (let (t, s) = refreshAll (new_plugins_tab, s) in \<lparr>pu_tab = t, pu_store = s, pu_reloads = 0\<rparr>)"

definition plugins_step :: "plugins_event \<Rightarrow> plugins_world \<Rightarrow> plugins_world" where
  "plugins_step e x = (case e of
     PSelect i \<Rightarrow> x\<lparr>pu_tab := plugin_selected i (pu_store x) (pu_tab x)\<rparr>
   | PUnselect \<Rightarrow> x\<lparr>pu_tab := plugin_unselected (pu_tab x)\<rparr>
   | PToggle \<Rightarrow> (case toggle_tapped (pu_tab x) of None \<Rightarrow> x
       | Some ev \<Rightarrow> x\<lparr>pu_store := ObservePluginEnabled ev (pu_store x)\<rparr>)
   | PTake \<Rightarrow> (if s_plugin_ch (pu_store x) = 0 then x
       else x\<lparr>pu_store := (pu_store x)\<lparr>s_plugin_ch := s_plugin_ch (pu_store x) - 1\<rparr>, pu_reloads := Suc (pu_reloads x)\<rparr>)
   | PReload \<Rightarrow> (if pu_reloads x = 0 then x
       else let (t, s) = refreshAll (pu_tab x, pu_store x) in x\<lparr>pu_tab := t, pu_store := s, pu_reloads := pu_reloads x - 1\<rparr>)
   | PLogged ev \<Rightarrow> x\<lparr>pu_store := ObservePluginLog ev (pu_store x)\<rparr>
   | PRegistered name path \<Rightarrow> x\<lparr>pu_store := snd (RegisterPlugin name path (pu_store x))\<rparr>
   | PSwitched ev \<Rightarrow> x\<lparr>pu_store := ObservePluginEnabled ev (pu_store x)\<rparr>)"

definition plugins_run :: "plugins_event list \<Rightarrow> plugins_world \<Rightarrow> plugins_world" where
  "plugins_run es x = fold plugins_step es x"

section \<open>The tab settles\<close>

definition plugins_of :: "store \<Rightarrow> PluginEntry list" where
  "plugins_of s = map plugin_entry (sort_key fst (t_plugins s))"

text \<open>The tab shows the store: the list, the button and the log of the plugin selected.\<close>

definition shows_store :: "plugins_tab \<Rightarrow> store \<Rightarrow> bool" where
  "shows_store t s = (pt_plugins t = plugins_of s
     \<and> pred_option (\<lambda>p. pt_toggle_on t \<and> pt_toggle_text t = toggle_label p \<and> pt_log t = join (PluginLogs (pn_name p) s) LF) (pt_current t))"

definition pu_ok :: "plugins_world \<Rightarrow> bool" where
  "pu_ok x = (healthy (pu_store x) \<and> (0 < s_plugin_ch (pu_store x) \<or> 0 < pu_reloads x \<or> shows_store (pu_tab x) (pu_store x)))"

lemma AllPlugins_healthy: "healthy s \<Longrightarrow> AllPlugins s = (Inr (plugins_of s), tick s)"
  by (simp add: AllPlugins_def healthy_sql plugins_of_def)

lemma refreshAll_shows:
  assumes "healthy s" shows "shows_store (fst (refreshAll (t, s))) (snd (refreshAll (t, s)))" "snd (refreshAll (t, s)) = tick s"
proof -
  have "plugins_of (tick s) = plugins_of s" by (simp add: plugins_of_def)
  then show "shows_store (fst (refreshAll (t, s))) (snd (refreshAll (t, s)))" "snd (refreshAll (t, s)) = tick s"
    by (auto simp: refreshAll_def AllPlugins_healthy [OF assms] shows_store_def refreshLogs_def pt_current_def Let_def PluginLogs_def)
qed

lemma signal_plugins_pos: "0 < s_plugin_ch (signal_plugins s)"
  by (simp add: signal_plugins_def try_signal_def chan_cap_def)

lemma ObservePluginEnabled_healthy:
  "healthy s \<Longrightarrow> ObservePluginEnabled ev s = signal_plugins ((tick s)\<lparr>t_plugins :=
     map (\<lambda>(n, r). (n, if n = pe_name ev then r\<lparr>pw_enabled := boolToInt (pe_enabled ev)\<rparr> else r)) (t_plugins s)\<rparr>)"
  by (simp add: ObservePluginEnabled_def healthy_write healthy_sql)

lemma plugins_step_ok:
  assumes "pu_ok x" shows "pu_ok (plugins_step e x)"
proof (cases e)
  case (PSelect i)
  then show ?thesis using assms
    by (auto simp: plugins_step_def pu_ok_def plugin_selected_def shows_store_def refreshLogs_def pt_current_def Let_def)
next
  case PUnselect
  then show ?thesis using assms by (auto simp: plugins_step_def pu_ok_def plugin_unselected_def shows_store_def pt_current_def)
next
  case PToggle
  then show ?thesis using assms
    by (auto simp: plugins_step_def pu_ok_def ObservePluginEnabled_healthy signal_plugins_pos split: option.split)
next
  case PTake
  then show ?thesis using assms by (auto simp: plugins_step_def pu_ok_def healthy_def)
next
  case PReload
  have "healthy (pu_store x)" using assms by (simp add: pu_ok_def)
  with PReload assms refreshAll_shows [OF this, of "pu_tab x"] show ?thesis
    by (cases "refreshAll (pu_tab x, pu_store x)") (auto simp: plugins_step_def pu_ok_def)
next
  case (PLogged ev)
  then show ?thesis using assms by (simp add: plugins_step_def pu_ok_def ObservePluginLog_def Let_def signal_plugins_pos) (simp add: healthy_def)
next
  case (PRegistered name path)
  then show ?thesis using assms
    by (simp add: plugins_step_def pu_ok_def RegisterPlugin_def healthy_write healthy_sql signal_plugins_pos)
next
  case (PSwitched ev)
  then show ?thesis using assms by (simp add: plugins_step_def pu_ok_def ObservePluginEnabled_healthy signal_plugins_pos)
qed

lemma plugins_run_ok: "pu_ok x \<Longrightarrow> pu_ok (plugins_run es x)"
  by (induction es arbitrary: x) (simp_all add: plugins_run_def plugins_step_ok)

lemma plugins_build_ok: "healthy s \<Longrightarrow> pu_ok (plugins_build s)"
  using refreshAll_shows [of s new_plugins_tab] by (simp add: plugins_build_def pu_ok_def case_prod_beta)

text \<open>The Plugins tab catches up, and its button then tells the truth: with no notification waiting and no reload posted, the list is the store's,
  and for the plugin selected the button reads Disable exactly if the plugin is on and the log is the store's.\<close>

theorem plugins_tab_settles:
  assumes "x = plugins_run es (plugins_build s)" "healthy s" "s_plugin_ch (pu_store x) = 0" "pu_reloads x = 0"
    and "pt_current (pu_tab x) = Some p"
  shows "fst (AllPlugins (pu_store x)) = Inr (pt_plugins (pu_tab x)) \<and> pt_toggle_on (pu_tab x)
    \<and> pt_toggle_text (pu_tab x) = (if pn_enabled p then ''Disable'' else ''Enable'')
    \<and> pt_log (pu_tab x) = join (PluginLogs (pn_name p) (pu_store x)) LF"
proof -
  have "pu_ok x" unfolding assms(1) by (rule plugins_run_ok [OF plugins_build_ok [OF assms(2)]])
  then show ?thesis using assms(3-5) by (auto simp: pu_ok_def shows_store_def AllPlugins_healthy toggle_label_def)
qed

definition demo_plugin_events :: "plugins_event list" where
  "demo_plugin_events = [PRegistered ''p'' ''p.lua'', PTake, PReload, PSelect 0]"

lemma demo_plugins:
  assumes "x = plugins_run demo_plugin_events (plugins_build demo_store)"
  shows "healthy (pu_store x)" "s_plugin_ch (pu_store x) = 0" "pu_reloads x = 0"
    "t_plugins (pu_store x) = [(''p'', \<lparr>pw_path = ''p.lua'', pw_enabled = 1\<rparr>)]"
    "pt_current (pu_tab x) = Some \<lparr>pn_name = ''p'', pn_path = ''p.lua'', pn_enabled = True\<rparr>"
proof -
  have d: "healthy demo_store" "t_plugins demo_store = []" "s_plugin_ch demo_store = 0"
    by (simp_all add: healthy_def demo_store_def fresh_store_def new_file_def)
  define s1 where "s1 = snd (refreshAll (new_plugins_tab, demo_store))"
  have s1: "healthy s1" "t_plugins s1 = []" "s_plugin_ch s1 = 0" using d refreshAll_shows(2) [OF d(1)] by (simp_all add: s1_def)
  define s2 where "s2 = (snd (RegisterPlugin ''p'' ''p.lua'' s1))\<lparr>s_plugin_ch := 0\<rparr>"
  have r: "s_plugin_ch (snd (RegisterPlugin ''p'' ''p.lua'' s1)) = 1" and s2: "healthy s2" "s_plugin_ch s2 = 0"
      "t_plugins s2 = [(''p'', \<lparr>pw_path = ''p.lua'', pw_enabled = 1\<rparr>)]"
    using s1 by (simp_all add: s2_def RegisterPlugin_def healthy_write healthy_sql upsert_plugin_def signal_plugins_def try_signal_def chan_cap_def)
      (simp add: healthy_def)
  have x: "x = (let y = refreshAll (fst (refreshAll (new_plugins_tab, demo_store)), s2)
      in \<lparr>pu_tab = plugin_selected 0 (snd y) (fst y), pu_store = snd y, pu_reloads = 0\<rparr>)"
    using r by (simp add: assms plugins_run_def demo_plugin_events_def plugins_build_def plugins_step_def s1_def [symmetric] s2_def
        case_prod_beta Let_def)
  have "pt_plugins (fst (refreshAll (t, s2))) = [\<lparr>pn_name = ''p'', pn_path = ''p.lua'', pn_enabled = True\<rparr>]" for t
    using refreshAll_shows(1) [OF s2(1), of t] s2(3) by (simp add: shows_store_def refreshAll_shows(2) [OF s2(1)] plugins_of_def plugin_entry_def)
  then show "healthy (pu_store x)" "s_plugin_ch (pu_store x) = 0" "pu_reloads x = 0"
    "t_plugins (pu_store x) = [(''p'', \<lparr>pw_path = ''p.lua'', pw_enabled = 1\<rparr>)]"
    "pt_current (pu_tab x) = Some \<lparr>pn_name = ''p'', pn_path = ''p.lua'', pn_enabled = True\<rparr>"
    using s2 by (simp_all add: x refreshAll_shows(2) [OF s2(1)] plugin_selected_def refreshLogs_def pt_current_def Let_def)
qed

theorem plugins_tab_settles_witness:
  "\<exists>x. x = plugins_run demo_plugin_events (plugins_build demo_store) \<and> pt_toggle_text (pu_tab x) = ''Disable''"
proof -
  define x where "x = plugins_run demo_plugin_events (plugins_build demo_store)"
  from plugins_tab_settles [OF x_def demo_store_healthy(1) demo_plugins(2,3,5) [OF x_def]] x_def show ?thesis by simp
qed

section \<open>The switch\<close>

lemma sort_key_map_fst:
  assumes "\<And>x. fst (g x) = fst x" shows "sort_key fst (map g xs) = map g (sort_key fst xs)"
proof -
  have "insort_key fst (g x) (map g ys) = map g (insort_key fst x ys)" for x ys by (induction ys) (simp_all add: assms)
  then show ?thesis by (induction xs) simp_all
qed

text \<open>C39: The button switches the plugin it stands for and no other: pressed while the tab is up to date, the store's switch of the selected plugin
  is the other way round, and after the reload the list differs in that one switch and the button in its label.\<close>

theorem plugin_toggle_flips:
  assumes "x = plugins_run es (plugins_build s)" "healthy s" "s_plugin_ch (pu_store x) = 0" "pu_reloads x = 0"
    and "pt_current (pu_tab x) = Some p" "distinct (map fst (t_plugins (pu_store x)))"
    and "x' = plugins_run [PToggle, PTake, PReload] x"
  shows "pt_plugins (pu_tab x') = map (\<lambda>q. if pn_name q = pn_name p then q\<lparr>pn_enabled := \<not> pn_enabled p\<rparr> else q) (pt_plugins (pu_tab x))
    \<and> fst (PluginEnabled (pn_name p) (pu_store x')) = (\<not> pn_enabled p, None)
    \<and> pt_toggle_text (pu_tab x') = (if pn_enabled p then ''Enable'' else ''Disable'')"
proof -
  have "pu_ok x" unfolding assms(1) by (rule plugins_run_ok [OF plugins_build_ok [OF assms(2)]])
  then have ok: "healthy (pu_store x)" "shows_store (pu_tab x) (pu_store x)" using assms(3,4) by (simp_all add: pu_ok_def)
  define g where "g = (\<lambda>x. (fst x, if fst x = pn_name p then (snd x)\<lparr>pw_enabled := boolToInt (\<not> pn_enabled p)\<rparr> else snd x :: plugin_row))"
  define ev where "ev = \<lparr>pe_name = pn_name p, pe_enabled = (\<not> pn_enabled p)\<rparr>"
  define s1 where "s1 = (ObservePluginEnabled ev (pu_store x))\<lparr>s_plugin_ch := 0\<rparr>"
  have s1: "healthy s1" "t_plugins s1 = map g (t_plugins (pu_store x))"
    using ok(1) by (simp_all add: s1_def ObservePluginEnabled_healthy [OF ok(1)] ev_def g_def signal_plugins_def case_prod_beta)
      (simp add: healthy_def)
  have ch: "s_plugin_ch (ObservePluginEnabled ev (pu_store x)) = 1"
    using assms(3) by (simp add: ObservePluginEnabled_healthy [OF ok(1)] signal_plugins_def try_signal_def chan_cap_def)
  let ?y = "refreshAll (pu_tab x, s1)"
  have "pt_toggle_on (pu_tab x)" using ok(2) assms(5) by (simp add: shows_store_def)
  then have "toggle_tapped (pu_tab x) = Some ev" using assms(5) by (simp add: toggle_tapped_def ev_def)
  then have x': "pu_tab x' = fst ?y" "pu_store x' = tick s1"
    using assms(4) ch refreshAll_shows(2) [OF s1(1), of "pu_tab x"]
    by (simp_all add: assms(7) plugins_run_def plugins_step_def s1_def case_prod_beta)
  have sh: "shows_store (pu_tab x') (pu_store x')" using refreshAll_shows [OF s1(1), of "pu_tab x"] by (simp add: x')
  define flip where "flip = (\<lambda>q :: PluginEntry. if pn_name q = pn_name p then q\<lparr>pn_enabled := \<not> pn_enabled p\<rparr> else q)"
  have "plugin_entry (g r) = flip (plugin_entry r)" for r
    by (cases r) (simp add: g_def flip_def plugin_entry_def boolToInt_def)
  moreover have "fst (g r) = fst r" for r by (simp add: g_def)
  ultimately have "plugins_of (tick s1) = map flip (plugins_of (pu_store x))" by (simp add: plugins_of_def s1(2) sort_key_map_fst)
  then have pl: "pt_plugins (pu_tab x') = map flip (pt_plugins (pu_tab x))" using sh ok(2) by (simp add: shows_store_def x')
  have sel: "pt_selected (pu_tab x') = pt_selected (pu_tab x)"
    by (simp add: x' refreshAll_def AllPlugins_healthy [OF s1(1)] refreshLogs_def Let_def split: option.split)
  then have cur: "pt_current (pu_tab x') = Some (flip p)" using assms(5) pl by (auto simp: pt_current_def nat_less_iff split: if_splits)
  then have label: "pt_toggle_text (pu_tab x') = (if pn_enabled p then ''Enable'' else ''Disable'')"
    using sh by (simp add: shows_store_def toggle_label_def flip_def)
  have "p \<in> set (plugins_of (pu_store x))"
    using assms(5) ok(2) by (auto simp: pt_current_def shows_store_def nat_less_iff split: if_splits)
  then obtain r where r: "(pn_name p, r) \<in> set (t_plugins (pu_store x))" by (auto simp: plugins_of_def plugin_entry_def)
  have "distinct (map fst (map g (t_plugins (pu_store x))))" using assms(6) by (simp add: g_def comp_def)
  moreover have "(pn_name p, r\<lparr>pw_enabled := boolToInt (\<not> pn_enabled p)\<rparr>) \<in> set (map g (t_plugins (pu_store x)))"
    using r by (force simp: g_def)
  ultimately have "map_of (t_plugins s1) (pn_name p) = Some (r\<lparr>pw_enabled := boolToInt (\<not> pn_enabled p)\<rparr>)"
    unfolding s1(2) by (intro map_of_is_SomeI)
  moreover have "healthy (tick s1)" using s1(1) by simp
  ultimately show ?thesis using pl label
    by (simp add: x'(2) PluginEnabled_def healthy_sql boolToInt_def flip_def [symmetric])
qed

theorem plugin_toggle_flips_witness:
  "\<exists>x. x = plugins_run demo_plugin_events (plugins_build demo_store)
    \<and> fst (PluginEnabled ''p'' (pu_store (plugins_run [PToggle, PTake, PReload] x))) = (False, None)"
proof -
  define x where "x = plugins_run demo_plugin_events (plugins_build demo_store)"
  have "distinct (map fst (t_plugins (pu_store x)))" by (simp add: demo_plugins(4) [OF x_def])
  from plugin_toggle_flips [OF x_def demo_store_healthy(1) demo_plugins(2,3,5) [OF x_def] this refl] x_def show ?thesis by simp
qed

end
