(* ===== verification/Inspector.thy ===== *)
theory Inspector
  imports Format
begin

text \<open>
  The Inspector dialog (\<open>internal/ui/inspector.go\<close>): the pages it shows for a transaction, among them the headers as sorted
  pairs and the cookies a response sets, each followed by its attributes. And how a dialog is closed by the
  Escape key (\<open>closeOnEscape\<close> in \<open>internal/ui/helpers.go\<close>), as all dialogs of the program are.
\<close>

section \<open>Headers and cookies\<close>

definition buildHeadersList :: "header \<Rightarrow> (string \<times> string) list" where
  "buildHeadersList h = concat (map (\<lambda>k. map (Pair k) (h_vals h k)) (sortedKeys h))"

text \<open>A name and its value, if there is one.\<close>

definition name_value :: "string \<Rightarrow> string \<times> string" where
  "name_value s = (case cut s ''='' of Some (k, v) \<Rightarrow> (k, v) | None \<Rightarrow> (s, []))"

definition cookie_pairs :: "string \<Rightarrow> (string \<times> string) list" where
  "cookie_pairs line = (let (first, attrs) = (case cut line '';'' of None \<Rightarrow> (line, []) | Some (a, b) \<Rightarrow> (a, split b '';''))
     in name_value (trim_space first)
       # concat (map (\<lambda>a. let a = trim_space a in if a = [] then [] else [(''  '' @ fst (name_value a), snd (name_value a))]) attrs))"

definition parseCookies :: "header \<Rightarrow> (string \<times> string) list" where
  "parseCookies h = concat (map cookie_pairs (h_vals h ''Set-Cookie''))"

section \<open>The dialog\<close>

datatype inspector_page = PairsPage "(string \<times> string) list" | TextPage string

definition showInspectorDialog :: "(string \<Rightarrow> string option) \<Rightarrow> Transaction \<Rightarrow> (string \<times> inspector_page) list" where
  "showInspectorDialog indent tx =
     (if tx_req_headers tx = [] then [] else [(''Req Headers'', PairsPage (buildHeadersList (tx_req_headers tx)))])
     @ (if tx_req_body tx = [] then [] else [(''Req Body'', TextPage (PrettyJSON indent (tx_req_body tx)))])
     @ [(''Resp Headers'', PairsPage (buildHeadersList (tx_resp_headers tx))), (''Cookies'', PairsPage (parseCookies (tx_resp_headers tx)))]
     @ (if tx_resp_body tx = [] then []
        else if contains (h_get (tx_resp_headers tx) ''Content-Type'') ''application/json''
        then [(''JSON'', TextPage (PrettyJSON indent (tx_resp_body tx)))]
        else [(''Resp Body'', TextPage (tx_resp_body tx))])"

text \<open>A page without pairs says so; a cell is the name or the value.\<close>

definition kv_cell :: "(string \<times> string) list \<Rightarrow> nat \<times> nat \<Rightarrow> string" where
  "kv_cell pairs = (\<lambda>(row, col). if pairs = [] then ''None'' else if col = 0 then fst (pairs ! row) else snd (pairs ! row))"

section \<open>Every header is shown\<close>

lemma buildHeadersList_complete:
  assumes "distinct (map fst h)"
  shows "set (buildHeadersList h) = {(k, v). \<exists>vs. (k, vs) \<in> set h \<and> v \<in> set vs}" "sorted (map fst (buildHeadersList h))"
proof -
  have "h_vals h k = vs" if "(k, vs) \<in> set h" for k vs using that assms by (simp add: h_vals_def)
  then show "set (buildHeadersList h) = {(k, v). \<exists>vs. (k, vs) \<in> set h \<and> v \<in> set vs}"
    by (force simp: buildHeadersList_def sortedKeys_def h_vals_def split: option.splits dest: map_of_SomeD)
  have "sorted ks \<Longrightarrow> sorted (map fst (concat (map (\<lambda>k. map (Pair k) (h_vals h k)) ks)))" for ks
    by (induction ks) (auto simp: sorted_append comp_def map_replicate_const sorted_replicate)
  then show "sorted (map fst (buildHeadersList h))" by (simp add: buildHeadersList_def sortedKeys_def)
qed

section \<open>Cookies are read as they were set\<close>

text \<open>A \<open>Set-Cookie\<close> value as a server writes it: the pair, and attributes with or without a value.\<close>

definition attribute :: "string \<times> string option \<Rightarrow> string" where
  "attribute = (\<lambda>(a, v). a @ (case v of None \<Rightarrow> [] | Some x \<Rightarrow> ''='' @ x))"

definition set_cookie :: "string \<Rightarrow> string \<Rightarrow> (string \<times> string option) list \<Rightarrow> string" where
  "set_cookie n v attrs = join ((n @ ''='' @ v) # map (\<lambda>a. '' '' @ attribute a) attrs) '';''"

definition neat_attribute :: "string \<times> string option \<Rightarrow> bool" where
  "neat_attribute = (\<lambda>(a, v). a \<noteq> [] \<and> CHR ''='' \<notin> set a \<and> CHR '';'' \<notin> set (attribute (a, v)) \<and> \<not> is_space (hd a)
     \<and> \<not> is_space (last (attribute (a, v))))"

lemma trim_blank: "trim_space ('' '' @ s) = trim_space s"
  by (simp add: trim_space_def trim_left_def is_space_def)

lemma name_value_pair: "CHR ''='' \<notin> set n \<Longrightarrow> name_value (n @ ''='' @ v) = (n, v)"
  using cut_single_append [of "CHR ''=''" n v] by (simp add: name_value_def)

lemma name_value_attribute: "CHR ''='' \<notin> set a \<Longrightarrow> name_value (attribute (a, v)) = (a, case v of None \<Rightarrow> [] | Some x \<Rightarrow> x)"
  using name_value_pair [of a] cut_None_iff [of a "''=''"] contains_single [of a "CHR ''=''"]
  by (cases v) (simp_all add: attribute_def name_value_def)

text \<open>C40: The Cookies page shows a cookie as the server set it: for any \<open>Set-Cookie\<close> line with well-formed parts, its name and value, whole, and then each
  attribute, indented, with its value or none, in order.\<close>

theorem cookies_read_back:
  assumes "CHR ''='' \<notin> set n" "CHR '';'' \<notin> set (n @ v)" "n = [] \<or> \<not> is_space (hd n)" "v = [] \<or> \<not> is_space (last v)"
    and "list_all neat_attribute attrs" "h_vals h ''Set-Cookie'' = [set_cookie n v attrs]"
  shows "parseCookies h = (n, v) # map (\<lambda>(a, x). (''  '' @ a, case x of None \<Rightarrow> [] | Some y \<Rightarrow> y)) attrs"
proof -
  have sp: "\<not> is_space (CHR ''='')" by (simp add: is_space_def)
  have t: "trim_space (n @ ''='' @ v) = n @ ''='' @ v"
    using assms(3,4) sp by (intro trim_space_id) (auto simp: hd_append)
  have a: "trim_space ('' '' @ attribute x) = attribute x" "attribute x \<noteq> []" "name_value (attribute x) = (fst x, case snd x of None \<Rightarrow> [] | Some y \<Rightarrow> y)"
    "CHR '';'' \<notin> set ('' '' @ attribute x)" if "x \<in> set attrs" for x
  proof -
    obtain k w where x: "x = (k, w)" by fastforce
    have n: "neat_attribute (k, w)" using assms(5) that x by (auto simp: list_all_iff)
    then show ne: "attribute x \<noteq> []" by (auto simp: x neat_attribute_def attribute_def)
    have "hd (attribute x) = hd k" using n by (auto simp: x neat_attribute_def attribute_def hd_append)
    then show "trim_space ('' '' @ attribute x) = attribute x" unfolding trim_blank
      using n by (intro trim_space_id) (auto simp: x neat_attribute_def)
    show "name_value (attribute x) = (fst x, case snd x of None \<Rightarrow> [] | Some y \<Rightarrow> y)"
      using n name_value_attribute [of k w] by (simp add: x neat_attribute_def)
    show "CHR '';'' \<notin> set ('' '' @ attribute x)" using n by (simp add: x neat_attribute_def)
  qed
  define f where "f = (\<lambda>a. let a = trim_space a in if a = [] then [] else [(''  '' @ fst (name_value a), snd (name_value a))])"
  have m: "concat (map f (map (\<lambda>a. '' '' @ attribute a) as)) = map (\<lambda>(a, x). (''  '' @ a, case x of None \<Rightarrow> [] | Some y \<Rightarrow> y)) as"
    if "set as \<subseteq> set attrs" for as
    using that a(1-3) by (induction as) (auto simp: f_def case_prod_beta Let_def)
  have "cookie_pairs (set_cookie n v attrs) = (n, v) # map (\<lambda>(a, x). (''  '' @ a, case x of None \<Rightarrow> [] | Some y \<Rightarrow> y)) attrs"
  proof (cases "attrs = []")
    case True
    have "cut (n @ ''='' @ v) '';'' = None" using assms(2) by (simp add: cut_None_iff contains_single)
    then show ?thesis using True t name_value_pair [OF assms(1), of v] by (simp add: cookie_pairs_def set_cookie_def)
  next
    case False
    let ?ps = "map (\<lambda>a. '' '' @ attribute a) attrs"
    have s: "set_cookie n v attrs = (n @ ''='' @ v) @ CHR '';'' # join ?ps '';''" using False by (simp add: set_cookie_def join_Cons)
    have c: "cut (set_cookie n v attrs) '';'' = Some (n @ ''='' @ v, join ?ps '';'')"
      unfolding s by (rule cut_single_append) (use assms(2) in auto)
    have "split (join ?ps '';'') '';'' = ?ps" using False a(4) by (intro split_join_single) auto
    then show ?thesis using t name_value_pair [OF assms(1), of v] m [of attrs]
      unfolding cookie_pairs_def c f_def [symmetric] by simp
  qed
  then show ?thesis by (simp add: parseCookies_def assms(6))
qed

theorem cookies_read_back_witness:
  "parseCookies [(''Set-Cookie'', [''id=a=b; Path=/; Secure''])] = [(''id'', ''a=b''), (''  Path'', ''/''), (''  Secure'', [])]"
proof -
  have "set_cookie ''id'' ''a=b'' [(''Path'', Some ''/''), (''Secure'', None)] = ''id=a=b; Path=/; Secure''" by code_simp
  then have "h_vals [(''Set-Cookie'', [''id=a=b; Path=/; Secure''])] ''Set-Cookie'' = [set_cookie ''id'' ''a=b'' [(''Path'', Some ''/''), (''Secure'', None)]]"
    by (simp add: h_vals_def)
  from cookies_read_back [OF _ _ _ _ _ this] show ?thesis by (simp add: is_space_def neat_attribute_def attribute_def)
qed

section \<open>Escape\<close>

text \<open>
  The key handler of a window: the dialogs whose handlers were put one over the other, the last one first; and the
  dialogs open. A handler closes its dialog when Escape is pressed, whether that is open or not, and hands over to the one
  below; any other key ends in it.
\<close>

record escape_state =
  es_handlers :: "nat list"
  es_open :: "nat set"

definition closeOnEscape :: "nat \<Rightarrow> escape_state \<Rightarrow> escape_state" where
  "closeOnEscape d x = x\<lparr>es_handlers := d # es_handlers x, es_open := insert d (es_open x)\<rparr>"

definition escape_pressed :: "escape_state \<Rightarrow> escape_state" where
  "escape_pressed x = (case es_handlers x of [] \<Rightarrow> x | d # ds \<Rightarrow> x\<lparr>es_handlers := ds, es_open := es_open x - {d}\<rparr>)"

definition button_closes :: "nat \<Rightarrow> escape_state \<Rightarrow> escape_state" where
  "button_closes d x = x\<lparr>es_open := es_open x - {d}\<rparr>"

text \<open>Escape closes the dialog opened last; after that one was closed by its button, the first Escape is lost.\<close>

lemma escape_closes_last: "es_open (escape_pressed (closeOnEscape d x)) = es_open x - {d}"
  by (auto simp: closeOnEscape_def escape_pressed_def)

lemma escape_lost_after_button:
  assumes "d \<notin> es_open x" "e \<noteq> d"
  shows "es_open (escape_pressed (button_closes d (closeOnEscape d (closeOnEscape e x)))) = insert e (es_open x)"
  using assms by (auto simp: closeOnEscape_def escape_pressed_def button_closes_def)

end
