(* ===== verification/Spec2Isabelle.thy ===== *)
theory Spec2Isabelle
  imports App Decoder Har Format Intruder EditorEvents TextView RepeaterTabs RepeaterWs
    DataTable PluginApi Cert WsTab LootTab ScopeDialog PluginsTab Inspector
begin

text \<open>Verification library of the Shiv proxy.\<close>

end
